(* ===== verification/Prelude.thy ===== *)
theory Prelude
  imports Main "HOL-Library.Word" "HOL-Library.Multiset"
begin

text \<open>
  The vocabulary every component shares: C++ integer conversions written out on \<^typ>\<open>int\<close>
  (\<open>short\<close> is \<open>s16\<close>, \<open>int\<close> is \<open>s32\<close>), C++ division (towards zero), the
  duplicate-free list that stands for \<open>std::unordered_set<int>\<close> in its iteration order,
  C strings in fixed arrays, the constants of \<open>COMMON/PROTOCOL/protocol_2026.h\<close> and
  \<open>SERVER/globals.h\<close>, and the lemmas on them that the components' proofs use.
\<close>

section \<open>Lemma collections\<close>

named_theorems wrap_simps \<open>reading wrapped integers that are in range\<close>
named_theorems frame_simps \<open>fields an operation leaves alone\<close>
named_theorems inv_intros \<open>preservation of invariants\<close>

section \<open>C++ integers\<close>

text \<open>
  MSVC's two's complement: a value assigned to a \<open>short\<close> or computed as an \<open>int\<close> is
  reduced to the range of its width. Signed overflow of \<open>int\<close> is undefined in C++; the
  model uses the wrap-around that the compiled code produces, and the theorems say where no
  overflow happens.
\<close>

definition s16 :: "int \<Rightarrow> int" where
  "s16 x = (x + 32768) mod 65536 - 32768"

definition s32 :: "int \<Rightarrow> int" where
  "s32 x = (x + 2147483648) mod 4294967296 - 2147483648"

definition in16 :: "int \<Rightarrow> bool" where
  "in16 x \<longleftrightarrow> -32768 \<le> x \<and> x \<le> 32767"

definition in32 :: "int \<Rightarrow> bool" where
  "in32 x \<longleftrightarrow> -2147483648 \<le> x \<and> x \<le> 2147483647"

lemma s16_id [wrap_simps]: "-32768 \<le> x \<Longrightarrow> x \<le> 32767 \<Longrightarrow> s16 x = x"
  by (simp add: s16_def)

lemma s32_id [wrap_simps]: "-2147483648 \<le> x \<Longrightarrow> x \<le> 2147483647 \<Longrightarrow> s32 x = x"
  by (simp add: s32_def)

lemma s16_in [simp]: "in16 (s16 x)"
  using pos_mod_bound [of 65536 "x + 32768"] pos_mod_sign [of 65536 "x + 32768"]
  by (simp add: s16_def in16_def)

lemma s32_in [simp]: "in32 (s32 x)"
  using pos_mod_bound [of 4294967296 "x + 2147483648"] pos_mod_sign [of 4294967296 "x + 2147483648"]
  by (simp add: s32_def in32_def)

lemma s16_in16 [wrap_simps]: "in16 x \<Longrightarrow> s16 x = x"
  by (simp add: in16_def s16_id)

lemma s32_in32 [wrap_simps]: "in32 x \<Longrightarrow> s32 x = x"
  by (simp add: in32_def s32_id)

lemma s16_bounds: "-32768 \<le> s16 x" "s16 x \<le> 32767"
  using s16_in [of x] by (simp_all add: in16_def)

lemma s32_bounds: "-2147483648 \<le> s32 x" "s32 x \<le> 2147483647"
  using s32_in [of x] by (simp_all add: in32_def)

text \<open>The two reductions are the machine words' own.\<close>

lemma s16_word: "s16 x = sint (word_of_int x :: 16 word)"
proof -
  have "sint (word_of_int x :: 16 word) = (x + 2 ^ 15) mod 2 ^ 16 - 2 ^ 15"
    by (simp add: sint_sbintrunc' signed_take_bit_eq_take_bit_shift take_bit_eq_mod)
  then show ?thesis by (simp add: s16_def)
qed

lemma s32_word: "s32 x = sint (word_of_int x :: 32 word)"
proof -
  have "sint (word_of_int x :: 32 word) = (x + 2 ^ 31) mod 2 ^ 32 - 2 ^ 31"
    by (simp add: sint_sbintrunc' signed_take_bit_eq_take_bit_shift take_bit_eq_mod)
  then show ?thesis by (simp add: s32_def)
qed

text \<open>Division of the source rounds towards zero.\<close>

definition cdiv :: "int \<Rightarrow> int \<Rightarrow> int" where
  "cdiv a b = sgn a * sgn b * (\<bar>a\<bar> div \<bar>b\<bar>)"

definition cmod :: "int \<Rightarrow> int \<Rightarrow> int" where
  "cmod a b = a - cdiv a b * b"

lemma cdiv_nonneg: "0 \<le> a \<Longrightarrow> 0 < b \<Longrightarrow> cdiv a b = a div b"
  by (cases "a = 0") (auto simp: cdiv_def)

lemma cmod_nonneg: "0 \<le> a \<Longrightarrow> 0 < b \<Longrightarrow> cmod a b = a mod b"
  by (simp add: cmod_def cdiv_nonneg minus_div_mult_eq_mod)

lemma cmod_bounds: "0 \<le> a \<Longrightarrow> 0 < b \<Longrightarrow> 0 \<le> cmod a b \<and> cmod a b < b"
  by (simp add: cmod_nonneg)

section \<open>std::unordered_set<int>\<close>

text \<open>
  A set is the list of its elements in iteration order, without duplicates; the standard
  fixes no order, and the model appends. \<open>insert\<close> of a present element and \<open>erase\<close>
  of an absent one change nothing.
\<close>

type_synonym uset = "int list"

definition us_insert :: "int \<Rightarrow> uset \<Rightarrow> uset" where
  "us_insert x s = (if x \<in> set s then s else s @ [x])"

definition us_erase :: "int \<Rightarrow> uset \<Rightarrow> uset" where
  "us_erase x s = filter (\<lambda>y. y \<noteq> x) s"

lemma set_us_insert [simp]: "set (us_insert x s) = insert x (set s)"
  by (auto simp: us_insert_def)

lemma set_us_erase [simp]: "set (us_erase x s) = set s - {x}"
  by (auto simp: us_erase_def)

lemma distinct_us_insert [simp]: "distinct s \<Longrightarrow> distinct (us_insert x s)"
  by (auto simp: us_insert_def)

lemma distinct_us_erase [simp]: "distinct s \<Longrightarrow> distinct (us_erase x s)"
  by (simp add: us_erase_def)

lemma us_erase_absent [simp]: "x \<notin> set s \<Longrightarrow> us_erase x s = s"
  by (auto simp: us_erase_def filter_id_conv)

lemma us_insert_present [simp]: "x \<in> set s \<Longrightarrow> us_insert x s = s"
  by (simp add: us_insert_def)

text \<open>The interface the sector grid and the visible sets rely on, and its implementation.\<close>

locale id_set =
  fixes empty :: "'s"
    and ins :: "int \<Rightarrow> 's \<Rightarrow> 's"
    and del :: "int \<Rightarrow> 's \<Rightarrow> 's"
    and elems :: "'s \<Rightarrow> int list"
    and ok :: "'s \<Rightarrow> bool"
  assumes ok_empty: "ok empty"
    and ok_ins: "ok s \<Longrightarrow> ok (ins x s)"
    and ok_del: "ok s \<Longrightarrow> ok (del x s)"
    and elems_distinct: "ok s \<Longrightarrow> distinct (elems s)"
    and elems_empty: "elems empty = []"
    and elems_ins: "ok s \<Longrightarrow> set (elems (ins x s)) = insert x (set (elems s))"
    and elems_del: "ok s \<Longrightarrow> set (elems (del x s)) = set (elems s) - {x}"
begin

lemma count_ins:
  assumes "ok s"
  shows "length (elems (ins x s)) = card (insert x (set (elems s)))"
  using elems_distinct [OF ok_ins [OF assms]] elems_ins [OF assms, of x]
  by (metis distinct_card)

lemma del_ins_elems:
  assumes "ok s" "x \<notin> set (elems s)"
  shows "set (elems (del x (ins x s))) = set (elems s)"
  using assms by (simp add: elems_del elems_ins ok_ins)

end

interpretation us: id_set "[]" us_insert us_erase "\<lambda>s. s" distinct
  by unfold_locales auto

section \<open>Lists and folds\<close>

text \<open>
  A range-based \<open>for\<close> that updates the state is a \<^const>\<open>fold\<close>; an invariant kept by
  the body is kept by the loop, and so is a preorder between the state before and after.
\<close>

lemma fold_invariant_list:
  assumes "P s" and "\<And>x s. x \<in> set xs \<Longrightarrow> P s \<Longrightarrow> P (f x s)"
  shows "P (fold f xs s)"
  using assms by (induction xs arbitrary: s) auto

lemma fold_preorder:
  assumes "\<And>s. R s s" and "\<And>a b c. R a b \<Longrightarrow> R b c \<Longrightarrow> R a c"
    and "\<And>x s. x \<in> set xs \<Longrightarrow> R s (f x s)"
  shows "R s (fold f xs s)"
  using assms(3)
proof (induction xs arbitrary: s)
  case Nil
  show ?case using assms(1) by simp
next
  case (Cons x xs)
  have "R s (f x s)" using Cons.prems by simp
  moreover have "R (f x s) (fold f xs (f x s))" using Cons by simp
  ultimately show ?case using assms(2) by simp
qed

lemma fold_unchanged:
  assumes "\<And>x s. x \<in> set xs \<Longrightarrow> g (f x s) = g s"
  shows "g (fold f xs s) = g s"
  using assms by (induction xs arbitrary: s) auto

lemma distinct_concat_map:
  assumes "distinct xs" and "\<And>x. x \<in> set xs \<Longrightarrow> distinct (f x)"
    and "\<And>x y. x \<in> set xs \<Longrightarrow> y \<in> set xs \<Longrightarrow> x \<noteq> y \<Longrightarrow> set (f x) \<inter> set (f y) = {}"
  shows "distinct (concat (map f xs))"
  using assms
proof (induction xs)
  case (Cons x xs)
  have "set (f x) \<inter> set (f y) = {}" if "y \<in> set xs" for y
    using Cons.prems(1) that by (intro Cons.prems(3)) auto
  moreover have "distinct (concat (map f xs))"
    by (rule Cons.IH) (use Cons.prems in auto)
  ultimately show ?case using Cons.prems(2) [of x] by auto
qed simp

text \<open>Two nested loops that collect \<open>f a b\<close> where \<open>P a b\<close> holds.\<close>

lemma set_nested_loops:
  "s \<in> set [f a b. a \<leftarrow> xs, b \<leftarrow> ys, P a b] \<longleftrightarrow>
    (\<exists>a \<in> set xs. \<exists>b \<in> set ys. P a b \<and> s = f a b)"
  by auto

lemma distinct_nested_loops:
  fixes f :: "'a \<Rightarrow> 'b \<Rightarrow> 'c" and P :: "'a \<Rightarrow> 'b \<Rightarrow> bool"
  assumes "distinct xs" "distinct ys"
    and "\<And>a b a' b'. f a b = f a' b' \<Longrightarrow> P a b \<Longrightarrow> P a' b' \<Longrightarrow> a = a' \<and> b = b'"
  shows "distinct [f a b. a \<leftarrow> xs, b \<leftarrow> ys, P a b]"
proof (rule distinct_concat_map [OF assms(1)])
  fix a
  show "distinct [f a b. b \<leftarrow> ys, P a b]"
    by (rule distinct_concat_map [OF assms(2)]) (use assms(3) in \<open>auto split: if_splits\<close>)
next
  fix a a' :: 'a assume "a \<noteq> a'"
  then show "set [f a b. b \<leftarrow> ys, P a b] \<inter> set [f a' b. b \<leftarrow> ys, P a' b] = {}"
    using assms(3) [of a _ a'] by (auto split: if_splits)
qed

section \<open>C strings\<close>

text \<open>
  A \<open>char\<close> array is a byte list; the string it holds ends before the first zero byte.
  \<open>strncpy_s(dest, src, n)\<close> copies at most \<open>n\<close> bytes and terminates the destination.
\<close>

type_synonym byte = "8 word"

definition cstr :: "byte list \<Rightarrow> byte list" where
  "cstr bs = takeWhile (\<lambda>b. b \<noteq> 0) bs"

definition strncpy_s :: "byte list \<Rightarrow> nat \<Rightarrow> byte list" where
  "strncpy_s src n = take n (cstr src)"

lemma length_strncpy_s: "length (strncpy_s src n) \<le> n"
  by (simp add: strncpy_s_def)

lemma zero_notin_cstr: "0 \<notin> set (cstr bs)"
  by (auto simp: cstr_def dest: set_takeWhileD)

lemma zero_notin_strncpy_s: "0 \<notin> set (strncpy_s src n)"
  using zero_notin_cstr [of src] by (auto simp: strncpy_s_def dest: in_set_takeD)

text \<open>\<open>char\<close> literals of the source, as ASCII bytes.\<close>

definition bytes_of :: "string \<Rightarrow> byte list" where
  "bytes_of s = map (\<lambda>c. of_nat (of_char c)) s"

section \<open>Constants\<close>

text \<open>\<open>protocol_2026.h\<close>\<close>

abbreviation (input) WORLD_WIDTH :: int where "WORLD_WIDTH \<equiv> 2000"
abbreviation (input) WORLD_HEIGHT :: int where "WORLD_HEIGHT \<equiv> 2000"
abbreviation (input) MAX_PLAYERS :: int where "MAX_PLAYERS \<equiv> 10000"
abbreviation (input) NPC_ID_START :: int where "NPC_ID_START \<equiv> 10000"
abbreviation (input) MAX_NPCS :: nat where "MAX_NPCS \<equiv> 200000"
abbreviation (input) MAX_NAME_LEN :: nat where "MAX_NAME_LEN \<equiv> 20"
abbreviation (input) MAX_CHAT_LEN :: nat where "MAX_CHAT_LEN \<equiv> 128"
abbreviation (input) QUEST_COUNT :: nat where "QUEST_COUNT \<equiv> 2"
abbreviation (input) ITEM_SLOT_COUNT :: nat where "ITEM_SLOT_COUNT \<equiv> 6"

text \<open>\<open>globals.h\<close>: times are milliseconds there, and the clock's ticks here.\<close>

abbreviation (input) BUF_SIZE :: nat where "BUF_SIZE \<equiv> 200"
abbreviation (input) SEND_BATCH_SIZE :: nat where "SEND_BATCH_SIZE \<equiv> 16384"
abbreviation (input) VIEW_RANGE :: int where "VIEW_RANGE \<equiv> 5"
abbreviation (input) MOVE_COOL_TIME :: int where "MOVE_COOL_TIME \<equiv> 500"
abbreviation (input) ATTACK_COOL_TIME :: int where "ATTACK_COOL_TIME \<equiv> 1000"
abbreviation (input) HP_REGEN_TIME :: int where "HP_REGEN_TIME \<equiv> 5000"
abbreviation (input) NPC_RESPAWN_TIME :: int where "NPC_RESPAWN_TIME \<equiv> 30000"
abbreviation (input) PC_SPAWN_X :: int where "PC_SPAWN_X \<equiv> 1000"
abbreviation (input) PC_SPAWN_Y :: int where "PC_SPAWN_Y \<equiv> 100"
abbreviation (input) BOSS_MOVE_P2 :: int where "BOSS_MOVE_P2 \<equiv> 250"
abbreviation (input) BOSS_RESPAWN_TIME :: int where "BOSS_RESPAWN_TIME \<equiv> 120000"
abbreviation (input) BOSS_DETECT_RANGE :: int where "BOSS_DETECT_RANGE \<equiv> 15"
abbreviation (input) BOSS_ATTACK_RANGE :: int where "BOSS_ATTACK_RANGE \<equiv> 2"
abbreviation (input) BOSS_AREA_RANGE :: int where "BOSS_AREA_RANGE \<equiv> 3"
abbreviation (input) ATTACK_RANGE :: int where "ATTACK_RANGE \<equiv> 1"
abbreviation (input) AGRO_DETECT_RANGE :: int where "AGRO_DETECT_RANGE \<equiv> 10"
abbreviation (input) SKILL_COOL_TIME :: int where "SKILL_COOL_TIME \<equiv> 3000"
abbreviation (input) RANGED_ATK_COOL_TIME :: int where "RANGED_ATK_COOL_TIME \<equiv> 2000"
abbreviation (input) RANGED_ATK_RANGE :: nat where "RANGED_ATK_RANGE \<equiv> 6"

text \<open>
  \<open>system_clock\<close> of the Windows runtime counts 100 ns ticks: \<open>milliseconds(n)\<close> is
  \<open>ms n\<close> ticks, and \<open>duration_cast<milliseconds>(d).count()\<close> divides towards zero.
\<close>

definition ms :: "int \<Rightarrow> int" where
  "ms n = n * 10000"

definition to_ms :: "int \<Rightarrow> int" where
  "to_ms d = cdiv d 10000"

lemma to_ms_ge_iff: "0 \<le> d \<Longrightarrow> 0 \<le> k \<Longrightarrow> k \<le> to_ms d \<longleftrightarrow> ms k \<le> d"
  by (simp add: to_ms_def ms_def cdiv_nonneg) linarith

end
