(* ===== verification/Protocol.thy ===== *)
theory Protocol
  imports Prelude
begin

text \<open>
  \<open>COMMON/PROTOCOL/protocol_2026.h\<close>: the enumerations shared by server, client and stress
  tester, the packets of both directions and their byte images under
  \<open>#pragma pack(push, 1)\<close> on a little-endian machine (the first byte is the size, the next
  four the type). A C++ enumeration with an \<open>int\<close> or \<open>unsigned char\<close> base holds any
  value of that base, so the enumerations that arrive from the network unchecked keep a
  constructor for the values without a name.
\<close>

section \<open>Enumerations\<close>

datatype direction = UP | DOWN | LEFT | RIGHT | DIR_RAW int

datatype npc_kind = NPC_PC | NPC_PEACE | NPC_AGRO | NPC_BOSS

datatype npc_state = NPC_STATE_IDLE | NPC_STATE_ROAMING | NPC_STATE_CHASE

datatype quest_state = Q_NONE | Q_ACTIVE | Q_COMPLETED

datatype item_type = ITEM_NONE | ITEM_HP_POTION | ITEM_HI_POTION | ITEM_ELIXIR
  | ITEM_ATK_BOOST | ITEM_DEF_BOOST | ITEM_SPD_BOOST | ITEM_RAW int

definition dir_of_int :: "int \<Rightarrow> direction" where
  "dir_of_int n = (if n = 0 then UP else if n = 1 then DOWN else if n = 2 then LEFT
     else if n = 3 then RIGHT else DIR_RAW n)"

fun dir_code :: "direction \<Rightarrow> int" where
  "dir_code UP = 0"
| "dir_code DOWN = 1"
| "dir_code LEFT = 2"
| "dir_code RIGHT = 3"
| "dir_code (DIR_RAW n) = n"

definition item_of_int :: "int \<Rightarrow> item_type" where
  "item_of_int n = (if n = 0 then ITEM_NONE else if n = 1 then ITEM_HP_POTION
     else if n = 2 then ITEM_HI_POTION else if n = 3 then ITEM_ELIXIR
     else if n = 4 then ITEM_ATK_BOOST else if n = 5 then ITEM_DEF_BOOST
     else if n = 6 then ITEM_SPD_BOOST else ITEM_RAW n)"

fun item_code :: "item_type \<Rightarrow> int" where
  "item_code ITEM_NONE = 0"
| "item_code ITEM_HP_POTION = 1"
| "item_code ITEM_HI_POTION = 2"
| "item_code ITEM_ELIXIR = 3"
| "item_code ITEM_ATK_BOOST = 4"
| "item_code ITEM_DEF_BOOST = 5"
| "item_code ITEM_SPD_BOOST = 6"
| "item_code (ITEM_RAW n) = n"

fun kind_code :: "npc_kind \<Rightarrow> int" where
  "kind_code NPC_PC = 0"
| "kind_code NPC_PEACE = 1"
| "kind_code NPC_AGRO = 2"
| "kind_code NPC_BOSS = 3"

definition kind_of_int :: "int \<Rightarrow> npc_kind option" where
  "kind_of_int n = (if n = 0 then Some NPC_PC else if n = 1 then Some NPC_PEACE
     else if n = 2 then Some NPC_AGRO else if n = 3 then Some NPC_BOSS else None)"

fun state_code :: "npc_state \<Rightarrow> int" where
  "state_code NPC_STATE_IDLE = 0"
| "state_code NPC_STATE_ROAMING = 1"
| "state_code NPC_STATE_CHASE = 2"

definition state_of_int :: "int \<Rightarrow> npc_state option" where
  "state_of_int n = (if n = 0 then Some NPC_STATE_IDLE else if n = 1 then Some NPC_STATE_ROAMING
     else if n = 2 then Some NPC_STATE_CHASE else None)"

fun quest_code :: "quest_state \<Rightarrow> int" where
  "quest_code Q_NONE = 0"
| "quest_code Q_ACTIVE = 1"
| "quest_code Q_COMPLETED = 2"

definition quest_of_int :: "int \<Rightarrow> quest_state option" where
  "quest_of_int n = (if n = 0 then Some Q_NONE else if n = 1 then Some Q_ACTIVE
     else if n = 2 then Some Q_COMPLETED else None)"

lemma enum_roundtrips [simp]:
  "state_of_int (state_code s) = Some s"
  "kind_of_int (kind_code k) = Some k"
  "quest_of_int (quest_code q) = Some q"
  by (cases s, simp_all add: state_of_int_def)
     (cases k, simp_all add: kind_of_int_def, cases q, simp_all add: quest_of_int_def)

text \<open>A value is written in its canonical form: no \<open>RAW\<close> constructor for a named value.\<close>

definition dir_ok :: "direction \<Rightarrow> bool" where
  "dir_ok d \<longleftrightarrow> dir_of_int (dir_code d) = d \<and> in32 (dir_code d)"

definition item_ok :: "item_type \<Rightarrow> bool" where
  "item_ok t \<longleftrightarrow> item_of_int (item_code t) = t \<and> 0 \<le> item_code t \<and> item_code t < 256"

lemma dir_ok_named [simp]: "dir_ok UP" "dir_ok DOWN" "dir_ok LEFT" "dir_ok RIGHT"
  by (simp_all add: dir_ok_def dir_of_int_def in32_def)

lemma dir_code_of_int [simp]: "dir_code (dir_of_int n) = n"
  by (auto simp: dir_of_int_def)

lemma item_code_of_int [simp]: "item_code (item_of_int n) = n"
  by (auto simp: item_of_int_def)

lemma dir_ok_of_int: "in32 n \<Longrightarrow> dir_ok (dir_of_int n)"
  by (simp add: dir_ok_def)

section \<open>Packets\<close>

text \<open>Server to client, in the order of \<open>PACKET_TYPE\<close>; the fields are those of the structs.\<close>

datatype s2c =
    S2C_LoginResult bool "byte list"
  | S2C_AvatarInfo int int int int int int int int direction
  | S2C_AddPlayer int "byte list" int int int int npc_kind npc_state direction
  | S2C_RemovePlayer int
  | S2C_MovePlayer int int int int direction
  | S2C_Chat int "byte list" "byte list"
  | S2C_StatInfo int int int int int int npc_state
  | S2C_DamageInfo int int int int
  | S2C_ItemAppear int int int item_type
  | S2C_ItemRemove int
  | S2C_ItemAdd item_type int
  | S2C_QuestUpdate int quest_state int int
  | S2C_Projectile int int int direction int int

datatype c2s =
    C2S_Login "byte list"
  | C2S_Move direction int
  | C2S_Chat "byte list"
  | C2S_Attack
  | C2S_Skill
  | C2S_UseItem item_type
  | C2S_RangedAttack

fun s2c_type :: "s2c \<Rightarrow> int" where
  "s2c_type (S2C_LoginResult _ _) = 7"
| "s2c_type (S2C_AvatarInfo _ _ _ _ _ _ _ _ _) = 8"
| "s2c_type (S2C_AddPlayer _ _ _ _ _ _ _ _ _) = 9"
| "s2c_type (S2C_RemovePlayer _) = 10"
| "s2c_type (S2C_MovePlayer _ _ _ _ _) = 11"
| "s2c_type (S2C_Chat _ _ _) = 12"
| "s2c_type (S2C_StatInfo _ _ _ _ _ _ _) = 13"
| "s2c_type (S2C_DamageInfo _ _ _ _) = 14"
| "s2c_type (S2C_ItemAppear _ _ _ _) = 15"
| "s2c_type (S2C_ItemRemove _) = 16"
| "s2c_type (S2C_ItemAdd _ _) = 17"
| "s2c_type (S2C_QuestUpdate _ _ _ _) = 18"
| "s2c_type (S2C_Projectile _ _ _ _ _ _) = 19"

fun c2s_type :: "c2s \<Rightarrow> int" where
  "c2s_type (C2S_Login _) = 0"
| "c2s_type (C2S_Move _ _) = 1"
| "c2s_type (C2S_Chat _) = 2"
| "c2s_type C2S_Attack = 3"
| "c2s_type C2S_Skill = 4"
| "c2s_type (C2S_UseItem _) = 5"
| "c2s_type C2S_RangedAttack = 6"

text \<open>\<open>sizeof\<close> of the packed structs.\<close>

fun s2c_size :: "s2c \<Rightarrow> nat" where
  "s2c_size (S2C_LoginResult _ _) = 56"
| "s2c_size (S2C_AvatarInfo _ _ _ _ _ _ _ _ _) = 33"
| "s2c_size (S2C_AddPlayer _ _ _ _ _ _ _ _ _) = 43"
| "s2c_size (S2C_RemovePlayer _) = 9"
| "s2c_size (S2C_MovePlayer _ _ _ _ _) = 21"
| "s2c_size (S2C_Chat _ _ _) = 157"
| "s2c_size (S2C_StatInfo _ _ _ _ _ _ _) = 26"
| "s2c_size (S2C_DamageInfo _ _ _ _) = 17"
| "s2c_size (S2C_ItemAppear _ _ _ _) = 14"
| "s2c_size (S2C_ItemRemove _) = 9"
| "s2c_size (S2C_ItemAdd _ _) = 10"
| "s2c_size (S2C_QuestUpdate _ _ _ _) = 15"
| "s2c_size (S2C_Projectile _ _ _ _ _ _) = 23"

fun c2s_size :: "c2s \<Rightarrow> nat" where
  "c2s_size (C2S_Login _) = 25"
| "c2s_size (C2S_Move _ _) = 13"
| "c2s_size (C2S_Chat _) = 133"
| "c2s_size C2S_Attack = 5"
| "c2s_size C2S_Skill = 5"
| "c2s_size (C2S_UseItem _) = 6"
| "c2s_size C2S_RangedAttack = 5"

text \<open>Every packet fits the server's buffers, so \<open>do_send\<close>'s size guard never drops one.\<close>

lemma s2c_size_bounds: "9 \<le> s2c_size p" "s2c_size p \<le> 157"
  by (cases p; simp)+

lemma c2s_size_bounds: "5 \<le> c2s_size p" "c2s_size p \<le> 133"
  by (cases p; simp)+

section \<open>Bytes of integers and character arrays\<close>

fun le :: "nat \<Rightarrow> int \<Rightarrow> byte list" where
  "le 0 x = []"
| "le (Suc k) x = word_of_int x # le k (x div 256)"

fun un_le :: "byte list \<Rightarrow> int" where
  "un_le [] = 0"
| "un_le (b # bs) = uint b + 256 * un_le bs"

definition le1 :: "int \<Rightarrow> byte list" where
  "le1 x = le (Suc 0) x"

definition rd8 :: "byte list \<Rightarrow> int" where
  "rd8 bs = un_le (take (Suc 0) bs)"

definition rd16 :: "byte list \<Rightarrow> int" where
  "rd16 bs = s16 (un_le (take 2 bs))"

definition rd32 :: "byte list \<Rightarrow> int" where
  "rd32 bs = s32 (un_le (take 4 bs))"

definition arr :: "nat \<Rightarrow> byte list \<Rightarrow> byte list" where
  "arr n s = take n (s @ replicate n 0)"

lemma length_le [simp]: "length (le k x) = k"
  by (induction k x rule: le.induct) (auto simp: le.simps)

lemma length_le1 [simp]: "length (le1 x) = Suc 0"
  by (simp add: le1_def)

declare le.simps [simp del]

lemma length_arr [simp]: "length (arr n s) = n"
  by (simp add: arr_def)

lemma un_le_le: "un_le (le k x) = x mod 256 ^ k"
proof (induction k x rule: le.induct)
  case (2 k x)
  have "uint (word_of_int x :: byte) = x mod 256" by (simp add: uint_word_of_int)
  moreover have "x mod 256 + 256 * (x div 256 mod 256 ^ k) = x mod (256 * 256 ^ k)"
    by (simp add: zmod_zmult2_eq)
  ultimately show ?case using 2 by (simp add: le.simps)
qed (simp add: le.simps)

lemma s16_mod: "s16 (x mod 65536) = s16 x"
  by (simp add: s16_def mod_add_left_eq)

lemma s32_mod: "s32 (x mod 4294967296) = s32 x"
  by (simp add: s32_def mod_add_left_eq)

lemma take_le [simp]: "take k (le k x @ r) = le k x" "drop k (le k x @ r) = r"
  by simp_all

lemma rd8_le: "rd8 (le1 x @ r) = x mod 256"
  using un_le_le [of "Suc 0" x] by (simp add: rd8_def le1_def)

lemma rd16_le: "rd16 (le 2 x @ r) = s16 x"
  using un_le_le [of 2 x] by (simp add: rd16_def s16_mod)

lemma rd32_le: "rd32 (le 4 x @ r) = s32 x"
  using un_le_le [of 4 x] by (simp add: rd32_def s32_mod)

lemma rd8_append: "xs \<noteq> [] \<Longrightarrow> rd8 (xs @ ys) = rd8 xs"
  by (cases xs) (simp_all add: rd8_def)

lemma cstr_arr:
  assumes "0 \<notin> set s" "length s < n"
  shows "cstr (arr n s) = s"
proof -
  have "arr n s = s @ replicate (n - length s) 0"
    using assms(2) by (simp add: arr_def)
  moreover obtain k where "n - length s = Suc k"
    using assms(2) by (metis Suc_diff_Suc)
  ultimately have eq: "arr n s = s @ 0 # replicate k 0" by simp
  have "takeWhile (\<lambda>b. b \<noteq> 0) (s @ 0 # replicate k 0) = s"
    using assms(1) by (induction s) auto
  then show ?thesis by (simp add: cstr_def eq)
qed

section \<open>Byte images of the packets\<close>

text \<open>
  \<open>arr n s\<close> is a \<open>char[n]\<close> holding the string \<open>s\<close>; the bytes after the
  terminator, which the C++ leaves unwritten, are zero here, and no receiver reads them.
\<close>

fun s2c_payload :: "s2c \<Rightarrow> byte list" where
  "s2c_payload (S2C_LoginResult ok msg) = le1 (if ok then 1 else 0) @ arr 50 msg"
| "s2c_payload (S2C_AvatarInfo pid x y hp mhp lv xp nx d) =
     le 4 pid @ le 2 x @ le 2 y @ le 2 hp @ le 2 mhp @ le 4 lv @ le 4 xp @ le 4 nx
     @ le 4 (dir_code d)"
| "s2c_payload (S2C_AddPlayer pid nm x y hp mhp k st d) =
     le 4 pid @ arr MAX_NAME_LEN nm @ le 2 x @ le 2 y @ le 2 hp @ le 2 mhp
     @ le1 (kind_code k) @ le1 (state_code st) @ le 4 (dir_code d)"
| "s2c_payload (S2C_RemovePlayer pid) = le 4 pid"
| "s2c_payload (S2C_MovePlayer pid x y t d) =
     le 4 pid @ le 2 x @ le 2 y @ le 4 t @ le 4 (dir_code d)"
| "s2c_payload (S2C_Chat sid nm msg) = le 4 sid @ arr MAX_NAME_LEN nm @ arr MAX_CHAT_LEN msg"
| "s2c_payload (S2C_StatInfo oid hp mhp lv xp nx st) =
     le 4 oid @ le 2 hp @ le 2 mhp @ le 4 lv @ le 4 xp @ le 4 nx @ le1 (state_code st)"
| "s2c_payload (S2C_DamageInfo aid tid dmg thp) = le 4 aid @ le 4 tid @ le 2 dmg @ le 2 thp"
| "s2c_payload (S2C_ItemAppear iid x y t) = le 4 iid @ le 2 x @ le 2 y @ le1 (item_code t)"
| "s2c_payload (S2C_ItemRemove iid) = le 4 iid"
| "s2c_payload (S2C_ItemAdd t n) = le1 (item_code t) @ le 4 n"
| "s2c_payload (S2C_QuestUpdate q st cur tgt) =
     le1 q @ le1 (quest_code st) @ le 4 cur @ le 4 tgt"
| "s2c_payload (S2C_Projectile aid sx sy d rng hit) =
     le 4 aid @ le 2 sx @ le 2 sy @ le 4 (dir_code d) @ le 2 rng @ le 4 hit"

definition enc_s2c :: "s2c \<Rightarrow> byte list" where
  "enc_s2c p = le1 (int (s2c_size p)) @ le 4 (s2c_type p) @ s2c_payload p"

fun c2s_payload :: "c2s \<Rightarrow> byte list" where
  "c2s_payload (C2S_Login nm) = arr MAX_NAME_LEN nm"
| "c2s_payload (C2S_Move d t) = le 4 (dir_code d) @ le 4 t"
| "c2s_payload (C2S_Chat msg) = arr MAX_CHAT_LEN msg"
| "c2s_payload C2S_Attack = []"
| "c2s_payload C2S_Skill = []"
| "c2s_payload (C2S_UseItem t) = le1 (item_code t)"
| "c2s_payload C2S_RangedAttack = []"

definition enc_c2s :: "c2s \<Rightarrow> byte list" where
  "enc_c2s p = le1 (int (c2s_size p)) @ le 4 (c2s_type p) @ c2s_payload p"

lemma length_enc_s2c [simp]: "length (enc_s2c p) = s2c_size p"
  by (cases p) (simp_all add: enc_s2c_def)

lemma length_enc_c2s [simp]: "length (enc_c2s p) = c2s_size p"
  by (cases p) (simp_all add: enc_c2s_def)

text \<open>
  The client's reads through a struct pointer: each branch of \<open>handle_packet\<close> reads the
  fields at their fixed offsets. \<open>None\<close> stands for a read of an enumeration byte without a
  name, or past the bytes given.
\<close>

definition dec_s2c :: "byte list \<Rightarrow> s2c option" where
  "dec_s2c bs =
    (let ty = rd32 (drop 1 bs); r = drop 5 bs in
     if ty = 7 \<and> 51 \<le> length r then Some (S2C_LoginResult (rd8 r \<noteq> 0) (cstr (take 50 (drop 1 r))))
     else if ty = 8 \<and> 28 \<le> length r then
       Some (S2C_AvatarInfo (rd32 r) (rd16 (drop 4 r)) (rd16 (drop 6 r)) (rd16 (drop 8 r))
         (rd16 (drop 10 r)) (rd32 (drop 12 r)) (rd32 (drop 16 r)) (rd32 (drop 20 r))
         (dir_of_int (rd32 (drop 24 r))))
     else if ty = 9 \<and> 38 \<le> length r then
       (case (kind_of_int (rd8 (drop 32 r)), state_of_int (rd8 (drop 33 r))) of
          (Some k, Some st) \<Rightarrow>
            Some (S2C_AddPlayer (rd32 r) (cstr (take MAX_NAME_LEN (drop 4 r)))
              (rd16 (drop 24 r)) (rd16 (drop 26 r)) (rd16 (drop 28 r)) (rd16 (drop 30 r)) k st
              (dir_of_int (rd32 (drop 34 r))))
        | _ \<Rightarrow> None)
     else if ty = 10 \<and> 4 \<le> length r then Some (S2C_RemovePlayer (rd32 r))
     else if ty = 11 \<and> 16 \<le> length r then
       Some (S2C_MovePlayer (rd32 r) (rd16 (drop 4 r)) (rd16 (drop 6 r)) (rd32 (drop 8 r))
         (dir_of_int (rd32 (drop 12 r))))
     else if ty = 12 \<and> 152 \<le> length r then
       Some (S2C_Chat (rd32 r) (cstr (take MAX_NAME_LEN (drop 4 r)))
         (cstr (take MAX_CHAT_LEN (drop 24 r))))
     else if ty = 13 \<and> 21 \<le> length r then
       map_option (S2C_StatInfo (rd32 r) (rd16 (drop 4 r)) (rd16 (drop 6 r)) (rd32 (drop 8 r))
         (rd32 (drop 12 r)) (rd32 (drop 16 r))) (state_of_int (rd8 (drop 20 r)))
     else if ty = 14 \<and> 12 \<le> length r then
       Some (S2C_DamageInfo (rd32 r) (rd32 (drop 4 r)) (rd16 (drop 8 r)) (rd16 (drop 10 r)))
     else if ty = 15 \<and> 9 \<le> length r then
       Some (S2C_ItemAppear (rd32 r) (rd16 (drop 4 r)) (rd16 (drop 6 r))
         (item_of_int (rd8 (drop 8 r))))
     else if ty = 16 \<and> 4 \<le> length r then Some (S2C_ItemRemove (rd32 r))
     else if ty = 17 \<and> 5 \<le> length r then
       Some (S2C_ItemAdd (item_of_int (rd8 r)) (rd32 (drop 1 r)))
     else if ty = 18 \<and> 10 \<le> length r then
       map_option (\<lambda>st. S2C_QuestUpdate (rd8 r) st (rd32 (drop 2 r)) (rd32 (drop 6 r)))
         (quest_of_int (rd8 (drop 1 r)))
     else if ty = 19 \<and> 18 \<le> length r then
       Some (S2C_Projectile (rd32 r) (rd16 (drop 4 r)) (rd16 (drop 6 r))
         (dir_of_int (rd32 (drop 8 r))) (rd16 (drop 12 r)) (rd32 (drop 14 r)))
     else None)"

text \<open>
  The server's reads in \<open>process_packet\<close>: the type at offset 1, then the fields of the
  branch. The bytes given are those from the packet's first byte to the end of the receive
  buffer; a read past them (undefined behaviour of the code) is \<open>Inl ()\<close>, a type
  without a branch is \<open>Inr None\<close>.
\<close>

definition dec_c2s :: "byte list \<Rightarrow> unit + c2s option" where
  "dec_c2s bs =
    (if length bs < 5 then Inl ()
     else let ty = rd32 (drop 1 bs); r = drop 5 bs in
       if ty = 0 then
         (if length r < 19 \<and> 0 \<notin> set r then Inl ()
          else Inr (Some (C2S_Login (strncpy_s (take MAX_NAME_LEN r) 19))))
       else if ty = 1 then
         (if length r < 8 then Inl ()
          else Inr (Some (C2S_Move (dir_of_int (rd32 r)) (rd32 (drop 4 r)))))
       else if ty = 2 then
         (if length r < MAX_CHAT_LEN then Inl ()
          else Inr (Some (C2S_Chat (cstr (take 127 r)))))
       else if ty = 3 then Inr (Some C2S_Attack)
       else if ty = 4 then Inr (Some C2S_Skill)
       else if ty = 5 then
         (if length r < 1 then Inl () else Inr (Some (C2S_UseItem (item_of_int (rd8 r)))))
       else if ty = 6 then Inr (Some C2S_RangedAttack)
       else Inr None)"

section \<open>Round trips\<close>

text \<open>The values a packet can carry: fields in the range of their C++ type, strings that fit.\<close>

fun wf_s2c :: "s2c \<Rightarrow> bool" where
  "wf_s2c (S2C_LoginResult ok msg) \<longleftrightarrow> 0 \<notin> set msg \<and> length msg < 50"
| "wf_s2c (S2C_AvatarInfo pid x y hp mhp lv xp nx d) \<longleftrightarrow>
     in32 pid \<and> in16 x \<and> in16 y \<and> in16 hp \<and> in16 mhp \<and> in32 lv \<and> in32 xp \<and> in32 nx \<and> dir_ok d"
| "wf_s2c (S2C_AddPlayer pid nm x y hp mhp k st d) \<longleftrightarrow>
     in32 pid \<and> 0 \<notin> set nm \<and> length nm < MAX_NAME_LEN \<and> in16 x \<and> in16 y \<and> in16 hp
     \<and> in16 mhp \<and> dir_ok d"
| "wf_s2c (S2C_RemovePlayer pid) \<longleftrightarrow> in32 pid"
| "wf_s2c (S2C_MovePlayer pid x y t d) \<longleftrightarrow> in32 pid \<and> in16 x \<and> in16 y \<and> in32 t \<and> dir_ok d"
| "wf_s2c (S2C_Chat sid nm msg) \<longleftrightarrow>
     in32 sid \<and> 0 \<notin> set nm \<and> length nm < MAX_NAME_LEN \<and> 0 \<notin> set msg \<and> length msg < MAX_CHAT_LEN"
| "wf_s2c (S2C_StatInfo oid hp mhp lv xp nx st) \<longleftrightarrow>
     in32 oid \<and> in16 hp \<and> in16 mhp \<and> in32 lv \<and> in32 xp \<and> in32 nx"
| "wf_s2c (S2C_DamageInfo aid tid dmg thp) \<longleftrightarrow> in32 aid \<and> in32 tid \<and> in16 dmg \<and> in16 thp"
| "wf_s2c (S2C_ItemAppear iid x y t) \<longleftrightarrow> in32 iid \<and> in16 x \<and> in16 y \<and> item_ok t"
| "wf_s2c (S2C_ItemRemove iid) \<longleftrightarrow> in32 iid"
| "wf_s2c (S2C_ItemAdd t n) \<longleftrightarrow> item_ok t \<and> in32 n"
| "wf_s2c (S2C_QuestUpdate q st cur tgt) \<longleftrightarrow> 0 \<le> q \<and> q < 256 \<and> in32 cur \<and> in32 tgt"
| "wf_s2c (S2C_Projectile aid sx sy d rng hit) \<longleftrightarrow>
     in32 aid \<and> in16 sx \<and> in16 sy \<and> dir_ok d \<and> in16 rng \<and> in32 hit"

fun wf_c2s :: "c2s \<Rightarrow> bool" where
  "wf_c2s (C2S_Login nm) \<longleftrightarrow> 0 \<notin> set nm \<and> length nm < MAX_NAME_LEN"
| "wf_c2s (C2S_Move d t) \<longleftrightarrow> dir_ok d \<and> in32 t"
| "wf_c2s (C2S_Chat msg) \<longleftrightarrow> 0 \<notin> set msg \<and> length msg < MAX_CHAT_LEN"
| "wf_c2s (C2S_UseItem t) \<longleftrightarrow> item_ok t"
| "wf_c2s _ \<longleftrightarrow> True"

lemma rd_le_wf [wrap_simps]:
  "in32 x \<Longrightarrow> rd32 (le 4 x @ r) = x"
  "in16 x \<Longrightarrow> rd16 (le 2 x @ r) = x"
  "0 \<le> x \<Longrightarrow> x < 256 \<Longrightarrow> rd8 (le1 x @ r) = x"
  by (simp_all only: rd32_le rd16_le rd8_le s32_in32 s16_in16 mod_pos_pos_trivial)

lemma rd_le_end [wrap_simps]:
  "in32 x \<Longrightarrow> rd32 (le 4 x) = x"
  "in16 x \<Longrightarrow> rd16 (le 2 x) = x"
  "0 \<le> x \<Longrightarrow> x < 256 \<Longrightarrow> rd8 (le1 x) = x"
  using rd_le_wf [of x "[]"] by simp_all

lemma kind_code_range [simp]: "0 \<le> kind_code k" "kind_code k < 256"
  by (cases k; simp)+

lemma state_code_range [simp]: "0 \<le> state_code st" "state_code st < 256"
  by (cases st; simp)+

lemma quest_code_range [simp]: "0 \<le> quest_code q" "quest_code q < 256"
  by (cases q; simp)+

lemma s2c_type_range: "in32 (s2c_type p)"
  by (cases p) (simp_all add: in32_def)

lemma c2s_type_range: "in32 (c2s_type p)"
  by (cases p) (simp_all add: in32_def)

lemma drop_enc_s2c:
  "drop 5 (enc_s2c p @ r) = s2c_payload p @ r"
  "rd32 (drop 1 (enc_s2c p @ r)) = s2c_type p"
  using s2c_type_range [of p] by (simp_all add: enc_s2c_def rd_le_wf)

lemma drop_enc_c2s:
  "drop 5 (enc_c2s p @ r) = c2s_payload p @ r"
  "rd32 (drop 1 (enc_c2s p @ r)) = c2s_type p"
  using c2s_type_range [of p] by (simp_all add: enc_c2s_def rd_le_wf)

lemma cstr_take_arr:
  "0 \<notin> set s \<Longrightarrow> length s < n \<Longrightarrow> cstr (take n (arr n s @ r)) = s"
  by (simp add: cstr_arr)

lemma dec_enc_s2c:
  "wf_s2c p \<Longrightarrow> dec_s2c (enc_s2c p @ r) = Some p"
  unfolding dec_s2c_def Let_def drop_enc_s2c
  by (cases p) (simp_all add: wrap_simps cstr_arr dir_ok_def item_ok_def)

lemma rd8_enc_s2c: "rd8 (enc_s2c p @ r) = int (s2c_size p)"
  using s2c_size_bounds [of p] by (simp add: enc_s2c_def rd_le_wf)

lemma rd8_enc_c2s: "rd8 (enc_c2s p @ r) = int (c2s_size p)"
  using c2s_size_bounds [of p] by (simp add: enc_c2s_def rd_le_wf)

lemma cstr_take_smaller:
  assumes "0 \<notin> set s" "length s \<le> m" "m < n"
  shows "cstr (take m (arr n s)) = s"
proof -
  have "take m (arr n s) = s @ replicate (m - length s) 0"
    using assms by (simp add: arr_def min_def)
  moreover have "takeWhile (\<lambda>b. b \<noteq> 0) (s @ replicate k 0) = s" for k
    using assms(1) by (induction s) (auto simp: takeWhile_eq_Nil_iff)
  ultimately show ?thesis by (simp add: cstr_def)
qed

lemma dec_enc_c2s:
  "wf_c2s p \<Longrightarrow> dec_c2s (enc_c2s p @ r) = Inr (Some p)"
  unfolding dec_c2s_def Let_def drop_enc_c2s
  by (cases p)
     (simp_all add: wrap_simps cstr_arr cstr_take_smaller strncpy_s_def dir_ok_def item_ok_def)

text \<open>Instances the client's and the server's tests of a packet's kind use.\<close>

lemma enc_nonempty [simp]: "enc_s2c p \<noteq> []" "enc_c2s q \<noteq> []"
  by (simp_all add: enc_s2c_def enc_c2s_def le1_def le.simps)

section \<open>Properties\<close>

text \<open>
  a packet of the server whose fields fit their C++ types is read back by the client's reads
  field by field, whatever bytes follow it in the stream; its first byte is its length, and it
  fits the server's send buffer.
\<close>

theorem s2c_roundtrip:
  assumes "wf_s2c p"
  shows "dec_s2c (enc_s2c p @ r) = Some p \<and> rd8 (enc_s2c p @ r) = int (length (enc_s2c p))
    \<and> length (enc_s2c p) \<le> BUF_SIZE"
  using assms dec_enc_s2c rd8_enc_s2c s2c_size_bounds(2) [of p] by simp

theorem s2c_roundtrip_witness:
  "dec_s2c (enc_s2c (S2C_MovePlayer 3 1999 0 (-5) LEFT) @ [1, 2]) = Some (S2C_MovePlayer 3 1999 0 (-5) LEFT)"
  using s2c_roundtrip [of "S2C_MovePlayer 3 1999 0 (-5) LEFT" "[1, 2]"] by (simp add: in16_def in32_def)

text \<open>
  C29: a packet of the client whose fields fit is decoded by the server's reads to the same
  packet, whatever bytes follow; its first byte is its length.
\<close>

theorem c2s_roundtrip:
  assumes "wf_c2s p"
  shows "dec_c2s (enc_c2s p @ r) = Inr (Some p) \<and> rd8 (enc_c2s p @ r) = int (length (enc_c2s p))"
  using assms dec_enc_c2s rd8_enc_c2s by simp

theorem c2s_roundtrip_witness:
  "dec_c2s (enc_c2s (C2S_UseItem ITEM_ELIXIR) @ []) = Inr (Some (C2S_UseItem ITEM_ELIXIR))"
  using c2s_roundtrip [of "C2S_UseItem ITEM_ELIXIR" "[]"] by (simp add: item_ok_def item_of_int_def)

end
