(* ===== verification/Objects.thy ===== *)
theory Objects
  imports Protocol
begin

text \<open>
  The objects of the server and the arithmetic on them: \<open>SERVER/Object.h\<close> (\<open>CObject\<close>),
  \<open>NPC.h\<close> (\<open>CNPC\<close>), \<open>session.h\<close> (\<open>SESSION\<close>) and the level formulas of
  \<open>globals.h\<close>. The class hierarchy is record extension. The level-up loop, which appears
  in each attack handler and in \<open>process_quest_kill\<close>, is one function here, total by a
  termination proof that covers the overflow of the experience threshold.
\<close>

section \<open>Classes\<close>

datatype cl_state = CS_FREE | CS_CONNECT | CS_DB_WAIT | CS_PLAYING | CS_LOGOUT

datatype npc_type = NPC_PEACE_TYPE | NPC_AGRO_TYPE | NPC_BOSS_TYPE

record cobject =
  m_id :: int
  m_username :: "byte list"
  m_x :: int
  m_y :: int
  m_move_time :: int
  m_state :: cl_state
  m_hp :: int
  m_max_hp :: int
  m_level :: int
  m_dir :: direction

record quest_progress =
  q_state :: quest_state
  kill_count :: int

text \<open>
  \<open>m_client\<close> is \<^const>\<open>None\<close> for \<open>INVALID_SOCKET\<close>; \<open>m_buff\<close> is the buffer of
  \<open>m_recv_over\<close> and \<open>m_recv_len\<close> the length of the outstanding \<open>WSARecv\<close>. Time
  points are clock ticks, with the epoch (a default-constructed time point) at 0. The entries
  of \<open>m_send_queue\<close> are the packets whose bytes \<open>PendingSend::data\<close> holds.
\<close>

record session = cobject +
  m_client :: "int option"
  m_buff :: "byte list"
  m_recv_len :: nat
  m_prev_recv :: nat
  m_xp :: int
  m_inventory :: "int list"
  m_quests :: "quest_progress list"
  m_last_skill_time :: int
  m_last_ranged_atk_time :: int
  m_atk_boost_until :: int
  m_def_boost_until :: int
  m_spd_boost_until :: int
  m_visible_objects :: uset
  m_send_queue :: "s2c list"
  m_send_pending :: bool

record cnpc = cobject +
  m_active_npc :: bool
  m_last_npc_move_time :: int
  m_npc_type :: npc_type
  m_move_state :: npc_state
  m_target_id :: int
  m_origin_x :: int
  m_origin_y :: int

definition can_see :: "'a cobject_scheme \<Rightarrow> int \<Rightarrow> int \<Rightarrow> bool" where
  "can_see ob x y \<longleftrightarrow> \<bar>m_x ob - x\<bar> \<le> VIEW_RANGE \<and> \<bar>m_y ob - y\<bar> \<le> VIEW_RANGE"

definition can_send :: "session \<Rightarrow> bool" where
  "can_send s \<longleftrightarrow> m_id s < MAX_PLAYERS \<and> m_client s \<noteq> None"

text \<open>The constructors \<open>SESSION(SOCKET, int)\<close> and \<open>CNPC()\<close>; \<open>now\<close> is the clock's reading.\<close>

definition new_session :: "int \<Rightarrow> int \<Rightarrow> int \<Rightarrow> session" where
  "new_session sock pid now =
    \<lparr> m_id = pid, m_username = [], m_x = PC_SPAWN_X, m_y = PC_SPAWN_Y, m_move_time = 0,
      m_state = CS_CONNECT, m_hp = 100, m_max_hp = 100, m_level = 1, m_dir = DOWN,
      m_client = Some sock, m_buff = replicate BUF_SIZE 0, m_recv_len = 0, m_prev_recv = 0,
      m_xp = 0, m_inventory = replicate ITEM_SLOT_COUNT 0,
      m_quests = replicate QUEST_COUNT \<lparr> q_state = Q_ACTIVE, kill_count = 0 \<rparr>,
      m_last_skill_time = now - ms 10000, m_last_ranged_atk_time = now - ms 10000,
      m_atk_boost_until = 0, m_def_boost_until = 0, m_spd_boost_until = 0,
      m_visible_objects = [], m_send_queue = [], m_send_pending = False \<rparr>"

definition new_npc :: "int \<Rightarrow> int \<Rightarrow> cnpc" where
  "new_npc nid now =
    \<lparr> m_id = nid, m_username = [], m_x = 0, m_y = 0, m_move_time = 0, m_state = CS_PLAYING,
      m_hp = 0, m_max_hp = 0, m_level = 1, m_dir = DOWN, m_active_npc = False,
      m_last_npc_move_time = now, m_npc_type = NPC_PEACE_TYPE, m_move_state = NPC_STATE_IDLE,
      m_target_id = -1, m_origin_x = 0, m_origin_y = 0 \<rparr>"

definition get_boss_phase :: "cnpc \<Rightarrow> int" where
  "get_boss_phase n =
    (if m_max_hp n \<le> 0 then 1
     else let pct = cdiv (m_hp n * 100) (m_max_hp n) in
       if 66 < pct then 1 else if 33 < pct then 2 else 3)"

fun npc_kind_of :: "npc_type \<Rightarrow> npc_kind" where
  "npc_kind_of NPC_PEACE_TYPE = NPC_PEACE"
| "npc_kind_of NPC_AGRO_TYPE = NPC_AGRO"
| "npc_kind_of NPC_BOSS_TYPE = NPC_BOSS"

section \<open>Level formulas\<close>

definition calc_max_hp :: "int \<Rightarrow> int" where
  "calc_max_hp lv = s16 (100 + s16 (s32 ((lv - 1) * 10)))"

definition calc_atk_dmg :: "int \<Rightarrow> int" where
  "calc_atk_dmg lv = s16 (15 + s16 (s32 ((lv - 1) * 2)))"

definition calc_skill_dmg :: "int \<Rightarrow> int" where
  "calc_skill_dmg lv = s16 (30 + s16 (s32 ((lv - 1) * 3)))"

text \<open>
  \<open>100 * (1 << (m_level - 1))\<close>: the shift takes its count modulo 32 on the target, and the
  product wraps. From level 26 on the product does not fit.
\<close>

definition exp_next :: "int \<Rightarrow> int" where
  "exp_next lv = s32 (100 * s32 (2 ^ nat ((lv - 1) mod 32)))"

definition exp_for_next_level :: "session \<Rightarrow> int" where
  "exp_for_next_level s = exp_next (m_level s)"

lemma calc_max_hp_small: "1 \<le> lv \<Longrightarrow> lv \<le> 3267 \<Longrightarrow> calc_max_hp lv = 100 + (lv - 1) * 10"
  by (simp add: calc_max_hp_def wrap_simps)

lemma calc_atk_dmg_small: "1 \<le> lv \<Longrightarrow> lv \<le> 8000 \<Longrightarrow> calc_atk_dmg lv = 15 + (lv - 1) * 2"
  by (simp add: calc_atk_dmg_def wrap_simps)

lemma calc_skill_dmg_small: "1 \<le> lv \<Longrightarrow> lv \<le> 5000 \<Longrightarrow> calc_skill_dmg lv = 30 + (lv - 1) * 3"
  by (simp add: calc_skill_dmg_def wrap_simps)

lemma exp_next_small:
  assumes "1 \<le> lv" "lv \<le> 25"
  shows "exp_next lv = 100 * 2 ^ nat (lv - 1)"
proof -
  define t where "t = (2::int) ^ nat (lv - 1)"
  have "nat (lv - 1) \<le> 24" using assms by simp
  then have "t \<le> 2 ^ 24" unfolding t_def by (rule power_increasing) simp
  moreover have "0 < t" by (simp add: t_def)
  moreover have "(lv - 1) mod 32 = lv - 1" using assms by simp
  ultimately show ?thesis by (simp add: exp_next_def wrap_simps t_def [symmetric])
qed

section \<open>The level-up loop\<close>

text \<open>
  \<open>while (m_xp >= exp_for_next_level()) m_xp -= exp_for_next_level(), ++m_level;\<close> on the
  pair (level, xp). With the threshold's overflow the loop still ends: the threshold depends
  on the level modulo 32, at level 29 it is \<open>2^30\<close>, at level 30 \<open>-2^31\<close>, at 31 and 32
  zero, so a run that passes level 29 stops at level 31 with negative experience.
\<close>

lemma s32_mod32: "s32 x mod 32 = x mod 32"
proof -
  have "s32 x = x - 4294967296 * ((x + 2147483648) div 4294967296)"
    by (simp add: s32_def minus_div_mult_eq_mod [symmetric])
  also have "\<dots> = x + 32 * (- 134217728 * ((x + 2147483648) div 4294967296))" by simp
  finally show ?thesis by (metis mod_mult_self2)
qed

lemma s32_succ_mod32: "(s32 (lv + 1) - 1) mod 32 = lv mod 32"
proof -
  have "(s32 (lv + 1) - 1) mod 32 = (s32 (lv + 1) mod 32 - 1) mod 32"
    by (simp add: mod_diff_left_eq)
  also have "\<dots> = lv mod 32" by (simp add: s32_mod32 mod_diff_left_eq)
  finally show ?thesis .
qed

definition level_measure :: "int \<times> int \<Rightarrow> nat" where
  "level_measure = (\<lambda>(lv, xp). let p = (lv - 1) mod 32 in
     if p \<le> 28 then nat (31 - p)
     else if p = 29 then (if 0 \<le> xp then 2 else 42)
     else if p = 30 then (if 0 \<le> xp then 41 else 0)
     else 40)"

lemma exp_next_late:
  "(lv - 1) mod 32 = 28 \<Longrightarrow> exp_next lv = 1073741824"
  "(lv - 1) mod 32 = 29 \<Longrightarrow> exp_next lv = -2147483648"
  "(lv - 1) mod 32 = 30 \<Longrightarrow> exp_next lv = 0"
  "(lv - 1) mod 32 = 31 \<Longrightarrow> exp_next lv = 0"
  by (simp_all add: exp_next_def s32_def)

lemma level_measure_decreases:
  assumes "exp_next lv \<le> xp" "in32 xp"
  shows "level_measure (s32 (lv + 1), s32 (xp - exp_next lv)) < level_measure (lv, xp)"
proof -
  define p where "p = (lv - 1) mod 32"
  have range: "0 \<le> p" "p < 32" by (simp_all add: p_def)
  have lv: "lv mod 32 = (p + 1) mod 32"
    unfolding p_def by (simp add: mod_add_left_eq)
  consider "p < 28" | "p = 28" | "p = 29" | "p = 30" | "p = 31" using range by linarith
  then show ?thesis
  proof cases
    case 1
    with range lv show ?thesis
      by (simp add: level_measure_def Let_def s32_succ_mod32 p_def [symmetric])
  next
    case 2
    then have "exp_next lv = 1073741824" by (simp add: p_def exp_next_late)
    with assms have "0 \<le> s32 (xp - exp_next lv)" by (simp add: in32_def wrap_simps)
    with 2 lv show ?thesis
      by (simp add: level_measure_def Let_def s32_succ_mod32 p_def [symmetric])
  next
    case 3
    then have "exp_next lv = -2147483648" by (simp add: p_def exp_next_late)
    then have "xp < 0 \<or> s32 (xp - exp_next lv) < 0"
      using assms by (cases "xp < 0") (simp_all add: in32_def s32_def mod_pos_pos_trivial)
    with 3 lv show ?thesis
      by (auto simp: level_measure_def Let_def s32_succ_mod32 p_def [symmetric])
  next
    case 4
    then have "exp_next lv = 0" by (simp add: p_def exp_next_late)
    with 4 lv assms show ?thesis
      by (simp add: level_measure_def Let_def s32_succ_mod32 p_def [symmetric])
  next
    case 5
    then have "exp_next lv = 0" by (simp add: p_def exp_next_late)
    with 5 lv assms show ?thesis
      by (simp add: level_measure_def Let_def s32_succ_mod32 p_def [symmetric])
  qed
qed

text \<open>
  The loop reads and writes \<open>int\<close> fields, so its arguments are reduced to that range on
  entry; the reduction changes nothing on values a field can hold.
\<close>

function level_loop :: "int \<Rightarrow> int \<Rightarrow> int \<times> int" where
  "level_loop lv xp =
    (if in32 xp \<and> exp_next lv \<le> xp then level_loop (s32 (lv + 1)) (s32 (xp - exp_next lv))
     else (lv, xp))"
  by pat_completeness auto
termination
  by (relation "measure level_measure") (auto intro: level_measure_decreases)

declare level_loop.simps [simp del]

lemma level_loop_unfold:
  "in32 xp \<Longrightarrow> level_loop lv xp =
    (if exp_next lv \<le> xp then level_loop (s32 (lv + 1)) (s32 (xp - exp_next lv)) else (lv, xp))"
  by (simp add: level_loop.simps [of lv xp])

lemma level_loop_exit:
  assumes "in32 xp" "level_loop lv xp = (lv', xp')"
  shows "xp' < exp_next lv'" and "in32 xp'"
proof -
  have "xp' < exp_next lv' \<and> in32 xp'"
    using assms
  proof (induction lv xp rule: level_loop.induct)
    case (1 lv xp)
    then show ?case
      by (cases "exp_next lv \<le> xp") (auto simp: level_loop.simps [of lv xp])
  qed
  then show "xp' < exp_next lv'" "in32 xp'" by simp_all
qed

text \<open>
  The experience gathered over a character's life, as long as no threshold overflows: what the
  levels passed have cost plus what is left.
\<close>

definition life_xp :: "int \<Rightarrow> int \<Rightarrow> int" where
  "life_xp lv xp = 100 * (2 ^ nat (lv - 1) - 1) + xp"

lemma level_loop_life_xp:
  assumes "1 \<le> lv" "0 \<le> xp" "xp \<le> 2147483647" "life_xp lv xp < life_xp 26 0"
    and "level_loop lv xp = (lv', xp')"
  shows "life_xp lv' xp' = life_xp lv xp \<and> lv \<le> lv' \<and> lv' \<le> 25 \<and> 0 \<le> xp' \<and> xp' < 100 * 2 ^ nat (lv' - 1)"
  using assms
proof (induction lv xp rule: level_loop.induct)
  case (1 lv xp)
  have "(2::int) ^ nat (lv - 1) < 2 ^ 25"
    using 1 by (simp add: life_xp_def)
  then have "nat (lv - 1) < 25" by (rule power_less_imp_less_exp [rotated]) simp
  then have lv25: "lv \<le> 25" by simp
  then have next_lv: "exp_next lv = 100 * 2 ^ nat (lv - 1)" using 1 by (simp add: exp_next_small)
  have i32: "in32 xp" using 1 by (simp add: in32_def)
  show ?case
  proof (cases "exp_next lv \<le> xp")
    case False
    then show ?thesis using 1 lv25 next_lv by (simp add: level_loop.simps [of lv xp])
  next
    case True
    have pos: "0 < exp_next lv" using next_lv by simp
    have w: "s32 (lv + 1) = lv + 1" "s32 (xp - exp_next lv) = xp - exp_next lv"
      using 1 lv25 True pos by (simp_all add: wrap_simps)
    have pow: "(2::int) ^ nat lv = 2 * 2 ^ nat (lv - 1)"
    proof -
      have "nat lv = Suc (nat (lv - 1))" using 1 by arith
      then show ?thesis by simp
    qed
    have life: "life_xp (lv + 1) (xp - exp_next lv) = life_xp lv xp"
      using next_lv pow by (simp add: life_xp_def)
    have call: "level_loop (lv + 1) (xp - exp_next lv) = (lv', xp')"
      using 1 True i32 w by (simp add: level_loop.simps [of lv xp])
    have "life_xp lv' xp' = life_xp (lv + 1) (xp - exp_next lv) \<and> lv + 1 \<le> lv' \<and> lv' \<le> 25
        \<and> 0 \<le> xp' \<and> xp' < 100 * 2 ^ nat (lv' - 1)"
      using "1.IH" [unfolded w] i32 True 1 pos call life by simp
    then show ?thesis using life by simp
  qed
qed

section \<open>Properties\<close>

text \<open>
  C32: while the experience of a character's life is below what level 26 costs in all, the
  level-up loop loses none of it: what the levels passed cost plus what is left stays the same,
  the level does not fall, and the rest is below the threshold of the level reached.
\<close>

theorem level_up_conserves:
  assumes "1 \<le> lv" "0 \<le> xp" "xp \<le> 2147483647" "life_xp lv xp < life_xp 26 0"
    and "level_loop lv xp = (lv', xp')"
  shows "life_xp lv' xp' = life_xp lv xp \<and> lv \<le> lv' \<and> 0 \<le> xp' \<and> xp' < exp_next lv'"
  using level_loop_life_xp [OF assms] assms(1) by (simp add: exp_next_small)

theorem level_up_conserves_witness:
  "life_xp (fst (level_loop 1 750)) (snd (level_loop 1 750)) = 750"
  using level_up_conserves [of 1 750 "fst (level_loop 1 750)" "snd (level_loop 1 750)"]
  by (simp add: life_xp_def)

text \<open>
  the loop returns for every level and every experience an \<open>int\<close> can hold, with the
  rest below the threshold, also when the threshold has overflowed.
\<close>

theorem level_up_returns:
  assumes "in32 xp"
  shows "\<exists>lv' xp'. level_loop lv xp = (lv', xp') \<and> xp' < exp_next lv'"
  using level_loop_exit(1) [OF assms] by (cases "level_loop lv xp") auto

theorem level_up_returns_witness:
  "\<exists>lv' xp'. level_loop 31 5 = (lv', xp') \<and> xp' < exp_next lv'"
  using level_up_returns [of 5 31] by (simp add: in32_def)

text \<open>
  from level 26 on \<open>100 * (1 << (m_level - 1))\<close> does not fit an \<open>int\<close>: with the
  wrapped threshold a character that reaches level 26 with no experience is raised to level 28
  at once and is left with negative experience.
\<close>

theorem level_up_overflow:
  "exp_next 26 < 0 \<and> level_loop 26 0 = (28, -1476395008)"
  by code_simp

end
