(* ===== verification/PriorityQueue.thy ===== *)
theory PriorityQueue
  imports Prelude
begin

text \<open>
  The two priority queues of the server, \<open>std::priority_queue\<close> in \<open>astar.h\<close> (least cost
  first) and \<open>concurrency::concurrent_priority_queue<event_type>\<close> (earliest wake-up first),
  give out an element with the least key. Which of several least elements comes first is left
  open by the libraries; the model keeps a list sorted by key and inserts behind equal keys.
  What the clients use of it is the interface \<open>min_queue\<close>.
\<close>

fun pq_push :: "('a \<Rightarrow> int) \<Rightarrow> 'a \<Rightarrow> 'a list \<Rightarrow> 'a list" where
  "pq_push key x [] = [x]"
| "pq_push key x (y # ys) = (if key x < key y then x # y # ys else y # pq_push key x ys)"

fun pq_pop :: "'a list \<Rightarrow> ('a \<times> 'a list) option" where
  "pq_pop [] = None"
| "pq_pop (x # xs) = Some (x, xs)"

definition pq_ok :: "('a \<Rightarrow> int) \<Rightarrow> 'a list \<Rightarrow> bool" where
  "pq_ok key q \<longleftrightarrow> sorted (map key q)"

lemma mset_pq_push [simp]: "mset (pq_push key x q) = add_mset x (mset q)"
  by (induction q) auto

lemma set_pq_push [simp]: "set (pq_push key x q) = insert x (set q)"
  by (induction q) auto

lemma length_pq_push [simp]: "length (pq_push key x q) = Suc (length q)"
  by (induction q) auto

lemma pq_ok_push: "pq_ok key q \<Longrightarrow> pq_ok key (pq_push key x q)"
  by (induction q) (auto simp: pq_ok_def)

locale min_queue =
  fixes key :: "'a \<Rightarrow> int"
    and push :: "'a \<Rightarrow> 'q \<Rightarrow> 'q"
    and pop :: "'q \<Rightarrow> ('a \<times> 'q) option"
    and elems :: "'q \<Rightarrow> 'a multiset"
    and ok :: "'q \<Rightarrow> bool"
  assumes elems_push: "elems (push x q) = add_mset x (elems q)"
    and ok_push: "ok q \<Longrightarrow> ok (push x q)"
    and pop_None: "pop q = None \<longleftrightarrow> elems q = {#}"
    and pop_elems: "pop q = Some (x, q') \<Longrightarrow> elems q = add_mset x (elems q')"
    and pop_least: "ok q \<Longrightarrow> pop q = Some (x, q') \<Longrightarrow> y \<in># elems q \<Longrightarrow> key x \<le> key y"
    and ok_pop: "ok q \<Longrightarrow> pop q = Some (x, q') \<Longrightarrow> ok q'"
begin

text \<open>What comes out was put in, nothing else goes, and later elements have no smaller key.\<close>

lemma pop_member: "pop q = Some (x, q') \<Longrightarrow> x \<in># elems q"
  by (simp add: pop_elems)

lemma pop_shrinks: "pop q = Some (x, q') \<Longrightarrow> size (elems q') < size (elems q)"
  by (simp add: pop_elems)

lemma pop_ordered:
  assumes "ok q" "pop q = Some (x, q')" "pop q' = Some (y, q'')"
  shows "key x \<le> key y"
  using assms pop_least [OF assms(1,2), of y] by (simp add: pop_elems)

text \<open>A pop after a push whose key is strictly least returns that element.\<close>

lemma pop_push_least:
  assumes "ok q" "\<And>y. y \<in># elems q \<Longrightarrow> key x < key y" "pop (push x q) = Some (z, q')"
  shows "z = x"
proof -
  have "key z \<le> key x"
    using assms pop_least [OF ok_push [OF assms(1)] assms(3), of x] by (simp add: elems_push)
  moreover have "z \<in># elems (push x q)" using assms(3) by (rule pop_member)
  ultimately show ?thesis using assms(2) [of z] by (auto simp: elems_push)
qed

end

text \<open>The sorted list provides the interface for every key.\<close>

lemma min_queue_sorted_list: "min_queue key (pq_push key) pq_pop mset (pq_ok key)"
proof
  fix q :: "'a list" and q' x y
  show "pq_pop q = None \<longleftrightarrow> mset q = {#}" by (cases q) auto
  show "pq_pop q = Some (x, q') \<Longrightarrow> mset q = add_mset x (mset q')" by (cases q) auto
  show "pq_ok key q \<Longrightarrow> pq_pop q = Some (x, q') \<Longrightarrow> y \<in># mset q \<Longrightarrow> key x \<le> key y"
    by (cases q) (auto simp: pq_ok_def)
  show "pq_ok key q \<Longrightarrow> pq_pop q = Some (x, q') \<Longrightarrow> pq_ok key q'"
    by (cases q) (auto simp: pq_ok_def)
qed (auto intro: pq_ok_push)

end
