(* ===== verification/AStar.thy ===== *)
theory AStar
  imports PriorityQueue
begin

text \<open>
  \<open>SERVER/astar.h\<close>: the grid search that gives an NPC its next tile. The three arrays are
  functions on the cell index \<open>y * W + x\<close>, the frontier is the priority queue keyed by the
  estimate. The \<open>float\<close> costs are whole numbers below \<open>2^24\<close>, which \<open>float\<close>
  represents exactly, with \<open>1e9f\<close> for "not reached", so they are \<^typ>\<open>int\<close> here.
  \<open>is_obstacle\<close> on the loaded map is the argument \<open>obs\<close>.

  The theory shows that the search ends, that it finds a way if and only if there is one inside
  the box it looks at, and that the tile it returns is the first of a shortest such way.
\<close>

section \<open>The search\<close>

record box =
  b_x0 :: int
  b_y0 :: int
  b_W :: int
  b_H :: int

type_synonym node = "int \<times> int \<times> int"

abbreviation (input) node_f :: "node \<Rightarrow> int" where "node_f \<equiv> fst"

record astar =
  g_cost :: "int \<Rightarrow> int"
  parent :: "int \<Rightarrow> int"
  closed :: "int \<Rightarrow> bool"
  pq :: "node list"

definition cidx :: "box \<Rightarrow> int \<Rightarrow> int \<Rightarrow> int" where
  "cidx b x y = y * b_W b + x"

text \<open>One direction of the inner \<open>for\<close> loop, from cell \<open>(cx, cy)\<close> towards \<open>(ltx, lty)\<close>.\<close>

definition relax :: "(int \<Rightarrow> int \<Rightarrow> bool) \<Rightarrow> box \<Rightarrow> int \<Rightarrow> int \<Rightarrow> int \<Rightarrow> int \<Rightarrow> int \<times> int \<Rightarrow> astar \<Rightarrow> astar" where
  "relax obs b ltx lty cx cy d st =
    (let nx = cx + fst d; ny = cy + snd d in
     if nx < 0 \<or> nx \<ge> b_W b \<or> ny < 0 \<or> ny \<ge> b_H b then st
     else if obs (nx + b_x0 b) (ny + b_y0 b) then st
     else let ni = cidx b nx ny; ci = cidx b cx cy in
       if closed st ni then st
       else let ng = g_cost st ci + 1 in
         if ng < g_cost st ni
         then st\<lparr>g_cost := (g_cost st)(ni := ng), parent := (parent st)(ni := ci),
                pq := pq_push node_f (ng + (\<bar>nx - ltx\<bar> + \<bar>ny - lty\<bar>), nx, ny) (pq st)\<rparr>
         else st)"

definition dirs :: "(int \<times> int) list" where
  "dirs = [(0, -1), (0, 1), (-1, 0), (1, 0)]"

text \<open>The \<open>while\<close> loop; \<^const>\<open>None\<close> only when the fuel is used up.\<close>

fun astar_loop :: "nat \<Rightarrow> (int \<Rightarrow> int \<Rightarrow> bool) \<Rightarrow> box \<Rightarrow> int \<Rightarrow> int \<Rightarrow> astar \<Rightarrow> (bool \<times> astar) option" where
  "astar_loop 0 obs b ltx lty st = None"
| "astar_loop (Suc k) obs b ltx lty st =
    (case pq_pop (pq st) of
       None \<Rightarrow> Some (False, st)
     | Some ((f, cx, cy), q) \<Rightarrow>
         let ci = cidx b cx cy; st1 = st\<lparr>pq := q\<rparr> in
         if closed st1 ci then astar_loop k obs b ltx lty st1
         else let st2 = st1\<lparr>closed := (closed st1)(ci := True)\<rparr> in
           if cx = ltx \<and> cy = lty then Some (True, st2)
           else astar_loop k obs b ltx lty (fold (relax obs b ltx lty cx cy) dirs st2))"

text \<open>The walk back along the parents.\<close>

fun backtrack :: "nat \<Rightarrow> (int \<Rightarrow> int) \<Rightarrow> int \<Rightarrow> int \<Rightarrow> int option" where
  "backtrack 0 par si cur = None"
| "backtrack (Suc k) par si cur =
    (if par cur \<noteq> si \<and> par cur \<noteq> -1 then backtrack k par si (par cur) else Some cur)"

definition search_box :: "int \<Rightarrow> int \<Rightarrow> int \<Rightarrow> int \<Rightarrow> box" where
  "search_box sx sy tx ty =
    (let x0 = max 0 (min sx tx - 20); y0 = max 0 (min sy ty - 20);
         x1 = min (WORLD_WIDTH - 1) (max sx tx + 20);
         y1 = min (WORLD_HEIGHT - 1) (max sy ty + 20)
     in \<lparr>b_x0 = x0, b_y0 = y0, b_W = x1 - x0 + 1, b_H = y1 - y0 + 1\<rparr>)"

definition astar_init :: "box \<Rightarrow> int \<Rightarrow> int \<Rightarrow> int \<Rightarrow> int \<Rightarrow> astar" where
  "astar_init b lsx lsy ltx lty =
    \<lparr>g_cost = (\<lambda>_. 1000000000)(cidx b lsx lsy := 0), parent = (\<lambda>_. -1), closed = (\<lambda>_. False),
     pq = pq_push node_f (\<bar>lsx - ltx\<bar> + \<bar>lsy - lty\<bar>, lsx, lsy) []\<rparr>"

text \<open>Iterations: one per push, of which there are at most four per cell and the first.\<close>

definition astar_fuel :: "box \<Rightarrow> nat" where
  "astar_fuel b = 4 * nat (b_W b * b_H b) + 2"

definition astar_next_step :: "(int \<Rightarrow> int \<Rightarrow> bool) \<Rightarrow> int \<Rightarrow> int \<Rightarrow> int \<Rightarrow> int \<Rightarrow> int \<times> int" where
  "astar_next_step obs sx sy tx ty =
    (if sx = tx \<and> sy = ty then (sx, sy)
     else let b = search_box sx sy tx ty;
       lsx = sx - b_x0 b; lsy = sy - b_y0 b; ltx = tx - b_x0 b; lty = ty - b_y0 b in
     if lsx < 0 \<or> lsx \<ge> b_W b \<or> lsy < 0 \<or> lsy \<ge> b_H b then (sx, sy)
     else if ltx < 0 \<or> ltx \<ge> b_W b \<or> lty < 0 \<or> lty \<ge> b_H b then (sx, sy)
     else (case astar_loop (astar_fuel b) obs b ltx lty (astar_init b lsx lsy ltx lty) of
         None \<Rightarrow> (sx, sy)
       | Some (found, st) \<Rightarrow>
           if \<not> found then (sx, sy)
           else (case backtrack (nat (b_W b * b_H b) + 1) (parent st) (cidx b lsx lsy) (cidx b ltx lty) of
               None \<Rightarrow> (sx, sy)
             | Some cur \<Rightarrow>
                 if parent st cur = -1 then (sx, sy)
                 else (cmod cur (b_W b) + b_x0 b, cdiv cur (b_W b) + b_y0 b))))"

section \<open>Ways on the grid\<close>

text \<open>
  \<open>walk free n a c\<close>: \<open>n\<close> steps up, down, left or right lead from \<open>a\<close> to \<open>c\<close>,
  each onto a tile that satisfies \<open>free\<close>.
\<close>

definition step4 :: "int \<times> int \<Rightarrow> int \<times> int \<Rightarrow> bool" where
  "step4 a c \<longleftrightarrow> (fst c - fst a, snd c - snd a) \<in> set dirs"

inductive walk :: "(int \<times> int \<Rightarrow> bool) \<Rightarrow> nat \<Rightarrow> int \<times> int \<Rightarrow> int \<times> int \<Rightarrow> bool" for free where
  here: "walk free 0 a a"
| further: "walk free n a b \<Longrightarrow> step4 b c \<Longrightarrow> free c \<Longrightarrow> walk free (Suc n) a c"

inductive_cases walk_zeroE: "walk free 0 a c"
inductive_cases walk_SucE: "walk free (Suc n) a c"

lemma step4_iff:
  "step4 (x, y) (x', y') \<longleftrightarrow> \<bar>x' - x\<bar> + \<bar>y' - y\<bar> = 1"
  by (auto simp: step4_def dirs_def)

lemma walk_Cons:
  assumes "walk free n b c" "step4 a b" "free b"
  shows "walk free (Suc n) a c"
  using assms
proof (induction rule: walk.induct)
  case (here b)
  then show ?case by (blast intro: walk.intros)
next
  case (further n b c d)
  then show ?case by (blast intro: walk.further)
qed

lemma walk_free: "walk free n a c \<Longrightarrow> a = c \<and> n = 0 \<or> free c"
  by (induction rule: walk.induct) auto

text \<open>The Manhattan distance never exceeds the number of steps: the heuristic is consistent.\<close>

definition manh :: "int \<times> int \<Rightarrow> int \<times> int \<Rightarrow> int" where
  "manh a c = \<bar>fst a - fst c\<bar> + \<bar>snd a - snd c\<bar>"

lemma manh_step: "step4 b c \<Longrightarrow> manh b t \<le> 1 + manh c t"
  by (cases b; cases c) (auto simp: step4_iff manh_def)

lemma manh_walk: "walk free n a c \<Longrightarrow> manh a t \<le> int n + manh c t"
proof (induction rule: walk.induct)
  case (further n a b c)
  then show ?case using manh_step [OF further(2), of t] by simp
qed simp

text \<open>
  A walk that leaves a set of tiles has a first tile outside: before it only tiles of the set,
  after it the rest of the walk.
\<close>

lemma walk_exit:
  assumes "walk free n a c" "c \<notin> C"
  obtains i k v where "walk free i a v" "walk free k v c" "i + k = n" "v \<notin> C"
    "i = 0 \<and> v = a \<or> (\<exists>u j. i = Suc j \<and> walk free j a u \<and> u \<in> C \<and> step4 u v \<and> free v)"
  using assms
proof (induction arbitrary: thesis rule: walk.induct)
  case (here a)
  show ?case by (rule here(1) [of 0 a 0]) (use here(2) in \<open>auto intro: walk.here\<close>)
next
  case (further n a b c)
  show ?case
  proof (cases "b \<in> C")
    case True
    have "\<exists>u j. Suc n = Suc j \<and> walk free j a u \<and> u \<in> C \<and> step4 u c \<and> free c"
      using True further(1,2,3) by blast
    moreover have "walk free (Suc n) a c" by (rule walk.further [OF further(1-3)])
    ultimately show ?thesis
      using further(5) [of "Suc n" c 0] further(6) by (simp add: walk.here)
  next
    case False
    obtain i k v where w: "walk free i a v" "walk free k v b" "i + k = n" "v \<notin> C"
      "i = 0 \<and> v = a \<or> (\<exists>u j. i = Suc j \<and> walk free j a u \<and> u \<in> C \<and> step4 u v \<and> free v)"
      using further(4) [OF _ False] by blast
    show ?thesis
      by (rule further(5) [of i v "Suc k"])
         (use w further in \<open>auto intro: walk.further\<close>)
  qed
qed

section \<open>The loop invariant\<close>

definition in_grid :: "box \<Rightarrow> int \<times> int \<Rightarrow> bool" where
  "in_grid b t \<longleftrightarrow> 0 \<le> fst t \<and> fst t < b_W b \<and> 0 \<le> snd t \<and> snd t < b_H b"

definition free_in :: "(int \<Rightarrow> int \<Rightarrow> bool) \<Rightarrow> box \<Rightarrow> int \<times> int \<Rightarrow> bool" where
  "free_in obs b t \<longleftrightarrow> in_grid b t \<and> \<not> obs (fst t + b_x0 b) (snd t + b_y0 b)"

definition ix :: "box \<Rightarrow> int \<times> int \<Rightarrow> int" where
  "ix b t = cidx b (fst t) (snd t)"

definition reached :: "box \<Rightarrow> int \<times> int \<Rightarrow> astar \<Rightarrow> int \<times> int \<Rightarrow> bool" where
  "reached b ls st t \<longleftrightarrow> t = ls \<or> parent st (ix b t) \<noteq> -1"

definition closed_tiles :: "box \<Rightarrow> astar \<Rightarrow> (int \<times> int) set" where
  "closed_tiles b st = {t. in_grid b t \<and> closed st (ix b t)}"

lemma ix_inj:
  assumes "in_grid b t" "in_grid b u"
  shows "ix b t = ix b u \<longleftrightarrow> t = u"
proof
  assume eq: "ix b t = ix b u"
  have "fst t = ix b t mod b_W b" "snd t = ix b t div b_W b"
    using assms(1) by (simp_all add: ix_def cidx_def in_grid_def)
  moreover have "fst u = ix b u mod b_W b" "snd u = ix b u div b_W b"
    using assms(2) by (simp_all add: ix_def cidx_def in_grid_def)
  ultimately show "t = u" using eq by (simp add: prod_eq_iff)
qed simp

lemma ix_nonneg: "in_grid b t \<Longrightarrow> 0 \<le> ix b t"
  by (simp add: ix_def cidx_def in_grid_def)

lemma ix_neq_none: "in_grid b t \<Longrightarrow> ix b t \<noteq> -1"
  using ix_nonneg [of b t] by auto

lemma finite_grid: "finite {t. in_grid b t}" "card {t. in_grid b t} \<le> nat (b_W b * b_H b)"
proof -
  have eq: "{t. in_grid b t} = {0..<b_W b} \<times> {0..<b_H b}"
    by (auto simp: in_grid_def)
  show "finite {t. in_grid b t}" by (simp add: eq)
  show "card {t. in_grid b t} \<le> nat (b_W b * b_H b)"
  proof (cases "0 \<le> b_W b")
    case True
    then show ?thesis by (simp add: eq card_cartesian_product nat_mult_distrib)
  next
    case False
    then show ?thesis by (simp add: eq)
  qed
qed

lemma finite_closed [simp]: "finite (closed_tiles b st)"
  by (rule finite_subset [OF _ finite_grid(1) [of b]]) (auto simp: closed_tiles_def)

lemma card_closed: "card (closed_tiles b st) \<le> nat (b_W b * b_H b)"
proof (rule order_trans [OF card_mono [OF finite_grid(1)] finite_grid(2)])
  show "closed_tiles b st \<subseteq> {t. in_grid b t}" by (auto simp: closed_tiles_def)
qed

text \<open>
  \<open>c\<close> is the cell being expanded and \<open>D\<close> the directions its expansion has been through;
  between two iterations \<open>D\<close> holds all four.
\<close>

definition astar_inv :: "(int \<Rightarrow> int \<Rightarrow> bool) \<Rightarrow> box \<Rightarrow> int \<times> int \<Rightarrow> int \<times> int \<Rightarrow> int \<times> int \<Rightarrow> (int \<times> int) set \<Rightarrow> astar \<Rightarrow> bool" where
  "astar_inv obs b ls lt c D st \<longleftrightarrow>
     pq_ok node_f (pq st)
   \<and> (\<forall>(f, t) \<in> set (pq st). in_grid b t \<and> reached b ls st t \<and> g_cost st (ix b t) + manh t lt \<le> f)
   \<and> g_cost st (ix b ls) = 0 \<and> parent st (ix b ls) = -1
   \<and> (\<forall>t. in_grid b t \<longrightarrow> \<not> reached b ls st t \<longrightarrow>
        g_cost st (ix b t) = 1000000000 \<and> \<not> closed st (ix b t))
   \<and> (\<forall>t. in_grid b t \<longrightarrow> reached b ls st t \<longrightarrow> \<not> closed st (ix b t) \<longrightarrow>
        (g_cost st (ix b t) + manh t lt, t) \<in> set (pq st))
   \<and> (\<forall>t. in_grid b t \<longrightarrow> reached b ls st t \<longrightarrow> t \<noteq> ls \<longrightarrow>
        (\<exists>u. u \<in> closed_tiles b st \<and> step4 u t \<and> free_in obs b t \<and> parent st (ix b t) = ix b u
           \<and> g_cost st (ix b t) = g_cost st (ix b u) + 1))
   \<and> (\<forall>t. in_grid b t \<longrightarrow> reached b ls st t \<longrightarrow>
        0 \<le> g_cost st (ix b t) \<and> g_cost st (ix b t) \<le> int (card (closed_tiles b st)))
   \<and> (\<forall>t \<in> closed_tiles b st. g_cost st (ix b t) < int (card (closed_tiles b st)))
   \<and> (\<forall>u \<in> closed_tiles b st. \<forall>v. step4 u v \<longrightarrow> free_in obs b v \<longrightarrow>
        (u = c \<longrightarrow> (fst v - fst u, snd v - snd u) \<in> D) \<longrightarrow>
        reached b ls st v \<and> g_cost st (ix b v) \<le> g_cost st (ix b u) + 1)
   \<and> (\<forall>u \<in> closed_tiles b st. \<forall>n. walk (free_in obs b) n ls u \<longrightarrow> g_cost st (ix b u) \<le> int n)"

lemma astar_invD:
  assumes "astar_inv obs b ls lt c D st"
  shows inv_pq_ok: "pq_ok node_f (pq st)"
    and inv_pq: "(f, t) \<in> set (pq st) \<Longrightarrow>
      in_grid b t \<and> reached b ls st t \<and> g_cost st (ix b t) + manh t lt \<le> f"
    and inv_start: "g_cost st (ix b ls) = 0" "parent st (ix b ls) = -1"
    and inv_unreached: "in_grid b t \<Longrightarrow> \<not> reached b ls st t \<Longrightarrow>
      g_cost st (ix b t) = 1000000000 \<and> \<not> closed st (ix b t)"
    and inv_open: "in_grid b t \<Longrightarrow> reached b ls st t \<Longrightarrow> \<not> closed st (ix b t) \<Longrightarrow>
      (g_cost st (ix b t) + manh t lt, t) \<in> set (pq st)"
    and inv_parent: "in_grid b t \<Longrightarrow> reached b ls st t \<Longrightarrow> t \<noteq> ls \<Longrightarrow>
      \<exists>u. u \<in> closed_tiles b st \<and> step4 u t \<and> free_in obs b t \<and> parent st (ix b t) = ix b u
         \<and> g_cost st (ix b t) = g_cost st (ix b u) + 1"
    and inv_cost: "in_grid b t \<Longrightarrow> reached b ls st t \<Longrightarrow>
      0 \<le> g_cost st (ix b t) \<and> g_cost st (ix b t) \<le> int (card (closed_tiles b st))"
    and inv_cost_closed: "t \<in> closed_tiles b st \<Longrightarrow>
      g_cost st (ix b t) < int (card (closed_tiles b st))"
    and inv_next: "u \<in> closed_tiles b st \<Longrightarrow> step4 u v \<Longrightarrow> free_in obs b v \<Longrightarrow>
      (u = c \<Longrightarrow> (fst v - fst u, snd v - snd u) \<in> D) \<Longrightarrow>
      reached b ls st v \<and> g_cost st (ix b v) \<le> g_cost st (ix b u) + 1"
    and inv_least: "u \<in> closed_tiles b st \<Longrightarrow> walk (free_in obs b) n ls u \<Longrightarrow>
      g_cost st (ix b u) \<le> int n"
proof -
  note c = assms [unfolded astar_inv_def]
  show "pq_ok node_f (pq st)" using c by (elim conjE)
  show "(f, t) \<in> set (pq st) \<Longrightarrow> in_grid b t \<and> reached b ls st t \<and> g_cost st (ix b t) + manh t lt \<le> f"
    using c [THEN conjunct2, THEN conjunct1] by fast
  note c = c [THEN conjunct2, THEN conjunct2]
  show "g_cost st (ix b ls) = 0" using c by (elim conjE)
  show "parent st (ix b ls) = -1" using c by (elim conjE)
  note c = c [THEN conjunct2, THEN conjunct2]
  show "in_grid b t \<Longrightarrow> \<not> reached b ls st t \<Longrightarrow>
      g_cost st (ix b t) = 1000000000 \<and> \<not> closed st (ix b t)"
    using c [THEN conjunct1] by fast
  note c = c [THEN conjunct2]
  show "in_grid b t \<Longrightarrow> reached b ls st t \<Longrightarrow> \<not> closed st (ix b t) \<Longrightarrow>
      (g_cost st (ix b t) + manh t lt, t) \<in> set (pq st)"
    using c [THEN conjunct1] by fast
  note c = c [THEN conjunct2]
  show "in_grid b t \<Longrightarrow> reached b ls st t \<Longrightarrow> t \<noteq> ls \<Longrightarrow>
      \<exists>u. u \<in> closed_tiles b st \<and> step4 u t \<and> free_in obs b t \<and> parent st (ix b t) = ix b u
         \<and> g_cost st (ix b t) = g_cost st (ix b u) + 1"
    using c [THEN conjunct1] by fast
  note c = c [THEN conjunct2]
  show "in_grid b t \<Longrightarrow> reached b ls st t \<Longrightarrow>
      0 \<le> g_cost st (ix b t) \<and> g_cost st (ix b t) \<le> int (card (closed_tiles b st))"
    using c [THEN conjunct1] by fast
  note c = c [THEN conjunct2]
  show "t \<in> closed_tiles b st \<Longrightarrow> g_cost st (ix b t) < int (card (closed_tiles b st))"
    using c [THEN conjunct1] by fast
  note c = c [THEN conjunct2]
  show "u \<in> closed_tiles b st \<Longrightarrow> step4 u v \<Longrightarrow> free_in obs b v \<Longrightarrow>
      (u = c \<Longrightarrow> (fst v - fst u, snd v - snd u) \<in> D) \<Longrightarrow>
      reached b ls st v \<and> g_cost st (ix b v) \<le> g_cost st (ix b u) + 1"
    using c [THEN conjunct1] by fast
  note c = c [THEN conjunct2]
  show "u \<in> closed_tiles b st \<Longrightarrow> walk (free_in obs b) n ls u \<Longrightarrow> g_cost st (ix b u) \<le> int n"
    using c by fast
qed

lemma inv_next_all:
  assumes "astar_inv obs b ls lt c (set dirs) st" "u \<in> closed_tiles b st" "step4 u v" "free_in obs b v"
  shows "reached b ls st v \<and> g_cost st (ix b v) \<le> g_cost st (ix b u) + 1"
  using inv_next [OF assms] assms(3) unfolding step4_def by blast

text \<open>Every reached tile is at the end of a walk as long as its cost.\<close>

lemma reached_walk:
  assumes "astar_inv obs b ls lt c D st" "in_grid b t" "reached b ls st t"
  shows "walk (free_in obs b) (nat (g_cost st (ix b t))) ls t"
  using assms(2,3)
proof (induction "nat (g_cost st (ix b t))" arbitrary: t rule: less_induct)
  case less
  show ?case
  proof (cases "t = ls")
    case True
    then show ?thesis using inv_start(1) [OF assms(1)] by (simp add: walk.here)
  next
    case False
    obtain u where u: "u \<in> closed_tiles b st" "step4 u t" "free_in obs b t"
      "g_cost st (ix b t) = g_cost st (ix b u) + 1"
      using inv_parent [OF assms(1) less(2,3) False] by blast
    have ug: "in_grid b u" "reached b ls st u"
      using u(1) inv_unreached [OF assms(1), of u] by (auto simp: closed_tiles_def)
    have nn: "0 \<le> g_cost st (ix b u)" using inv_cost [OF assms(1) ug] by simp
    have "walk (free_in obs b) (nat (g_cost st (ix b u))) ls u"
      by (rule less(1)) (use u ug nn in auto)
    from walk.further [OF this u(2,3)] show ?thesis
      using u(4) nn by (simp add: nat_add_distrib)
  qed
qed


section \<open>The steps keep the invariant\<close>

lemma inv_init:
  assumes "in_grid b ls"
  shows "astar_inv obs b ls lt c D (astar_init b (fst ls) (snd ls) (fst lt) (snd lt))"
proof -
  let ?st = "astar_init b (fst ls) (snd ls) (fst lt) (snd lt)"
  have none: "closed_tiles b ?st = {}" by (simp add: closed_tiles_def astar_init_def)
  have r: "reached b ls ?st t \<longleftrightarrow> t = ls" for t by (simp add: reached_def astar_init_def)
  have g: "g_cost ?st (ix b t) = (if t = ls then 0 else 1000000000)" if "in_grid b t" for t
    using ix_inj [OF that assms] by (simp add: astar_init_def ix_def)
  have p: "pq ?st = [(manh ls lt, ls)]" "parent ?st = (\<lambda>_. -1)" "closed ?st = (\<lambda>_. False)"
    by (simp_all add: astar_init_def manh_def)
  show ?thesis
    unfolding astar_inv_def none r p using assms by (auto simp: g pq_ok_def)
qed

lemma inv_more:
  assumes "astar_inv obs b ls lt c D st"
    and "c \<in> closed_tiles b st \<Longrightarrow> free_in obs b (fst c + fst d, snd c + snd d) \<Longrightarrow>
      reached b ls st (fst c + fst d, snd c + snd d)
      \<and> g_cost st (ix b (fst c + fst d, snd c + snd d)) \<le> g_cost st (ix b c) + 1"
  shows "astar_inv obs b ls lt c (insert d D) st"
proof -
  have "reached b ls st v \<and> g_cost st (ix b v) \<le> g_cost st (ix b u) + 1"
    if h: "u \<in> closed_tiles b st" "step4 u v" "free_in obs b v"
      "u = c \<longrightarrow> (fst v - fst u, snd v - snd u) \<in> insert d D" for u v
  proof (cases "u = c \<and> (fst v - fst u, snd v - snd u) = d")
    case True
    then have "v = (fst c + fst d, snd c + snd d)" by (cases v) auto
    then show ?thesis using assms(2) h True by blast
  next
    case False
    then show ?thesis using inv_next [OF assms(1) h(1-3)] h(4) by blast
  qed
  note nxt = this
  show ?thesis
    using assms(1) nxt unfolding astar_inv_def
    by (elim conjE, intro conjI) (assumption | blast)+
qed

lemma inv_improve:
  assumes inv: "astar_inv obs b ls lt c D st" and ls: "in_grid b ls"
    and c: "c \<in> closed_tiles b st" and d: "step4 c v" and v: "free_in obs b v"
    and op: "\<not> closed st (ix b v)" and better: "g_cost st (ix b c) + 1 < g_cost st (ix b v)"
  defines "st' \<equiv> st\<lparr>g_cost := (g_cost st)(ix b v := g_cost st (ix b c) + 1),
     parent := (parent st)(ix b v := ix b c),
     pq := pq_push node_f (g_cost st (ix b c) + 1 + manh v lt, v) (pq st)\<rparr>"
  shows "astar_inv obs b ls lt c D st' \<and> reached b ls st' v
    \<and> g_cost st' (ix b v) = g_cost st (ix b c) + 1 \<and> g_cost st' (ix b c) = g_cost st (ix b c)"
proof -
  have gc: "in_grid b c" "reached b ls st c"
    using c inv_unreached [OF inv, of c] by (auto simp: closed_tiles_def)
  have gv: "in_grid b v" using v by (simp add: free_in_def)
  have c0: "0 \<le> g_cost st (ix b c)" "g_cost st (ix b c) < int (card (closed_tiles b st))"
    using inv_cost [OF inv gc] inv_cost_closed [OF inv c] by auto
  have vls: "v \<noteq> ls" using better inv_start [OF inv] c0 by auto
  have vc: "u \<noteq> v" if "u \<in> closed_tiles b st" for u using that op by (auto simp: closed_tiles_def)
  have cl: "closed st' = closed st" "closed_tiles b st' = closed_tiles b st"
    by (simp_all add: st'_def closed_tiles_def)
  have g: "g_cost st' (ix b t) = (if t = v then g_cost st (ix b c) + 1 else g_cost st (ix b t))"
    "parent st' (ix b t) = (if t = v then ix b c else parent st (ix b t))" if "in_grid b t" for t
    using ix_inj [OF that gv] by (simp_all add: st'_def)
  have r: "reached b ls st' t \<longleftrightarrow> t = v \<or> reached b ls st t" if "in_grid b t" for t
    using g(2) [OF that] ix_neq_none [OF gc(1)] by (simp add: reached_def)
  have gcl: "g_cost st' (ix b u) = g_cost st (ix b u)" if "u \<in> closed_tiles b st" for u
    using that vc [OF that] g [of u] by (simp add: closed_tiles_def)
  have q: "pq st' = pq_push node_f (g_cost st (ix b c) + 1 + manh v lt, v) (pq st)"
    by (simp add: st'_def)
  have "astar_inv obs b ls lt c D st'"
    unfolding astar_inv_def
  proof (intro conjI)
    show "pq_ok node_f (pq st')" by (simp add: q pq_ok_push inv_pq_ok [OF inv])
    show "\<forall>(f, t) \<in> set (pq st'). in_grid b t \<and> reached b ls st' t \<and> g_cost st' (ix b t) + manh t lt \<le> f"
      using inv_pq [OF inv] gv better by (fastforce simp: q g r)
    show "g_cost st' (ix b ls) = 0" "parent st' (ix b ls) = -1"
      using inv_start [OF inv] vls by (simp_all add: g ls)
    show "\<forall>t. in_grid b t \<longrightarrow> \<not> reached b ls st' t \<longrightarrow>
        g_cost st' (ix b t) = 1000000000 \<and> \<not> closed st' (ix b t)"
      using inv_unreached [OF inv] by (simp add: g r cl)
    show "\<forall>t. in_grid b t \<longrightarrow> reached b ls st' t \<longrightarrow> \<not> closed st' (ix b t) \<longrightarrow>
        (g_cost st' (ix b t) + manh t lt, t) \<in> set (pq st')"
      using inv_open [OF inv] by (auto simp: g r cl q)
    show "\<forall>t. in_grid b t \<longrightarrow> reached b ls st' t \<longrightarrow> t \<noteq> ls \<longrightarrow>
        (\<exists>u. u \<in> closed_tiles b st' \<and> step4 u t \<and> free_in obs b t \<and> parent st' (ix b t) = ix b u
           \<and> g_cost st' (ix b t) = g_cost st' (ix b u) + 1)"
    proof (intro allI impI)
      fix t assume t: "in_grid b t" "reached b ls st' t" "t \<noteq> ls"
      show "\<exists>u. u \<in> closed_tiles b st' \<and> step4 u t \<and> free_in obs b t \<and> parent st' (ix b t) = ix b u
           \<and> g_cost st' (ix b t) = g_cost st' (ix b u) + 1"
      proof (cases "t = v")
        case True
        then show ?thesis using c d v gcl [OF c] t by (intro exI [of _ c]) (simp add: cl g)
      next
        case False
        then obtain u where "u \<in> closed_tiles b st" "step4 u t" "free_in obs b t"
          "parent st (ix b t) = ix b u" "g_cost st (ix b t) = g_cost st (ix b u) + 1"
          using inv_parent [OF inv t(1) _ t(3)] t(2) r [OF t(1)] by blast
        then show ?thesis using False gcl t by (intro exI [of _ u]) (simp add: cl g)
      qed
    qed
    show "\<forall>t. in_grid b t \<longrightarrow> reached b ls st' t \<longrightarrow>
        0 \<le> g_cost st' (ix b t) \<and> g_cost st' (ix b t) \<le> int (card (closed_tiles b st'))"
      using inv_cost [OF inv] c0 by (simp add: g r cl)
    show "\<forall>t \<in> closed_tiles b st'. g_cost st' (ix b t) < int (card (closed_tiles b st'))"
      using inv_cost_closed [OF inv] by (simp add: cl gcl)
    show "\<forall>u \<in> closed_tiles b st'. \<forall>w. step4 u w \<longrightarrow> free_in obs b w \<longrightarrow>
        (u = c \<longrightarrow> (fst w - fst u, snd w - snd u) \<in> D) \<longrightarrow>
        reached b ls st' w \<and> g_cost st' (ix b w) \<le> g_cost st' (ix b u) + 1"
    proof (intro ballI allI impI)
      fix u w
      assume h: "u \<in> closed_tiles b st'" "step4 u w" "free_in obs b w"
        "u = c \<longrightarrow> (fst w - fst u, snd w - snd u) \<in> D"
      have w: "in_grid b w" using h(3) by (simp add: free_in_def)
      have "reached b ls st w \<and> g_cost st (ix b w) \<le> g_cost st (ix b u) + 1"
        using inv_next [OF inv _ h(2,3)] h(1,4) by (simp add: cl)
      then show "reached b ls st' w \<and> g_cost st' (ix b w) \<le> g_cost st' (ix b u) + 1"
        using better gcl [of u] h(1) by (auto simp: g r w cl)
    qed
    show "\<forall>u \<in> closed_tiles b st'. \<forall>n. walk (free_in obs b) n ls u \<longrightarrow> g_cost st' (ix b u) \<le> int n"
      using inv_least [OF inv] by (simp add: cl gcl)
  qed
  then show ?thesis using gcl [OF c] by (simp add: g r gv)
qed

text \<open>One direction of the inner loop.\<close>

lemma relax_closed [simp]: "closed (relax obs b ltx lty cx cy d st) = closed st"
  by (simp add: relax_def Let_def)

lemma relax_closed_tiles [simp]:
  "closed_tiles b (relax obs b ltx lty cx cy d st) = closed_tiles b st"
  by (simp add: closed_tiles_def)

lemma relax_length: "length (pq (relax obs b ltx lty cx cy d st)) \<le> Suc (length (pq st))"
  by (simp add: relax_def Let_def)

lemma inv_relax:
  assumes inv: "astar_inv obs b ls (ltx, lty) (cx, cy) D st" and ls: "in_grid b ls"
    and c: "(cx, cy) \<in> closed_tiles b st" and d: "d \<in> set dirs"
    and area: "b_W b * b_H b < 1000000000"
  shows "astar_inv obs b ls (ltx, lty) (cx, cy) (insert d D) (relax obs b ltx lty cx cy d st)"
proof -
  let ?v = "(cx + fst d, cy + snd d)"
  have sv: "step4 (cx, cy) ?v" using d by (simp add: step4_def)
  have gc: "in_grid b (cx, cy)" using c by (simp add: closed_tiles_def)
  have "int (card (closed_tiles b st)) < 1000000000"
    using card_closed [of b st] area by linarith
  then have small: "g_cost st (ix b (cx, cy)) + 1 < 1000000000"
    using inv_cost_closed [OF inv c] by linarith
  have eqs: "cidx b (cx + fst d) (cy + snd d) = ix b ?v" "cidx b cx cy = ix b (cx, cy)"
    by (simp_all add: ix_def)
  have out: "free_in obs b ?v \<longleftrightarrow> \<not> (cx + fst d < 0 \<or> cx + fst d \<ge> b_W b \<or> cy + snd d < 0 \<or> cy + snd d \<ge> b_H b)
      \<and> \<not> obs (cx + fst d + b_x0 b) (cy + snd d + b_y0 b)"
    by (auto simp: free_in_def in_grid_def)
  show ?thesis
  proof (cases "free_in obs b ?v")
    case False
    then have "relax obs b ltx lty cx cy d st = st"
      unfolding relax_def Let_def out by auto
    then show ?thesis using inv_more [OF inv, of d] False by simp
  next
    case free: True
    then have gv: "in_grid b ?v" by (simp add: free_in_def)
    show ?thesis
    proof (cases "closed st (ix b ?v)")
      case True
      then have r: "reached b ls st ?v" "?v \<in> closed_tiles b st"
        using inv_unreached [OF inv gv] gv by (auto simp: closed_tiles_def)
      have rc: "reached b ls st (cx, cy)"
        using c inv_unreached [OF inv gc] by (auto simp: closed_tiles_def)
      have "g_cost st (ix b ?v) \<le> int (Suc (nat (g_cost st (ix b (cx, cy)))))"
        by (rule inv_least [OF inv r(2) walk.further [OF reached_walk [OF inv gc rc] sv free]])
      then have "g_cost st (ix b ?v) \<le> g_cost st (ix b (cx, cy)) + 1"
        using inv_cost [OF inv gc rc] by simp
      moreover have "relax obs b ltx lty cx cy d st = st"
        using True by (simp add: relax_def Let_def eqs)
      ultimately show ?thesis using inv_more [OF inv, of d] r by simp
    next
      case op: False
      show ?thesis
      proof (cases "g_cost st (ix b (cx, cy)) + 1 < g_cost st (ix b ?v)")
        case True
        have eq: "relax obs b ltx lty cx cy d st =
          st\<lparr>g_cost := (g_cost st)(ix b ?v := g_cost st (ix b (cx, cy)) + 1),
             parent := (parent st)(ix b ?v := ix b (cx, cy)),
             pq := pq_push node_f (g_cost st (ix b (cx, cy)) + 1 + manh ?v (ltx, lty), ?v) (pq st)\<rparr>"
          using free True op unfolding out relax_def Let_def eqs by (simp add: manh_def)
        note better = inv_improve [OF inv ls c sv free op True]
        show ?thesis
          unfolding eq by (rule inv_more) (use better in \<open>simp_all\<close>)
      next
        case False
        then have "relax obs b ltx lty cx cy d st = st"
          by (simp add: relax_def Let_def eqs)
        moreover have "reached b ls st ?v"
          using inv_unreached [OF inv gv] False small by auto
        ultimately show ?thesis using inv_more [OF inv, of d] False by simp
      qed
    qed
  qed
qed

text \<open>The whole inner loop.\<close>

lemma inv_expand:
  assumes inv: "astar_inv obs b ls (ltx, lty) (cx, cy) {} st" and ls: "in_grid b ls"
    and c: "(cx, cy) \<in> closed_tiles b st" and area: "b_W b * b_H b < 1000000000"
  defines "st' \<equiv> fold (relax obs b ltx lty cx cy) dirs st"
  shows "astar_inv obs b ls (ltx, lty) (cx, cy) (set dirs) st'"
    and "closed_tiles b st' = closed_tiles b st" and "length (pq st') \<le> length (pq st) + 4"
proof -
  have "astar_inv obs b ls (ltx, lty) (cx, cy) (set ds \<union> D) (fold (relax obs b ltx lty cx cy) ds s)
      \<and> closed_tiles b (fold (relax obs b ltx lty cx cy) ds s) = closed_tiles b s
      \<and> length (pq (fold (relax obs b ltx lty cx cy) ds s)) \<le> length (pq s) + length ds"
    if "set ds \<subseteq> set dirs" "astar_inv obs b ls (ltx, lty) (cx, cy) D s" "(cx, cy) \<in> closed_tiles b s"
    for ds D s
    using that
  proof (induction ds arbitrary: D s)
    case (Cons d ds)
    have "astar_inv obs b ls (ltx, lty) (cx, cy) (insert d D) (relax obs b ltx lty cx cy d s)"
      by (rule inv_relax) (use Cons.prems ls area in auto)
    from Cons.IH [OF _ this] Cons.prems show ?case
      using relax_length [of obs b ltx lty cx cy d s] by fastforce
  qed simp
  from this [of dirs "{}" st] inv c
  show "astar_inv obs b ls (ltx, lty) (cx, cy) (set dirs) st'"
    "closed_tiles b st' = closed_tiles b st" "length (pq st') \<le> length (pq st) + 4"
    by (simp_all add: st'_def dirs_def)
qed

text \<open>The frontier is the priority queue of the interface, keyed by the estimate.\<close>

interpretation frontier: min_queue node_f "pq_push node_f" pq_pop mset "pq_ok node_f"
  by (rule min_queue_sorted_list)

text \<open>A popped cell that is closed already is dropped.\<close>

lemma inv_drop:
  assumes inv: "astar_inv obs b ls lt c D st" and pop: "pq_pop (pq st) = Some ((f, t), q)"
    and cl: "closed st (ix b t)"
  shows "astar_inv obs b ls lt c D (st\<lparr>pq := q\<rparr>)"
proof -
  have m: "mset (pq st) = add_mset (f, t) (mset q)" by (rule frontier.pop_elems [OF pop])
  have sub: "set q \<subseteq> set (pq st)" "\<And>x. x \<in> set (pq st) \<Longrightarrow> x = (f, t) \<or> x \<in> set q"
    using arg_cong [OF m, of set_mset] by auto
  have same: "closed_tiles b (st\<lparr>pq := q\<rparr>) = closed_tiles b st"
    "\<And>t. reached b ls (st\<lparr>pq := q\<rparr>) t = reached b ls st t"
    "g_cost (st\<lparr>pq := q\<rparr>) = g_cost st" "parent (st\<lparr>pq := q\<rparr>) = parent st"
    "closed (st\<lparr>pq := q\<rparr>) = closed st" "pq (st\<lparr>pq := q\<rparr>) = q"
    by (simp_all add: closed_tiles_def reached_def)
  have ok: "pq_ok node_f q" by (rule frontier.ok_pop [OF inv_pq_ok [OF inv] pop])
  have op: "(g_cost st (ix b u) + manh u lt, u) \<in> set q"
    if "in_grid b u" "reached b ls st u" "\<not> closed st (ix b u)" for u
    using sub(2) [OF inv_open [OF inv that]] that(3) cl by auto
  show ?thesis
    unfolding astar_inv_def same
  proof (intro conjI)
    show "pq_ok node_f q" by (rule ok)
    show "\<forall>(f, t) \<in> set q. in_grid b t \<and> reached b ls st t \<and> g_cost st (ix b t) + manh t lt \<le> f"
      using inv_pq [OF inv] sub(1) by auto
    show "\<forall>t. in_grid b t \<longrightarrow> reached b ls st t \<longrightarrow> \<not> closed st (ix b t) \<longrightarrow>
        (g_cost st (ix b t) + manh t lt, t) \<in> set q"
      using op by simp
  qed (insert inv [unfolded astar_inv_def], (elim conjE, assumption)+)
qed

text \<open>
  An open cell with the least estimate is closed with the length of a shortest walk: the first
  tile outside the closed set of any walk to it is in the frontier, with an estimate no larger
  than the walk's own, because the heuristic is consistent.
\<close>

lemma least_on_pop:
  assumes inv: "astar_inv obs b ls lt e (set dirs) st" and ls: "in_grid b ls"
    and pop: "pq_pop (pq st) = Some ((f, c), q)" and op: "\<not> closed st (ix b c)"
    and w: "walk (free_in obs b) n ls c"
  shows "g_cost st (ix b c) \<le> int n"
proof -
  have least: "f \<le> node_f y" if "y \<in> set (pq st)" for y
    using frontier.pop_least [OF inv_pq_ok [OF inv] pop, of y] that by simp
  have "(f, c) \<in> set (pq st)" using frontier.pop_member [OF pop] by simp
  then have cf: "g_cost st (ix b c) + manh c lt \<le> f" using inv_pq [OF inv] by blast
  have cc: "c \<notin> closed_tiles b st" using op by (simp add: closed_tiles_def)
  obtain i k v where v: "walk (free_in obs b) i ls v" "walk (free_in obs b) k v c" "i + k = n"
    "v \<notin> closed_tiles b st"
    "i = 0 \<and> v = ls \<or> (\<exists>u j. i = Suc j \<and> walk (free_in obs b) j ls u \<and> u \<in> closed_tiles b st
       \<and> step4 u v \<and> free_in obs b v)"
    by (rule walk_exit [OF w cc])
  have "in_grid b v \<and> reached b ls st v \<and> g_cost st (ix b v) \<le> int i"
    using v(5)
  proof
    assume "i = 0 \<and> v = ls"
    then show ?thesis using ls inv_start [OF inv] by (simp add: reached_def)
  next
    assume "\<exists>u j. i = Suc j \<and> walk (free_in obs b) j ls u \<and> u \<in> closed_tiles b st
       \<and> step4 u v \<and> free_in obs b v"
    then obtain u j where u: "i = Suc j" "walk (free_in obs b) j ls u" "u \<in> closed_tiles b st"
      "step4 u v" "free_in obs b v" by blast
    show ?thesis
      using inv_next_all [OF inv u(3,4,5)] inv_least [OF inv u(3,2)] u(1,5)
      by (simp add: free_in_def)
  qed
  then have r: "in_grid b v" "reached b ls st v" "g_cost st (ix b v) \<le> int i" by auto
  have "(g_cost st (ix b v) + manh v lt, v) \<in> set (pq st)"
    using inv_open [OF inv r(1,2)] v(4) r(1) by (simp add: closed_tiles_def)
  from least [OF this] have "f \<le> g_cost st (ix b v) + manh v lt" by simp
  moreover have "manh v lt \<le> int k + manh c lt" by (rule manh_walk [OF v(2)])
  ultimately show ?thesis using cf r(3) v(3) by linarith
qed

lemma inv_close:
  assumes inv: "astar_inv obs b ls lt e (set dirs) st" and ls: "in_grid b ls"
    and pop: "pq_pop (pq st) = Some ((f, c), q)" and op: "\<not> closed st (ix b c)"
  defines "st' \<equiv> st\<lparr>pq := q, closed := (closed st)(ix b c := True)\<rparr>"
  shows "astar_inv obs b ls lt c {} st'"
    and "closed_tiles b st' = insert c (closed_tiles b st)" and "c \<notin> closed_tiles b st"
proof -
  have m: "mset (pq st) = add_mset (f, c) (mset q)" by (rule frontier.pop_elems [OF pop])
  have sub: "set q \<subseteq> set (pq st)" "\<And>x. x \<in> set (pq st) \<Longrightarrow> x = (f, c) \<or> x \<in> set q"
    using arg_cong [OF m, of set_mset] by auto
  have "(f, c) \<in> set (pq st)" using frontier.pop_member [OF pop] by simp
  then have gc: "in_grid b c" "reached b ls st c" using inv_pq [OF inv] by auto
  show cc: "c \<notin> closed_tiles b st" using op by (simp add: closed_tiles_def)
  have cl: "closed st' (ix b t) \<longleftrightarrow> t = c \<or> closed st (ix b t)" if "in_grid b t" for t
    using ix_inj [OF that gc(1)] by (auto simp: st'_def)
  show ct: "closed_tiles b st' = insert c (closed_tiles b st)"
    using gc(1) cl by (auto simp: closed_tiles_def)
  have card: "card (insert c (closed_tiles b st)) = Suc (card (closed_tiles b st))"
    using cc by simp
  have same: "\<And>t. reached b ls st' t = reached b ls st t" "g_cost st' = g_cost st"
    "parent st' = parent st" "pq st' = q"
    by (simp_all add: st'_def reached_def)
  show "astar_inv obs b ls lt c {} st'"
    unfolding astar_inv_def same ct card
  proof (intro conjI)
    show "pq_ok node_f q" by (rule frontier.ok_pop [OF inv_pq_ok [OF inv] pop])
    show "\<forall>(f, t) \<in> set q. in_grid b t \<and> reached b ls st t \<and> g_cost st (ix b t) + manh t lt \<le> f"
      using inv_pq [OF inv] sub(1) by auto
    show "g_cost st (ix b ls) = 0" "parent st (ix b ls) = -1" by (rule inv_start [OF inv])+
    show "\<forall>t. in_grid b t \<longrightarrow> \<not> reached b ls st t \<longrightarrow>
        g_cost st (ix b t) = 1000000000 \<and> \<not> closed st' (ix b t)"
      using inv_unreached [OF inv] gc(2) cl by blast
    show "\<forall>t. in_grid b t \<longrightarrow> reached b ls st t \<longrightarrow> \<not> closed st' (ix b t) \<longrightarrow>
        (g_cost st (ix b t) + manh t lt, t) \<in> set q"
      using inv_open [OF inv] sub(2) cl by blast
    show "\<forall>t. in_grid b t \<longrightarrow> reached b ls st t \<longrightarrow> t \<noteq> ls \<longrightarrow>
        (\<exists>u. u \<in> insert c (closed_tiles b st) \<and> step4 u t \<and> free_in obs b t \<and> parent st (ix b t) = ix b u
           \<and> g_cost st (ix b t) = g_cost st (ix b u) + 1)"
      using inv_parent [OF inv] by blast
    show "\<forall>t. in_grid b t \<longrightarrow> reached b ls st t \<longrightarrow>
        0 \<le> g_cost st (ix b t) \<and> g_cost st (ix b t) \<le> int (Suc (card (closed_tiles b st)))"
      using inv_cost [OF inv] by (simp add: le_SucI) (meson add_increasing order_trans zero_le_one)
    show "\<forall>t \<in> insert c (closed_tiles b st). g_cost st (ix b t) < int (Suc (card (closed_tiles b st)))"
      using inv_cost [OF inv gc] inv_cost_closed [OF inv] by fastforce
    show "\<forall>u \<in> insert c (closed_tiles b st). \<forall>v. step4 u v \<longrightarrow> free_in obs b v \<longrightarrow>
        (u = c \<longrightarrow> (fst v - fst u, snd v - snd u) \<in> {}) \<longrightarrow>
        reached b ls st v \<and> g_cost st (ix b v) \<le> g_cost st (ix b u) + 1"
      using inv_next_all [OF inv] by (metis empty_iff insert_iff)
    show "\<forall>u \<in> insert c (closed_tiles b st). \<forall>n. walk (free_in obs b) n ls u \<longrightarrow> g_cost st (ix b u) \<le> int n"
      using inv_least [OF inv] least_on_pop [OF inv ls pop op] by auto
  qed
qed

text \<open>The loop ends, and what holds when it does.\<close>

lemma astar_loop_result:
  assumes "astar_inv obs b ls (ltx, lty) e (set dirs) st" "in_grid b ls"
    and "b_W b * b_H b < 1000000000" "(ltx, lty) \<notin> closed_tiles b st"
    and "length (pq st) + 4 * (nat (b_W b * b_H b) - card (closed_tiles b st)) < k"
  shows "\<exists>found st' e' D. astar_loop k obs b ltx lty st = Some (found, st')
    \<and> astar_inv obs b ls (ltx, lty) e' D st'
    \<and> (if found then (ltx, lty) \<in> closed_tiles b st'
       else D = set dirs \<and> pq st' = [] \<and> (ltx, lty) \<notin> closed_tiles b st')"
  using assms
proof (induction k arbitrary: st e)
  case 0
  then show ?case by simp
next
  case (Suc k)
  note inv = Suc.prems(1)
  show ?case
  proof (cases "pq_pop (pq st)")
    case None
    then have "pq st = []" by (cases "pq st") auto
    then have "astar_loop (Suc k) obs b ltx lty st = Some (False, st)" by simp
    then show ?thesis
      using Suc.prems(1,4) \<open>pq st = []\<close> by (intro exI [of _ False] exI [of _ st] exI [of _ e]) simp
  next
    case (Some p)
    obtain f cx cy q where p: "p = ((f, cx, cy), q)" by (cases p) auto
    note pop = Some [unfolded p]
    have len: "length (pq st) = Suc (length q)" using pop by (cases "pq st") auto
    have ci: "cidx b cx cy = ix b (cx, cy)" by (simp add: ix_def)
    show ?thesis
    proof (cases "closed st (ix b (cx, cy))")
      case True
      have "\<exists>found st' e' D. astar_loop k obs b ltx lty (st\<lparr>pq := q\<rparr>) = Some (found, st')
        \<and> astar_inv obs b ls (ltx, lty) e' D st'
        \<and> (if found then (ltx, lty) \<in> closed_tiles b st'
           else D = set dirs \<and> pq st' = [] \<and> (ltx, lty) \<notin> closed_tiles b st')"
        by (rule Suc.IH [OF inv_drop [OF inv pop True]])
           (use Suc.prems len in \<open>auto simp: closed_tiles_def\<close>)
      then show ?thesis using True by (simp add: pop ci)
    next
      case False
      let ?st1 = "st\<lparr>pq := q, closed := (closed st)(ix b (cx, cy) := True)\<rparr>"
      note cl = inv_close [OF inv Suc.prems(2) pop False]
      show ?thesis
      proof (cases "(cx, cy) = (ltx, lty)")
        case True
        then have "astar_loop (Suc k) obs b ltx lty st = Some (True, ?st1)"
          using False by (simp add: pop ix_def Let_def)
        then show ?thesis using cl(1,2) True
          by (intro exI [of _ True] exI [of _ ?st1] exI [of _ "(cx, cy)"] exI [of _ "{}"]) simp
      next
        case ne: False
        let ?st2 = "fold (relax obs b ltx lty cx cy) dirs ?st1"
        have "(cx, cy) \<in> closed_tiles b ?st1" by (simp add: cl(2))
        note ex = inv_expand [OF cl(1) Suc.prems(2) this Suc.prems(3)]
        have card: "card (closed_tiles b ?st1) = Suc (card (closed_tiles b st))"
          by (simp add: cl(2,3))
        have "card (closed_tiles b ?st1) \<le> nat (b_W b * b_H b)" by (rule card_closed)
        then have "length (pq ?st2) + 4 * (nat (b_W b * b_H b) - card (closed_tiles b ?st2)) < k"
          using ex(2,3) Suc.prems(5) len card by simp
        moreover have "(ltx, lty) \<notin> closed_tiles b ?st2"
          using ex(2) cl(2) Suc.prems(4) ne by auto
        ultimately have "\<exists>found st' e' D. astar_loop k obs b ltx lty ?st2 = Some (found, st')
          \<and> astar_inv obs b ls (ltx, lty) e' D st'
          \<and> (if found then (ltx, lty) \<in> closed_tiles b st'
             else D = set dirs \<and> pq st' = [] \<and> (ltx, lty) \<notin> closed_tiles b st')"
          using Suc.IH [OF ex(1) Suc.prems(2,3)] by blast
        moreover have "astar_loop (Suc k) obs b ltx lty st = astar_loop k obs b ltx lty ?st2"
          using False ne by (auto simp: pop ci Let_def)
        ultimately show ?thesis by simp
      qed
    qed
  qed
qed

text \<open>The walk back ends on the first tile after the start.\<close>

lemma backtrack_first:
  assumes inv: "astar_inv obs b ls lt c D st" and ls: "in_grid b ls"
    and t: "in_grid b t" "reached b ls st t" "t \<noteq> ls" and k: "nat (g_cost st (ix b t)) < k"
  shows "\<exists>r. backtrack k (parent st) (ix b ls) (ix b t) = Some (ix b r)
    \<and> in_grid b r \<and> step4 ls r \<and> free_in obs b r \<and> parent st (ix b r) = ix b ls
    \<and> walk (free_in obs b) (nat (g_cost st (ix b t)) - 1) r t \<and> 1 \<le> g_cost st (ix b t)"
  using t k
proof (induction k arbitrary: t)
  case (Suc k)
  obtain u where u: "u \<in> closed_tiles b st" "step4 u t" "free_in obs b t"
    "parent st (ix b t) = ix b u" "g_cost st (ix b t) = g_cost st (ix b u) + 1"
    using inv_parent [OF inv Suc.prems(1-3)] by blast
  have ug: "in_grid b u" "reached b ls st u"
    using u(1) inv_unreached [OF inv, of u] by (auto simp: closed_tiles_def)
  have nn: "0 \<le> g_cost st (ix b u)" using inv_cost [OF inv ug] by simp
  have k': "nat (g_cost st (ix b u)) < k" using Suc.prems(4) u(5) nn by linarith
  show ?case
  proof (cases "u = ls")
    case True
    then show ?thesis
      using u Suc.prems inv_start [OF inv] by (intro exI [of _ t]) (simp add: walk.here)
  next
    case False
    obtain r where r: "backtrack k (parent st) (ix b ls) (ix b u) = Some (ix b r)"
      "in_grid b r" "step4 ls r" "free_in obs b r" "parent st (ix b r) = ix b ls"
      "walk (free_in obs b) (nat (g_cost st (ix b u)) - 1) r u" "1 \<le> g_cost st (ix b u)"
      using Suc.IH [OF ug False] k' by blast
    have "Suc (nat (g_cost st (ix b u)) - 1) = nat (g_cost st (ix b t)) - 1"
      using u(5) r(7) by simp
    then have "walk (free_in obs b) (nat (g_cost st (ix b t)) - 1) r t"
      using walk.further [OF r(6) u(2,3)] by simp
    moreover have "backtrack (Suc k) (parent st) (ix b ls) (ix b t) = Some (ix b r)"
      using r(1) ix_inj [OF ug(1) ls] False ix_neq_none [OF ug(1)] by (simp add: u(4))
    ultimately show ?thesis using r u(5) by (intro exI [of _ r]) simp
  qed
qed simp

text \<open>With an empty frontier every tile a walk leads to is closed.\<close>

lemma all_closed:
  assumes inv: "astar_inv obs b ls lt c (set dirs) st" and "in_grid b ls" and "pq st = []"
    and "walk (free_in obs b) n a t" "a = ls"
  shows "t \<in> closed_tiles b st"
proof -
  have cl: "u \<in> closed_tiles b st" if "in_grid b u" "reached b ls st u" for u
    using inv_open [OF inv that] assms(3) that(1) by (auto simp: closed_tiles_def)
  show ?thesis using assms(4,5)
  proof (induction rule: walk.induct)
    case (here a)
    then show ?case using cl [of ls] assms(2) by (simp add: reached_def)
  next
    case (further n a u v)
    then show ?case
      using cl [of v] inv_next_all [OF inv, of u v] by (simp add: free_in_def)
  qed
qed

section \<open>The answer\<close>

lemma search_box_local:
  assumes "0 \<le> sx" "sx < WORLD_WIDTH" "0 \<le> sy" "sy < WORLD_HEIGHT"
    and "0 \<le> tx" "tx < WORLD_WIDTH" "0 \<le> ty" "ty < WORLD_HEIGHT"
  defines "b \<equiv> search_box sx sy tx ty"
  shows "in_grid b (sx - b_x0 b, sy - b_y0 b)" "in_grid b (tx - b_x0 b, ty - b_y0 b)"
    and "0 < b_W b" "b_W b \<le> 2000" "0 < b_H b" "b_H b \<le> 2000"
    and "0 \<le> b_x0 b" "b_x0 b + b_W b \<le> 2000" "0 \<le> b_y0 b" "b_y0 b + b_H b \<le> 2000"
  using assms by (auto simp: in_grid_def search_box_def Let_def)

text \<open>The search ends, and so does the walk back when the target was found.\<close>

lemma astar_search:
  fixes obs :: "int \<Rightarrow> int \<Rightarrow> bool"
  assumes "0 \<le> sx" "sx < WORLD_WIDTH" "0 \<le> sy" "sy < WORLD_HEIGHT"
    and "0 \<le> tx" "tx < WORLD_WIDTH" "0 \<le> ty" "ty < WORLD_HEIGHT" and ne: "(sx, sy) \<noteq> (tx, ty)"
  defines "b \<equiv> search_box sx sy tx ty"
  defines "ls \<equiv> (sx - b_x0 b, sy - b_y0 b)" and "lt \<equiv> (tx - b_x0 b, ty - b_y0 b)"
  obtains st where
    "astar_loop (astar_fuel b) obs b (fst lt) (snd lt) (astar_init b (fst ls) (snd ls) (fst lt) (snd lt))
       = Some (False, st)" "\<nexists>n. walk (free_in obs b) n ls lt"
  | st r n where
    "astar_loop (astar_fuel b) obs b (fst lt) (snd lt) (astar_init b (fst ls) (snd ls) (fst lt) (snd lt))
       = Some (True, st)"
    "backtrack (nat (b_W b * b_H b) + 1) (parent st) (ix b ls) (ix b lt) = Some (ix b r)"
    "parent st (ix b r) \<noteq> -1" "in_grid b r" "step4 ls r" "free_in obs b r"
    "walk (free_in obs b) n r lt" "\<forall>m. walk (free_in obs b) m ls lt \<longrightarrow> Suc n \<le> m"
proof -
  note box = search_box_local [OF assms(1-8), folded b_def, folded ls_def lt_def]
  have ne': "lt \<noteq> ls" using ne by (auto simp: ls_def lt_def)
  let ?N = "nat (b_W b * b_H b)"
  have "b_W b * b_H b \<le> 2000 * 2000" using box by (intro mult_mono) auto
  then have area: "b_W b * b_H b < 1000000000" by simp
  let ?st0 = "astar_init b (fst ls) (snd ls) (fst lt) (snd lt)"
  have inv0: "astar_inv obs b ls (fst lt, snd lt) ls (set dirs) ?st0"
    using inv_init [OF box(1), of obs lt ls "set dirs"] by simp
  have "closed_tiles b ?st0 = {}" "length (pq ?st0) = 1"
    by (simp_all add: closed_tiles_def astar_init_def)
  then have "(fst lt, snd lt) \<notin> closed_tiles b ?st0"
    "length (pq ?st0) + 4 * (?N - card (closed_tiles b ?st0)) < astar_fuel b"
    by (simp_all add: astar_fuel_def)
  from astar_loop_result [OF inv0 box(1) area this]
  obtain found st c D where loop:
    "astar_loop (astar_fuel b) obs b (fst lt) (snd lt) ?st0 = Some (found, st)"
    and inv: "astar_inv obs b ls lt c D st"
    and res: "if found then lt \<in> closed_tiles b st
      else D = set dirs \<and> pq st = [] \<and> lt \<notin> closed_tiles b st"
    unfolding prod.collapse by blast
  show thesis
  proof (cases found)
    case False
    then have "\<nexists>n. walk (free_in obs b) n ls lt"
      using all_closed [OF _ box(1) _ _ refl, of obs lt c st _ lt] inv res by auto
    then show thesis using False loop that(1) by simp
  next
    case True
    then have lt: "lt \<in> closed_tiles b st" using res by simp
    have lg: "reached b ls st lt" using inv_unreached [OF inv box(2)] lt by (auto simp: closed_tiles_def)
    have "nat (g_cost st (ix b lt)) < ?N + 1"
      using inv_cost [OF inv box(2) lg] card_closed [of b st] by linarith
    then obtain r where r: "backtrack (?N + 1) (parent st) (ix b ls) (ix b lt) = Some (ix b r)"
      "in_grid b r" "step4 ls r" "free_in obs b r" "parent st (ix b r) = ix b ls"
      "walk (free_in obs b) (nat (g_cost st (ix b lt)) - 1) r lt" "1 \<le> g_cost st (ix b lt)"
      using backtrack_first [OF inv box(1,2) lg ne'] by blast
    have "\<forall>m. walk (free_in obs b) m ls lt \<longrightarrow> Suc (nat (g_cost st (ix b lt)) - 1) \<le> m"
      using inv_least [OF inv lt] r(7) by fastforce
    then show thesis
      using that(2) [of st r "nat (g_cost st (ix b lt)) - 1"] True loop r ix_neq_none [OF box(1)]
      by simp
  qed
qed

text \<open>
  The answer as one statement: with \<open>walk\<close> over the free tiles of the box, either there is
  no way and the start comes back, or the answer is the first tile of a shortest one.
\<close>

lemma astar_answer:
  assumes "0 \<le> sx" "sx < WORLD_WIDTH" "0 \<le> sy" "sy < WORLD_HEIGHT"
    and "0 \<le> tx" "tx < WORLD_WIDTH" "0 \<le> ty" "ty < WORLD_HEIGHT" and ne: "(sx, sy) \<noteq> (tx, ty)"
  defines "b \<equiv> search_box sx sy tx ty"
  defines "ls \<equiv> (sx - b_x0 b, sy - b_y0 b)" and "lt \<equiv> (tx - b_x0 b, ty - b_y0 b)"
  shows "(\<nexists>n. walk (free_in obs b) n ls lt) \<and> astar_next_step obs sx sy tx ty = (sx, sy)
    \<or> (\<exists>r n. astar_next_step obs sx sy tx ty = (fst r + b_x0 b, snd r + b_y0 b)
        \<and> step4 ls r \<and> free_in obs b r \<and> walk (free_in obs b) n r lt
        \<and> (\<forall>m. walk (free_in obs b) m ls lt \<longrightarrow> Suc n \<le> m))"
proof -
  note box = search_box_local [OF assms(1-8), folded b_def, folded ls_def lt_def]
  note unfold = astar_next_step_def [of obs sx sy tx ty, folded b_def, unfolded Let_def]
  have fr: "fst ls = sx - b_x0 b" "snd ls = sy - b_y0 b" "fst lt = tx - b_x0 b" "snd lt = ty - b_y0 b"
    by (simp_all add: ls_def lt_def)
  show ?thesis
  proof (rule astar_search [OF assms(1-9), of obs, folded b_def, folded ls_def lt_def])
    fix st
    assume "astar_loop (astar_fuel b) obs b (fst lt) (snd lt)
      (astar_init b (fst ls) (snd ls) (fst lt) (snd lt)) = Some (False, st)"
      "\<nexists>n. walk (free_in obs b) n ls lt"
    then show ?thesis by (simp add: unfold fr)
  next
    fix st r n
    assume r: "astar_loop (astar_fuel b) obs b (fst lt) (snd lt)
      (astar_init b (fst ls) (snd ls) (fst lt) (snd lt)) = Some (True, st)"
      "backtrack (nat (b_W b * b_H b) + 1) (parent st) (ix b ls) (ix b lt) = Some (ix b r)"
      "parent st (ix b r) \<noteq> -1" "in_grid b r" "step4 ls r" "free_in obs b r"
      "walk (free_in obs b) n r lt" "\<forall>m. walk (free_in obs b) m ls lt \<longrightarrow> Suc n \<le> m"
    have "cmod (ix b r) (b_W b) = fst r" "cdiv (ix b r) (b_W b) = snd r"
      using r(4) box(3) ix_nonneg [OF r(4)]
      by (simp_all add: cmod_nonneg cdiv_nonneg ix_def cidx_def in_grid_def)
    then have "astar_next_step obs sx sy tx ty = (fst r + b_x0 b, snd r + b_y0 b)"
      using box(1,2) ne r(1-3) unfolding unfold
      by (auto simp: fr in_grid_def ix_def simp del: backtrack.simps)
    then show ?thesis using r by blast
  qed
qed

text \<open>The same on world coordinates.\<close>

definition box_free :: "(int \<Rightarrow> int \<Rightarrow> bool) \<Rightarrow> int \<times> int \<Rightarrow> int \<times> int \<Rightarrow> int \<times> int \<Rightarrow> bool" where
  "box_free obs s t p =
    (let b = search_box (fst s) (snd s) (fst t) (snd t) in
     b_x0 b \<le> fst p \<and> fst p < b_x0 b + b_W b \<and> b_y0 b \<le> snd p \<and> snd p < b_y0 b + b_H b
     \<and> \<not> obs (fst p) (snd p))"

definition in_world :: "int \<times> int \<Rightarrow> bool" where
  "in_world p \<longleftrightarrow> 0 \<le> fst p \<and> fst p < WORLD_WIDTH \<and> 0 \<le> snd p \<and> snd p < WORLD_HEIGHT"

lemma walk_shift:
  assumes "\<And>p. free p = free' (fst p + dx, snd p + dy)"
  shows "walk free n a c \<longleftrightarrow> walk free' n (fst a + dx, snd a + dy) (fst c + dx, snd c + dy)"
proof -
  have st: "step4 (fst a + dx, snd a + dy) (fst c + dx, snd c + dy) = step4 a c" for a c
    by (simp add: step4_def)
  have go: "walk free' n (fst a + dx, snd a + dy) (fst c + dx, snd c + dy)" if "walk free n a c" for a c
    using that
  proof (induction rule: walk.induct)
    case (further n a b c)
    show ?case by (rule walk.further [OF further(4)]) (use further in \<open>simp_all add: assms st\<close>)
  qed (rule walk.here)
  have bwd: "walk free n (fst a - dx, snd a - dy) (fst c - dx, snd c - dy)"
    if "walk free' n a c" for a c
    using that
  proof (induction rule: walk.induct)
    case (further n a b c)
    have "step4 (fst b - dx, snd b - dy) (fst c - dx, snd c - dy)"
      using further(2) by (simp add: step4_def)
    then show ?case by (rule walk.further [OF further(4)]) (simp add: assms further(3))
  qed (rule walk.here)
  show ?thesis using go bwd [of "(fst a + dx, snd a + dy)" "(fst c + dx, snd c + dy)"] by auto
qed

lemma astar_answer_world:
  fixes obs :: "int \<Rightarrow> int \<Rightarrow> bool"
  assumes "in_world s" "in_world t" and ne: "s \<noteq> t"
  defines "r \<equiv> astar_next_step obs (fst s) (snd s) (fst t) (snd t)"
  shows "(\<nexists>n. walk (box_free obs s t) n s t) \<and> r = s
    \<or> (\<exists>n. step4 s r \<and> box_free obs s t r \<and> walk (box_free obs s t) n r t
        \<and> (\<forall>m. walk (box_free obs s t) m s t \<longrightarrow> Suc n \<le> m))"
proof -
  let ?b = "search_box (fst s) (snd s) (fst t) (snd t)"
  let ?l = "\<lambda>p. (fst p - b_x0 ?b, snd p - b_y0 ?b)"
  have fr: "free_in obs ?b p = box_free obs s t (fst p + b_x0 ?b, snd p + b_y0 ?b)" for p
    by (auto simp: free_in_def in_grid_def box_free_def Let_def)
  have w: "walk (free_in obs ?b) n a c =
      walk (box_free obs s t) n (fst a + b_x0 ?b, snd a + b_y0 ?b) (fst c + b_x0 ?b, snd c + b_y0 ?b)"
    for n a c by (rule walk_shift) (rule fr)
  have st: "step4 (?l s) q = step4 s (fst q + b_x0 ?b, snd q + b_y0 ?b)" for q
    by (simp add: step4_def algebra_simps)
  have "(fst s, snd s) \<noteq> (fst t, snd t)" using ne by simp
  note astar_answer [OF _ _ _ _ _ _ _ _ this, of obs]
  then show ?thesis
    using assms(1,2) unfolding w in_world_def
    by (fastforce simp: st fr r_def)
qed

lemma step4_neq: "step4 a c \<Longrightarrow> c \<noteq> a"
  by (auto simp: step4_def dirs_def)

section \<open>Properties\<close>

text \<open>
  C16: when \<open>astar_next_step\<close> returns a tile other than the start, that tile is one step up,
  down, left or right of it, inside the search box and free of obstacles, and it begins a
  shortest way to the target: the rest of the way has some length \<open>n\<close>, and no way from the
  start has fewer than \<open>n + 1\<close> steps.
\<close>

theorem astar_shortest:
  assumes "in_world s" "in_world t"
    and "astar_next_step obs (fst s) (snd s) (fst t) (snd t) = r" "r \<noteq> s"
  shows "step4 s r \<and> box_free obs s t r
    \<and> (\<exists>n. walk (box_free obs s t) n r t \<and> (\<forall>m. walk (box_free obs s t) m s t \<longrightarrow> Suc n \<le> m))"
proof -
  have "s \<noteq> t" using assms(3,4) by (auto simp: astar_next_step_def)
  from astar_answer_world [OF assms(1,2) this, of obs] show ?thesis using assms(3,4) by auto
qed

theorem astar_shortest_witness:
  "step4 (1, 1) (1, 0) \<and> box_free (\<lambda>x y. x = 2 \<and> y \<noteq> 0) (1, 1) (3, 1) (1, 0)"
proof -
  have "astar_next_step (\<lambda>x y. x = 2 \<and> y \<noteq> 0) 1 1 3 1 = (1, 0)" by code_simp
  then show ?thesis
    using astar_shortest [of "(1, 1)" "(3, 1)" "\<lambda>x y. x = 2 \<and> y \<noteq> 0" "(1, 0)"]
    by (simp add: in_world_def)
qed

text \<open>
  C17: \<open>astar_next_step\<close> moves off the start if and only if some way through the free tiles
  of its box leads from the start to the target (the target's own tile included, so a target on
  an obstacle is never approached).
\<close>

theorem astar_complete:
  assumes "in_world s" "in_world t" "s \<noteq> t"
  shows "astar_next_step obs (fst s) (snd s) (fst t) (snd t) \<noteq> s
    \<longleftrightarrow> (\<exists>n. walk (box_free obs s t) n s t)"
  using astar_answer_world [OF assms, of obs] walk_Cons step4_neq by metis

theorem astar_complete_witness:
  "\<nexists>n. walk (box_free (\<lambda>x y. True) (0, 0) (1, 0)) n (0, 0) (1, 0)"
proof -
  have "astar_next_step (\<lambda>x y. True) 0 0 1 0 = (0, 0)" by code_simp
  then show ?thesis
    using astar_complete [of "(0, 0)" "(1, 0)" "\<lambda>x y. True"] by (simp add: in_world_def)
qed

text \<open>
  for tiles of the world the search loop stops within \<open>4 * N + 2\<close> iterations on a box of
  \<open>N\<close> cells, and when it found the target the walk back over the parents stops within
  \<open>N + 1\<close> steps: the fuel of the model never runs out, so the C++ loops end.
\<close>

theorem astar_terminates:
  assumes "in_world s" "in_world t" "s \<noteq> t"
  defines "b \<equiv> search_box (fst s) (snd s) (fst t) (snd t)"
  shows "\<exists>found st. astar_loop (astar_fuel b) obs b (fst t - b_x0 b) (snd t - b_y0 b)
      (astar_init b (fst s - b_x0 b) (snd s - b_y0 b) (fst t - b_x0 b) (snd t - b_y0 b)) = Some (found, st)
    \<and> (found \<longrightarrow> (\<exists>cur. backtrack (nat (b_W b * b_H b) + 1) (parent st)
        (cidx b (fst s - b_x0 b) (snd s - b_y0 b)) (cidx b (fst t - b_x0 b) (snd t - b_y0 b)) = Some cur))"
proof -
  have w: "0 \<le> fst s" "fst s < WORLD_WIDTH" "0 \<le> snd s" "snd s < WORLD_HEIGHT"
    "0 \<le> fst t" "fst t < WORLD_WIDTH" "0 \<le> snd t" "snd t < WORLD_HEIGHT"
    "(fst s, snd s) \<noteq> (fst t, snd t)"
    using assms(1-3) by (simp_all add: in_world_def)
  show ?thesis
    by (rule astar_search [OF w, of obs, folded b_def]) (auto simp: ix_def)
qed

theorem astar_terminates_witness:
  "astar_loop (astar_fuel (search_box 0 0 1 0)) (\<lambda>x y. True) (search_box 0 0 1 0) 1 0
     (astar_init (search_box 0 0 1 0) 0 0 1 0) \<noteq> None"
  using astar_terminates [of "(0, 0)" "(1, 0)" "\<lambda>x y. True"]
  by (auto simp: in_world_def search_box_def)

end
