(* ===== verification/Sectors.thy ===== *)
theory Sectors
  imports Prelude
begin

text \<open>
  \<open>SERVER/sector.h\<close> with the sector macros of \<open>globals.h\<close>: the world is cut into
  squares of 11 tiles, each with the set of the ids inside it. The array of sectors is a
  function from the sector id. \<open>short\<close> coordinates are \<^typ>\<open>int\<close>s, division is the
  source's.

  The interface the rest of the server uses is the locale \<open>spatial_index\<close>: the grid follows
  a partial map from ids to positions, and a query around a tile returns every id within 11
  tiles, none twice and none farther than 21.
\<close>

section \<open>The grid\<close>

abbreviation (input) SECTOR_SIZE :: int where "SECTOR_SIZE \<equiv> 11"
abbreviation (input) MAX_SECTORS_X :: int where "MAX_SECTORS_X \<equiv> 182"
abbreviation (input) MAX_SECTORS_Y :: int where "MAX_SECTORS_Y \<equiv> 182"

type_synonym sectors = "int \<Rightarrow> uset"

definition SECTOR_X :: "int \<Rightarrow> int" where
  "SECTOR_X x = cdiv x SECTOR_SIZE"

definition SECTOR_Y :: "int \<Rightarrow> int" where
  "SECTOR_Y y = cdiv y SECTOR_SIZE"

definition SECTOR_ID :: "int \<Rightarrow> int \<Rightarrow> int" where
  "SECTOR_ID sx sy = sy * MAX_SECTORS_X + sx"

definition sector_id :: "int \<Rightarrow> int \<Rightarrow> int" where
  "sector_id x y = SECTOR_ID (SECTOR_X x) (SECTOR_Y y)"

definition empty_sectors :: sectors where
  "empty_sectors = (\<lambda>_. [])"

definition add_object_to_sector :: "int \<Rightarrow> int \<Rightarrow> int \<Rightarrow> sectors \<Rightarrow> sectors" where
  "add_object_to_sector object_id x y ss =
    ss(sector_id x y := us_insert object_id (ss (sector_id x y)))"

definition remove_object_from_sector :: "int \<Rightarrow> int \<Rightarrow> int \<Rightarrow> sectors \<Rightarrow> sectors" where
  "remove_object_from_sector object_id x y ss =
    ss(sector_id x y := us_erase object_id (ss (sector_id x y)))"

definition update_object_sector :: "int \<Rightarrow> int \<Rightarrow> int \<Rightarrow> int \<Rightarrow> int \<Rightarrow> sectors \<Rightarrow> sectors" where
  "update_object_sector object_id old_x old_y new_x new_y ss =
    (let old_sid = sector_id old_x old_y; new_sid = sector_id new_x new_y in
     if old_sid = new_sid then ss
     else let ss1 = ss(old_sid := us_erase object_id (ss old_sid)) in
       ss1(new_sid := us_insert object_id (ss1 new_sid)))"

text \<open>The two nested loops over \<open>dy\<close> and \<open>dx\<close>, as the list of the sector ids visited.\<close>

definition adjacent_sectors :: "int \<Rightarrow> int \<Rightarrow> int list" where
  "adjacent_sectors x y =
    (let sx = SECTOR_X x; sy = SECTOR_Y y in
     [SECTOR_ID (sx + dx) (sy + dy). dy \<leftarrow> [-1, 0, 1], dx \<leftarrow> [-1, 0, 1],
        \<not> (sx + dx < 0 \<or> sx + dx \<ge> MAX_SECTORS_X \<or> sy + dy < 0 \<or> sy + dy \<ge> MAX_SECTORS_Y)])"

definition get_objects_in_adjacent_sectors :: "int \<Rightarrow> int \<Rightarrow> sectors \<Rightarrow> int list" where
  "get_objects_in_adjacent_sectors x y ss = concat (map ss (adjacent_sectors x y))"

section \<open>The interface\<close>

definition tile :: "int \<Rightarrow> int \<Rightarrow> bool" where
  "tile x y \<longleftrightarrow> 0 \<le> x \<and> x < WORLD_WIDTH \<and> 0 \<le> y \<and> y < WORLD_HEIGHT"

definition within :: "int \<Rightarrow> int \<Rightarrow> int \<Rightarrow> (int \<rightharpoonup> int \<times> int) \<Rightarrow> int \<Rightarrow> bool" where
  "within r x y pos i \<longleftrightarrow>
    (case pos i of None \<Rightarrow> False | Some (ox, oy) \<Rightarrow> \<bar>ox - x\<bar> \<le> r \<and> \<bar>oy - y\<bar> \<le> r)"

locale spatial_index =
  fixes add :: "int \<Rightarrow> int \<Rightarrow> int \<Rightarrow> 'g \<Rightarrow> 'g"
    and remove :: "int \<Rightarrow> int \<Rightarrow> int \<Rightarrow> 'g \<Rightarrow> 'g"
    and move :: "int \<Rightarrow> int \<Rightarrow> int \<Rightarrow> int \<Rightarrow> int \<Rightarrow> 'g \<Rightarrow> 'g"
    and near :: "int \<Rightarrow> int \<Rightarrow> 'g \<Rightarrow> int list"
    and tracks :: "'g \<Rightarrow> (int \<rightharpoonup> int \<times> int) \<Rightarrow> bool"
    and radius :: int
    and outer :: int
  assumes tracks_tile: "tracks g pos \<Longrightarrow> pos i = Some (x, y) \<Longrightarrow> tile x y"
    and tracks_add: "tracks g pos \<Longrightarrow> tile x y \<Longrightarrow> pos i = None \<Longrightarrow> tracks (add i x y g) (pos(i \<mapsto> (x, y)))"
    and tracks_remove: "tracks g pos \<Longrightarrow> pos i = Some (x, y) \<Longrightarrow> tracks (remove i x y g) (pos(i := None))"
    and tracks_move: "tracks g pos \<Longrightarrow> pos i = Some (ox, oy) \<Longrightarrow> tile x y \<Longrightarrow>
      tracks (move i ox oy x y g) (pos(i \<mapsto> (x, y)))"
    and near_complete: "tracks g pos \<Longrightarrow> tile x y \<Longrightarrow> pos i = Some (ox, oy) \<Longrightarrow>
      \<bar>ox - x\<bar> \<le> radius \<Longrightarrow> \<bar>oy - y\<bar> \<le> radius \<Longrightarrow> i \<in> set (near x y g)"
    and near_sound: "tracks g pos \<Longrightarrow> tile x y \<Longrightarrow> i \<in> set (near x y g) \<Longrightarrow>
      \<exists>ox oy. pos i = Some (ox, oy) \<and> \<bar>ox - x\<bar> \<le> outer \<and> \<bar>oy - y\<bar> \<le> outer"
    and near_distinct: "tracks g pos \<Longrightarrow> tile x y \<Longrightarrow> distinct (near x y g)"
begin

text \<open>Filtering a query by a distance the grid covers finds exactly the objects in range.\<close>

lemma query_exact:
  assumes "tracks g pos" "tile x y" "r \<le> radius"
  shows "set (filter (within r x y pos) (near x y g)) = {i. within r x y pos i}"
  using near_complete [OF assms(1,2)] assms(3)
  by (force simp: within_def split: option.splits)

lemma query_distinct:
  "tracks g pos \<Longrightarrow> tile x y \<Longrightarrow> distinct (filter p (near x y g))"
  by (simp add: near_distinct)

text \<open>A moved object is found around its new tile, and by no query far from it.\<close>

lemma near_after_move:
  assumes "tracks g pos" "pos i = Some (ox, oy)" "tile x y" "0 \<le> radius"
  shows "i \<in> set (near x y (move i ox oy x y g))"
  using near_complete [OF tracks_move [OF assms(1-3)] assms(3), of i x y] assms(4) by simp

lemma not_near_after_move:
  assumes "tracks g pos" "pos i = Some (ox, oy)" "tile x y" "tile u v" "outer < \<bar>x - u\<bar> \<or> outer < \<bar>y - v\<bar>"
  shows "i \<notin> set (near u v (move i ox oy x y g))"
  using near_sound [OF tracks_move [OF assms(1-3)] assms(4), of i] assms(5) by auto

lemma not_near_after_remove:
  assumes "tracks g pos" "pos i = Some (ox, oy)" "tile u v"
  shows "i \<notin> set (near u v (remove i ox oy g))"
  using near_sound [OF tracks_remove [OF assms(1,2)] assms(3), of i] by auto

end

section \<open>The grid implements it\<close>

definition sectors_track :: "sectors \<Rightarrow> (int \<rightharpoonup> int \<times> int) \<Rightarrow> bool" where
  "sectors_track ss pos \<longleftrightarrow>
    (\<forall>i x y. pos i = Some (x, y) \<longrightarrow> tile x y)
    \<and> (\<forall>s. distinct (ss s))
    \<and> (\<forall>s i. i \<in> set (ss s) \<longleftrightarrow> (\<exists>x y. pos i = Some (x, y) \<and> sector_id x y = s))"

lemma sector_xy:
  assumes "tile x y"
  shows "SECTOR_X x = x div 11" "SECTOR_Y y = y div 11"
    and "0 \<le> x div 11" "x div 11 < 182" "0 \<le> y div 11" "y div 11 < 182"
proof -
  have b: "0 \<le> x" "x < 2000" "0 \<le> y" "y < 2000" using assms by (simp_all add: tile_def)
  show "SECTOR_X x = x div 11" "SECTOR_Y y = y div 11"
    using b by (simp_all add: SECTOR_X_def SECTOR_Y_def cdiv_nonneg)
  show "0 \<le> x div 11" "x div 11 < 182" "0 \<le> y div 11" "y div 11 < 182"
    using b by linarith+
qed

lemma SECTOR_ID_inj:
  assumes "0 \<le> a" "a < MAX_SECTORS_X" "0 \<le> c" "c < MAX_SECTORS_X"
  shows "SECTOR_ID a b = SECTOR_ID c d \<longleftrightarrow> a = c \<and> b = d"
proof
  assume eq: "SECTOR_ID a b = SECTOR_ID c d"
  have "a = SECTOR_ID a b mod 182" "b = SECTOR_ID a b div 182"
    "c = SECTOR_ID c d mod 182" "d = SECTOR_ID c d div 182"
    using assms by (simp_all add: SECTOR_ID_def)
  with eq show "a = c \<and> b = d" by metis
qed simp

lemma SECTOR_ID_shift:
  assumes "0 \<le> a" "a < 182" "0 \<le> b" "b < 182"
  shows "(\<not> (c < 0 \<or> c \<ge> 182 \<or> d < 0 \<or> d \<ge> 182) \<and> SECTOR_ID a b = SECTOR_ID c d) = (a = c \<and> b = d)"
  using assms SECTOR_ID_inj [OF assms(1,2), of c b d] by auto

lemma offsets_one:
  fixes p q r s :: int
  shows "(\<exists>dy \<in> {-1, 0, 1}. \<exists>dx \<in> {-1, 0, 1}. p = q + dx \<and> r = s + dy)
    \<longleftrightarrow> \<bar>p - q\<bar> \<le> 1 \<and> \<bar>r - s\<bar> \<le> 1"
proof -
  have one: "\<bar>a - b\<bar> \<le> 1 \<longleftrightarrow> a = b + -1 \<or> a = b + 0 \<or> a = b + 1" for a b :: int by arith
  show ?thesis unfolding one by blast
qed

lemma sector_id_range: "tile x y \<Longrightarrow> 0 \<le> sector_id x y \<and> sector_id x y < MAX_SECTORS_X * MAX_SECTORS_Y"
  using sector_xy [of x y] by (simp add: sector_id_def SECTOR_ID_def)

lemma adjacent_iff:
  assumes "tile x y" "tile u v"
  shows "sector_id u v \<in> set (adjacent_sectors x y) \<longleftrightarrow>
    \<bar>u div 11 - x div 11\<bar> \<le> 1 \<and> \<bar>v div 11 - y div 11\<bar> \<le> 1"
proof -
  note xy = sector_xy [OF assms(1)] and uv = sector_xy [OF assms(2)]
  have "sector_id u v \<in> set (adjacent_sectors x y) \<longleftrightarrow>
    (\<exists>dy \<in> {-1, 0, 1}. \<exists>dx \<in> {-1, 0, 1}.
       \<not> (x div 11 + dx < 0 \<or> x div 11 + dx \<ge> 182 \<or> y div 11 + dy < 0 \<or> y div 11 + dy \<ge> 182)
       \<and> SECTOR_ID (u div 11) (v div 11) = SECTOR_ID (x div 11 + dx) (y div 11 + dy))"
    unfolding adjacent_sectors_def sector_id_def Let_def xy(1,2) uv(1,2) set_nested_loops
    by simp
  also have "\<dots> \<longleftrightarrow> (\<exists>dy \<in> {-1, 0, 1}. \<exists>dx \<in> {-1, 0, 1}.
       u div 11 = x div 11 + dx \<and> v div 11 = y div 11 + dy)"
    by (simp only: SECTOR_ID_shift [OF uv(3-6)])
  also have "\<dots> \<longleftrightarrow> \<bar>u div 11 - x div 11\<bar> \<le> 1 \<and> \<bar>v div 11 - y div 11\<bar> \<le> 1"
    by (rule offsets_one)
  finally show ?thesis .
qed

lemma distinct_adjacent: "tile x y \<Longrightarrow> distinct (adjacent_sectors x y)"
  unfolding adjacent_sectors_def Let_def
  by (rule distinct_nested_loops) (use SECTOR_ID_inj in \<open>fastforce+\<close>)

lemma sectors_track_empty: "sectors_track empty_sectors Map.empty"
  by (simp add: sectors_track_def empty_sectors_def)

interpretation grid: spatial_index add_object_to_sector remove_object_from_sector
  update_object_sector get_objects_in_adjacent_sectors sectors_track 11 21
proof
  fix g :: sectors and pos i x y ox oy
  show "sectors_track g pos \<Longrightarrow> pos i = Some (x, y) \<Longrightarrow> tile x y"
    by (simp add: sectors_track_def)
  show "sectors_track g pos \<Longrightarrow> tile x y \<Longrightarrow> pos i = None \<Longrightarrow>
      sectors_track (add_object_to_sector i x y g) (pos(i \<mapsto> (x, y)))"
    by (auto simp: sectors_track_def add_object_to_sector_def)
  show "sectors_track g pos \<Longrightarrow> pos i = Some (x, y) \<Longrightarrow>
      sectors_track (remove_object_from_sector i x y g) (pos(i := None))"
    by (auto simp: sectors_track_def remove_object_from_sector_def)
  show "sectors_track g pos \<Longrightarrow> pos i = Some (ox, oy) \<Longrightarrow> tile x y \<Longrightarrow>
      sectors_track (update_object_sector i ox oy x y g) (pos(i \<mapsto> (x, y)))"
    by (auto simp: sectors_track_def update_object_sector_def Let_def)
  have mem: "i \<in> set (get_objects_in_adjacent_sectors x y g) \<longleftrightarrow>
      (\<exists>ox oy. pos i = Some (ox, oy) \<and> \<bar>ox div 11 - x div 11\<bar> \<le> 1 \<and> \<bar>oy div 11 - y div 11\<bar> \<le> 1)"
    if "sectors_track g pos" "tile x y"
    using that adjacent_iff [OF that(2)]
    by (fastforce simp: get_objects_in_adjacent_sectors_def sectors_track_def)
  show "i \<in> set (get_objects_in_adjacent_sectors x y g)"
    if h: "sectors_track g pos" "tile x y" "pos i = Some (ox, oy)" "\<bar>ox - x\<bar> \<le> 11" "\<bar>oy - y\<bar> \<le> 11"
  proof -
    have "\<bar>ox div 11 - x div 11\<bar> \<le> 1" "\<bar>oy div 11 - y div 11\<bar> \<le> 1" using h(4,5) by linarith+
    then show ?thesis using mem [OF h(1,2)] h(3) by blast
  qed
  show "\<exists>ox oy. pos i = Some (ox, oy) \<and> \<bar>ox - x\<bar> \<le> 21 \<and> \<bar>oy - y\<bar> \<le> 21"
    if h: "sectors_track g pos" "tile x y" "i \<in> set (get_objects_in_adjacent_sectors x y g)"
  proof -
    obtain ox oy where o: "pos i = Some (ox, oy)" "\<bar>ox div 11 - x div 11\<bar> \<le> 1" "\<bar>oy div 11 - y div 11\<bar> \<le> 1"
      using mem [OF h(1,2)] h(3) by blast
    have "\<bar>ox - x\<bar> \<le> 21" "\<bar>oy - y\<bar> \<le> 21" using o(2,3) by linarith+
    then show ?thesis using o(1) by blast
  qed
  show "distinct (get_objects_in_adjacent_sectors x y g)" if h: "sectors_track g pos" "tile x y"
    unfolding get_objects_in_adjacent_sectors_def
    by (rule distinct_concat_map [OF distinct_adjacent [OF h(2)]])
       (use h(1) in \<open>fastforce simp: sectors_track_def\<close>)+
qed

text \<open>The grid restricted to some of its ids.\<close>

definition only :: "(int \<Rightarrow> bool) \<Rightarrow> sectors \<Rightarrow> sectors" where
  "only P ss = (\<lambda>s. filter P (ss s))"

lemma near_only: "get_objects_in_adjacent_sectors x y (only P ss) = filter P (get_objects_in_adjacent_sectors x y ss)"
  by (simp add: get_objects_in_adjacent_sectors_def only_def filter_concat comp_def)

lemma only_remove: "only P (remove_object_from_sector i x y ss) = remove_object_from_sector i x y (only P ss)"
  by (auto simp: only_def remove_object_from_sector_def us_erase_def fun_eq_iff intro: filter_cong)

lemma only_add: "P i \<Longrightarrow> only P (add_object_to_sector i x y ss) = add_object_to_sector i x y (only P ss)"
  by (auto simp: only_def add_object_to_sector_def us_insert_def fun_eq_iff)

lemma only_add_other: "\<not> P i \<Longrightarrow> only P (add_object_to_sector i x y ss) = only P ss"
  by (auto simp: only_def add_object_to_sector_def us_insert_def fun_eq_iff)

lemma only_remove_other: "\<not> P i \<Longrightarrow> only P (remove_object_from_sector i x y ss) = only P ss"
  by (auto simp: only_def remove_object_from_sector_def us_erase_def fun_eq_iff intro: filter_cong)

lemma update_sector_alt:
  "update_object_sector i ox oy x y ss =
    (if sector_id ox oy = sector_id x y then ss
     else add_object_to_sector i x y (remove_object_from_sector i ox oy ss))"
  by (simp add: update_object_sector_def add_object_to_sector_def remove_object_from_sector_def Let_def)

lemma only_update: "P i \<Longrightarrow> only P (update_object_sector i ox oy x y ss) = update_object_sector i ox oy x y (only P ss)"
  by (simp add: update_sector_alt only_add only_remove)

lemma only_update_other: "\<not> P i \<Longrightarrow> only P (update_object_sector i ox oy x y ss) = only P ss"
  by (simp add: update_sector_alt only_add_other only_remove_other)

text \<open>A call adds no other id than its own.\<close>

lemma in_sector:
  "i \<in> set (add_object_to_sector k x y ss s) \<Longrightarrow> i = k \<or> i \<in> set (ss s)"
  "i \<in> set (remove_object_from_sector k x y ss s) \<Longrightarrow> i \<in> set (ss s)"
  "i \<in> set (update_object_sector k ox oy x y ss s) \<Longrightarrow> i = k \<or> i \<in> set (ss s)"
  by (auto simp: add_object_to_sector_def remove_object_from_sector_def update_sector_alt split: if_splits)

section \<open>Histories of the grid\<close>

text \<open>
  The calls the server makes on the grid, the positions they stand for, and when a call is made
  the way the grid expects it: a new id enters, a known one leaves from or moves off the tile
  it is on.
\<close>

datatype grid_call =
    Enter int int int
  | Leave int int int
  | Shift int int int int int

fun grid_step :: "grid_call \<Rightarrow> sectors \<Rightarrow> sectors" where
  "grid_step (Enter i x y) ss = add_object_to_sector i x y ss"
| "grid_step (Leave i x y) ss = remove_object_from_sector i x y ss"
| "grid_step (Shift i ox oy x y) ss = update_object_sector i ox oy x y ss"

fun pos_step :: "grid_call \<Rightarrow> (int \<rightharpoonup> int \<times> int) \<Rightarrow> (int \<rightharpoonup> int \<times> int)" where
  "pos_step (Enter i x y) pos = pos(i \<mapsto> (x, y))"
| "pos_step (Leave i x y) pos = pos(i := None)"
| "pos_step (Shift i ox oy x y) pos = pos(i \<mapsto> (x, y))"

fun call_ok :: "grid_call \<Rightarrow> (int \<rightharpoonup> int \<times> int) \<Rightarrow> bool" where
  "call_ok (Enter i x y) pos \<longleftrightarrow> tile x y \<and> pos i = None"
| "call_ok (Leave i x y) pos \<longleftrightarrow> pos i = Some (x, y)"
| "call_ok (Shift i ox oy x y) pos \<longleftrightarrow> pos i = Some (ox, oy) \<and> tile x y"

fun calls_ok :: "grid_call list \<Rightarrow> (int \<rightharpoonup> int \<times> int) \<Rightarrow> bool" where
  "calls_ok [] pos \<longleftrightarrow> True"
| "calls_ok (c # cs) pos \<longleftrightarrow> call_ok c pos \<and> calls_ok cs (pos_step c pos)"

lemma grid_step_track:
  "sectors_track ss pos \<Longrightarrow> call_ok c pos \<Longrightarrow> sectors_track (grid_step c ss) (pos_step c pos)"
  by (cases c) (auto intro: grid.tracks_add grid.tracks_remove grid.tracks_move)

lemma grid_run_track:
  "sectors_track ss pos \<Longrightarrow> calls_ok cs pos \<Longrightarrow>
    sectors_track (fold grid_step cs ss) (fold pos_step cs pos)"
  by (induction cs arbitrary: ss pos) (auto intro: grid_step_track)

section \<open>Properties\<close>

text \<open>
  C20: after any history of calls on the empty grid in which ids enter new and leave or move from
  the tile they are on, a query around a tile filtered by the 5-tile view range (as
  \<open>update_player_view\<close> does) finds exactly the ids whose position is in view, and the query
  lists no id twice.
\<close>

theorem sector_view_exact:
  assumes "calls_ok cs Map.empty" "tile x y"
  defines "ss \<equiv> fold grid_step cs empty_sectors" and "pos \<equiv> fold pos_step cs Map.empty"
  shows "set (filter (within VIEW_RANGE x y pos) (get_objects_in_adjacent_sectors x y ss))
      = {i. within VIEW_RANGE x y pos i}
    \<and> distinct (get_objects_in_adjacent_sectors x y ss)"
proof -
  have "sectors_track ss pos"
    unfolding ss_def pos_def by (rule grid_run_track [OF sectors_track_empty assms(1)])
  then show ?thesis
    using grid.query_exact [OF _ assms(2), of ss pos VIEW_RANGE] grid.near_distinct assms(2) by simp
qed

theorem sector_view_exact_witness:
  "set (filter (within VIEW_RANGE 1000 100 [7 \<mapsto> (1004, 104)])
     (get_objects_in_adjacent_sectors 1000 100
        (grid_step (Shift 7 1003 104 1004 104) (grid_step (Enter 7 1003 104) empty_sectors))))
   = {i. within VIEW_RANGE 1000 100 [7 \<mapsto> (1004, 104)] i}"
  using sector_view_exact [of "[Enter 7 1003 104, Shift 7 1003 104 1004 104]" 1000 100]
  by (simp add: tile_def)

text \<open>
  the 3 by 3 sectors of a query cover every id up to 11 tiles away (so the view range of 5
  and the 10-tile detection of aggressive NPCs), and nothing farther than 21 tiles.
\<close>

theorem sector_query_range:
  assumes "sectors_track ss pos" "tile x y"
  shows "{i. within 11 x y pos i} \<subseteq> set (get_objects_in_adjacent_sectors x y ss)
    \<and> set (get_objects_in_adjacent_sectors x y ss) \<subseteq> {i. within 21 x y pos i}"
  using grid.near_complete [OF assms] grid.near_sound [OF assms]
  by (force simp: within_def split: option.splits)

theorem sector_query_range_witness:
  "set (get_objects_in_adjacent_sectors 1000 100 empty_sectors) \<subseteq> {i. within 21 1000 100 Map.empty i}"
  using sector_query_range [OF sectors_track_empty, of 1000 100] by (simp add: tile_def)

text \<open>
  \<open>BOSS_DETECT_RANGE\<close> (15) is more than a query covers: a player 12 tiles from a boss can
  be absent from the ids the boss looks through.
\<close>

theorem sector_misses_boss_range:
  "\<exists>ss pos. sectors_track ss pos \<and> within BOSS_DETECT_RANGE 1000 1000 pos 7
     \<and> 7 \<notin> set (get_objects_in_adjacent_sectors 1000 1000 ss)"
proof (intro exI conjI)
  let ?ss = "grid_step (Enter 7 1012 1000) empty_sectors" and ?pos = "[7 \<mapsto> (1012, 1000)]"
  show "sectors_track ?ss ?pos"
    using grid_run_track [OF sectors_track_empty, of "[Enter 7 1012 1000]"] by (simp add: tile_def)
  show "within BOSS_DETECT_RANGE 1000 1000 ?pos 7" by (simp add: within_def)
  show "7 \<notin> set (get_objects_in_adjacent_sectors 1000 1000 ?ss)" by code_simp
qed

end
