(* ===== verification/Messages.thy ===== *)
theory Messages
  imports Prelude
begin

text \<open>
  The text the server formats with \<open>sprintf_s\<close> into \<open>char[MAX_CHAT_LEN]\<close> arrays and
  sends as chat from "System" (\<open>SERVER/session.cpp\<close>). The sources are UTF-8 and compiled with
  \<open>/utf-8\<close>, so a Korean literal is the UTF-8 bytes of its characters. \<open>sprintf_s\<close>
  ends the process when its text does not fit, so each message has a lemma bounding its length
  by the array's 127 characters.
\<close>

section \<open>Formatting\<close>

definition utf8 :: "int \<Rightarrow> byte list" where
  "utf8 c =
    (if c < 128 then [word_of_int c]
     else if c < 2048 then [word_of_int (192 + c div 64), word_of_int (128 + c mod 64)]
     else [word_of_int (224 + c div 4096), word_of_int (128 + c div 64 mod 64),
           word_of_int (128 + c mod 64)])"

fun digits :: "nat \<Rightarrow> byte list" where
  "digits n = (if n < 10 then [of_nat (48 + n)] else digits (n div 10) @ [of_nat (48 + n mod 10)])"

declare digits.simps [simp del]

definition dec_int :: "int \<Rightarrow> byte list" where
  "dec_int i = (if i < 0 then 45 # digits (nat (- i)) else digits (nat i))"

datatype piece = Lit string | Han "int list" | Str "byte list" | Dec int

fun piece_bytes :: "piece \<Rightarrow> byte list" where
  "piece_bytes (Lit s) = bytes_of s"
| "piece_bytes (Han cs) = concat (map utf8 cs)"
| "piece_bytes (Str bs) = bs"
| "piece_bytes (Dec i) = dec_int i"

definition sprintf :: "piece list \<Rightarrow> byte list" where
  "sprintf ps = concat (map piece_bytes ps)"

section \<open>The messages\<close>

text \<open>Combat: the prefix distinguishes the attack, the skill and the ranged attack.\<close>

definition msg_kill :: "string \<Rightarrow> byte list \<Rightarrow> int \<Rightarrow> int \<Rightarrow> int \<Rightarrow> int \<Rightarrow> byte list" where
  "msg_kill prefix name gain lv xp nx =
    sprintf [Lit prefix, Str name, Lit '' '', Han [52376, 52824], Lit ''! +'', Dec gain,
      Lit '' XP (Lv.'', Dec lv, Lit '', XP:'', Dec xp, Lit ''/'', Dec nx, Lit '')'']"

text \<open>Item use, one message per item, and the pick-up message with its table of names.\<close>

definition msg_hp_potion :: "int \<Rightarrow> int \<Rightarrow> byte list" where
  "msg_hp_potion hp mhp = sprintf [Lit ''HP '', Han [54252, 49496], Lit '' '',
    Han [49324, 50857], Lit ''! HP '', Dec hp, Lit ''/'', Dec mhp]"

definition msg_hi_potion :: "int \<Rightarrow> int \<Rightarrow> byte list" where
  "msg_hi_potion hp mhp = sprintf [Han [45824, 54805], Lit '' HP '', Han [54252, 49496], Lit '' '',
    Han [49324, 50857], Lit ''! HP '', Dec hp, Lit ''/'', Dec mhp]"

definition msg_elixir :: "int \<Rightarrow> int \<Rightarrow> byte list" where
  "msg_elixir hp mhp = sprintf [Han [50648, 47533, 49436], Lit '' '', Han [49324, 50857],
    Lit ''! HP '', Han [50756, 51204], Lit '' '', Han [54924, 48373], Lit '' ('', Dec hp, Lit ''/'',
    Dec mhp, Lit '')'']"

definition msg_atk_boost :: "byte list" where
  "msg_atk_boost = sprintf [Han [44277, 44201, 47141], Lit '' '', Han [44053, 54868], Lit ''! 30'',
    Han [52488, 44036], Lit '' '', Han [44277, 44201], Lit '' '', Han [45936, 48120, 51648],
    Lit '' 2'', Han [48176]]"

definition msg_def_boost :: "byte list" where
  "msg_def_boost = sprintf [Han [48169, 50612, 47141], Lit '' '', Han [44053, 54868], Lit ''! 30'',
    Han [52488, 44036], Lit '' '', Han [54588, 54644], Lit '' 50% '', Han [44048, 49548]]"

definition msg_spd_boost :: "byte list" where
  "msg_spd_boost = sprintf [Han [51060, 46041, 49549, 46020], Lit '' '', Han [51613, 44032],
    Lit ''! 30'', Han [52488, 44036], Lit '' '', Han [51060, 46041], Lit '' 2'', Han [52856]]"

definition item_names :: "byte list list" where
  "item_names = [[], sprintf [Lit ''HP '', Han [54252, 49496]],
    sprintf [Han [45824, 54805], Lit '' HP '', Han [54252, 49496]],
    sprintf [Han [50648, 47533, 49436]],
    sprintf [Han [44277, 44201, 47141], Lit '' '', Han [44053, 54868]],
    sprintf [Han [48169, 50612, 47141], Lit '' '', Han [44053, 54868]],
    sprintf [Han [51060, 46041, 49549, 46020], Lit '' '', Han [51613, 44032]]]"

definition item_name :: "int \<Rightarrow> byte list" where
  "item_name slot_idx = (if 0 \<le> slot_idx \<and> slot_idx < 6 then item_names ! nat (slot_idx + 1)
     else sprintf [Han [50500, 51060, 53596]])"

definition msg_pick_up :: "byte list \<Rightarrow> int \<Rightarrow> int \<Rightarrow> byte list" where
  "msg_pick_up nm cnt key = sprintf [Str nm, Lit '' '', Han [54925, 46301], Lit ''! ('',
    Han [48372, 50976], Lit '': '', Dec cnt, Han [44060], Lit '') ['', Dec key, Lit '']'',
    Han [53412, 47196], Lit '' '', Han [49324, 50857]]"

text \<open>Quest completion; \<open>qid\<close> is 0 (Agro Slayer) or 1 (Boss Hunter).\<close>

definition msg_quest :: "int \<Rightarrow> int \<Rightarrow> int \<Rightarrow> byte list" where
  "msg_quest qid xp lv = sprintf [Lit ''[Quest] '',
    Lit (if qid = 0 then ''Agro Slayer'' else ''Boss Hunter''), Lit '' '', Han [50756, 47308],
    Lit ''! +'', Dec xp, Lit '' XP (Lv.'', Dec lv, Lit '') + '',
    Han (if qid = 0 then [44277, 44201, 47141] else [48169, 50612, 47141]), Lit '' '',
    Han [44053, 54868], Lit '' '', Han [54925, 46301], Lit ''!'']"

section \<open>Lengths\<close>

lemma length_digits: "n < 10 ^ Suc k \<Longrightarrow> length (digits n) \<le> Suc k"
proof (induction k arbitrary: n)
  case 0
  then show ?case by (simp add: digits.simps [of n])
next
  case (Suc k)
  then have "length (digits (n div 10)) \<le> Suc k" by (simp add: less_mult_imp_div_less)
  then show ?case by (simp add: digits.simps [of n])
qed

lemma length_dec_int: "in32 i \<Longrightarrow> length (dec_int i) \<le> 11"
proof -
  assume i: "in32 i"
  have "nat (- i) < 10 ^ Suc 9" "nat i < 10 ^ Suc 9" 
    using i unfolding in32_def by simp_all linarith+
  from this [THEN length_digits] show ?thesis by (simp add: dec_int_def)
qed

lemma length_utf8: "length (utf8 c) \<le> 3"
  by (simp add: utf8_def)

lemma length_concat_utf8: "length (concat (map utf8 cs)) \<le> 3 * length cs"
proof (induction cs)
  case (Cons c cs)
  then show ?case using length_utf8 [of c] by simp
qed simp

lemma length_bytes_of [simp]: "length (bytes_of s) = length s"
  by (simp add: bytes_of_def)

text \<open>What a piece can add at most.\<close>

fun piece_max :: "piece \<Rightarrow> nat" where
  "piece_max (Lit s) = length s"
| "piece_max (Han cs) = 3 * length cs"
| "piece_max (Str bs) = length bs"
| "piece_max (Dec i) = 11"

fun piece_ok :: "piece \<Rightarrow> bool" where
  "piece_ok (Dec i) \<longleftrightarrow> in32 i"
| "piece_ok _ \<longleftrightarrow> True"

lemma length_piece: "piece_ok p \<Longrightarrow> length (piece_bytes p) \<le> piece_max p"
  using length_concat_utf8 by (cases p) (simp_all add: length_dec_int)

lemma length_sprintf:
  "\<forall>p \<in> set ps. piece_ok p \<Longrightarrow> length (sprintf ps) \<le> sum_list (map piece_max ps)"
proof (induction ps)
  case (Cons p ps)
  then show ?case using length_piece [of p] by (simp add: sprintf_def)
qed (simp add: sprintf_def)

lemma length_msg_kill:
  assumes "length prefix \<le> 9" "length name < MAX_NAME_LEN" "in32 gain" "in32 lv" "in32 xp" "in32 nx"
  shows "length (msg_kill prefix name gain lv xp nx) < MAX_CHAT_LEN"
  unfolding msg_kill_def
  by (rule le_less_trans [OF length_sprintf]) (use assms in simp_all)

lemma length_item_name: "length (item_name i) \<le> 19"
proof -
  have "length (item_names ! k) \<le> 19" if "k < 7" for k
  proof -
    have "\<forall>n \<in> set item_names. length n \<le> 19"
      by (auto simp: item_names_def intro!: order_trans [OF length_sprintf])
    moreover have "item_names ! k \<in> set item_names"
      by (rule nth_mem) (use that in \<open>simp add: item_names_def\<close>)
    ultimately show ?thesis by blast
  qed
  moreover have "length (sprintf [Han [50500, 51060, 53596]]) \<le> 19"
    by (rule order_trans [OF length_sprintf]) simp_all
  moreover have "nat (i + 1) < 7" if "0 \<le> i" "i < 6" using that by linarith
  ultimately show ?thesis by (simp add: item_name_def)
qed

lemma length_msg_pick_up:
  assumes "length nm \<le> 19" "in32 cnt" "in32 key"
  shows "length (msg_pick_up nm cnt key) < MAX_CHAT_LEN"
  unfolding msg_pick_up_def
  by (rule le_less_trans [OF length_sprintf]) (use assms in simp_all)

lemma length_msg_quest:
  assumes "in32 xp" "in32 lv"
  shows "length (msg_quest qid xp lv) < MAX_CHAT_LEN"
  unfolding msg_quest_def
  by (rule le_less_trans [OF length_sprintf]) (use assms in simp_all)

lemma length_msg_potion:
  assumes "in32 hp" "in32 mhp"
  shows "length (msg_hp_potion hp mhp) < MAX_CHAT_LEN" "length (msg_hi_potion hp mhp) < MAX_CHAT_LEN"
    "length (msg_elixir hp mhp) < MAX_CHAT_LEN"
  unfolding msg_hp_potion_def msg_hi_potion_def msg_elixir_def
  by (rule le_less_trans [OF length_sprintf]; use assms in simp)+

lemma length_msg_boost:
  "length msg_atk_boost < MAX_CHAT_LEN" "length msg_def_boost < MAX_CHAT_LEN"
  "length msg_spd_boost < MAX_CHAT_LEN"
  unfolding msg_atk_boost_def msg_def_boost_def msg_spd_boost_def
  by (rule le_less_trans [OF length_sprintf]; simp)+

section \<open>Properties\<close>

text \<open>
  no message overruns its \<open>char[128]\<close>: with a name that fits \<open>m_username\<close> and
  \<open>int\<close> numbers every formatted text is shorter than the array, so \<open>sprintf_s\<close> neither
  ends the process nor is \<open>strncpy_s\<close> in \<open>send_chat\<close> ever cutting a message.
\<close>

theorem messages_fit:
  assumes "length name < MAX_NAME_LEN" "in32 a" "in32 b" "in32 c" "in32 d"
    and "prefix \<in> {'''', ''[Skill] '', ''[Ranged] ''}"
  shows "length (msg_kill prefix name a b c d) < MAX_CHAT_LEN
    \<and> length (msg_hp_potion a b) < MAX_CHAT_LEN \<and> length (msg_hi_potion a b) < MAX_CHAT_LEN
    \<and> length (msg_elixir a b) < MAX_CHAT_LEN
    \<and> length (msg_pick_up (item_name i) a b) < MAX_CHAT_LEN \<and> length (msg_quest i a b) < MAX_CHAT_LEN"
proof -
  have "length prefix \<le> 9" using assms(6) by auto
  from length_msg_kill [OF this assms(1-5)] length_msg_potion [OF assms(2,3)]
    length_msg_pick_up [OF length_item_name assms(2,3)] length_msg_quest [OF assms(2,3)]
  show ?thesis by simp
qed

theorem messages_fit_witness:
  "length (msg_kill ''[Skill] '' (bytes_of ''Boss_15'') 8000 12 (-2147483648) 2147483647) < MAX_CHAT_LEN"
  using messages_fit [of "bytes_of ''Boss_15''" 8000 12 "-2147483648" 2147483647 "''[Skill] ''" 0]
  by (simp add: in32_def)

end
