(* ===== verification/SendQueue.thy ===== *)
theory SendQueue
  imports Protocol
begin

text \<open>
  The send queue of a session (\<open>SESSION::do_send\<close>, \<open>start_next_send\<close>, \<open>post_send\<close>,
  \<open>fail_send\<close>, \<open>on_send_complete\<close> in \<open>SERVER/session.cpp\<close>) under the worker threads'
  interleavings. Each block under \<open>m_send_mutex\<close> is one step; between the blocks a thread
  that has work left is a token: it is about to enter \<open>start_next_send\<close>, to call
  \<open>WSASend\<close>, or to enter \<open>fail_send\<close>; or the overlapped operation is with the kernel.
  The queue's entries are packets, whose bytes \<open>PendingSend\<close> copies.

  A completion that \<open>GetQueuedCompletionStatus\<close> reports as an error is a step too:
  \<open>worker_thread\<close> deletes the buffer without \<open>on_send_complete\<close>, so the token is gone
  while \<open>m_send_pending\<close> stays set.

  The invariant says that at most one token exists, so at most one \<open>WSASend\<close> is outstanding
  on a socket, and that the bytes sent, those in the token and those in the queue are in this
  order the bytes of the packets accepted.
\<close>

section \<open>Batches\<close>

definition wire_bytes :: "s2c list \<Rightarrow> byte list" where
  "wire_bytes ps = concat (map enc_s2c ps)"

text \<open>The \<open>while\<close> loop of \<open>start_next_send\<close>, from a batch that has \<open>n\<close> bytes.\<close>

fun take_batch :: "nat \<Rightarrow> s2c list \<Rightarrow> s2c list \<times> s2c list" where
  "take_batch n [] = ([], [])"
| "take_batch n (p # ps) =
    (if n \<noteq> 0 \<and> n + s2c_size p > SEND_BATCH_SIZE then ([], p # ps)
     else let (b, r) = take_batch (n + s2c_size p) ps in (p # b, r))"

lemma wire_bytes_simps [simp]:
  "wire_bytes [] = []" "wire_bytes (p # ps) = enc_s2c p @ wire_bytes ps"
  "wire_bytes (ps @ qs) = wire_bytes ps @ wire_bytes qs"
  by (simp_all add: wire_bytes_def)

lemma wire_bytes_empty [simp]: "wire_bytes ps = [] \<longleftrightarrow> ps = []"
  by (cases ps) simp_all

lemma take_batch_append: "take_batch n q = (b, r) \<Longrightarrow> b @ r = q"
  by (induction n q arbitrary: b r rule: take_batch.induct) (auto split: if_splits prod.splits)

lemma take_batch_nonempty: "take_batch 0 q = (b, r) \<Longrightarrow> q \<noteq> [] \<Longrightarrow> b \<noteq> []"
  by (cases q) (auto split: prod.splits)

lemma take_batch_size:
  "take_batch n q = (b, r) \<Longrightarrow> n \<le> SEND_BATCH_SIZE \<Longrightarrow> n + length (wire_bytes b) \<le> SEND_BATCH_SIZE"
proof (induction n q arbitrary: b r rule: take_batch.induct)
  case (2 n p ps)
  show ?case
  proof (cases "n \<noteq> 0 \<and> n + s2c_size p > SEND_BATCH_SIZE")
    case True
    then show ?thesis using 2 by simp
  next
    case False
    obtain b' r' where b': "take_batch (n + s2c_size p) ps = (b', r')"
      by (cases "take_batch (n + s2c_size p) ps") auto
    have "n + s2c_size p \<le> SEND_BATCH_SIZE"
      using False s2c_size_bounds(2) [of p] by auto
    then have "n + s2c_size p + length (wire_bytes b') \<le> SEND_BATCH_SIZE"
      using 2(1) [OF False b'] by simp
    then show ?thesis using 2(2) False b' by auto
  qed
qed simp

text \<open>A batch is as long as it can be: the next packet would not fit.\<close>

lemma take_batch_maximal:
  "take_batch n q = (b, p # r) \<Longrightarrow> n + length (wire_bytes b) + s2c_size p > SEND_BATCH_SIZE"
proof (induction n q arbitrary: b rule: take_batch.induct)
  case (2 n p' ps)
  then show ?case by (auto split: if_splits prod.splits)
qed simp

section \<open>The steps\<close>

datatype token = Starting | Posting "byte list" | InFlight "byte list" | Failing

text \<open>
  \<open>sq_sent\<close> are the bytes the completions reported, \<open>sq_accepted\<close> the packets
  \<open>do_send\<close> has queued, \<open>sq_failed\<close> whether a send has failed, \<open>sq_lost\<close> whether a
  completion was an error.
\<close>

record send_state =
  sq_open :: bool
  sq_queue :: "s2c list"
  sq_pending :: bool
  sq_tokens :: "token multiset"
  sq_sent :: "byte list"
  sq_accepted :: "s2c list"
  sq_failed :: bool
  sq_lost :: bool

definition sq_init :: send_state where
  "sq_init = \<lparr> sq_open = True, sq_queue = [], sq_pending = False, sq_tokens = {#}, sq_sent = [],
     sq_accepted = [], sq_failed = False, sq_lost = False \<rparr>"

definition sq_do_send :: "s2c \<Rightarrow> send_state \<Rightarrow> send_state" where
  "sq_do_send p s =
    (if \<not> sq_open s \<or> s2c_size p = 0 \<or> s2c_size p > BUF_SIZE then s
     else let s1 = s\<lparr>sq_queue := sq_queue s @ [p], sq_accepted := sq_accepted s @ [p]\<rparr> in
       if \<not> sq_pending s1
       then s1\<lparr>sq_pending := True, sq_tokens := add_mset Starting (sq_tokens s1)\<rparr>
       else s1)"

definition swap_token :: "token \<Rightarrow> token multiset \<Rightarrow> send_state \<Rightarrow> send_state" where
  "swap_token t ts s = s\<lparr>sq_tokens := sq_tokens s - {#t#} + ts\<rparr>"

definition sq_start_next_send :: "send_state \<Rightarrow> send_state" where
  "sq_start_next_send s =
    (if \<not> sq_open s \<or> sq_queue s = [] then swap_token Starting {#} (s\<lparr>sq_pending := False\<rparr>)
     else let (b, r) = take_batch 0 (sq_queue s) in
       swap_token Starting {#Posting (wire_bytes b)#} (s\<lparr>sq_queue := r\<rparr>))"

definition sq_post_send :: "byte list \<Rightarrow> bool \<Rightarrow> send_state \<Rightarrow> send_state" where
  "sq_post_send bs ok s =
    (if ok then swap_token (Posting bs) {#InFlight bs#} s
     else swap_token (Posting bs) {#Failing#} (s\<lparr>sq_failed := True\<rparr>))"

definition sq_on_send_complete :: "byte list \<Rightarrow> nat \<Rightarrow> send_state \<Rightarrow> send_state" where
  "sq_on_send_complete bs n s =
    (if n = 0 \<or> n > length bs then swap_token (InFlight bs) {#Failing#} (s\<lparr>sq_failed := True\<rparr>)
     else let s1 = s\<lparr>sq_sent := sq_sent s @ take n bs\<rparr> in
       if n < length bs then swap_token (InFlight bs) {#Posting (drop n bs)#} s1
       else swap_token (InFlight bs) {#Starting#} s1)"

definition sq_fail_send :: "send_state \<Rightarrow> send_state" where
  "sq_fail_send s = swap_token Failing {#} (s\<lparr>sq_queue := [], sq_pending := False\<rparr>)"

text \<open>
  The branch \<open>TRUE != ret\<close> of \<open>worker_thread\<close> for a send: the buffer is deleted, nothing
  else; the \<open>disconnect\<close> after it is the step that closes the socket.
\<close>

definition sq_send_error :: "byte list \<Rightarrow> send_state \<Rightarrow> send_state" where
  "sq_send_error bs s = swap_token (InFlight bs) {#} (s\<lparr>sq_failed := True, sq_lost := True\<rparr>)"

text \<open>
  \<open>sclose\<close> is \<open>disconnect\<close> invalidating the socket, which it does without the send mutex.
\<close>

inductive send_step :: "send_state \<Rightarrow> send_state \<Rightarrow> bool" where
  ssend: "send_step s (sq_do_send p s)"
| sstart: "Starting \<in># sq_tokens s \<Longrightarrow> send_step s (sq_start_next_send s)"
| spost: "Posting bs \<in># sq_tokens s \<Longrightarrow> send_step s (sq_post_send bs ok s)"
| scomplete: "InFlight bs \<in># sq_tokens s \<Longrightarrow> send_step s (sq_on_send_complete bs n s)"
| serror: "InFlight bs \<in># sq_tokens s \<Longrightarrow> send_step s (sq_send_error bs s)"
| sfail: "Failing \<in># sq_tokens s \<Longrightarrow> send_step s (sq_fail_send s)"
| sclose: "send_step s (s\<lparr>sq_open := False\<rparr>)"

inductive send_reach :: "send_state \<Rightarrow> bool" where
  sq_start: "send_reach sq_init"
| sq_next: "send_reach s \<Longrightarrow> send_step s s' \<Longrightarrow> send_reach s'"

inductive_cases send_stepE: "send_step s s'"

section \<open>The invariant\<close>

fun token_bytes :: "token \<Rightarrow> byte list" where
  "token_bytes (Posting bs) = bs"
| "token_bytes (InFlight bs) = bs"
| "token_bytes _ = []"

fun token_ok :: "token \<Rightarrow> bool" where
  "token_ok (Posting bs) \<longleftrightarrow> bs \<noteq> [] \<and> length bs \<le> SEND_BATCH_SIZE"
| "token_ok (InFlight bs) \<longleftrightarrow> bs \<noteq> [] \<and> length bs \<le> SEND_BATCH_SIZE"
| "token_ok _ \<longleftrightarrow> True"

text \<open>
  The token, if any: \<open>m_send_pending\<close> says whether there is one, unless a completion was an
  error, after which there is none for ever and the flag stays set.
\<close>

definition sq_inv :: "send_state \<Rightarrow> bool" where
  "sq_inv s \<longleftrightarrow>
    (if sq_lost s then sq_pending s \<and> sq_failed s \<and> sq_tokens s = {#}
     else if sq_pending s
     then \<exists>t. sq_tokens s = {#t#} \<and> token_ok t \<and> (t = Failing \<longrightarrow> sq_failed s)
       \<and> (\<not> sq_failed s \<longrightarrow>
            sq_sent s @ token_bytes t @ wire_bytes (sq_queue s) = wire_bytes (sq_accepted s))
     else sq_tokens s = {#} \<and> (sq_open s \<longrightarrow> sq_queue s = [])
       \<and> (\<not> sq_failed s \<longrightarrow> sq_sent s @ wire_bytes (sq_queue s) = wire_bytes (sq_accepted s)))"

lemma sq_inv_token:
  assumes "sq_inv s" "t \<in># sq_tokens s"
  shows "\<not> sq_lost s" "sq_pending s" "sq_tokens s = {#t#}" "token_ok t" "t = Failing \<Longrightarrow> sq_failed s"
    and "\<not> sq_failed s \<Longrightarrow>
      sq_sent s @ token_bytes t @ wire_bytes (sq_queue s) = wire_bytes (sq_accepted s)"
  using assms by (auto simp: sq_inv_def split: if_splits)

lemma inv_do_send: "sq_inv s \<Longrightarrow> sq_inv (sq_do_send p s)"
  by (fastforce simp: sq_inv_def sq_do_send_def Let_def)

lemma inv_start:
  assumes "sq_inv s" "Starting \<in># sq_tokens s"
  shows "sq_inv (sq_start_next_send s)"
proof -
  note t = sq_inv_token [OF assms]
  obtain b r where b: "take_batch 0 (sq_queue s) = (b, r)" by (cases "take_batch 0 (sq_queue s)")
  have split: "sq_queue s = b @ r" using take_batch_append [OF b] by simp
  show ?thesis
    using t b take_batch_nonempty [OF b] take_batch_size [OF b]
    by (auto simp: sq_inv_def sq_start_next_send_def swap_token_def split)
qed

lemma inv_post:
  assumes "sq_inv s" "Posting bs \<in># sq_tokens s"
  shows "sq_inv (sq_post_send bs ok s)"
  using sq_inv_token [OF assms] by (simp add: sq_inv_def sq_post_send_def swap_token_def)

lemma inv_complete:
  assumes "sq_inv s" "InFlight bs \<in># sq_tokens s"
  shows "sq_inv (sq_on_send_complete bs n s)"
proof -
  note t = sq_inv_token [OF assms]
  have "take n bs @ drop n bs @ x = bs @ x" for x
    by (metis append_assoc append_take_drop_id)
  note joined = this
  show ?thesis
    using t by (auto simp: sq_inv_def sq_on_send_complete_def swap_token_def Let_def joined)
qed

lemma inv_fail:
  assumes "sq_inv s" "Failing \<in># sq_tokens s"
  shows "sq_inv (sq_fail_send s)"
  using sq_inv_token [OF assms] by (simp add: sq_inv_def sq_fail_send_def swap_token_def)

lemma inv_error:
  assumes "sq_inv s" "InFlight bs \<in># sq_tokens s"
  shows "sq_inv (sq_send_error bs s)"
  using sq_inv_token [OF assms] by (simp add: sq_inv_def sq_send_error_def swap_token_def)

lemma sq_inv_close: "sq_inv s \<Longrightarrow> sq_inv (s\<lparr>sq_open := False\<rparr>)"
  by (auto simp: sq_inv_def)

lemma send_step_inv: "send_step s s' \<Longrightarrow> sq_inv s \<Longrightarrow> sq_inv s'"
  by (erule send_stepE) (auto intro: inv_do_send inv_start inv_post inv_complete inv_error inv_fail sq_inv_close)

lemma send_reach_inv: "send_reach s \<Longrightarrow> sq_inv s"
proof (induction rule: send_reach.induct)
  case sq_start
  show ?case by (simp add: sq_inv_def sq_init_def)
next
  case (sq_next s s')
  then show ?case by (blast intro: send_step_inv)
qed

section \<open>Properties\<close>

text \<open>
  in every interleaving at most one thread or overlapped operation of a session is on the
  way from a batch to its completion (so two \<open>WSASend\<close>s never overlap on one socket), there
  is one exactly while \<open>m_send_pending\<close> is set and no completion was an error, and no buffer handed to \<open>WSASend\<close> is
  empty or above 16384 bytes.
\<close>

theorem one_send_in_flight:
  assumes "send_reach s"
  shows "size (sq_tokens s) = (if sq_pending s \<and> \<not> sq_lost s then 1 else 0)
    \<and> (\<forall>t \<in># sq_tokens s. token_ok t)"
  using send_reach_inv [OF assms] by (auto simp: sq_inv_def split: if_splits)

theorem one_send_in_flight_witness:
  "size (sq_tokens (sq_do_send (S2C_RemovePlayer 3) sq_init)) = 1"
proof -
  have "send_reach (sq_do_send (S2C_RemovePlayer 3) sq_init)"
    by (rule sq_next [OF sq_start ssend])
  from one_send_in_flight [OF this] show ?thesis by (simp add: sq_do_send_def sq_init_def Let_def)
qed

text \<open>
  C18: until a send of the session fails (refused by \<open>WSASend\<close>, completed with a wrong count
  or completed as an error), the bytes its completions report as sent, followed by those
  \<open>WSASend\<close> has and has not reported yet, are a prefix of the bytes of the packets accepted, in
  the order of \<open>do_send\<close>: nothing is lost, doubled or reordered by the batches, by partial
  completions or by the threads' interleaving. What is missing is on its way to \<open>WSASend\<close> or
  in the queue.
\<close>

theorem send_fifo:
  assumes "send_reach s" "\<not> sq_failed s"
  shows "\<exists>rest. wire_bytes (sq_accepted s) = sq_sent s @ rest @ wire_bytes (sq_queue s)
    \<and> (sq_tokens s = {#} \<longrightarrow> rest = []) \<and> (\<forall>bs. InFlight bs \<in># sq_tokens s \<longrightarrow> rest = bs)"
proof (cases "sq_pending s")
  case True
  then obtain t where "sq_tokens s = {#t#}"
    "sq_sent s @ token_bytes t @ wire_bytes (sq_queue s) = wire_bytes (sq_accepted s)"
    using send_reach_inv [OF assms(1)] assms(2) by (auto simp: sq_inv_def split: if_splits)
  then show ?thesis by (intro exI [of _ "token_bytes t"]) auto
next
  case False
  then show ?thesis
    using send_reach_inv [OF assms(1)] assms(2) by (intro exI [of _ "[]"]) (simp add: sq_inv_def split: if_splits)
qed

theorem send_fifo_witness:
  "\<exists>rest. wire_bytes [S2C_RemovePlayer 3] = [] @ rest @ wire_bytes [S2C_RemovePlayer 3]"
proof -
  have "send_reach (sq_do_send (S2C_RemovePlayer 3) sq_init)"
    by (rule sq_next [OF sq_start ssend])
  from send_fifo [OF this] show ?thesis by (simp add: sq_do_send_def sq_init_def Let_def)
qed

text \<open>
  no lost wake-up: while the socket is open and no completion was an error, packets in the queue have a thread or an
  operation that will come back for them.
\<close>

theorem queue_not_forgotten:
  assumes "send_reach s" "sq_open s" "\<not> sq_lost s" "sq_queue s \<noteq> []"
  shows "\<exists>t. sq_tokens s = {#t#}"
  using send_reach_inv [OF assms(1)] assms(2-4) by (auto simp: sq_inv_def split: if_splits)

theorem queue_not_forgotten_witness:
  "\<exists>t. sq_tokens (sq_do_send (S2C_RemovePlayer 3) sq_init) = {#t#}"
proof -
  have "send_reach (sq_do_send (S2C_RemovePlayer 3) sq_init)"
    by (rule sq_next [OF sq_start ssend])
  from queue_not_forgotten [OF this] show ?thesis by (simp add: sq_do_send_def sq_init_def Let_def)
qed

text \<open>
  After an error completion nothing of the session is sent any more: whatever the threads do,
  what was sent stays as it is while \<open>do_send\<close> goes on filling the queue.
\<close>

lemma lost_sends_nothing:
  assumes "send_step s s'" "sq_inv s" "sq_lost s"
  shows "sq_lost s' \<and> sq_tokens s' = {#} \<and> sq_sent s' = sq_sent s"
proof -
  have "sq_tokens s = {#}" "sq_pending s" using assms(2,3) by (simp_all add: sq_inv_def)
  with assms(1,3) show ?thesis by (cases rule: send_step.cases) (auto simp: sq_do_send_def Let_def)
qed

end
