(* ===== verification/World.thy ===== *)
theory World
  imports Objects PriorityQueue Sectors Messages SendQueue
begin

text \<open>
  The server's global state (\<open>clients\<close>, \<open>sector_manager\<close>, \<open>g_world_items\<close>,
  \<open>timer_queue\<close>, \<open>db_queue\<close>, \<open>player_index\<close>, the obstacle map) as one record, and
  what every handler uses of it: object lookup, the send functions of \<open>SESSION\<close>,
  \<open>disconnect\<close> and \<open>update_player_view\<close> (\<open>SERVER/session.cpp\<close>,
  \<open>network.cpp\<close>).

  A handler runs here without another thread in between (the interleavings of the send queue
  are the theory \<open>SendQueue\<close>). Sessions and NPCs live in heaps indexed by id: an id is
  handed out once, so the id names the object also after \<open>clients[id]\<close> is null, as the
  \<open>this\<close> pointer and the \<open>shared_ptr\<close>s of a running handler do. What the code asks of
  its surroundings (the clock, \<open>rand\<close>, whether \<open>WSASend\<close> is accepted) are sequences of
  answers, read one by one.
\<close>

section \<open>The state\<close>

record world_item =
  wi_id :: int
  wi_x :: int
  wi_y :: int
  wi_type :: item_type
  wi_active :: bool

datatype event_id = EVENT_NPC_MOVE | EVENT_HP_REGEN | EVENT_NPC_RESPAWN

record event_type =
  ev_obj_id :: int
  ev_wakeup_time :: int
  ev_event_id :: event_id

datatype db_event =
    DB_LOGIN int "byte list"
  | DB_SAVE int "byte list" int int int int int "int list" "int list"

text \<open>What \<open>db_thread\<close> answers a login with, and the completions the server posts to itself.\<close>

record db_result =
  dr_success :: bool
  dr_x :: int
  dr_y :: int
  dr_hp :: int
  dr_level :: int
  dr_exp :: int
  dr_inventory :: "int list"
  dr_quest_kill :: "int list"

datatype completion = IO_NPC_MOVE int | IO_HP_REGEN int | IO_NPC_RESPAWN int | IO_DB_LOGIN int db_result

record world =
  w_live :: "int \<Rightarrow> bool"
  w_pl :: "int \<Rightarrow> session"
  w_npc :: "int \<Rightarrow> cnpc"
  w_sectors :: sectors
  w_items :: "world_item list"
  w_next_item_id :: int
  w_timers :: "event_type list"
  w_db_queue :: "db_event list"
  w_player_index :: int
  w_obstacle :: "int \<Rightarrow> int \<Rightarrow> bool"
  w_posted :: "(int \<times> byte list) list"
  w_given :: "(int \<times> s2c) list"
  w_clock :: "nat \<Rightarrow> int"
  w_ticks :: nat
  w_rand :: "nat \<Rightarrow> int"
  w_rands :: nat
  w_send_ok :: "nat \<Rightarrow> bool"
  w_sends :: nat
  w_completions :: "completion list"

text \<open>
  Two fields are histories that no handler reads: \<open>w_posted\<close>, the buffers \<open>WSASend\<close>
  accepted, and \<open>w_given\<close>, the packets \<open>do_send\<close> accepted, with the values the send
  functions filled in, before they are cut to the width of their fields.
\<close>

text \<open>The globals as \<open>main\<close> finds them: no client, no NPC, empty queues, player ids from 1.\<close>

definition no_session :: "int \<Rightarrow> session" where
  "no_session k = (new_session 0 k 0)\<lparr>m_state := CS_FREE, m_client := None\<rparr>"

definition init_world :: "(int \<Rightarrow> int \<Rightarrow> bool) \<Rightarrow> (nat \<Rightarrow> int) \<Rightarrow> (nat \<Rightarrow> int) \<Rightarrow> (nat \<Rightarrow> bool) \<Rightarrow> world" where
  "init_world obs clk rnd ack =
    \<lparr> w_live = (\<lambda>_. False), w_pl = no_session, w_npc = (\<lambda>k. new_npc k 0), w_sectors = empty_sectors,
      w_items = [], w_next_item_id = 0, w_timers = [], w_db_queue = [], w_player_index = 1,
      w_obstacle = obs, w_posted = [], w_given = [], w_clock = clk, w_ticks = 0, w_rand = rnd, w_rands = 0,
      w_send_ok = ack, w_sends = 0, w_completions = [] \<rparr>"

definition clock_now :: "world \<Rightarrow> int \<times> world" where
  "clock_now w = (w_clock w (w_ticks w), w\<lparr>w_ticks := Suc (w_ticks w)\<rparr>)"

definition rand_next :: "world \<Rightarrow> int \<times> world" where
  "rand_next w = (w_rand w (w_rands w), w\<lparr>w_rands := Suc (w_rands w)\<rparr>)"

definition upd_pl :: "int \<Rightarrow> (session \<Rightarrow> session) \<Rightarrow> world \<Rightarrow> world" where
  "upd_pl k f w = w\<lparr>w_pl := (w_pl w)(k := f (w_pl w k))\<rparr>"

definition upd_npc :: "int \<Rightarrow> (cnpc \<Rightarrow> cnpc) \<Rightarrow> world \<Rightarrow> world" where
  "upd_npc k f w = w\<lparr>w_npc := (w_npc w)(k := f (w_npc w k))\<rparr>"

definition is_pc :: "int \<Rightarrow> bool" where
  "is_pc i \<longleftrightarrow> i < NPC_ID_START"

definition is_npc :: "int \<Rightarrow> bool" where
  "is_npc i \<longleftrightarrow> i \<ge> NPC_ID_START"

text \<open>
  The \<open>CObject\<close> part of what \<open>clients[id]\<close> points to; \<open>to_player\<close> and \<open>to_npc\<close> of
  the pointer are \<open>w_pl w id\<close> and \<open>w_npc w id\<close>.
\<close>

definition get_object :: "world \<Rightarrow> int \<Rightarrow> cobject option" where
  "get_object w i =
    (if w_live w i
     then Some (if is_pc i then cobject.truncate (w_pl w i) else cobject.truncate (w_npc w i))
     else None)"

definition push_timer :: "int \<Rightarrow> event_id \<Rightarrow> int \<Rightarrow> world \<Rightarrow> world" where
  "push_timer i e t w =
    w\<lparr>w_timers := pq_push ev_wakeup_time \<lparr> ev_obj_id = i, ev_wakeup_time = t, ev_event_id = e \<rparr> (w_timers w)\<rparr>"

text \<open>
  The range-based \<open>for\<close> over the ids around a tile with the tests \<open>is_pc(id)\<close> and
  \<open>get_object(id)\<close> at its head; the ids are a copy made before the loop.
\<close>

definition for_players :: "int list \<Rightarrow> (int \<Rightarrow> world \<Rightarrow> world) \<Rightarrow> world \<Rightarrow> world" where
  "for_players ids f w = fold (\<lambda>i w. if is_pc i \<and> w_live w i then f i w else w) ids w"

definition nearby :: "world \<Rightarrow> int \<Rightarrow> int \<Rightarrow> int list" where
  "nearby w x y = get_objects_in_adjacent_sectors x y (w_sectors w)"

section \<open>Sending\<close>

text \<open>
  A failed \<open>WSASend\<close> disconnects the session, and that sends to others: the functions below
  take \<open>disconnect\<close> as their argument \<open>disc\<close>.
\<close>

definition post_send :: "int \<Rightarrow> byte list \<Rightarrow> world \<Rightarrow> bool \<times> world" where
  "post_send k bs w =
    (let ok = w_send_ok w (w_sends w); w1 = w\<lparr>w_sends := Suc (w_sends w)\<rparr> in
     (ok, if ok then w1\<lparr>w_posted := w_posted w1 @ [(k, bs)]\<rparr> else w1))"

definition fail_send_with :: "(int \<Rightarrow> world \<Rightarrow> world) \<Rightarrow> int \<Rightarrow> world \<Rightarrow> world" where
  "fail_send_with disc k w =
    disc (m_id (w_pl w k)) (upd_pl k (\<lambda>s. s\<lparr>m_send_queue := [], m_send_pending := False\<rparr>) w)"

definition start_next_send_with :: "(int \<Rightarrow> world \<Rightarrow> world) \<Rightarrow> int \<Rightarrow> world \<Rightarrow> world" where
  "start_next_send_with disc k w =
    (let s = w_pl w k in
     if \<not> can_send s \<or> m_send_queue s = [] then upd_pl k (\<lambda>s. s\<lparr>m_send_pending := False\<rparr>) w
     else let (batch, rest) = take_batch 0 (m_send_queue s);
            (ok, w2) = post_send k (wire_bytes batch) (upd_pl k (\<lambda>s. s\<lparr>m_send_queue := rest\<rparr>) w)
          in if ok then w2 else fail_send_with disc k w2)"

definition do_send_with :: "(int \<Rightarrow> world \<Rightarrow> world) \<Rightarrow> int \<Rightarrow> s2c \<Rightarrow> world \<Rightarrow> world" where
  "do_send_with disc k p w =
    (if \<not> can_send (w_pl w k) \<or> s2c_size p = 0 \<or> s2c_size p > BUF_SIZE then w
     else let w1 = (upd_pl k (\<lambda>s. s\<lparr>m_send_queue := m_send_queue s @ [p]\<rparr>) w)\<lparr>w_given := w_given w @ [(k, p)]\<rparr> in
       if \<not> m_send_pending (w_pl w1 k)
       then start_next_send_with disc k (upd_pl k (\<lambda>s. s\<lparr>m_send_pending := True\<rparr>) w1)
       else w1)"

definition send_remove_object_with :: "(int \<Rightarrow> world \<Rightarrow> world) \<Rightarrow> int \<Rightarrow> int \<Rightarrow> world \<Rightarrow> world" where
  "send_remove_object_with disc k object_id w =
    (if \<not> can_send (w_pl w k) then w
     else if object_id \<notin> set (m_visible_objects (w_pl w k)) then w
     else do_send_with disc k (S2C_RemovePlayer object_id)
       (upd_pl k (\<lambda>s. s\<lparr>m_visible_objects := us_erase object_id (m_visible_objects s)\<rparr>) w))"

section \<open>Disconnecting\<close>

definition bot_prefix :: "byte list \<Rightarrow> bool" where
  "bot_prefix name \<longleftrightarrow> take 4 name = bytes_of ''bot_''"

definition db_push_save :: "int \<Rightarrow> session \<Rightarrow> world \<Rightarrow> world" where
  "db_push_save key cl w =
    (if bot_prefix (m_username cl) then w
     else w\<lparr>w_db_queue := w_db_queue w @
       [DB_SAVE key (strncpy_s (m_username cl) 19) (m_x cl) (m_y cl) (m_hp cl) (m_level cl) (m_xp cl)
          (m_inventory cl) (map kill_count (m_quests cl))]\<rparr>)"

text \<open>\<open>obj->m_id\<close> of what \<open>clients[key]\<close> points to.\<close>

definition obj_id :: "world \<Rightarrow> int \<Rightarrow> int" where
  "obj_id w key = (if is_pc key then m_id (w_pl w key) else m_id (w_npc w key))"

definition disconnect_with :: "(int \<Rightarrow> world \<Rightarrow> world) \<Rightarrow> int \<Rightarrow> world \<Rightarrow> world" where
  "disconnect_with disc key w =
    (if \<not> w_live w key \<or> obj_id w key \<ge> NPC_ID_START then w
     else let cl = w_pl w key;
       w1 = (if m_state cl = CS_PLAYING then db_push_save key cl w else w);
       w2 = upd_pl key (\<lambda>s. s\<lparr>m_state := CS_LOGOUT\<rparr>) w1;
       w3 = w2\<lparr>w_sectors := remove_object_from_sector key (m_x cl) (m_y cl) (w_sectors w2)\<rparr>;
       visible = m_visible_objects (w_pl w3 key);
       w4 = upd_pl key (\<lambda>s. s\<lparr>m_visible_objects := []\<rparr>) w3;
       w5 = for_players visible (\<lambda>i. send_remove_object_with disc i key) w4;
       w6 = upd_pl key (\<lambda>s. s\<lparr>m_client := None\<rparr>) w5
     in w6\<lparr>w_live := (w_live w6)(key := False)\<rparr>)"

text \<open>
  The recursion through a failing send is at most one level per player id: a nested call is made
  by a send to a session whose id is in the visible set of the session being closed, which is
  emptied first.
\<close>

primrec disconnect_fuel :: "nat \<Rightarrow> int \<Rightarrow> world \<Rightarrow> world" where
  "disconnect_fuel 0 = (\<lambda>key w. w)"
| "disconnect_fuel (Suc k) = disconnect_with (disconnect_fuel k)"

definition DISC_DEPTH :: nat where
  "DISC_DEPTH = 10001"

definition disconnect :: "int \<Rightarrow> world \<Rightarrow> world" where
  "disconnect = disconnect_fuel DISC_DEPTH"

definition do_send :: "int \<Rightarrow> s2c \<Rightarrow> world \<Rightarrow> world" where
  "do_send = do_send_with disconnect"

definition start_next_send :: "int \<Rightarrow> world \<Rightarrow> world" where
  "start_next_send = start_next_send_with disconnect"

definition fail_send :: "int \<Rightarrow> world \<Rightarrow> world" where
  "fail_send = fail_send_with disconnect"

definition on_send_complete :: "int \<Rightarrow> byte list \<Rightarrow> nat \<Rightarrow> world \<Rightarrow> world" where
  "on_send_complete k bs num_bytes w =
    (if num_bytes = 0 \<or> num_bytes > length bs then fail_send k w
     else if num_bytes < length bs
     then let (ok, w1) = post_send k (drop num_bytes bs) w in if ok then w1 else fail_send k w1
     else start_next_send k w)"

section \<open>The packets a session is sent\<close>

definition send_login_success :: "int \<Rightarrow> world \<Rightarrow> world" where
  "send_login_success k w = do_send k (S2C_LoginResult True (bytes_of ''Login successful.'')) w"

definition send_avatar_info :: "int \<Rightarrow> world \<Rightarrow> world" where
  "send_avatar_info k w =
    (let s = w_pl w k in
     do_send k (S2C_AvatarInfo (m_id s) (m_x s) (m_y s) (m_hp s) (m_max_hp s) (m_level s) (m_xp s)
       (exp_for_next_level s) (m_dir s)) w)"

definition send_add_object :: "int \<Rightarrow> int \<Rightarrow> world \<Rightarrow> world" where
  "send_add_object k object_id w =
    (if \<not> can_send (w_pl w k) then w
     else case get_object w object_id of
       None \<Rightarrow> w
     | Some ob \<Rightarrow>
         if m_state ob \<noteq> CS_PLAYING then w
         else if object_id \<in> set (m_visible_objects (w_pl w k)) then w
         else let w1 = upd_pl k (\<lambda>s. s\<lparr>m_visible_objects := us_insert object_id (m_visible_objects s)\<rparr>) w;
           (kind, st) = (if is_npc object_id
             then (npc_kind_of (m_npc_type (w_npc w object_id)), m_move_state (w_npc w object_id))
             else (NPC_PC, NPC_STATE_IDLE))
         in do_send k (S2C_AddPlayer object_id (m_username ob) (m_x ob) (m_y ob) (m_hp ob) (m_max_hp ob)
              kind st (m_dir ob)) w1)"

definition send_remove_object :: "int \<Rightarrow> int \<Rightarrow> world \<Rightarrow> world" where
  "send_remove_object = send_remove_object_with disconnect"

definition send_move_object :: "int \<Rightarrow> int \<Rightarrow> world \<Rightarrow> world" where
  "send_move_object k object_id w =
    (if \<not> can_send (w_pl w k) then w
     else case get_object w object_id of
       None \<Rightarrow> w
     | Some ob \<Rightarrow>
         if m_state ob \<noteq> CS_PLAYING then w
         else do_send k (S2C_MovePlayer object_id (m_x ob) (m_y ob) (m_move_time ob) (m_dir ob)) w)"

definition send_chat :: "int \<Rightarrow> int \<Rightarrow> byte list \<Rightarrow> byte list \<Rightarrow> world \<Rightarrow> world" where
  "send_chat k sender_id sender_name msg w =
    (if \<not> can_send (w_pl w k) then w
     else do_send k (S2C_Chat sender_id (strncpy_s sender_name 19) (strncpy_s msg 127)) w)"

definition send_stat_info :: "int \<Rightarrow> int \<Rightarrow> int \<Rightarrow> int \<Rightarrow> int \<Rightarrow> int \<Rightarrow> int \<Rightarrow> npc_state \<Rightarrow> world \<Rightarrow> world" where
  "send_stat_info k object_id hp mhp level xp nx st w =
    (if \<not> can_send (w_pl w k) then w
     else do_send k (S2C_StatInfo object_id hp mhp level xp nx st) w)"

definition send_damage_info :: "int \<Rightarrow> int \<Rightarrow> int \<Rightarrow> int \<Rightarrow> int \<Rightarrow> world \<Rightarrow> world" where
  "send_damage_info k attacker_id target_id damage target_hp w =
    (if \<not> can_send (w_pl w k) then w
     else do_send k (S2C_DamageInfo attacker_id target_id damage target_hp) w)"

definition send_item_appear :: "int \<Rightarrow> int \<Rightarrow> int \<Rightarrow> int \<Rightarrow> item_type \<Rightarrow> world \<Rightarrow> world" where
  "send_item_appear k item_id x y t w =
    (if \<not> can_send (w_pl w k) then w else do_send k (S2C_ItemAppear item_id x y t) w)"

definition send_item_remove :: "int \<Rightarrow> int \<Rightarrow> world \<Rightarrow> world" where
  "send_item_remove k item_id w =
    (if \<not> can_send (w_pl w k) then w else do_send k (S2C_ItemRemove item_id) w)"

definition send_item_add :: "int \<Rightarrow> item_type \<Rightarrow> int \<Rightarrow> world \<Rightarrow> world" where
  "send_item_add k t n w =
    (if \<not> can_send (w_pl w k) then w else do_send k (S2C_ItemAdd t n) w)"

definition send_all_world_items :: "int \<Rightarrow> world \<Rightarrow> world" where
  "send_all_world_items k w =
    fold (\<lambda>it w. if wi_active it then send_item_appear k (wi_id it) (wi_x it) (wi_y it) (wi_type it) w else w)
      (w_items w) w"

definition send_all_inventory_items :: "int \<Rightarrow> world \<Rightarrow> world" where
  "send_all_inventory_items k w =
    fold (\<lambda>i w. if m_inventory (w_pl w k) ! i > 0
        then send_item_add k (item_of_int (int i + 1)) (m_inventory (w_pl w k) ! i) w else w)
      [0..<ITEM_SLOT_COUNT] w"

definition quest_target :: "int \<Rightarrow> int" where
  "quest_target qid = (if qid = 0 then 10 else 3)"

definition send_quest_update :: "int \<Rightarrow> int \<Rightarrow> world \<Rightarrow> world" where
  "send_quest_update k quest_id w =
    (if \<not> can_send (w_pl w k) \<or> quest_id < 0 \<or> quest_id \<ge> int QUEST_COUNT then w
     else let q = m_quests (w_pl w k) ! nat quest_id in
       do_send k (S2C_QuestUpdate quest_id (q_state q) (kill_count q) (quest_target quest_id)) w)"

definition send_all_quest_states :: "int \<Rightarrow> world \<Rightarrow> world" where
  "send_all_quest_states k w = fold (\<lambda>i. send_quest_update k (int i)) [0..<QUEST_COUNT] w"

section \<open>Waking NPCs and the view of a player\<close>

definition wake_up :: "int \<Rightarrow> world \<Rightarrow> world" where
  "wake_up n w =
    (if m_active_npc (w_npc w n) then w
     else let w1 = upd_npc n (\<lambda>c. c\<lparr>m_active_npc := True\<rparr>) w; (t, w2) = clock_now w1 in
       push_timer (m_id (w_npc w2 n)) EVENT_NPC_MOVE (t + ms MOVE_COOL_TIME) w2)"

definition new_view :: "int \<Rightarrow> world \<Rightarrow> uset" where
  "new_view player_id w =
    (let p = w_pl w player_id in
     fold us_insert (filter (\<lambda>i. i \<noteq> player_id \<and>
         (case get_object w i of None \<Rightarrow> False
          | Some ob \<Rightarrow> m_state ob = CS_PLAYING \<and> can_see p (m_x ob) (m_y ob)))
       (nearby w (m_x p) (m_y p))) [])"

definition enter_view :: "int \<Rightarrow> uset \<Rightarrow> int \<Rightarrow> world \<Rightarrow> world" where
  "enter_view player_id old_view i w =
    (if \<not> w_live w i then w
     else if i \<notin> set old_view then
       let w1 = send_add_object player_id i w in
       if is_pc i then send_add_object i player_id w1 else wake_up i w1
     else if is_pc i then send_move_object i player_id w
     else w)"

definition leave_view :: "int \<Rightarrow> uset \<Rightarrow> int \<Rightarrow> world \<Rightarrow> world" where
  "leave_view player_id nview i w =
    (if i \<in> set nview then w
     else let w1 = send_remove_object player_id i w in
       if is_pc i \<and> w_live w1 i then send_remove_object i player_id w1 else w1)"

definition update_player_view :: "int \<Rightarrow> world \<Rightarrow> world" where
  "update_player_view player_id w =
    (if \<not> w_live w player_id then w
     else if \<not> can_send (w_pl w player_id) then w
     else let old_view = m_visible_objects (w_pl w player_id); nview = new_view player_id w;
       w1 = send_move_object player_id player_id w;
       w2 = fold (enter_view player_id old_view) nview w1
     in fold (leave_view player_id nview) old_view w2)"

end
