(* ===== verification/Frame.thy ===== *)
theory Frame
  imports World
begin

text \<open>
  What sending, disconnecting and looking around leave alone: the relation \<open>calm\<close> between
  the world before and after. It is a preorder, every function of the send layer is in it, and
  so is every loop over such functions; the handlers' proofs use nothing else of these
  functions. \<open>calm\<close> also says that the sector grid stays right: \<open>grid_ok\<close> states
  which ids the grid holds and on which tile.
\<close>

section \<open>What sending leaves alone\<close>

text \<open>
  A session without what the send functions and \<open>disconnect\<close> may change, an NPC without the
  flag \<open>wake_up\<close> sets.
\<close>

definition body :: "session \<Rightarrow> session" where
  "body s = s\<lparr>m_send_queue := [], m_send_pending := False, m_visible_objects := [],
     m_state := CS_FREE, m_client := None\<rparr>"

definition npc_body :: "cnpc \<Rightarrow> cnpc" where
  "npc_body c = c\<lparr>m_active_npc := False\<rparr>"

text \<open>
  Where the ids in the grid are: players in play and NPCs with hit points; \<open>D\<close> are NPCs that
  were just killed and have not left the grid yet.
\<close>

definition positions :: "int set \<Rightarrow> world \<Rightarrow> int \<rightharpoonup> int \<times> int" where
  "positions D w i =
    (if \<not> w_live w i then None
     else if is_pc i
     then (if m_state (w_pl w i) = CS_PLAYING then Some (m_x (w_pl w i), m_y (w_pl w i)) else None)
     else (if m_hp (w_npc w i) > 0 \<or> i \<in> D then Some (m_x (w_npc w i), m_y (w_npc w i)) else None))"

definition ids_ok :: "world \<Rightarrow> bool" where
  "ids_ok w \<longleftrightarrow>
    (\<forall>k. is_pc k \<longrightarrow> m_id (w_pl w k) = k 
       \<and> (\<not> w_live w k \<longrightarrow> m_client (w_pl w k) = None \<and> m_state (w_pl w k) \<in> {CS_FREE, CS_LOGOUT}))
    \<and> (\<forall>k. is_npc k \<longrightarrow> w_live w k \<longrightarrow> m_id (w_npc w k) = k)"

text \<open>
  The grid is right for the ids in \<open>clients\<close>. It may hold ids that are gone (a session closed
  by a refused send in the middle of a handler that goes on to move it): every loop over the grid
  skips those, and ids do not come back.
\<close>

definition grid_ok :: "int set \<Rightarrow> world \<Rightarrow> bool" where
  "grid_ok D w \<longleftrightarrow> ids_ok w \<and> sectors_track (only (w_live w) (w_sectors w)) (positions D w)"

definition calm :: "world \<Rightarrow> world \<Rightarrow> bool" where
  "calm w w' \<longleftrightarrow>
    w_items w' = w_items w \<and> w_next_item_id w' = w_next_item_id w
    \<and> w_player_index w' = w_player_index w \<and> w_obstacle w' = w_obstacle w
    \<and> w_clock w' = w_clock w \<and> w_rand w' = w_rand w \<and> w_rands w' = w_rands w
    \<and> w_send_ok w' = w_send_ok w \<and> w_completions w' = w_completions w
    \<and> (\<forall>k. body (w_pl w' k) = body (w_pl w k))
    \<and> (\<forall>n. npc_body (w_npc w' n) = npc_body (w_npc w n))
    \<and> (\<forall>k. w_live w' k \<longrightarrow>
         w_live w k \<and> m_state (w_pl w' k) = m_state (w_pl w k) \<and> m_client (w_pl w' k) = m_client (w_pl w k))
    \<and> (\<forall>k. obj_id w k \<ge> NPC_ID_START \<longrightarrow> w_live w' k = w_live w k)
    \<and> (\<exists>ts. mset (w_timers w') = mset (w_timers w) + ts \<and> (\<forall>e \<in># ts. ev_event_id e = EVENT_NPC_MOVE))
    \<and> (\<forall>D. grid_ok D w \<longrightarrow> grid_ok D w')
    \<and> (\<forall>s. set (w_sectors w' s) \<subseteq> set (w_sectors w s))"

lemma body_eqD:
  assumes "body s = body s'"
  shows "m_id s = m_id s'" "m_x s = m_x s'" "m_y s = m_y s'" "m_hp s = m_hp s'" "m_max_hp s = m_max_hp s'"
    "m_level s = m_level s'" "m_xp s = m_xp s'" "m_dir s = m_dir s'" "m_username s = m_username s'"
    "m_inventory s = m_inventory s'" "m_quests s = m_quests s'" "m_move_time s = m_move_time s'"
    "m_last_skill_time s = m_last_skill_time s'" "m_last_ranged_atk_time s = m_last_ranged_atk_time s'"
    "m_atk_boost_until s = m_atk_boost_until s'" "m_def_boost_until s = m_def_boost_until s'"
    "m_spd_boost_until s = m_spd_boost_until s'" "m_buff s = m_buff s'" "m_prev_recv s = m_prev_recv s'"
proof -
  from assms have "\<And>f. f (body s) = f (body s')" by simp
  from this [of m_id] this [of m_x] this [of m_y] this [of m_hp] this [of m_max_hp]
    this [of m_level] this [of m_xp] this [of m_dir] this [of m_username] this [of m_inventory]
    this [of m_quests] this [of m_move_time] this [of m_last_skill_time]
    this [of m_last_ranged_atk_time] this [of m_atk_boost_until] this [of m_def_boost_until]
    this [of m_spd_boost_until] this [of m_buff] this [of m_prev_recv]
  show "m_id s = m_id s'" "m_x s = m_x s'" "m_y s = m_y s'" "m_hp s = m_hp s'" "m_max_hp s = m_max_hp s'"
    "m_level s = m_level s'" "m_xp s = m_xp s'" "m_dir s = m_dir s'" "m_username s = m_username s'"
    "m_inventory s = m_inventory s'" "m_quests s = m_quests s'" "m_move_time s = m_move_time s'"
    "m_last_skill_time s = m_last_skill_time s'" "m_last_ranged_atk_time s = m_last_ranged_atk_time s'"
    "m_atk_boost_until s = m_atk_boost_until s'" "m_def_boost_until s = m_def_boost_until s'"
    "m_spd_boost_until s = m_spd_boost_until s'" "m_buff s = m_buff s'" "m_prev_recv s = m_prev_recv s'"
    by (simp_all add: body_def)
qed

lemma npc_body_eqD:
  assumes "npc_body c = npc_body c'"
  shows "m_id c = m_id c'" "m_x c = m_x c'" "m_y c = m_y c'" "m_hp c = m_hp c'" "m_max_hp c = m_max_hp c'"
    "m_level c = m_level c'" "m_npc_type c = m_npc_type c'" "m_move_state c = m_move_state c'"
    "m_target_id c = m_target_id c'" "m_origin_x c = m_origin_x c'" "m_origin_y c = m_origin_y c'"
    "m_username c = m_username c'" "m_state c = m_state c'" "m_dir c = m_dir c'"
proof -
  from assms have "\<And>f. f (npc_body c) = f (npc_body c')" by simp
  from this [of m_id] this [of m_x] this [of m_y] this [of m_hp] this [of m_max_hp] this [of m_level]
    this [of m_npc_type] this [of m_move_state] this [of m_target_id] this [of m_origin_x]
    this [of m_origin_y] this [of m_username] this [of m_state] this [of m_dir]
  show "m_id c = m_id c'" "m_x c = m_x c'" "m_y c = m_y c'" "m_hp c = m_hp c'" "m_max_hp c = m_max_hp c'"
    "m_level c = m_level c'" "m_npc_type c = m_npc_type c'" "m_move_state c = m_move_state c'"
    "m_target_id c = m_target_id c'" "m_origin_x c = m_origin_x c'" "m_origin_y c = m_origin_y c'"
    "m_username c = m_username c'" "m_state c = m_state c'" "m_dir c = m_dir c'"
    by (simp_all add: npc_body_def)
qed

lemma calm_refl [simp]: "calm w w"
  by (auto simp: calm_def intro!: exI [of _ "{#}"])

lemma calm_trans:
  assumes "calm a b" "calm b c"
  shows "calm a c"
proof -
  from assms(1) obtain t1 where t1: "mset (w_timers b) = mset (w_timers a) + t1"
    "\<forall>e \<in># t1. ev_event_id e = EVENT_NPC_MOVE" unfolding calm_def by blast
  from assms(2) obtain t2 where t2: "mset (w_timers c) = mset (w_timers b) + t2"
    "\<forall>e \<in># t2. ev_event_id e = EVENT_NPC_MOVE" unfolding calm_def by blast
  have ts: "\<exists>ts. mset (w_timers c) = mset (w_timers a) + ts \<and> (\<forall>e \<in># ts. ev_event_id e = EVENT_NPC_MOVE)"
    by (rule exI [of _ "t1 + t2"]) (use t1 t2 in auto)
  have ob: "obj_id b k = obj_id a k" for k
    using assms(1) body_eqD(1) npc_body_eqD(1) unfolding calm_def obj_id_def by metis
  have ss: "set (w_sectors c s) \<subseteq> set (w_sectors a s)" for s
    using assms unfolding calm_def by (meson subset_trans)
  show ?thesis
    using assms ts ss unfolding calm_def ob by (intro conjI) auto
qed

lemma calmD:
  assumes "calm w w'"
  shows "w_items w' = w_items w" "w_next_item_id w' = w_next_item_id w"
    "w_player_index w' = w_player_index w" "w_obstacle w' = w_obstacle w"
    "w_clock w' = w_clock w" "w_rand w' = w_rand w" "w_rands w' = w_rands w" "w_send_ok w' = w_send_ok w"
    "body (w_pl w' k) = body (w_pl w k)" "npc_body (w_npc w' n) = npc_body (w_npc w n)"
    "w_live w' k \<Longrightarrow> w_live w k" "w_live w' k \<Longrightarrow> m_state (w_pl w' k) = m_state (w_pl w k)"
    "w_live w' k \<Longrightarrow> m_client (w_pl w' k) = m_client (w_pl w k)"
    "obj_id w k \<ge> NPC_ID_START \<Longrightarrow> w_live w' k = w_live w k"
    "grid_ok D w \<Longrightarrow> grid_ok D w'" "w_completions w' = w_completions w"
    "i \<in> set (w_sectors w' s) \<Longrightarrow> i \<in> set (w_sectors w s)"
  using assms unfolding calm_def by blast+

lemma calm_timers:
  assumes "calm w w'"
  obtains ts where "mset (w_timers w') = mset (w_timers w) + ts" "\<forall>e \<in># ts. ev_event_id e = EVENT_NPC_MOVE"
  using assms unfolding calm_def by blast

lemmas calm_pl = body_eqD [OF calmD(9)]
lemmas calm_npc = npc_body_eqD [OF calmD(10)]

lemma calm_fold:
  assumes "\<And>x s. x \<in> set xs \<Longrightarrow> calm s (f x s)"
  shows "calm s (fold f xs s)"
  by (rule fold_preorder [of calm]) (use assms in \<open>auto intro: calm_trans\<close>)

lemma calm_for_players:
  assumes "\<And>i s. calm s (f i s)"
  shows "calm s (for_players ids f s)"
  unfolding for_players_def by (rule calm_fold) (use assms in auto)

text \<open>The grid depends on liveness, the sectors and where the objects are.\<close>

lemma grid_ok_cong:
  assumes "w_live w' = w_live w" "w_sectors w' = w_sectors w"
    and "\<And>k. m_id (w_pl w' k) = m_id (w_pl w k)" "\<And>k. m_state (w_pl w' k) = m_state (w_pl w k)"
    and "\<And>k. m_client (w_pl w' k) = m_client (w_pl w k)"
    and "\<And>k. m_x (w_pl w' k) = m_x (w_pl w k)" "\<And>k. m_y (w_pl w' k) = m_y (w_pl w k)"
    and "\<And>k. m_id (w_npc w' k) = m_id (w_npc w k)" "\<And>k. m_hp (w_npc w' k) = m_hp (w_npc w k)"
    and "\<And>k. m_x (w_npc w' k) = m_x (w_npc w k)" "\<And>k. m_y (w_npc w' k) = m_y (w_npc w k)"
  shows "grid_ok D w' \<longleftrightarrow> grid_ok D w"
proof -
  have "positions D w' = positions D w" by (rule ext) (simp add: positions_def assms)
  then show ?thesis by (simp add: grid_ok_def ids_ok_def assms)
qed

text \<open>The steps the send functions are made of.\<close>

lemma calm_upd_send:
  assumes "\<And>s. body (f s) = body s" "\<And>s. m_state (f s) = m_state s" "\<And>s. m_client (f s) = m_client s"
  shows "calm w (upd_pl k f w)"
proof -
  have "m_id (f s) = m_id s" "m_x (f s) = m_x s" "m_y (f s) = m_y s" for s
    using body_eqD [OF assms(1)] by blast+
  then have "grid_ok D (upd_pl k f w) \<longleftrightarrow> grid_ok D w" for D
    by (intro grid_ok_cong) (simp_all add: upd_pl_def assms)
  then show ?thesis
    using assms by (auto simp: calm_def upd_pl_def intro!: exI [of _ "{#}"])
qed

lemma calm_sends: "calm w (w\<lparr>w_sends := a\<rparr>)" "calm w (w\<lparr>w_sends := a, w_posted := b\<rparr>)"
proof -
  have "grid_ok D (w\<lparr>w_sends := a\<rparr>) \<longleftrightarrow> grid_ok D w"
    "grid_ok D (w\<lparr>w_sends := a, w_posted := b\<rparr>) \<longleftrightarrow> grid_ok D w" for D
    by (rule grid_ok_cong; simp)+
  then show "calm w (w\<lparr>w_sends := a\<rparr>)" "calm w (w\<lparr>w_sends := a, w_posted := b\<rparr>)"
    by (auto simp: calm_def obj_id_def intro!: exI [of _ "{#}"])
qed

lemma calm_given: "calm w (w\<lparr>w_given := g\<rparr>)"
proof -
  have "grid_ok D (w\<lparr>w_given := g\<rparr>) \<longleftrightarrow> grid_ok D w" for D by (rule grid_ok_cong; simp)
  then show ?thesis by (auto simp: calm_def obj_id_def intro!: exI [of _ "{#}"])
qed

lemma calm_post_send: "post_send k bs w = (ok, w') \<Longrightarrow> calm w w'"
  using calm_sends by (auto simp: post_send_def Let_def split: if_splits)

lemma calm_clear_queue:
  "calm w (upd_pl k (\<lambda>s. s\<lparr>m_send_queue := q, m_send_pending := p\<rparr>) w)"
  "calm w (upd_pl k (\<lambda>s. s\<lparr>m_send_queue := q\<rparr>) w)"
  "calm w (upd_pl k (\<lambda>s. s\<lparr>m_send_pending := p\<rparr>) w)"
  "calm w (upd_pl k (\<lambda>s. s\<lparr>m_send_queue := m_send_queue s @ [pk]\<rparr>) w)"
  "calm w (upd_pl k (\<lambda>s. s\<lparr>m_visible_objects := g s\<rparr>) w)"
  by (rule calm_upd_send; simp add: body_def)+

text \<open>What the send functions need of \<open>disconnect\<close>.\<close>

locale calm_disconnect =
  fixes disc :: "int \<Rightarrow> world \<Rightarrow> world"
  assumes disc: "calm w (disc k w)"
begin

lemma calm_fail_with: "calm w (fail_send_with disc k w)"
  unfolding fail_send_with_def by (rule calm_trans [OF calm_clear_queue(1) disc])

lemma calm_start_with: "calm w (start_next_send_with disc k w)"
proof (cases "\<not> can_send (w_pl w k) \<or> m_send_queue (w_pl w k) = []")
  case True
  then show ?thesis by (auto simp: start_next_send_with_def Let_def calm_clear_queue)
next
  case False
  obtain batch rest where b: "take_batch 0 (m_send_queue (w_pl w k)) = (batch, rest)"
    by (cases "take_batch 0 (m_send_queue (w_pl w k))")
  let ?w1 = "upd_pl k (\<lambda>s. s\<lparr>m_send_queue := rest\<rparr>) w"
  obtain ok w2 where p: "post_send k (wire_bytes batch) ?w1 = (ok, w2)"
    by (cases "post_send k (wire_bytes batch) ?w1")
  have "calm w w2" by (rule calm_trans [OF calm_clear_queue(2) calm_post_send [OF p]])
  then have "calm w (if ok then w2 else fail_send_with disc k w2)"
    using calm_trans [OF _ calm_fail_with] by simp
  then show ?thesis using False b p by (simp add: start_next_send_with_def Let_def)
qed

lemma calm_do_send_with: "calm w (do_send_with disc k p w)"
proof -
  let ?w1 = "(upd_pl k (\<lambda>s. s\<lparr>m_send_queue := m_send_queue s @ [p]\<rparr>) w)\<lparr>w_given := w_given w @ [(k, p)]\<rparr>"
  have w1: "calm w ?w1" by (rule calm_trans [OF calm_clear_queue(4) calm_given])
  have "calm w (start_next_send_with disc k (upd_pl k (\<lambda>s. s\<lparr>m_send_pending := True\<rparr>) ?w1))"
    by (rule calm_trans [OF calm_trans [OF w1 calm_clear_queue(3)] calm_start_with])
  then show ?thesis using w1 by (simp add: do_send_with_def Let_def)
qed

lemma calm_remove_with: "calm w (send_remove_object_with disc k i w)"
  unfolding send_remove_object_with_def
  by (simp add: calm_trans [OF calm_clear_queue(5) calm_do_send_with])

lemma calm_disconnect_with: "calm w (disconnect_with disc key w)"
proof (cases "\<not> w_live w key \<or> obj_id w key \<ge> NPC_ID_START")
  case True
  then show ?thesis by (simp add: disconnect_with_def)
next
  case False
  let ?cl = "w_pl w key"
  let ?w1 = "if m_state ?cl = CS_PLAYING then db_push_save key ?cl w else w"
  let ?w2 = "upd_pl key (\<lambda>s. s\<lparr>m_state := CS_LOGOUT\<rparr>) ?w1"
  let ?w3 = "?w2\<lparr>w_sectors := remove_object_from_sector key (m_x ?cl) (m_y ?cl) (w_sectors ?w2)\<rparr>"
  define vis where "vis = m_visible_objects (w_pl ?w3 key)"
  define w4 where "w4 = upd_pl key (\<lambda>s. s\<lparr>m_visible_objects := []\<rparr>) ?w3"
  define w5 where "w5 = for_players vis (\<lambda>i. send_remove_object_with disc i key) w4"
  define w6 where "w6 = (upd_pl key (\<lambda>s. s\<lparr>m_client := None\<rparr>) w5)\<lparr>w_live := (w_live w5)(key := False)\<rparr>"
  have res: "disconnect_with disc key w = w6"
    using False by (simp add: disconnect_with_def Let_def w6_def w5_def w4_def vis_def upd_pl_def)
  have w4: "w_items w4 = w_items w" "w_next_item_id w4 = w_next_item_id w"
    "w_player_index w4 = w_player_index w" "w_obstacle w4 = w_obstacle w" "w_clock w4 = w_clock w"
    "w_rand w4 = w_rand w" "w_rands w4 = w_rands w" "w_send_ok w4 = w_send_ok w"
    "w_completions w4 = w_completions w" "w_npc w4 = w_npc w" "w_live w4 = w_live w" "w_timers w4 = w_timers w"
    "w_sectors w4 = remove_object_from_sector key (m_x ?cl) (m_y ?cl) (w_sectors w)"
    "w_pl w4 = (w_pl w)(key := ?cl\<lparr>m_state := CS_LOGOUT, m_visible_objects := []\<rparr>)"
    by (auto simp: w4_def upd_pl_def db_push_save_def)
  have c45: "calm w4 w5"
    unfolding w5_def by (rule calm_for_players [OF calm_remove_with])
  have w6: "w_items w6 = w_items w5" "w_next_item_id w6 = w_next_item_id w5"
    "w_player_index w6 = w_player_index w5" "w_obstacle w6 = w_obstacle w5" "w_clock w6 = w_clock w5"
    "w_rand w6 = w_rand w5" "w_rands w6 = w_rands w5" "w_send_ok w6 = w_send_ok w5"
    "w_completions w6 = w_completions w5" "w_npc w6 = w_npc w5" "w_live w6 = (w_live w5)(key := False)" "w_timers w6 = w_timers w5"
    "w_sectors w6 = w_sectors w5" "w_pl w6 = (w_pl w5)(key := (w_pl w5 key)\<lparr>m_client := None\<rparr>)"
    by (simp_all add: w6_def upd_pl_def)
  have pl: "body (w_pl w6 k) = body (w_pl w k)" for k
    using calmD(9) [OF c45, of k] by (auto simp: w6 w4 body_def)
  have npc: "npc_body (w_npc w6 n) = npc_body (w_npc w n)" for n
    using calmD(10) [OF c45] by (simp add: w6 w4)
  have live: "w_live w6 k \<longrightarrow> w_live w k \<and> m_state (w_pl w6 k) = m_state (w_pl w k)
      \<and> m_client (w_pl w6 k) = m_client (w_pl w k)" for k
    using calmD(11-13) [OF c45, of k] by (auto simp: w6 w4)
  have npcs: "obj_id w k \<ge> NPC_ID_START \<longrightarrow> w_live w6 k = w_live w k" for k
  proof
    assume k: "obj_id w k \<ge> NPC_ID_START"
    then have "k \<noteq> key" using False by auto
    moreover have "obj_id w4 k = obj_id w k" using \<open>k \<noteq> key\<close> by (simp add: obj_id_def w4)
    ultimately show "w_live w6 k = w_live w k" using calmD(14) [OF c45, of k] k by (simp add: w6 w4)
  qed
  have grid: "grid_ok D w6" if g: "grid_ok D w" for D
  proof -
    let ?ss = "only (w_live w) (w_sectors w)"
    have ids: "ids_ok w" and tr: "sectors_track ?ss (positions D w)"
      using g by (simp_all add: grid_ok_def)
    have ss4: "only (w_live w4) (w_sectors w4) = remove_object_from_sector key (m_x ?cl) (m_y ?cl) ?ss"
      by (simp add: w4 only_remove)
    have pc: "is_pc key"
      using ids False by (auto simp: ids_ok_def is_pc_def is_npc_def obj_id_def split: if_splits)
    have ids4: "ids_ok w4" using ids False by (auto simp: ids_ok_def w4 split: if_splits)
    have pos4: "positions D w4 = (positions D w)(key := None)"
      using pc by (auto simp: positions_def w4)
    have "sectors_track (only (w_live w4) (w_sectors w4)) (positions D w4)"
    proof (cases "positions D w key")
      case None
      then have "key \<notin> set (?ss s)" for s using tr by (simp add: sectors_track_def)
      then have "only (w_live w4) (w_sectors w4) = ?ss" by (simp add: ss4 remove_object_from_sector_def)
      moreover have "positions D w4 = positions D w" using None pos4 by auto
      ultimately show ?thesis using tr by simp
    next
      case (Some p)
      then have "p = (m_x ?cl, m_y ?cl)" using pc by (auto simp: positions_def split: if_splits)
      then show ?thesis unfolding pos4 ss4 using grid.tracks_remove [OF tr] Some by simp
    qed
    then have "grid_ok D w4" using ids4 by (simp add: grid_ok_def)
    then have g5: "grid_ok D w5" by (rule calmD(15) [OF c45])
    have lo: "w_live w5 key \<longrightarrow> m_state (w_pl w5 key) = CS_LOGOUT"
      using calmD(12) [OF c45, of key] by (simp add: w4)
    have "positions D w5 key = None" using lo pc by (auto simp: positions_def)
    then have "key \<notin> set (only (w_live w5) (w_sectors w5) s)" for s
      using g5 by (simp add: grid_ok_def sectors_track_def)
    then have "only (w_live w6) (w_sectors w6) = only (w_live w5) (w_sectors w5)"
      by (auto simp: only_def w6 fun_eq_iff intro!: filter_cong split: if_splits)
    moreover have "positions D w6 = positions D w5"
    proof (rule ext)
      fix i
      from lo show "positions D w6 i = positions D w5 i" using pc by (auto simp: positions_def w6)
    qed
    moreover have "ids_ok w6" using g5 pc lo by (auto simp: grid_ok_def ids_ok_def w6 is_pc_def is_npc_def)
    ultimately show ?thesis using g5 by (simp add: grid_ok_def)
  qed
  have ss: "set (w_sectors w6 s) \<subseteq> set (w_sectors w s)" for s
  proof
    fix i assume "i \<in> set (w_sectors w6 s)"
    then have "i \<in> set (w_sectors w4 s)" using calmD(17) [OF c45, of i s] by (simp add: w6)
    then show "i \<in> set (w_sectors w s)" by (simp add: w4 remove_object_from_sector_def split: if_splits)
  qed
  have tm: "\<exists>ts. mset (w_timers w6) = mset (w_timers w) + ts \<and> (\<forall>e \<in># ts. ev_event_id e = EVENT_NPC_MOVE)"
    using calm_timers [OF c45] by (metis w4(12) w6(12))
  have "calm w w6"
    unfolding calm_def
    using calmD(1-8,16) [OF c45] pl npc live npcs grid tm ss
    by (intro conjI allI) (simp_all add: w4 w6)
  then show ?thesis by (simp add: res)
qed

end

text \<open>Every depth of the recursion provides the interface.\<close>

lemma calm_disconnect_fuel: "calm w (disconnect_fuel n k w)"
proof (induction n arbitrary: k w)
  case (Suc n)
  have "calm_disconnect (disconnect_fuel n)" by unfold_locales (rule Suc.IH)
  then show ?case by (simp add: calm_disconnect.calm_disconnect_with)
qed simp

interpretation net: calm_disconnect disconnect
  by unfold_locales (simp add: disconnect_def calm_disconnect_fuel)

lemma calm_disconnect: "calm w (disconnect k w)"
  by (rule net.disc)

lemma calm_do_send: "calm w (do_send k p w)"
  unfolding do_send_def by (rule net.calm_do_send_with)

lemma calm_start_next_send: "calm w (start_next_send k w)"
  unfolding start_next_send_def by (rule net.calm_start_with)

lemma calm_fail_send: "calm w (fail_send k w)"
  unfolding fail_send_def by (rule net.calm_fail_with)

lemma calm_on_send_complete: "calm w (on_send_complete k bs n w)"
proof -
  obtain ok w1 where p: "post_send k (drop n bs) w = (ok, w1)" by (cases "post_send k (drop n bs) w")
  show ?thesis
    using calm_trans [OF calm_post_send [OF p] calm_fail_send] calm_post_send [OF p]
    by (simp add: on_send_complete_def p calm_fail_send calm_start_next_send)
qed

section \<open>The send functions and the view\<close>

lemma calm_send_packets [simp]:
  "calm w (send_login_success k w)" "calm w (send_avatar_info k w)"
  "calm w (send_chat k i nm msg w)" "calm w (send_stat_info k i hp mhp lv xp nx st w)"
  "calm w (send_damage_info k a t d hp w)" "calm w (send_item_appear k iid x y it w)"
  "calm w (send_item_remove k iid w)" "calm w (send_item_add k it n w)"
  "calm w (send_quest_update k q w)" "calm w (do_send k p w)" "calm w (disconnect k w)"
  by (simp_all add: send_login_success_def send_avatar_info_def send_chat_def send_stat_info_def
      send_damage_info_def send_item_appear_def send_item_remove_def send_item_add_def
      send_quest_update_def Let_def calm_do_send calm_disconnect)

lemma calm_send_move_object [simp]: "calm w (send_move_object k i w)"
  by (simp add: send_move_object_def split: option.split)

lemma calm_send_remove_object [simp]: "calm w (send_remove_object k i w)"
  unfolding send_remove_object_def by (rule net.calm_remove_with)

lemma calm_send_add_object [simp]: "calm w (send_add_object k i w)"
proof -
  have "calm w (do_send k p (upd_pl k (\<lambda>s. s\<lparr>m_visible_objects := g s\<rparr>) w))" for p g
    by (rule calm_trans [OF calm_clear_queue(5) calm_do_send])
  then show ?thesis by (simp add: send_add_object_def Let_def split: option.split)
qed

lemma calm_send_all [simp]:
  "calm w (send_all_world_items k w)" "calm w (send_all_inventory_items k w)"
  "calm w (send_all_quest_states k w)"
  unfolding send_all_world_items_def send_all_inventory_items_def send_all_quest_states_def
  by (rule calm_fold; simp)+

lemma calm_wake_up [simp]: "calm w (wake_up n w)"
proof (cases "m_active_npc (w_npc w n)")
  case False
  define e where "e = \<lparr> ev_obj_id = m_id (w_npc w n),
    ev_wakeup_time = w_clock w (w_ticks w) + ms MOVE_COOL_TIME, ev_event_id = EVENT_NPC_MOVE \<rparr>"
  define w' where "w' = wake_up n w"
  have w': "w_items w' = w_items w" "w_next_item_id w' = w_next_item_id w"
    "w_player_index w' = w_player_index w" "w_obstacle w' = w_obstacle w" "w_clock w' = w_clock w"
    "w_rand w' = w_rand w" "w_rands w' = w_rands w" "w_send_ok w' = w_send_ok w"
    "w_live w' = w_live w" "w_pl w' = w_pl w" "w_sectors w' = w_sectors w" "w_completions w' = w_completions w"
    "w_npc w' = (w_npc w)(n := (w_npc w n)\<lparr>m_active_npc := True\<rparr>)"
    "mset (w_timers w') = mset (w_timers w) + {#e#}"
    using False by (simp_all add: w'_def e_def wake_up_def Let_def clock_now_def upd_npc_def push_timer_def)
  have "grid_ok D w' \<longleftrightarrow> grid_ok D w" for D
    by (rule grid_ok_cong) (simp_all add: w')
  moreover have "\<exists>ts. mset (w_timers w') = mset (w_timers w) + ts \<and> (\<forall>e \<in># ts. ev_event_id e = EVENT_NPC_MOVE)"
    by (rule exI [of _ "{#e#}"]) (simp add: w' e_def)
  moreover have "npc_body (w_npc w' k) = npc_body (w_npc w k)" for k
    by (simp add: w' npc_body_def)
  ultimately have "calm w w'" unfolding calm_def by (simp add: w'(1-12))
  then show ?thesis by (simp add: w'_def)
qed (simp add: wake_up_def)

lemma calm_update_player_view [simp]: "calm w (update_player_view k w)"
proof -
  have e: "calm s (enter_view k ov i s)" for ov i s
    by (simp add: enter_view_def Let_def calm_trans [OF calm_send_add_object calm_send_add_object]
        calm_trans [OF calm_send_add_object calm_wake_up])
  have l: "calm s (leave_view k nv i s)" for nv i s
    by (simp add: leave_view_def Let_def calm_trans [OF calm_send_remove_object calm_send_remove_object])
  have "calm w (fold (leave_view k nv) ov' (fold (enter_view k ov) nv' (send_move_object k k w)))" for nv ov nv' ov'
    by (rule calm_trans [OF calm_trans [OF calm_send_move_object calm_fold [OF e]] calm_fold [OF l]])
  then show ?thesis by (simp add: update_player_view_def Let_def)
qed

section \<open>The start\<close>

lemma grid_ok_init: "grid_ok D (init_world obs clk rnd ack)"
proof -
  have "positions D (init_world obs clk rnd ack) = Map.empty"
    by (rule ext) (simp add: positions_def init_world_def)
  then show ?thesis
    using sectors_track_empty
    by (simp add: grid_ok_def ids_ok_def init_world_def no_session_def new_session_def only_def empty_sectors_def)
qed

end
