(* ===== verification/View.thy ===== *)
theory View
  imports Frame
begin

text \<open>
  \<open>update_player_view\<close> when no \<open>WSASend\<close> is refused (\<open>sends_ok\<close>): then no session is
  closed on the way, and the sets \<open>m_visible_objects\<close> change only by the adds and removes the
  function makes. The result is exact: a player sees the playing objects within 5 tiles, and the
  players that came into view or left it got or lost the player in turn.
\<close>

section \<open>Sends that are accepted\<close>

definition sends_ok :: "world \<Rightarrow> bool" where
  "sends_ok w \<longleftrightarrow> (\<forall>i. w_send_ok w i)"

definition vis :: "world \<Rightarrow> int \<Rightarrow> uset" where
  "vis w k = m_visible_objects (w_pl w k)"

text \<open>Everything a view depends on, and the views.\<close>

definition steady :: "world \<Rightarrow> world \<Rightarrow> bool" where
  "steady w w' \<longleftrightarrow> calm w w' \<and> w_live w' = w_live w \<and> w_sectors w' = w_sectors w
    \<and> (\<forall>k. m_state (w_pl w' k) = m_state (w_pl w k)) \<and> (\<forall>k. m_client (w_pl w' k) = m_client (w_pl w k))"

lemma steady_refl [simp]: "steady w w"
  by (simp add: steady_def)

lemma steady_trans: "steady a b \<Longrightarrow> steady b c \<Longrightarrow> steady a c"
  by (auto simp: steady_def intro: calm_trans)

lemma steadyD:
  assumes "steady w w'"
  shows "calm w w'" "w_live w' = w_live w" "w_sectors w' = w_sectors w"
    "m_state (w_pl w' k) = m_state (w_pl w k)" "m_client (w_pl w' k) = m_client (w_pl w k)"
    "sends_ok w' = sends_ok w" "can_send (w_pl w' k) = can_send (w_pl w k)"
    "m_x (w_pl w' k) = m_x (w_pl w k)" "m_y (w_pl w' k) = m_y (w_pl w k)"
  using assms calmD(8) [of w w'] calm_pl(1-3) [of w w' k]
  by (auto simp: steady_def sends_ok_def can_send_def)

lemma steady_npc_state: "steady w w' \<Longrightarrow> m_state (w_npc w' n) = m_state (w_npc w n)"
  using calm_npc(13) [OF steadyD(1)] by blast

lemma steady_object:
  assumes "steady w w'"
  shows "(case get_object w' i of None \<Rightarrow> False | Some ob \<Rightarrow> m_state ob = CS_PLAYING)
    \<longleftrightarrow> (case get_object w i of None \<Rightarrow> False | Some ob \<Rightarrow> m_state ob = CS_PLAYING)"
  using steadyD(2,4) [OF assms] steady_npc_state [OF assms]
  by (simp add: get_object_def cobject.truncate_def)

definition playing :: "world \<Rightarrow> int \<Rightarrow> bool" where
  "playing w i \<longleftrightarrow> (case get_object w i of None \<Rightarrow> False | Some ob \<Rightarrow> m_state ob = CS_PLAYING)"

lemma steady_playing: "steady w w' \<Longrightarrow> playing w' i = playing w i"
  unfolding playing_def by (rule steady_object)

lemma vis_upd_send:
  assumes "\<And>s. body (f s) = body s" "\<And>s. m_state (f s) = m_state s" "\<And>s. m_client (f s) = m_client s"
  shows "steady w (upd_pl k f w)"
  using calm_upd_send [OF assms] assms(2,3) by (simp add: steady_def upd_pl_def)

lemma steady_queue:
  "steady w (upd_pl k (\<lambda>s. s\<lparr>m_send_queue := q s\<rparr>) w)"
  "steady w (upd_pl k (\<lambda>s. s\<lparr>m_send_pending := p\<rparr>) w)"
  "steady w (upd_pl k (\<lambda>s. s\<lparr>m_visible_objects := g s\<rparr>) w)"
  by (rule vis_upd_send; simp add: body_def)+

lemma steady_given: "steady w (w\<lparr>w_given := g\<rparr>)"
  using calm_given by (simp add: steady_def)

lemma steady_post_send:
  "post_send k bs w = (ok, w') \<Longrightarrow> steady w w' \<and> w_pl w' = w_pl w \<and> (sends_ok w \<longrightarrow> ok)"
  using calm_post_send [of k bs w ok w']
  by (auto simp: post_send_def Let_def steady_def sends_ok_def)

lemma do_send_ok:
  assumes "sends_ok w"
  shows "steady w (do_send k p w)" "vis (do_send k p w) = vis w"
proof -
  have start: "steady u (start_next_send_with disconnect k u) \<and> vis (start_next_send_with disconnect k u) = vis u"
    if u: "sends_ok u" for u
  proof (cases "\<not> can_send (w_pl u k) \<or> m_send_queue (w_pl u k) = []")
    case True
    then show ?thesis using steady_queue(2)
      by (auto simp: start_next_send_with_def Let_def vis_def upd_pl_def fun_eq_iff)
  next
    case False
    obtain b r where b: "take_batch 0 (m_send_queue (w_pl u k)) = (b, r)"
      by (cases "take_batch 0 (m_send_queue (w_pl u k))")
    let ?u1 = "upd_pl k (\<lambda>s. s\<lparr>m_send_queue := r\<rparr>) u"
    obtain ok u2 where p: "post_send k (wire_bytes b) ?u1 = (ok, u2)"
      by (cases "post_send k (wire_bytes b) ?u1")
    have q: "steady u ?u1" by (rule steady_queue)
    have "ok" "steady ?u1 u2" "w_pl u2 = w_pl ?u1"
      using steady_post_send [OF p] steadyD(6) [OF q] u by auto
    then have "steady u u2" "vis u2 = vis u"
      using steady_trans [OF q] by (auto simp: vis_def upd_pl_def fun_eq_iff)
    then show ?thesis using False b p \<open>ok\<close> by (simp add: start_next_send_with_def Let_def)
  qed
  let ?w1 = "(upd_pl k (\<lambda>s. s\<lparr>m_send_queue := m_send_queue s @ [p]\<rparr>) w)\<lparr>w_given := w_given w @ [(k, p)]\<rparr>"
  let ?w2 = "upd_pl k (\<lambda>s. s\<lparr>m_send_pending := True\<rparr>) ?w1"
  have s1: "steady w ?w1" by (rule steady_trans [OF steady_queue(1) steady_given])
  have s2: "steady w ?w2" by (rule steady_trans [OF s1 steady_queue(2)])
  have v: "vis ?w1 = vis w" "vis ?w2 = vis w" by (auto simp: vis_def upd_pl_def)
  have "sends_ok ?w2" using steadyD(6) [OF s2] assms by simp
  from start [OF this] show "steady w (do_send k p w)" "vis (do_send k p w) = vis w"
    using s1 v steady_trans [OF s2] by (simp_all add: do_send_def do_send_with_def Let_def)
qed

lemma send_add_ok:
  assumes "sends_ok w"
  shows "steady w (send_add_object k i w)"
    and "vis (send_add_object k i w) =
      (if can_send (w_pl w k) \<and> playing w i then (vis w)(k := us_insert i (vis w k)) else vis w)"
proof -
  let ?w1 = "upd_pl k (\<lambda>s. s\<lparr>m_visible_objects := us_insert i (m_visible_objects s)\<rparr>) w"
  have s1: "steady w ?w1" by (rule steady_queue)
  have ok: "sends_ok ?w1" using steadyD(6) [OF s1] assms by simp
  have v1: "vis ?w1 = (vis w)(k := us_insert i (vis w k))" by (auto simp: vis_def upd_pl_def)
  have "us_insert i (vis w k) = vis w k" if "i \<in> set (vis w k)" using that by simp
  then show "steady w (send_add_object k i w)"
    "vis (send_add_object k i w) =
      (if can_send (w_pl w k) \<and> playing w i then (vis w)(k := us_insert i (vis w k)) else vis w)"
    using steady_trans [OF s1 do_send_ok(1) [OF ok]] do_send_ok(2) [OF ok] v1
    by (auto simp: send_add_object_def playing_def Let_def vis_def split: option.splits if_splits)
qed

lemma send_remove_ok:
  assumes "sends_ok w"
  shows "steady w (send_remove_object k i w)"
    and "vis (send_remove_object k i w) =
      (if can_send (w_pl w k) then (vis w)(k := us_erase i (vis w k)) else vis w)"
proof -
  let ?w1 = "upd_pl k (\<lambda>s. s\<lparr>m_visible_objects := us_erase i (m_visible_objects s)\<rparr>) w"
  have s1: "steady w ?w1" by (rule steady_queue)
  have ok: "sends_ok ?w1" using steadyD(6) [OF s1] assms by simp
  have v1: "vis ?w1 = (vis w)(k := us_erase i (vis w k))" by (auto simp: vis_def upd_pl_def)
  show "steady w (send_remove_object k i w)"
    "vis (send_remove_object k i w) =
      (if can_send (w_pl w k) then (vis w)(k := us_erase i (vis w k)) else vis w)"
    using steady_trans [OF s1 do_send_ok(1) [OF ok, unfolded do_send_def]]
      do_send_ok(2) [OF ok, unfolded do_send_def] v1
    by (auto simp: send_remove_object_def send_remove_object_with_def vis_def)
qed

lemma send_move_ok:
  assumes "sends_ok w"
  shows "steady w (send_move_object k i w)" "vis (send_move_object k i w) = vis w"
  using do_send_ok [OF assms] by (auto simp: send_move_object_def split: option.splits)

lemma wake_up_ok: "steady w (wake_up n w)" "vis (wake_up n w) = vis w"
proof -
  have "w_pl (wake_up n w) = w_pl w" "w_live (wake_up n w) = w_live w" "w_sectors (wake_up n w) = w_sectors w"
    by (simp_all add: wake_up_def Let_def clock_now_def upd_npc_def push_timer_def)
  then show "steady w (wake_up n w)" "vis (wake_up n w) = vis w"
    by (simp_all add: steady_def vis_def fun_eq_iff)
qed

section \<open>The two loops\<close>

lemma enter_one:
  assumes ok: "sends_ok w" and k: "can_send (w_pl w k)" "playing w k" and i: "playing w i" "i \<noteq> k"
  shows "steady w (enter_view k ov i w)"
    and "set (vis (enter_view k ov i w) k) = set (vis w k) \<union> ({i} - set ov)"
    and "j \<noteq> k \<Longrightarrow> set (vis (enter_view k ov i w) j) =
      set (vis w j) \<union> (if j = i \<and> i \<notin> set ov \<and> is_pc i \<and> can_send (w_pl w i) then {k} else {})"
proof -
  have live: "w_live w i" using i(1) by (auto simp: playing_def get_object_def split: if_splits)
  let ?w1 = "send_add_object k i w"
  note a = send_add_ok [OF ok, of k i]
  have ok1: "sends_ok ?w1" using steadyD(6) [OF a(1)] ok by simp
  note b = send_add_ok [OF ok1, of i k]
  have v1: "vis ?w1 = (vis w)(k := us_insert i (vis w k))" using a(2) k(1) i(1) by simp
  have v2: "vis (send_add_object i k ?w1) =
      (if can_send (w_pl w i) then (vis ?w1)(i := us_insert k (vis ?w1 i)) else vis ?w1)"
    using b(2) steadyD(7) [OF a(1)] steady_playing [OF a(1)] k(2) by simp
  have u: "enter_view k ov i w =
      (if i \<notin> set ov then (if is_pc i then send_add_object i k ?w1 else wake_up i ?w1)
       else if is_pc i then send_move_object i k w else w)"
    using live by (simp add: enter_view_def Let_def)
  show "steady w (enter_view k ov i w)"
    unfolding u using steady_trans [OF a(1)] a(1) b(1) wake_up_ok(1) [of ?w1 i] send_move_ok(1) [OF ok] by simp
  show "set (vis (enter_view k ov i w) k) = set (vis w k) \<union> ({i} - set ov)"
    unfolding u using i(2) by (auto simp: v1 v2 wake_up_ok send_move_ok [OF ok])
  show "j \<noteq> k \<Longrightarrow> set (vis (enter_view k ov i w) j) =
      set (vis w j) \<union> (if j = i \<and> i \<notin> set ov \<and> is_pc i \<and> can_send (w_pl w i) then {k} else {})"
    unfolding u using i(2) by (auto simp: v1 v2 wake_up_ok send_move_ok [OF ok])
qed

lemma enter_all:
  assumes "sends_ok w" "can_send (w_pl w k)" "playing w k"
    and "\<forall>i \<in> set xs. playing w i \<and> i \<noteq> k"
  shows "steady w (fold (enter_view k ov) xs w)
    \<and> set (vis (fold (enter_view k ov) xs w) k) = set (vis w k) \<union> (set xs - set ov)
    \<and> (\<forall>j. j \<noteq> k \<longrightarrow> set (vis (fold (enter_view k ov) xs w) j) = set (vis w j) \<union>
         (if j \<in> set xs \<and> j \<notin> set ov \<and> is_pc j \<and> can_send (w_pl w j) then {k} else {}))"
  using assms
proof (induction xs arbitrary: w)
  case (Cons i xs)
  let ?w1 = "enter_view k ov i w"
  have i: "playing w i" "i \<noteq> k" using Cons.prems(4) by auto
  note e = enter_one [OF Cons.prems(1-3) i, where ov = ov]
  have "sends_ok ?w1" "can_send (w_pl ?w1 k)" "playing ?w1 k" "\<forall>i \<in> set xs. playing ?w1 i \<and> i \<noteq> k"
    using Cons.prems steadyD(6,7) [OF e(1)] steady_playing [OF e(1)] by auto
  note IH = Cons.IH [OF this]
  have "can_send (w_pl ?w1 j) = can_send (w_pl w j)" for j by (rule steadyD(7) [OF e(1)])
  then show ?case using IH e(2,3) steady_trans [OF e(1)] by auto
qed simp

lemma leave_one:
  assumes ok: "sends_ok w" and k: "can_send (w_pl w k)"
  shows "steady w (leave_view k nv i w)"
    and "set (vis (leave_view k nv i w) k) = set (vis w k) - ({i} - set nv)"
    and "j \<noteq> k \<Longrightarrow> set (vis (leave_view k nv i w) j) =
      set (vis w j) - (if j = i \<and> i \<notin> set nv \<and> is_pc i \<and> w_live w i \<and> can_send (w_pl w i) then {k} else {})"
proof -
  let ?w1 = "send_remove_object k i w"
  note a = send_remove_ok [OF ok, of k i]
  have ok1: "sends_ok ?w1" using steadyD(6) [OF a(1)] ok by simp
  note b = send_remove_ok [OF ok1, of i k]
  have u: "leave_view k nv i w =
      (if i \<in> set nv then w else if is_pc i \<and> w_live w i then send_remove_object i k ?w1 else ?w1)"
    using steadyD(2) [OF a(1)] by (simp add: leave_view_def Let_def)
  have v2: "vis (send_remove_object i k ?w1) =
      (if can_send (w_pl w i) then (vis ?w1)(i := us_erase k (vis ?w1 i)) else vis ?w1)"
    using b(2) steadyD(7) [OF a(1)] by simp
  show "steady w (leave_view k nv i w)"
    unfolding u using steady_trans [OF a(1)] a(1) b(1) by simp
  show "set (vis (leave_view k nv i w) k) = set (vis w k) - ({i} - set nv)"
    unfolding u using k by (auto simp: a(2) v2)
  show "j \<noteq> k \<Longrightarrow> set (vis (leave_view k nv i w) j) =
      set (vis w j) - (if j = i \<and> i \<notin> set nv \<and> is_pc i \<and> w_live w i \<and> can_send (w_pl w i) then {k} else {})"
    unfolding u using k by (auto simp: a(2) v2)
qed

lemma leave_all:
  assumes "sends_ok w" "can_send (w_pl w k)"
  shows "steady w (fold (leave_view k nv) xs w)
    \<and> set (vis (fold (leave_view k nv) xs w) k) = set (vis w k) - (set xs - set nv)
    \<and> (\<forall>j. j \<noteq> k \<longrightarrow> set (vis (fold (leave_view k nv) xs w) j) = set (vis w j) -
         (if j \<in> set xs \<and> j \<notin> set nv \<and> is_pc j \<and> w_live w j \<and> can_send (w_pl w j) then {k} else {}))"
  using assms
proof (induction xs arbitrary: w)
  case (Cons i xs)
  let ?w1 = "leave_view k nv i w"
  note e = leave_one [OF Cons.prems, where nv = nv and i = i]
  have "sends_ok ?w1" "can_send (w_pl ?w1 k)"
    using Cons.prems steadyD(6,7) [OF e(1)] by auto
  note IH = Cons.IH [OF this]
  have "can_send (w_pl ?w1 j) = can_send (w_pl w j)" "w_live ?w1 j = w_live w j" for j
    by (simp_all add: steadyD(2,7) [OF e(1)])
  then show ?case using IH e(2,3) steady_trans [OF e(1)] by auto
qed simp

section \<open>The view computed\<close>

lemma set_fold_insert: "set (fold us_insert xs s) = set s \<union> set xs"
  by (induction xs arbitrary: s) auto

lemma set_new_view:
  "set (new_view k w) = {i \<in> set (nearby w (m_x (w_pl w k)) (m_y (w_pl w k))). i \<noteq> k \<and>
     (case get_object w i of None \<Rightarrow> False
      | Some ob \<Rightarrow> m_state ob = CS_PLAYING \<and> can_see (w_pl w k) (m_x ob) (m_y ob))}"
  by (auto simp: new_view_def Let_def set_fold_insert)

lemma new_view_playing: "i \<in> set (new_view k w) \<Longrightarrow> playing w i \<and> i \<noteq> k"
  by (auto simp: set_new_view playing_def split: option.splits)

text \<open>With a right grid: the objects in play within the view range.\<close>

definition in_play :: "world \<Rightarrow> int \<Rightarrow> bool" where
  "in_play w i \<longleftrightarrow> w_live w i \<and>
    (if is_pc i then m_state (w_pl w i) = CS_PLAYING
     else m_state (w_npc w i) = CS_PLAYING \<and> m_hp (w_npc w i) > 0)"

definition obj_pos :: "world \<Rightarrow> int \<Rightarrow> int \<times> int" where
  "obj_pos w i = (if is_pc i then (m_x (w_pl w i), m_y (w_pl w i)) else (m_x (w_npc w i), m_y (w_npc w i)))"

definition sees :: "int \<times> int \<Rightarrow> int \<times> int \<Rightarrow> bool" where
  "sees p q \<longleftrightarrow> \<bar>fst p - fst q\<bar> \<le> VIEW_RANGE \<and> \<bar>snd p - snd q\<bar> \<le> VIEW_RANGE"

definition npcs_play :: "world \<Rightarrow> bool" where
  "npcs_play w \<longleftrightarrow> (\<forall>n. is_npc n \<and> w_live w n \<longrightarrow> m_state (w_npc w n) = CS_PLAYING)"

lemma new_view_exact:
  assumes g: "grid_ok {} w" and np: "npcs_play w" and k: "is_pc k" "in_play w k"
  shows "set (new_view k w) = {i. i \<noteq> k \<and> in_play w i \<and> sees (obj_pos w k) (obj_pos w i)}"
proof -
  let ?x = "m_x (w_pl w k)" and ?y = "m_y (w_pl w k)"
  let ?near = "get_objects_in_adjacent_sectors ?x ?y (only (w_live w) (w_sectors w))"
  have tr: "sectors_track (only (w_live w) (w_sectors w)) (positions {} w)"
    using g by (simp add: grid_ok_def)
  have near: "i \<in> set ?near \<longleftrightarrow> w_live w i \<and> i \<in> set (nearby w ?x ?y)" for i
    by (auto simp: near_only nearby_def)
  have pos: "positions {} w i = (if in_play w i then Some (obj_pos w i) else None)" for i
    using np by (auto simp: positions_def in_play_def obj_pos_def npcs_play_def is_pc_def is_npc_def)
  have t: "tile ?x ?y"
    using grid.tracks_tile [OF tr, of k ?x ?y] k by (simp add: pos obj_pos_def)
  have q: "i \<in> set (nearby w ?x ?y)" if "in_play w i" "sees (obj_pos w k) (obj_pos w i)" for i
    using grid.near_complete [OF tr t, of i "fst (obj_pos w i)" "snd (obj_pos w i)"] that k(1)
    unfolding near by (auto simp: pos sees_def obj_pos_def)
  have r: "in_play w i" if "i \<in> set (nearby w ?x ?y)" "w_live w i" for i
    using grid.near_sound [OF tr t, of i] that unfolding near by (auto simp: pos split: if_splits)
  have see: "(case get_object w i of None \<Rightarrow> False
      | Some ob \<Rightarrow> m_state ob = CS_PLAYING \<and> can_see (w_pl w k) (m_x ob) (m_y ob))
      \<longleftrightarrow> sees (obj_pos w k) (obj_pos w i)" if "in_play w i" for i
    using that k(1)
    by (auto simp: in_play_def get_object_def can_see_def sees_def obj_pos_def cobject.truncate_def)
  have "w_live w i" if "case get_object w i of None \<Rightarrow> False
      | Some ob \<Rightarrow> m_state ob = CS_PLAYING \<and> can_see (w_pl w k) (m_x ob) (m_y ob)" for i
    using that by (auto simp: get_object_def split: if_splits)
  then show ?thesis using q r see by (auto simp: set_new_view)
qed

section \<open>Properties\<close>

text \<open>
  C10: a player in play whose view is updated, with a right grid and no refused send, sees exactly
  the other players in play and living NPCs within 5 tiles in both axes; the players that came
  into view have it in their sets and those that left its view do not, and nobody else's set
  changes.
\<close>

theorem view_update_exact:
  assumes "grid_ok {} w" "npcs_play w" "sends_ok w"
    and "is_pc k" "in_play w k" "can_send (w_pl w k)"
  defines "w' \<equiv> update_player_view k w"
    and "nv \<equiv> {i. i \<noteq> k \<and> in_play w i \<and> sees (obj_pos w k) (obj_pos w i)}"
  shows "set (vis w' k) = nv
    \<and> (\<forall>j. is_pc j \<and> j \<noteq> k \<and> w_live w j \<and> can_send (w_pl w j) \<longrightarrow>
         set (vis w' j) = (if j \<in> nv - set (vis w k) then insert k (set (vis w j))
           else if j \<in> set (vis w k) - nv then set (vis w j) - {k} else set (vis w j)))"
proof -
  have nv: "set (new_view k w) = nv" using new_view_exact [OF assms(1,2,4,5)] by (simp add: nv_def)
  let ?ov = "vis w k" and ?w1 = "send_move_object k k w"
  define w2 where "w2 = fold (enter_view k ?ov) (new_view k w) ?w1"
  have live: "w_live w k" using assms(5) by (simp add: in_play_def)
  have plk: "playing w k"
    using assms(4,5) by (simp add: playing_def in_play_def get_object_def cobject.truncate_def)
  have w': "w' = fold (leave_view k (new_view k w)) ?ov w2"
    using live assms(6) by (simp add: w'_def update_player_view_def Let_def vis_def w2_def)
  note m = send_move_ok [OF assms(3), of k k]
  have e: "steady ?w1 w2 \<and> set (vis w2 k) = set ?ov \<union> (set (new_view k w) - set ?ov)
    \<and> (\<forall>j. j \<noteq> k \<longrightarrow> set (vis w2 j) = set (vis w j) \<union>
        (if j \<in> set (new_view k w) \<and> j \<notin> set ?ov \<and> is_pc j \<and> can_send (w_pl w j) then {k} else {}))"
    unfolding w2_def
    using enter_all [of ?w1 k "new_view k w" ?ov] assms(3,6) plk new_view_playing [of _ k w]
      steadyD(6,7) [OF m(1)] steady_playing [OF m(1)] by (simp add: m(2))
  have s: "steady w w2" using steady_trans [OF m(1)] e by blast
  have "sends_ok w2" "can_send (w_pl w2 k)" using steadyD(6,7) [OF s] assms(3,6) by simp_all
  note l = leave_all [OF this, where nv = "new_view k w" and xs = ?ov]
  show ?thesis
    unfolding w' using l e steadyD(2,7) [OF s] by (auto simp: nv)
qed

text \<open>Two players side by side, neither of whom has been told of the other.\<close>

definition two_players :: world where
  "two_players = (init_world (\<lambda>_ _. False) (\<lambda>_. 0) (\<lambda>_. 0) (\<lambda>_. True))\<lparr>
     w_live := (\<lambda>k. k = 1 \<or> k = 2),
     w_pl := (\<lambda>k. if k = 1 \<or> k = 2 then (new_session 5 k 0)\<lparr>m_state := CS_PLAYING, m_x := 1000 + k\<rparr>
                  else no_session k),
     w_sectors := add_object_to_sector 2 1002 100 (add_object_to_sector 1 1001 100 empty_sectors)\<rparr>"

lemma two_players_ok: "grid_ok {} two_players"
proof -
  have "positions {} two_players = [1 \<mapsto> (1001, 100), 2 \<mapsto> (1002, 100)]"
    by (rule ext) (auto simp: positions_def two_players_def is_pc_def new_session_def)
  moreover have "only (w_live two_players) (w_sectors two_players) =
      add_object_to_sector 2 1002 100 (add_object_to_sector 1 1001 100 empty_sectors)"
    by (simp add: two_players_def only_add) (simp add: only_def empty_sectors_def)
  moreover have "sectors_track (add_object_to_sector 2 1002 100 (add_object_to_sector 1 1001 100 empty_sectors))
      [1 \<mapsto> (1001, 100), 2 \<mapsto> (1002, 100)]"
    using grid.tracks_add [OF grid.tracks_add [OF sectors_track_empty, of 1001 100 1], of 1002 100 2]
    by (simp add: tile_def)
  ultimately show ?thesis
    by (auto simp: grid_ok_def ids_ok_def two_players_def no_session_def new_session_def
        init_world_def is_pc_def is_npc_def)
qed

text \<open>The same with each in the view of the other.\<close>

definition neighbours :: world where
  "neighbours = two_players\<lparr>w_obstacle := (\<lambda>x y. \<not> tile x y), w_pl := (\<lambda>k. (w_pl two_players k)\<lparr>m_visible_objects := (if k = 1 then [2] else if k = 2 then [1] else [])\<rparr>)\<rparr>"

lemma neighbours_ok: "grid_ok {} neighbours"
proof -
  have "grid_ok {} neighbours \<longleftrightarrow> grid_ok {} two_players"
    by (rule grid_ok_cong) (simp_all add: neighbours_def)
  then show ?thesis using two_players_ok by simp
qed

theorem view_update_exact_witness:
  "set (vis (update_player_view 1 two_players) 1) = {2}"
proof -
  have "in_play two_players i \<longleftrightarrow> i = 1 \<or> i = 2" for i
    by (auto simp: in_play_def two_players_def new_session_def is_pc_def)
  then have "{i. i \<noteq> 1 \<and> in_play two_players i \<and> sees (obj_pos two_players 1) (obj_pos two_players i)} = {2}"
    by (auto simp: sees_def obj_pos_def two_players_def new_session_def is_pc_def)
  moreover have "npcs_play two_players" "sends_ok two_players" "is_pc 1" "in_play two_players 1"
    "can_send (w_pl two_players 1)"
    by (auto simp: npcs_play_def sends_ok_def two_players_def init_world_def is_pc_def is_npc_def
        in_play_def can_send_def new_session_def)
  ultimately show ?thesis using view_update_exact [OF two_players_ok, of 1] by simp
qed

end
