(* ===== verification/Disconnect.thy ===== *)
theory Disconnect
  imports View
begin

text \<open>
  \<open>disconnect\<close> and its recursion through refused sends (\<open>network.cpp\<close>, \<open>fail_send\<close>
  of \<open>session.cpp\<close>): the depth of the recursion, what it saves to the database and what it
  leaves behind.
\<close>

section \<open>Views shrink and saves are made once\<close>

definition save_of :: "world \<Rightarrow> int \<Rightarrow> db_event" where
  "save_of w j = (let s = w_pl w j in
     DB_SAVE j (strncpy_s (m_username s) 19) (m_x s) (m_y s) (m_hp s) (m_level s) (m_xp s)
       (m_inventory s) (map kill_count (m_quests s)))"

text \<open>
  \<open>closes w w'\<close>: the visible sets and the sectors only shrink, to nothing for a session that is
  closed on the way, the NPCs, the timers and the
  clock are left alone, and the database queue gains the saves of
  players that were in play, each once, with the values they had, and all of them are gone.
\<close>

definition shrinks :: "world \<Rightarrow> world \<Rightarrow> bool" where
  "shrinks w w' \<longleftrightarrow> (\<forall>k. set (vis w' k) \<subseteq> set (vis w k)) \<and> (\<forall>k. w_live w k \<longrightarrow> \<not> w_live w' k \<longrightarrow> vis w' k = [])
    \<and> (\<forall>i. set (w_sectors w' i) \<subseteq> set (w_sectors w i))
    \<and> w_npc w' = w_npc w \<and> w_timers w' = w_timers w \<and> w_ticks w' = w_ticks w"

lemma shrinks_trans:
  assumes "shrinks a b" "shrinks b c"
  shows "shrinks a c"
proof -
  have "vis c k = []" if "w_live a k" "\<not> w_live c k" for k
  proof (cases "w_live b k")
    case True
    then show ?thesis using assms(2) that(2) by (simp add: shrinks_def)
  next
    case False
    then have "vis b k = []" using assms(1) that(1) by (simp add: shrinks_def)
    then show ?thesis using assms(2) unfolding shrinks_def by (metis set_empty2 subset_empty)
  qed
  then show ?thesis using assms unfolding shrinks_def by (elim conjE, intro conjI) (blast | simp)+
qed

definition closes :: "world \<Rightarrow> world \<Rightarrow> bool" where
  "closes w w' \<longleftrightarrow> calm w w' \<and> shrinks w w'
    \<and> (\<exists>js. w_db_queue w' = w_db_queue w @ map (save_of w) js \<and> distinct js
         \<and> (\<forall>j \<in> set js. w_live w j \<and> m_state (w_pl w j) = CS_PLAYING \<and> \<not> bot_prefix (m_username (w_pl w j))
              \<and> \<not> w_live w' j))"

lemma save_of_calm: "calm w w' \<Longrightarrow> save_of w' j = save_of w j"
  using calm_pl [of w w' j] by (simp add: save_of_def Let_def)

lemma closes_refl [simp]: "closes w w"
  by (auto simp: closes_def shrinks_def intro!: exI [of _ "[]"])

lemma closes_trans:
  assumes "closes a b" "closes b c"
  shows "closes a c"
proof -
  from assms(1) obtain js where j: "calm a b" "shrinks a b"
    "w_db_queue b = w_db_queue a @ map (save_of a) js" "distinct js"
    "\<forall>j \<in> set js. w_live a j \<and> m_state (w_pl a j) = CS_PLAYING \<and> \<not> bot_prefix (m_username (w_pl a j)) \<and> \<not> w_live b j"
    unfolding closes_def by blast
  from assms(2) obtain ls where l: "calm b c" "shrinks b c"
    "w_db_queue c = w_db_queue b @ map (save_of b) ls" "distinct ls"
    "\<forall>j \<in> set ls. w_live b j \<and> m_state (w_pl b j) = CS_PLAYING \<and> \<not> bot_prefix (m_username (w_pl b j)) \<and> \<not> w_live c j"
    unfolding closes_def by blast
  have sv: "map (save_of b) ls = map (save_of a) ls" using save_of_calm [OF j(1)] by simp
  have nm: "m_username (w_pl b k) = m_username (w_pl a k)" for k using calm_pl(9) [OF j(1)] .
  have "\<exists>ks. w_db_queue c = w_db_queue a @ map (save_of a) ks \<and> distinct ks
      \<and> (\<forall>j \<in> set ks. w_live a j \<and> m_state (w_pl a j) = CS_PLAYING \<and> \<not> bot_prefix (m_username (w_pl a j)) \<and> \<not> w_live c j)"
    using j(3-5) l(3-5) sv nm calmD(11,12) [OF j(1)] calmD(11) [OF l(1)]
    by (intro exI [of _ "js @ ls"]) fastforce
  then show ?thesis
    unfolding closes_def using calm_trans [OF j(1) l(1)] shrinks_trans [OF j(2) l(2)] by blast
qed

lemma closes_fold:
  assumes "\<And>x s. closes s (f x s)"
  shows "closes s (fold f xs s)"
  by (rule fold_preorder [of closes]) (use assms in \<open>auto intro: closes_trans\<close>)

lemma closes_queue:
  "closes w (upd_pl k (\<lambda>s. s\<lparr>m_send_queue := q s\<rparr>) w)"
  "closes w (upd_pl k (\<lambda>s. s\<lparr>m_send_pending := p\<rparr>) w)"
  "closes w (upd_pl k (\<lambda>s. s\<lparr>m_send_queue := q s, m_send_pending := p\<rparr>) w)"
  "closes w (upd_pl k (\<lambda>s. s\<lparr>m_visible_objects := us_erase i (m_visible_objects s)\<rparr>) w)"
  by (auto simp: closes_def shrinks_def vis_def upd_pl_def [of k _ w, THEN arg_cong [of _ _ w_db_queue]]
      upd_pl_def intro!: exI [of _ "[]"] calm_upd_send [unfolded upd_pl_def] simp: body_def)

lemma closes_given: "closes w (w\<lparr>w_given := g\<rparr>)"
  using calm_given by (auto simp: closes_def shrinks_def vis_def intro!: exI [of _ "[]"])

lemma closes_post_send: "post_send k bs w = (ok, w') \<Longrightarrow> closes w w'"
  using calm_post_send [of k bs w ok w']
  by (auto simp: closes_def shrinks_def vis_def post_send_def Let_def intro!: exI [of _ "[]"] split: if_splits)

locale closing_disconnect = calm_disconnect +
  assumes closes_disc: "closes w (disc k w)"
begin

lemma closes_fail: "closes w (fail_send_with disc k w)"
  unfolding fail_send_with_def by (rule closes_trans [OF closes_queue(3) closes_disc])

lemma closes_start: "closes w (start_next_send_with disc k w)"
proof (cases "\<not> can_send (w_pl w k) \<or> m_send_queue (w_pl w k) = []")
  case True
  then show ?thesis by (auto simp: start_next_send_with_def Let_def closes_queue)
next
  case False
  obtain b r where b: "take_batch 0 (m_send_queue (w_pl w k)) = (b, r)"
    by (cases "take_batch 0 (m_send_queue (w_pl w k))")
  let ?w1 = "upd_pl k (\<lambda>s. s\<lparr>m_send_queue := r\<rparr>) w"
  obtain ok w2 where p: "post_send k (wire_bytes b) ?w1 = (ok, w2)"
    by (cases "post_send k (wire_bytes b) ?w1")
  have "closes w w2" by (rule closes_trans [OF closes_queue(1) closes_post_send [OF p]])
  then have "closes w (if ok then w2 else fail_send_with disc k w2)"
    using closes_trans [OF _ closes_fail] by simp
  then show ?thesis using False b p by (simp add: start_next_send_with_def Let_def)
qed

lemma closes_do_send: "closes w (do_send_with disc k p w)"
proof -
  let ?w1 = "(upd_pl k (\<lambda>s. s\<lparr>m_send_queue := m_send_queue s @ [p]\<rparr>) w)\<lparr>w_given := w_given w @ [(k, p)]\<rparr>"
  have w1: "closes w ?w1" by (rule closes_trans [OF closes_queue(1) closes_given])
  have "closes w (start_next_send_with disc k (upd_pl k (\<lambda>s. s\<lparr>m_send_pending := True\<rparr>) ?w1))"
    by (rule closes_trans [OF closes_trans [OF w1 closes_queue(2)] closes_start])
  then show ?thesis using w1 by (simp add: do_send_with_def Let_def)
qed

lemma closes_remove: "closes w (send_remove_object_with disc k i w)"
  unfolding send_remove_object_with_def
  by (simp add: closes_trans [OF closes_queue(4) closes_do_send])

text \<open>Whoever is told that an object is gone does not have it in view any more.\<close>

lemma remove_erases:
  assumes "can_send (w_pl w i)"
  shows "key \<notin> set (vis (send_remove_object_with disc i key w) i)"
proof -
  let ?w1 = "upd_pl i (\<lambda>s. s\<lparr>m_visible_objects := us_erase key (m_visible_objects s)\<rparr>) w"
  have "closes ?w1 (do_send_with disc i (S2C_RemovePlayer key) ?w1)" by (rule closes_do_send)
  moreover have "key \<notin> set (vis ?w1 i)" by (simp add: vis_def upd_pl_def us_erase_def)
  ultimately have "key \<notin> set (vis (do_send_with disc i (S2C_RemovePlayer key) ?w1) i)"
    by (auto simp: closes_def shrinks_def)
  then show ?thesis using assms by (simp add: send_remove_object_with_def vis_def)
qed

lemma notify_erases:
  assumes "i \<in> set ids" "is_pc i" "w_live w i" "can_send (w_pl w i)"
  shows "key \<notin> set (vis (for_players ids (\<lambda>i. send_remove_object_with disc i key) w) i)"
  using assms
proof (induction ids arbitrary: w)
  case (Cons j js)
  let ?all = "for_players js (\<lambda>i. send_remove_object_with disc i key)"
  define w1 where "w1 = (if is_pc j \<and> w_live w j then send_remove_object_with disc j key w else w)"
  have c1: "closes w w1" by (simp add: w1_def closes_remove)
  have c2: "closes w1 (?all w1)" unfolding for_players_def by (rule closes_fold) (simp add: closes_remove)
  have all: "for_players (j # js) (\<lambda>i. send_remove_object_with disc i key) w = ?all w1"
    by (simp add: for_players_def w1_def)
  have less: "set (vis (?all w1) i) \<subseteq> set (vis w1 i)" using c2 by (simp add: closes_def shrinks_def)
  show ?case
  proof (cases "j = i \<or> \<not> w_live w1 i")
    case True
    then have "key \<notin> set (vis w1 i)"
      using remove_erases [OF Cons.prems(4), of key] c1 Cons.prems(2,3) by (auto simp: w1_def closes_def shrinks_def)
    then show ?thesis using less unfolding all by blast
  next
    case False
    then have "m_client (w_pl w1 i) = m_client (w_pl w i)" "m_id (w_pl w1 i) = m_id (w_pl w i)"
      using c1 calmD(13) [of w w1 i] calm_pl(1) [of w w1 i] by (simp_all add: closes_def)
    then have "can_send (w_pl w1 i)" using Cons.prems(4) by (simp add: can_send_def)
    then show ?thesis using Cons.IH [of w1] Cons.prems(1,2) False unfolding all by simp
  qed
qed simp

lemma closes_notify: "closes w (for_players ids (\<lambda>i. send_remove_object_with disc i key) w)"
  unfolding for_players_def by (rule closes_fold) (simp add: closes_remove)

end

text \<open>The body of \<open>disconnect\<close> before its loop over the views and after it.\<close>

definition close_begin :: "int \<Rightarrow> world \<Rightarrow> world" where
  "close_begin key w =
    (let cl = w_pl w key;
       w1 = (if m_state cl = CS_PLAYING then db_push_save key cl w else w);
       w2 = upd_pl key (\<lambda>s. s\<lparr>m_state := CS_LOGOUT\<rparr>) w1;
       w3 = w2\<lparr>w_sectors := remove_object_from_sector key (m_x cl) (m_y cl) (w_sectors w2)\<rparr>
     in upd_pl key (\<lambda>s. s\<lparr>m_visible_objects := []\<rparr>) w3)"

definition close_end :: "int \<Rightarrow> world \<Rightarrow> world" where
  "close_end key w = (upd_pl key (\<lambda>s. s\<lparr>m_client := None\<rparr>) w)\<lparr>w_live := (w_live w)(key := False)\<rparr>"

lemma disconnect_split:
  "disconnect_with disc key w =
    (if \<not> w_live w key \<or> obj_id w key \<ge> NPC_ID_START then w
     else close_end key (for_players (vis w key) (\<lambda>i. send_remove_object_with disc i key) (close_begin key w)))"
  by (simp add: disconnect_with_def Let_def close_begin_def close_end_def vis_def upd_pl_def db_push_save_def)

lemma close_begin_fields:
  "w_live (close_begin key w) = w_live w"
  "w_pl (close_begin key w) = (w_pl w)(key := (w_pl w key)\<lparr>m_state := CS_LOGOUT, m_visible_objects := []\<rparr>)"
  "w_db_queue (close_begin key w) = w_db_queue w @
     (if m_state (w_pl w key) = CS_PLAYING \<and> \<not> bot_prefix (m_username (w_pl w key)) then [save_of w key] else [])"
  "w_sectors (close_begin key w) = remove_object_from_sector key (m_x (w_pl w key)) (m_y (w_pl w key)) (w_sectors w)"
  "w_npc (close_begin key w) = w_npc w" "w_timers (close_begin key w) = w_timers w"
  "w_ticks (close_begin key w) = w_ticks w"
  by (auto simp: close_begin_def Let_def upd_pl_def db_push_save_def save_of_def)

lemma close_end_fields:
  "w_live (close_end key w) = (w_live w)(key := False)"
  "w_pl (close_end key w) = (w_pl w)(key := (w_pl w key)\<lparr>m_client := None\<rparr>)"
  "w_db_queue (close_end key w) = w_db_queue w" "vis (close_end key w) = vis w"
  "w_sectors (close_end key w) = w_sectors w" "w_npc (close_end key w) = w_npc w"
  "w_timers (close_end key w) = w_timers w" "w_ticks (close_end key w) = w_ticks w"
  by (auto simp: close_end_def upd_pl_def vis_def)

context closing_disconnect
begin

lemma disconnect_outcome:
  assumes live: "w_live w key" "obj_id w key < NPC_ID_START"
  defines "w' \<equiv> disconnect_with disc key w"
  shows "\<exists>js. w_db_queue w' = w_db_queue w
        @ (if m_state (w_pl w key) = CS_PLAYING \<and> \<not> bot_prefix (m_username (w_pl w key)) then [save_of w key] else [])
        @ map (save_of w) js
      \<and> distinct js \<and> key \<notin> set js
      \<and> (\<forall>j \<in> set js. w_live w j \<and> m_state (w_pl w j) = CS_PLAYING \<and> \<not> bot_prefix (m_username (w_pl w j))
           \<and> \<not> w_live w' j)"
    and "shrinks w w'" and "vis w' key = []"
    and "\<not> w_live w' key" and "m_client (w_pl w' key) = None"
    and "key \<notin> set (w_sectors w' (sector_id (m_x (w_pl w key)) (m_y (w_pl w key))))"
    and "i \<in> set (vis w key) \<Longrightarrow> is_pc i \<Longrightarrow> w_live w i \<Longrightarrow> can_send (w_pl w i) \<Longrightarrow> key \<notin> set (vis w' i)"
proof -
  let ?w4 = "close_begin key w"
  define w5 where "w5 = for_players (vis w key) (\<lambda>i. send_remove_object_with disc i key) ?w4"
  have res: "w' = close_end key w5"
    using live by (simp add: disconnect_split w5_def w'_def)
  have c: "closes ?w4 w5" unfolding w5_def by (rule closes_notify)
  then obtain js where js: "w_db_queue w5 = w_db_queue ?w4 @ map (save_of ?w4) js" "distinct js"
    "\<forall>j \<in> set js. w_live ?w4 j \<and> m_state (w_pl ?w4 j) = CS_PLAYING \<and> \<not> bot_prefix (m_username (w_pl ?w4 j)) \<and> \<not> w_live w5 j"
    unfolding closes_def by blast
  have ne: "key \<notin> set js" using js(3) by (auto simp: close_begin_fields)
  have sv: "save_of ?w4 j = save_of w j" if "j \<noteq> key" for j
    using that by (simp add: save_of_def close_begin_fields)
  have mp: "map (save_of ?w4) js = map (save_of w) js"
    by (intro map_cong refl sv) (use ne in auto)
  show "\<exists>js. w_db_queue w' = w_db_queue w
        @ (if m_state (w_pl w key) = CS_PLAYING \<and> \<not> bot_prefix (m_username (w_pl w key)) then [save_of w key] else [])
        @ map (save_of w) js
      \<and> distinct js \<and> key \<notin> set js
      \<and> (\<forall>j \<in> set js. w_live w j \<and> m_state (w_pl w j) = CS_PLAYING \<and> \<not> bot_prefix (m_username (w_pl w j))
           \<and> \<not> w_live w' j)"
  proof (intro exI [of _ js] conjI)
    show "w_db_queue w' = w_db_queue w
        @ (if m_state (w_pl w key) = CS_PLAYING \<and> \<not> bot_prefix (m_username (w_pl w key)) then [save_of w key] else [])
        @ map (save_of w) js"
      by (simp add: res close_end_fields js(1) mp close_begin_fields)
    show "\<forall>j \<in> set js. w_live w j \<and> m_state (w_pl w j) = CS_PLAYING \<and> \<not> bot_prefix (m_username (w_pl w j))
           \<and> \<not> w_live w' j"
      using js(3) ne by (auto simp: res close_begin_fields close_end_fields)
  qed (use js(2) ne in auto)
  have v4: "vis ?w4 key = []" by (simp add: vis_def close_begin_fields)
  then have "vis w5 key = []" using c unfolding closes_def shrinks_def by (metis set_empty2 subset_empty)
  then have sub: "shrinks ?w4 w'"
    using c by (auto simp: closes_def shrinks_def res close_end_fields)
  moreover have "shrinks w ?w4"
    by (auto simp: shrinks_def vis_def close_begin_fields remove_object_from_sector_def)
  ultimately show "shrinks w w'" using shrinks_trans by blast
  show "vis w' key = []" using sub v4 by (metis shrinks_def set_empty2 subset_empty)
  show "key \<notin> set (w_sectors w' (sector_id (m_x (w_pl w key)) (m_y (w_pl w key))))"
  proof -
    have "key \<notin> set (w_sectors ?w4 (sector_id (m_x (w_pl w key)) (m_y (w_pl w key))))"
      by (simp add: close_begin_fields remove_object_from_sector_def)
    then show ?thesis using sub by (metis shrinks_def subsetD)
  qed
  show "\<not> w_live w' key" "m_client (w_pl w' key) = None" by (simp_all add: res close_end_fields)
  show "key \<notin> set (vis w' i)" if i: "i \<in> set (vis w key)" "is_pc i" "w_live w i" "can_send (w_pl w i)"
  proof -
    have "w_live ?w4 i" "can_send (w_pl ?w4 i)" using i(3,4) by (auto simp: close_begin_fields can_send_def)
    from notify_erases [OF i(1,2) this] show ?thesis by (simp add: res close_end_fields w5_def)
  qed
qed

lemma closes_disconnect_with: "closes w (disconnect_with disc key w)"
proof (cases "\<not> w_live w key \<or> obj_id w key \<ge> NPC_ID_START")
  case True
  then show ?thesis by (simp add: disconnect_split)
next
  case False
  then have live: "w_live w key" "obj_id w key < NPC_ID_START" by auto
  note o = disconnect_outcome [OF live]
  let ?one = "if m_state (w_pl w key) = CS_PLAYING \<and> \<not> bot_prefix (m_username (w_pl w key)) then [key] else []"
  obtain js where "w_db_queue (disconnect_with disc key w) = w_db_queue w @ map (save_of w) (?one @ js)"
    "distinct js" "key \<notin> set js"
    "\<forall>j \<in> set js. w_live w j \<and> m_state (w_pl w j) = CS_PLAYING \<and> \<not> bot_prefix (m_username (w_pl w j))
       \<and> \<not> w_live (disconnect_with disc key w) j"
    using o(1) by (auto split: if_splits)
  then show ?thesis
    unfolding closes_def using o(2,4) calm_disconnect_with live(1)
    by (intro conjI allI exI [of _ "?one @ js"]) auto
qed

end

lemma closes_disconnect_fuel: "closes w (disconnect_fuel n k w)"
proof (induction n arbitrary: k w)
  case (Suc n)
  have "closing_disconnect (disconnect_fuel n)"
    by unfold_locales (auto intro: calm_disconnect_fuel Suc.IH)
  then show ?case by (simp add: closing_disconnect.closes_disconnect_with)
qed simp

interpretation closing: closing_disconnect disconnect
  by unfold_locales (simp add: disconnect_def closes_disconnect_fuel)

section \<open>The depth of the recursion\<close>

text \<open>The sessions with something in view: at each nested level there is one less.\<close>

definition viewers :: "world \<Rightarrow> int set" where
  "viewers w = {k. vis w k \<noteq> []}"

definition few :: "nat \<Rightarrow> world \<Rightarrow> bool" where
  "few n w \<longleftrightarrow> finite (viewers w) \<and> card (viewers w) \<le> n"

lemma few_shrink:
  assumes "few n w" "\<And>k. set (vis w' k) \<subseteq> set (vis w k)"
  shows "few n w'"
proof -
  have "vis w' k = []" if "vis w k = []" for k using assms(2) [of k] that by simp
  then have "viewers w' \<subseteq> viewers w" by (auto simp: viewers_def)
  then show ?thesis
    using assms(1) card_mono [of "viewers w" "viewers w'"] finite_subset [of "viewers w'" "viewers w"]
    by (auto simp: few_def)
qed

lemma few_closes: "closes w w' \<Longrightarrow> few n w \<Longrightarrow> few n w'"
  using few_shrink by (auto simp: closes_def shrinks_def)

text \<open>Two candidates for \<open>disconnect\<close> that agree on worlds with at most \<open>n\<close> viewers.\<close>

definition agree :: "nat \<Rightarrow> (int \<Rightarrow> world \<Rightarrow> world) \<Rightarrow> (int \<Rightarrow> world \<Rightarrow> world) \<Rightarrow> bool" where
  "agree n d d' \<longleftrightarrow> (\<forall>k w. few n w \<longrightarrow> d k w = d' k w)"

lemma agree_start:
  assumes "agree n d d'" "few n w"
  shows "start_next_send_with d k w = start_next_send_with d' k w"
proof -
  obtain b r where b: "take_batch 0 (m_send_queue (w_pl w k)) = (b, r)"
    by (cases "take_batch 0 (m_send_queue (w_pl w k))")
  let ?w1 = "upd_pl k (\<lambda>s. s\<lparr>m_send_queue := r\<rparr>) w"
  obtain ok w2 where p: "post_send k (wire_bytes b) ?w1 = (ok, w2)"
    by (cases "post_send k (wire_bytes b) ?w1")
  let ?w3 = "upd_pl k (\<lambda>s. s\<lparr>m_send_queue := [], m_send_pending := False\<rparr>) w2"
  have "closes w ?w3"
    by (rule closes_trans [OF closes_trans [OF closes_queue(1) closes_post_send [OF p]] closes_queue(3)])
  then have "few n ?w3" using assms(2) by (rule few_closes)
  then have "fail_send_with d k w2 = fail_send_with d' k w2"
    using assms(1) by (simp add: fail_send_with_def agree_def)
  then show ?thesis by (simp add: start_next_send_with_def b p Let_def)
qed

lemma agree_remove:
  assumes "agree n d d'" "few n w"
  shows "send_remove_object_with d k i w = send_remove_object_with d' k i w"
proof -
  let ?w0 = "upd_pl k (\<lambda>s. s\<lparr>m_visible_objects := us_erase i (m_visible_objects s)\<rparr>) w"
  let ?w2 = "\<lambda>p. upd_pl k (\<lambda>s. s\<lparr>m_send_pending := True\<rparr>)
    ((upd_pl k (\<lambda>s. s\<lparr>m_send_queue := m_send_queue s @ [p]\<rparr>) ?w0)\<lparr>w_given := w_given w @ [(k, p)]\<rparr>)"
  have "closes w (?w2 p)" for p
    by (rule closes_trans [OF closes_trans [OF closes_trans [OF closes_queue(4) closes_queue(1)] closes_given] closes_queue(2)])
  moreover have "w_given ?w0 = w_given w" by (simp add: upd_pl_def)
  ultimately have "few n (?w2 p)" "w_given ?w0 = w_given w" for p using assms(2) few_closes by blast+
  then have "do_send_with d k p ?w0 = do_send_with d' k p ?w0" for p
    unfolding do_send_with_def Let_def using agree_start [OF assms(1)] by simp
  then show ?thesis by (simp add: send_remove_object_with_def)
qed

lemma agree_notify:
  assumes "agree n (disconnect_fuel a) (disconnect_fuel b)" "few n w"
  shows "for_players ids (\<lambda>i. send_remove_object_with (disconnect_fuel a) i key) w
    = for_players ids (\<lambda>i. send_remove_object_with (disconnect_fuel b) i key) w"
  using assms(2)
proof (induction ids arbitrary: w)
  case (Cons i ids)
  have "closing_disconnect (disconnect_fuel a)"
    by unfold_locales (auto intro: calm_disconnect_fuel closes_disconnect_fuel)
  then have "few n (send_remove_object_with (disconnect_fuel a) i key w)"
    using few_closes [OF closing_disconnect.closes_remove] Cons.prems by blast
  then show ?case
    using Cons agree_remove [OF assms(1) Cons.prems, of i key] by (simp add: for_players_def)
qed (simp add: for_players_def)

lemma fuel_enough:
  "agree n (disconnect_fuel (Suc n)) (disconnect_fuel (Suc n + k))"
proof (induction n)
  case 0
  show ?case
    unfolding agree_def
  proof (intro allI impI)
    fix key w assume "few 0 w"
    then have "vis w key = []" by (auto simp: few_def viewers_def)
    then show "disconnect_fuel (Suc 0) key w = disconnect_fuel (Suc 0 + k) key w"
      by (simp add: disconnect_split for_players_def)
  qed
next
  case (Suc n)
  show ?case
    unfolding agree_def
  proof (intro allI impI)
    fix key w assume few: "few (Suc n) w"
    let ?w4 = "close_begin key w"
    have v4: "vis ?w4 = (vis w)(key := [])" by (auto simp: vis_def close_begin_fields)
    show "disconnect_fuel (Suc (Suc n)) key w = disconnect_fuel (Suc (Suc n) + k) key w"
    proof (cases "vis w key = []")
      case True
      then show ?thesis by (simp add: disconnect_split for_players_def)
    next
      case False
      have "viewers ?w4 = viewers w - {key}" by (auto simp: viewers_def v4)
      moreover have "key \<in> viewers w" using False by (simp add: viewers_def)
      ultimately have "few n ?w4" using few card_Suc_Diff1 [of "viewers w" key] by (simp add: few_def)
      from agree_notify [OF Suc.IH this]
      show ?thesis by (simp add: disconnect_split)
    qed
  qed
qed

section \<open>The send functions\<close>

lemma closes_for_players:
  assumes "\<And>i s. closes s (f i s)"
  shows "closes s (for_players ids f s)"
  unfolding for_players_def by (rule closes_fold) (use assms in auto)

lemma closes_sends [simp]:
  "closes w (do_send k p w)" "closes w (send_login_success k w)" "closes w (send_avatar_info k w)"
  "closes w (send_chat k i nm msg w)" "closes w (send_stat_info k i hp mhp lv xp nx st w)"
  "closes w (send_damage_info k a t d hp w)" "closes w (send_item_appear k iid x y it w)"
  "closes w (send_item_remove k iid w)" "closes w (send_item_add k it n w)"
  "closes w (send_quest_update k q w)" "closes w (send_remove_object k i w)" "closes w (disconnect k w)"
proof -
  have d: "closes w (do_send k p w)" for k p w unfolding do_send_def by (rule closing.closes_do_send)
  show "closes w (do_send k p w)" "closes w (send_login_success k w)" "closes w (send_avatar_info k w)"
    "closes w (send_chat k i nm msg w)" "closes w (send_stat_info k i hp mhp lv xp nx st w)"
    "closes w (send_damage_info k a t d hp w)" "closes w (send_item_appear k iid x y it w)"
    "closes w (send_item_remove k iid w)" "closes w (send_item_add k it n w)"
    "closes w (send_quest_update k q w)"
    by (simp_all add: d send_login_success_def send_avatar_info_def send_chat_def send_stat_info_def
        send_damage_info_def send_item_appear_def send_item_remove_def send_item_add_def
        send_quest_update_def Let_def)
  show "closes w (send_remove_object k i w)" unfolding send_remove_object_def by (rule closing.closes_remove)
  show "closes w (disconnect k w)" by (rule closing.closes_disc)
qed

lemma closesD:
  assumes "closes w w'"
  shows "calm w w'" "w_npc w' = w_npc w" "w_timers w' = w_timers w" "w_ticks w' = w_ticks w"
    "set (vis w' k) \<subseteq> set (vis w k)"
  using assms by (simp_all add: closes_def shrinks_def)

section \<open>Properties\<close>

text \<open>
  C25: the recursion of \<open>disconnect\<close> through refused sends is never deeper than the model's
  bound of one level per player id and one more: with visible sets only for player ids, any
  larger bound computes the same world. The C++ recursion therefore ends.
\<close>

theorem disconnect_depth:
  assumes "\<forall>k. vis w k \<noteq> [] \<longrightarrow> 0 \<le> k \<and> k < MAX_PLAYERS" "DISC_DEPTH \<le> n"
  shows "disconnect_fuel n key w = disconnect key w"
proof -
  have "viewers w \<subseteq> {0..<10000}" using assms(1) by (auto simp: viewers_def)
  then have "few 10000 w"
    using card_mono [of "{0..<10000::int}" "viewers w"] finite_subset [of "viewers w" "{0..<10000}"]
    by (simp add: few_def)
  moreover obtain k where "n = Suc 10000 + k"
    using assms(2) nat_le_iff_add [of DISC_DEPTH n] by (auto simp: DISC_DEPTH_def)
  ultimately show ?thesis
    using fuel_enough [of 10000 k] by (simp add: agree_def disconnect_def DISC_DEPTH_def)
qed

theorem disconnect_depth_witness:
  "disconnect_fuel 20000 1 two_players = disconnect 1 two_players"
  using disconnect_depth [of two_players 20000 1]
  by (simp add: vis_def two_players_def new_session_def no_session_def DISC_DEPTH_def)

text \<open>
  C11: disconnecting a connected player in play that is no bot saves it exactly once, with its
  position, hit points, level, experience, inventory and quest counts; it is then no longer
  in \<open>clients\<close>, its socket is closed, its view is empty, no sector holds its id, and a second
  \<open>disconnect\<close> changes nothing. Every open session it had in its view does not have it in view any
  more. Sends that fail on the way may close other players, who are saved in the same way after it.
\<close>

theorem disconnect_saves_once:
  assumes "grid_ok {} w" "is_pc key" "w_live w key" "m_state (w_pl w key) = CS_PLAYING"
    and "\<not> bot_prefix (m_username (w_pl w key))"
  defines "w' \<equiv> disconnect key w"
  shows "(\<exists>js. w_db_queue w' = w_db_queue w @ save_of w key # map (save_of w) js
        \<and> distinct (key # js) \<and> (\<forall>j \<in> set js. \<not> w_live w' j))
      \<and> \<not> w_live w' key \<and> m_client (w_pl w' key) = None \<and> vis w' key = []
      \<and> (\<forall>s. key \<notin> set (w_sectors w' s)) \<and> disconnect key w' = w'
      \<and> (\<forall>i \<in> set (vis w key). is_pc i \<and> w_live w i \<and> can_send (w_pl w i) \<longrightarrow> key \<notin> set (vis w' i))"
proof -
  have deep: "disconnect = disconnect_with (disconnect_fuel 10000)"
    using disconnect_fuel.simps(2) [of 10000] by (simp add: disconnect_def DISC_DEPTH_def)
  have cl: "closing_disconnect (disconnect_fuel 10000)"
    by unfold_locales (auto intro: calm_disconnect_fuel closes_disconnect_fuel)
  have "obj_id w key < NPC_ID_START"
    using assms(1-3) by (auto simp: grid_ok_def ids_ok_def obj_id_def is_pc_def)
  note o = closing_disconnect.disconnect_outcome [OF cl assms(3) this, folded deep, folded w'_def]
  have tr: "sectors_track (only (w_live w) (w_sectors w)) (positions {} w)"
    using assms(1) by (simp add: grid_ok_def)
  have "positions {} w key = Some (m_x (w_pl w key), m_y (w_pl w key))"
    using assms(2-4) by (simp add: positions_def)
  moreover have "key \<in> set (only (w_live w) (w_sectors w) i) \<longleftrightarrow>
      (\<exists>x y. positions {} w key = Some (x, y) \<and> sector_id x y = i)" for i
    using tr by (simp add: sectors_track_def)
  ultimately have "key \<in> set (w_sectors w i) \<longleftrightarrow> sector_id (m_x (w_pl w key)) (m_y (w_pl w key)) = i" for i
    using assms(3) by (simp add: only_def)
  then have "key \<notin> set (w_sectors w' i)" for i
    using o(2,6) by (metis shrinks_def subsetD)
  moreover have "disconnect key w' = w'" using o(4) by (simp add: deep disconnect_split)
  ultimately show ?thesis using o(1,3-5,7) assms(4,5) by auto
qed


theorem disconnect_saves_once_witness:
  "\<not> w_live (disconnect 1 neighbours) 1 \<and> disconnect 1 (disconnect 1 neighbours) = disconnect 1 neighbours
    \<and> 1 \<in> set (vis neighbours 2) \<and> 1 \<notin> set (vis (disconnect 1 neighbours) 2)"
proof -
  have f: "is_pc 1" "w_live neighbours 1" "m_state (w_pl neighbours 1) = CS_PLAYING"
    "\<not> bot_prefix (m_username (w_pl neighbours 1))"
    by (simp_all add: neighbours_def two_players_def new_session_def is_pc_def bot_prefix_def bytes_of_def)
  have v: "2 \<in> set (vis neighbours 1)" "is_pc 2" "w_live neighbours 2" "can_send (w_pl neighbours 2)" "1 \<in> set (vis neighbours 2)"
    by (simp_all add: neighbours_def two_players_def new_session_def is_pc_def vis_def can_send_def)
  from disconnect_saves_once [OF neighbours_ok f] v show ?thesis by simp
qed

end
