(* ===== verification/Invariant.thy ===== *)
theory Invariant
  imports Disconnect
begin

text \<open>
  The invariant of the server's state, \<open>winv\<close>: the sector grid is right, every session and NPC
  is on a tile of the world with arrays of the declared sizes, items on the ground are of the
  three kinds NPCs drop. The lemmas say how the steps the handlers are made of keep it; each
  handler's own lemma, in its theory, is built from them.
\<close>

definition player_ok :: "session \<Rightarrow> bool" where
  "player_ok s \<longleftrightarrow> tile (m_x s) (m_y s) \<and> length (m_inventory s) = ITEM_SLOT_COUNT
    \<and> length (m_quests s) = QUEST_COUNT"

definition npc_ok :: "cnpc \<Rightarrow> bool" where
  "npc_ok c \<longleftrightarrow> tile (m_x c) (m_y c) \<and> tile (m_origin_x c) (m_origin_y c) \<and> m_state c = CS_PLAYING
    \<and> 0 < m_max_hp c"

definition item_dropped :: "world_item \<Rightarrow> bool" where
  "item_dropped it \<longleftrightarrow> wi_type it \<in> {ITEM_HP_POTION, ITEM_HI_POTION, ITEM_ELIXIR}"

definition grid_ids :: "world \<Rightarrow> bool" where
  "grid_ids w \<longleftrightarrow> (\<forall>s. \<forall>i \<in> set (w_sectors w s). is_pc i \<longrightarrow> i < w_player_index w)"

text \<open>
  What the surroundings guarantee (the map ends at the world's edge, \<open>rand\<close> is not negative),
  and the ids of the sessions: handed out from 1, below \<open>player_index\<close>, in the grid too.
\<close>

definition env_ok :: "world \<Rightarrow> bool" where
  "env_ok w \<longleftrightarrow> (\<forall>x y. \<not> tile x y \<longrightarrow> w_obstacle w x y) \<and> (\<forall>i. 0 \<le> w_rand w i)
    \<and> (\<forall>k. is_pc k \<longrightarrow> w_live w k \<longrightarrow> 0 < k \<and> k < w_player_index w)
    \<and> grid_ids w \<and> 0 < w_player_index w"

text \<open>
  Respawns on their way for an NPC, as timers or as posted completions: one for each dead NPC,
  none for the living (and none yet for those of \<open>D\<close>).
\<close>

definition respawns :: "world \<Rightarrow> int \<Rightarrow> nat" where
  "respawns w n =
    count (image_mset (\<lambda>e. (ev_event_id e, ev_obj_id e)) (mset (w_timers w))) (EVENT_NPC_RESPAWN, n)
    + count (mset (w_completions w)) (IO_NPC_RESPAWN n)"

definition respawns_ok :: "int set \<Rightarrow> world \<Rightarrow> bool" where
  "respawns_ok D w \<longleftrightarrow> (\<forall>n. is_npc n \<longrightarrow> w_live w n \<longrightarrow>
     respawns w n = (if m_hp (w_npc w n) \<le> 0 \<and> n \<notin> D then 1 else 0))"

text \<open>\<open>D\<close> are the killed NPCs that are still in the grid, \<open>E\<close> those without a respawn yet.\<close>

definition winv2 :: "int set \<Rightarrow> int set \<Rightarrow> world \<Rightarrow> bool" where
  "winv2 D E w \<longleftrightarrow> grid_ok D w \<and> (\<forall>k. is_pc k \<longrightarrow> player_ok (w_pl w k))
    \<and> (\<forall>n. is_npc n \<longrightarrow> w_live w n \<longrightarrow> npc_ok (w_npc w n))
    \<and> (\<forall>it \<in> set (w_items w). item_dropped it) \<and> env_ok w \<and> respawns_ok E w"

abbreviation winv :: "int set \<Rightarrow> world \<Rightarrow> bool" where
  "winv D \<equiv> winv2 D D"

lemma winvD:
  assumes "winv2 D E w"
  shows "grid_ok D w" "is_pc k \<Longrightarrow> player_ok (w_pl w k)" "is_npc n \<Longrightarrow> w_live w n \<Longrightarrow> npc_ok (w_npc w n)"
    "it \<in> set (w_items w) \<Longrightarrow> item_dropped it" "env_ok w" "ids_ok w"
    "sectors_track (only (w_live w) (w_sectors w)) (positions D w)"
    "is_pc k \<Longrightarrow> m_id (w_pl w k) = k" "is_npc n \<Longrightarrow> w_live w n \<Longrightarrow> m_id (w_npc w n) = n"
    "respawns_ok E w" "is_pc k \<Longrightarrow> \<not> w_live w k \<Longrightarrow> m_state (w_pl w k) \<in> {CS_FREE, CS_LOGOUT}"
  using assms by (auto simp: winv2_def grid_ok_def ids_ok_def)

lemma pc_npc: "is_npc n \<longleftrightarrow> \<not> is_pc n"
  by (auto simp: is_pc_def is_npc_def)

section \<open>Steps that keep it\<close>

lemma grid_ids_step:
  assumes "grid_ids w" "w_player_index w' = w_player_index w"
    "\<And>i s. i \<in> set (w_sectors w' s) \<Longrightarrow> is_pc i \<Longrightarrow> i < w_player_index w \<or> i \<in> set (w_sectors w s)"
  shows "grid_ids w'"
  using assms unfolding grid_ids_def by metis

lemma grid_ids_cong:
  "w_player_index w' = w_player_index w \<Longrightarrow> w_sectors w' = w_sectors w \<Longrightarrow> grid_ids w' = grid_ids w"
  by (simp add: grid_ids_def)

lemma player_ok_body: "body s = body s' \<Longrightarrow> player_ok s = player_ok s'"
  by (simp add: player_ok_def body_eqD [of s s'])

lemma npc_ok_body: "npc_body c = npc_body c' \<Longrightarrow> npc_ok c = npc_ok c'"
  by (simp add: npc_ok_def npc_body_eqD [of c c'])

lemma respawns_cong:
  assumes "w_timers w' = w_timers w" "w_completions w' = w_completions w"
  shows "respawns w' = respawns w"
  by (rule ext) (simp add: respawns_def assms)

lemma respawns_ok_cong:
  assumes "w_live w' = w_live w" "\<And>n. m_hp (w_npc w' n) = m_hp (w_npc w n)" "w_timers w' = w_timers w"
    "w_completions w' = w_completions w"
  shows "respawns_ok D w' = respawns_ok D w"
  by (simp add: respawns_ok_def respawns_cong [OF assms(3,4)] assms(1,2))

lemma respawns_more:
  assumes "mset (w_timers w') = mset (w_timers w) + ts" "\<forall>e \<in># ts. ev_event_id e \<noteq> EVENT_NPC_RESPAWN"
    "w_completions w' = w_completions w"
  shows "respawns w' = respawns w"
proof (rule ext)
  fix n
  have "count (image_mset (\<lambda>e. (ev_event_id e, ev_obj_id e)) ts) (EVENT_NPC_RESPAWN, n) = 0"
    using assms(2) by (auto simp: count_eq_zero_iff)
  then show "respawns w' n = respawns w n" by (simp add: respawns_def assms(1,3))
qed

lemma respawns_calm:
  assumes "calm w w'"
  shows "respawns w' = respawns w"
proof -
  obtain ts where "mset (w_timers w') = mset (w_timers w) + ts" "\<forall>e \<in># ts. ev_event_id e = EVENT_NPC_MOVE"
    by (rule calm_timers [OF assms])
  then show ?thesis using respawns_more [of w' w ts] calmD(16) [OF assms] by simp
qed

lemma winv_calm [inv_intros]:
  assumes "winv2 D E w" "calm w w'"
  shows "winv2 D E w'"
proof -
  have "player_ok (w_pl w' k) = player_ok (w_pl w k)" "npc_ok (w_npc w' k) = npc_ok (w_npc w k)" for k
    using player_ok_body [OF calmD(9) [OF assms(2)]] npc_ok_body [OF calmD(10) [OF assms(2)]] by blast+
  moreover have "respawns_ok E w'"
    using assms(1) calmD(11) [OF assms(2)] calm_npc(4) [OF assms(2)] respawns_calm [OF assms(2)]
    by (simp add: winv2_def respawns_ok_def)
  moreover have "grid_ids w \<Longrightarrow> grid_ids w'"
    by (erule grid_ids_step [OF _ calmD(3) [OF assms(2)]]) (simp add: calmD(17) [OF assms(2)])
  ultimately show ?thesis
    using assms(1) calmD(1,3,4,6,11,15) [OF assms(2)] by (auto simp: winv2_def env_ok_def)
qed

lemma calm_live_npc: "winv2 D E w \<Longrightarrow> calm w w' \<Longrightarrow> is_npc n \<Longrightarrow> w_live w n \<Longrightarrow> w_live w' n"
  using calmD(14) [of w w' n] winvD(9) [of D E w n] by (auto simp: obj_id_def is_pc_def is_npc_def)

text \<open>Fields the invariant does not read.\<close>

lemma winv_misc [simp]:
  "winv2 D E (w\<lparr>w_ticks := a\<rparr>) = winv2 D E w" "winv2 D E (w\<lparr>w_rands := a\<rparr>) = winv2 D E w"
  "winv2 D E (w\<lparr>w_db_queue := q\<rparr>) = winv2 D E w"
  "winv2 D E (w\<lparr>w_next_item_id := b\<rparr>) = winv2 D E w"
proof -
  have *: "winv2 D E w' = winv2 D E w"
    if "w_live w' = w_live w" "w_sectors w' = w_sectors w" "w_pl w' = w_pl w" "w_npc w' = w_npc w"
      "w_items w' = w_items w" "w_obstacle w' = w_obstacle w" "w_rand w' = w_rand w"
      "w_timers w' = w_timers w" "w_completions w' = w_completions w" "w_player_index w' = w_player_index w" for w'
    using that grid_ok_cong [of w' w D] respawns_ok_cong [of w' w E] grid_ids_cong [of w' w] by (simp add: winv2_def env_ok_def)
  show "winv2 D E (w\<lparr>w_ticks := a\<rparr>) = winv2 D E w" "winv2 D E (w\<lparr>w_rands := a\<rparr>) = winv2 D E w"
    "winv2 D E (w\<lparr>w_db_queue := q\<rparr>) = winv2 D E w"
    "winv2 D E (w\<lparr>w_next_item_id := b\<rparr>) = winv2 D E w"
    by (rule *; simp)+
qed

lemma respawns_push:
  "respawns (push_timer i e t w) n = respawns w n + (if e = EVENT_NPC_RESPAWN \<and> i = n then 1 else 0)"
  by (simp add: respawns_def push_timer_def)

lemma winv_push_timer [simp]:
  assumes "e \<noteq> EVENT_NPC_RESPAWN"
  shows "winv2 D E (push_timer i e t w) = winv2 D E w"
proof -
  have "respawns (push_timer i e t w) = respawns w" using assms by (auto simp: respawns_push)
  then show ?thesis
    using grid_ok_cong [of "push_timer i e t w" w D] grid_ids_cong [of "push_timer i e t w" w]
    by (simp add: winv2_def respawns_ok_def env_ok_def push_timer_def)
qed

lemma winv_clock [simp]: "winv2 D E (snd (clock_now w)) = winv2 D E w" "winv2 D E (snd (rand_next w)) = winv2 D E w"
  by (simp_all add: clock_now_def rand_next_def)

lemma winv_items:
  "winv2 D E w \<Longrightarrow> (\<And>it. it \<in> set its \<Longrightarrow> item_dropped it) \<Longrightarrow> winv2 D E (w\<lparr>w_items := its\<rparr>)"
  using grid_ok_cong [of "w\<lparr>w_items := its\<rparr>" w D] respawns_ok_cong [of "w\<lparr>w_items := its\<rparr>" w E] grid_ids_cong [of "w\<lparr>w_items := its\<rparr>" w]
  by (simp add: winv2_def env_ok_def)

text \<open>A session changed in fields that are not its place, state or identity.\<close>

definition stays :: "(session \<Rightarrow> session) \<Rightarrow> bool" where
  "stays f \<longleftrightarrow> (\<forall>s. m_id (f s) = m_id s \<and> m_state (f s) = m_state s \<and> m_client (f s) = m_client s
    \<and> m_x (f s) = m_x s \<and> m_y (f s) = m_y s \<and> length (m_inventory (f s)) = length (m_inventory s)
    \<and> length (m_quests (f s)) = length (m_quests s))"

lemma stays_comp: "stays f \<Longrightarrow> stays g \<Longrightarrow> stays (\<lambda>s. f (g s))"
  by (simp add: stays_def)

lemma winv_upd_pl [inv_intros]:
  assumes "winv2 D E w" "stays f"
  shows "winv2 D E (upd_pl k f w)"
proof -
  have f: "m_id (f s) = m_id s" "m_state (f s) = m_state s" "m_client (f s) = m_client s"
    "m_x (f s) = m_x s" "m_y (f s) = m_y s" "player_ok (f s) = player_ok s" for s
    using assms(2) by (simp_all add: stays_def player_ok_def)
  have "grid_ok D (upd_pl k f w) = grid_ok D w"
    by (rule grid_ok_cong) (simp_all add: upd_pl_def f)
  moreover have "respawns_ok E (upd_pl k f w) = respawns_ok E w"
    by (rule respawns_ok_cong) (simp_all add: upd_pl_def)
  moreover have "grid_ids (upd_pl k f w) = grid_ids w" by (rule grid_ids_cong) (simp_all add: upd_pl_def)
  ultimately show ?thesis using assms(1) by (auto simp: winv2_def upd_pl_def f env_ok_def)
qed

text \<open>An NPC changed in fields that are not its place, state or identity, dead or alive.\<close>

definition npc_stays :: "(cnpc \<Rightarrow> cnpc) \<Rightarrow> bool" where
  "npc_stays f \<longleftrightarrow> (\<forall>c. m_id (f c) = m_id c \<and> m_state (f c) = m_state c \<and> m_x (f c) = m_x c
    \<and> m_y (f c) = m_y c \<and> m_origin_x (f c) = m_origin_x c \<and> m_origin_y (f c) = m_origin_y c
    \<and> m_max_hp (f c) = m_max_hp c)"

lemma winv_upd_npc:
  assumes "winv2 D E w" "npc_stays f" "(m_hp (f (w_npc w n)) > 0 \<or> n \<in> D) = (m_hp (w_npc w n) > 0 \<or> n \<in> D)"
    "(m_hp (f (w_npc w n)) > 0 \<or> n \<in> E) = (m_hp (w_npc w n) > 0 \<or> n \<in> E)"
  shows "winv2 D E (upd_npc n f w)"
proof -
  have f: "m_id (f c) = m_id c" "m_state (f c) = m_state c" "m_x (f c) = m_x c" "m_y (f c) = m_y c"
    "npc_ok (f c) = npc_ok c" for c
    using assms(2) by (simp_all add: npc_stays_def npc_ok_def)
  have "positions D (upd_npc n f w) = positions D w"
    by (rule ext) (use assms(3) in \<open>auto simp: positions_def upd_npc_def f\<close>)
  then have "grid_ok D (upd_npc n f w) = grid_ok D w"
    by (auto simp: grid_ok_def ids_ok_def upd_npc_def f)
  moreover have "respawns_ok E (upd_npc n f w) = respawns_ok E w"
  proof -
    have r: "respawns (upd_npc n f w) = respawns w" by (rule respawns_cong) (simp_all add: upd_npc_def)
    have "(m_hp (f (w_npc w n)) \<le> 0 \<and> n \<notin> E) = (m_hp (w_npc w n) \<le> 0 \<and> n \<notin> E)" using assms(4) by linarith
    then have h: "(m_hp (w_npc (upd_npc n f w) k) \<le> 0 \<and> k \<notin> E) = (m_hp (w_npc w k) \<le> 0 \<and> k \<notin> E)" for k
      by (simp add: upd_npc_def)
    have "w_live (upd_npc n f w) = w_live w" by (simp add: upd_npc_def)
    then show ?thesis by (simp only: respawns_ok_def r h)
  qed
  moreover have "grid_ids (upd_npc n f w) = grid_ids w" by (rule grid_ids_cong) (simp_all add: upd_npc_def)
  ultimately show ?thesis using assms(1) by (auto simp: winv2_def upd_npc_def f env_ok_def)
qed

text \<open>A killed NPC is exempt from leaving the grid, one with hit points has no need of it.\<close>

lemma winv_exempt:
  assumes "m_hp (w_npc w n) > 0"
  shows "winv {n} w = winv {} w"
proof -
  have "positions {n} w = positions {} w" by (rule ext) (use assms in \<open>auto simp: positions_def\<close>)
  moreover have "(m_hp (w_npc w k) \<le> 0 \<and> k \<notin> {n}) = (m_hp (w_npc w k) \<le> 0 \<and> k \<notin> {})" for k
    using assms by auto
  then have "respawns_ok {n} w = respawns_ok {} w" by (simp only: respawns_ok_def)
  ultimately show ?thesis by (simp add: winv2_def grid_ok_def)
qed

section \<open>The start\<close>

lemma winv_init:
  assumes "\<And>x y. \<not> tile x y \<Longrightarrow> obs x y" "\<And>i. 0 \<le> rnd i"
  shows "winv D (init_world obs clk rnd ack)"
  using assms grid_ok_init [of D obs clk rnd ack]
  by (simp add: winv2_def respawns_ok_def init_world_def env_ok_def player_ok_def no_session_def new_session_def tile_def
      grid_ids_def empty_sectors_def)

end
