(* ===== verification/Combat.thy ===== *)
theory Combat
  imports Invariant
begin

text \<open>
  The packets of a session (\<open>SESSION::process_packet\<close>, \<open>do_move\<close> and the static
  functions of \<open>SERVER/session.cpp\<close>): login, moving and picking up items, chat, the three
  attacks with deaths, experience and quests, and the use of items. \<open>k\<close> is the session's key
  (\<open>this\<close>).
\<close>

section \<open>Items\<close>

definition broadcast_damage :: "int \<Rightarrow> int \<Rightarrow> int \<Rightarrow> int \<Rightarrow> int \<Rightarrow> int \<Rightarrow> world \<Rightarrow> world" where
  "broadcast_damage ax ay attacker_id target_id dmg target_hp w =
    for_players (nearby w ax ay) (\<lambda>i. send_damage_info i attacker_id target_id dmg target_hp) w"

definition spawn_item :: "int \<Rightarrow> int \<Rightarrow> item_type \<Rightarrow> world \<Rightarrow> world" where
  "spawn_item x y t w =
    (let iid = w_next_item_id w;
       it = \<lparr> wi_id = iid, wi_x = x, wi_y = y, wi_type = t, wi_active = True \<rparr>;
       w1 = w\<lparr>w_next_item_id := s32 (iid + 1),
              w_items := filter (\<lambda>i. wi_id i \<noteq> iid) (w_items w) @ [it]\<rparr>
     in for_players (nearby w1 x y) (\<lambda>i. send_item_appear i iid x y t) w1)"

definition broadcast_item_remove :: "int \<Rightarrow> int \<Rightarrow> int \<Rightarrow> world \<Rightarrow> world" where
  "broadcast_item_remove item_id x y w = for_players (nearby w x y) (\<lambda>i. send_item_remove i item_id) w"

section \<open>Experience and quests\<close>

text \<open>
  The lines that follow every \<open>m_xp +=\<close>: the level-up loop, then \<open>m_max_hp\<close> from the level
  and full hit points.
\<close>

definition gain_xp :: "int \<Rightarrow> session \<Rightarrow> session" where
  "gain_xp xp s =
    (let (lv, rest) = level_loop (m_level s) (s32 (m_xp s + xp)) in
     s\<lparr>m_xp := rest, m_level := lv, m_max_hp := calc_max_hp lv, m_hp := calc_max_hp lv\<rparr>)"

definition add_item :: "int \<Rightarrow> session \<Rightarrow> session" where
  "add_item slot_idx s =
    s\<lparr>m_inventory := (m_inventory s)[nat slot_idx := s32 (m_inventory s ! nat slot_idx + 1)]\<rparr>"

definition sys_chat :: "int \<Rightarrow> byte list \<Rightarrow> world \<Rightarrow> world" where
  "sys_chat k msg w = send_chat k (-1) (bytes_of ''System'') msg w"

definition send_own_stat :: "int \<Rightarrow> world \<Rightarrow> world" where
  "send_own_stat k w =
    (let s = w_pl w k in
     send_stat_info k (m_id s) (m_hp s) (m_max_hp s) (m_level s) (m_xp s) (exp_for_next_level s)
       NPC_STATE_IDLE w)"

definition quest_reward_xp :: "int \<Rightarrow> int" where
  "quest_reward_xp qid = (if qid = 0 then 500 else 3000)"

definition quest_reward_item :: "int \<Rightarrow> item_type" where
  "quest_reward_item qid = (if qid = 0 then ITEM_ATK_BOOST else ITEM_DEF_BOOST)"

definition quest_of_npc :: "npc_type \<Rightarrow> int" where
  "quest_of_npc t = (case t of NPC_AGRO_TYPE \<Rightarrow> 0 | NPC_BOSS_TYPE \<Rightarrow> 1 | NPC_PEACE_TYPE \<Rightarrow> -1)"

definition set_kills :: "int \<Rightarrow> int \<Rightarrow> session \<Rightarrow> session" where
  "set_kills qid n s =
    s\<lparr>m_quests := (m_quests s)[nat qid := (m_quests s ! nat qid)\<lparr>kill_count := n\<rparr>]\<rparr>"

definition process_quest_kill :: "int \<Rightarrow> npc_type \<Rightarrow> world \<Rightarrow> world" where
  "process_quest_kill k t w =
    (let qid = quest_of_npc t in
     if qid < 0 then w
     else let q = m_quests (w_pl w k) ! nat qid in
       if q_state q \<noteq> Q_ACTIVE then w
       else let n = s32 (kill_count q + 1); w1 = upd_pl k (set_kills qid n) w;
         w2 = (if n \<ge> quest_target qid
           then let xp = quest_reward_xp qid; ritem = quest_reward_item qid;
                  slot_idx = item_code ritem - 1;
                  w2 = upd_pl k (\<lambda>s. add_item slot_idx (gain_xp xp (set_kills qid 0 s))) w1;
                  w3 = send_item_add k ritem (m_inventory (w_pl w2 k) ! nat slot_idx) w2;
                  w4 = sys_chat k (msg_quest qid xp (m_level (w_pl w3 k))) w3
                in send_own_stat k w4
           else w1)
       in send_quest_update k qid w2)"

section \<open>The death of an NPC\<close>

definition broadcast_npc_state :: "int \<Rightarrow> world \<Rightarrow> world" where
  "broadcast_npc_state npc_id w =
    for_players (nearby w (m_x (w_npc w npc_id)) (m_y (w_npc w npc_id)))
      (\<lambda>i w. let n = w_npc w npc_id in
         send_stat_info i npc_id (m_hp n) (m_max_hp n) 0 0 0 (m_move_state n) w) w"

text \<open>The item an NPC drops for the roll \<open>r = rand() % 100\<close>.\<close>

definition drop_of :: "npc_type \<Rightarrow> int \<Rightarrow> item_type option" where
  "drop_of t r =
    (case t of
       NPC_BOSS_TYPE \<Rightarrow> if r < 20 then Some ITEM_HP_POTION else if r < 40 then Some ITEM_HI_POTION
         else if r < 70 then Some ITEM_ELIXIR else None
     | NPC_AGRO_TYPE \<Rightarrow> if r < 25 then Some ITEM_HP_POTION else if r < 35 then Some ITEM_HI_POTION else None
     | NPC_PEACE_TYPE \<Rightarrow> if r < 30 then Some ITEM_HP_POTION else None)"

definition respawn_ms :: "npc_type \<Rightarrow> int" where
  "respawn_ms t = (if t = NPC_BOSS_TYPE then BOSS_RESPAWN_TIME else NPC_RESPAWN_TIME)"

definition npc_die :: "int \<Rightarrow> world \<Rightarrow> world" where
  "npc_die npc_id w =
    (let old_x = m_x (w_npc w npc_id); old_y = m_y (w_npc w npc_id);
       w1 = for_players (nearby w old_x old_y) (\<lambda>i. send_remove_object i npc_id) w;
       w2 = w1\<lparr>w_sectors := remove_object_from_sector npc_id old_x old_y (w_sectors w1)\<rparr>;
       w3 = upd_npc npc_id (\<lambda>n. n\<lparr>m_active_npc := False, m_target_id := -1\<rparr>) w2;
       (r, w4) = rand_next w3;
       w5 = (case drop_of (m_npc_type (w_npc w4 npc_id)) (cmod r 100) of
               None \<Rightarrow> w4 | Some it \<Rightarrow> spawn_item old_x old_y it w4);
       (t, w6) = clock_now w5
     in push_timer npc_id EVENT_NPC_RESPAWN (t + ms (respawn_ms (m_npc_type (w_npc w6 npc_id)))) w6)"

definition xp_gain :: "cnpc \<Rightarrow> int" where
  "xp_gain n =
    (let x = s32 (s32 (m_level n * m_level n) * 2) in
     case m_npc_type n of
       NPC_BOSS_TYPE \<Rightarrow> s32 (x * 10) | NPC_AGRO_TYPE \<Rightarrow> s32 (x * 2) | NPC_PEACE_TYPE \<Rightarrow> x)"

text \<open>
  The part the three attacks share, from \<open>npc->m_hp -= dmg\<close> on: the damage, its broadcast,
  and the death of the NPC with its rewards, or its turn against the attacker. They differ in the
  prefix of the message.
\<close>

definition strike :: "int \<Rightarrow> string \<Rightarrow> int \<Rightarrow> int \<Rightarrow> world \<Rightarrow> world" where
  "strike k prefix target dmg w =
    (let w1 = upd_npc target (\<lambda>n. n\<lparr>m_hp := s16 (m_hp n - dmg)\<rparr>) w;
       rem = m_hp (w_npc w1 target); me = w_pl w1 k;
       w2 = broadcast_damage (m_x me) (m_y me) (m_id me) target dmg rem w1
     in if rem \<le> 0
        then let n = w_npc w2 target; gain = xp_gain n;
               w3 = npc_die target w2;
               w4 = upd_pl k (gain_xp gain) w3;
               w5 = process_quest_kill k (m_npc_type n) w4;
               s = w_pl w5 k;
               w6 = sys_chat k (msg_kill prefix (m_username (w_npc w5 target)) gain (m_level s) (m_xp s)
                      (exp_for_next_level s)) w5
             in send_own_stat k w6
        else let w3 = upd_npc target (\<lambda>n. n\<lparr>m_target_id := m_id (w_pl w2 k), m_move_state := NPC_STATE_CHASE\<rparr>) w2;
               w4 = broadcast_npc_state target w3
             in wake_up target w4)"

section \<open>Attacks\<close>

text \<open>The three tiles in front.\<close>

definition in_arc :: "direction \<Rightarrow> int \<Rightarrow> int \<Rightarrow> bool" where
  "in_arc d dx dy =
    (case d of
       UP \<Rightarrow> dy = -1 \<and> \<bar>dx\<bar> \<le> 1
     | DOWN \<Rightarrow> dy = 1 \<and> \<bar>dx\<bar> \<le> 1
     | LEFT \<Rightarrow> dx = -1 \<and> \<bar>dy\<bar> \<le> 1
     | RIGHT \<Rightarrow> dx = 1 \<and> \<bar>dy\<bar> \<le> 1
     | DIR_RAW _ \<Rightarrow> False)"

text \<open>The tests that skip an id: not an NPC, gone, not in play, dead.\<close>

definition npc_target :: "world \<Rightarrow> int \<Rightarrow> bool" where
  "npc_target w i \<longleftrightarrow> is_npc i \<and> w_live w i \<and> m_state (w_npc w i) = CS_PLAYING \<and> m_hp (w_npc w i) > 0"

definition boosted :: "int \<Rightarrow> int \<Rightarrow> int \<Rightarrow> int" where
  "boosted base t until = (if t < until then s16 (base * 2) else base)"

definition attack_one :: "int \<Rightarrow> int \<Rightarrow> world \<Rightarrow> world" where
  "attack_one k i w =
    (let me = w_pl w k; n = w_npc w i in
     if \<not> npc_target w i then w
     else if \<not> in_arc (m_dir me) (m_x n - m_x me) (m_y n - m_y me) then w
     else let (t, w1) = clock_now w in
       strike k '''' i (boosted (calc_atk_dmg (m_level me)) t (m_atk_boost_until me)) w1)"

definition attack :: "int \<Rightarrow> world \<Rightarrow> world" where
  "attack k w = fold (attack_one k) (m_visible_objects (w_pl w k)) w"

definition skill_one :: "int \<Rightarrow> int \<Rightarrow> world \<Rightarrow> world" where
  "skill_one k i w =
    (let me = w_pl w k; n = w_npc w i in
     if \<not> npc_target w i then w
     else if \<bar>m_x n - m_x me\<bar> > 1 \<or> \<bar>m_y n - m_y me\<bar> > 1 then w
     else let (t, w1) = clock_now w in
       strike k ''[Skill] '' i (boosted (calc_skill_dmg (m_level me)) t (m_atk_boost_until me)) w1)"

definition skill :: "int \<Rightarrow> world \<Rightarrow> world" where
  "skill k w =
    (if m_state (w_pl w k) \<noteq> CS_PLAYING then w
     else let (t, w1) = clock_now w in
       if to_ms (t - m_last_skill_time (w_pl w1 k)) < SKILL_COOL_TIME then w1
       else let w2 = upd_pl k (\<lambda>s. s\<lparr>m_last_skill_time := t\<rparr>) w1 in
         fold (skill_one k) (m_visible_objects (w_pl w2 k)) w2)"

text \<open>The flight of a ranged attack over the distances in the list: the id hit or -1, and how far.\<close>

definition hit_at :: "world \<Rightarrow> int \<Rightarrow> int \<Rightarrow> int option" where
  "hit_at w tx ty =
    find (\<lambda>i. npc_target w i \<and> m_x (w_npc w i) = tx \<and> m_y (w_npc w i) = ty) (nearby w tx ty)"

fun ranged_scan :: "world \<Rightarrow> int \<Rightarrow> int \<Rightarrow> int \<Rightarrow> int \<Rightarrow> int list \<Rightarrow> int \<Rightarrow> int \<times> int" where
  "ranged_scan w x y ddx ddy [] travel = (-1, travel)"
| "ranged_scan w x y ddx ddy (i # is) travel =
    (let tx = s16 (x + ddx * i); ty = s16 (y + ddy * i) in
     if tx < 0 \<or> tx \<ge> WORLD_WIDTH \<or> ty < 0 \<or> ty \<ge> WORLD_HEIGHT then (-1, travel)
     else if w_obstacle w tx ty then (-1, travel)
     else case hit_at w tx ty of
       Some v \<Rightarrow> (v, i)
     | None \<Rightarrow> ranged_scan w x y ddx ddy is i)"

definition step_of :: "direction \<Rightarrow> int \<times> int" where
  "step_of d = ((case d of LEFT \<Rightarrow> -1 | RIGHT \<Rightarrow> 1 | _ \<Rightarrow> 0), (case d of UP \<Rightarrow> -1 | DOWN \<Rightarrow> 1 | _ \<Rightarrow> 0))"

definition ranged_attack :: "int \<Rightarrow> world \<Rightarrow> world" where
  "ranged_attack k w =
    (if m_state (w_pl w k) \<noteq> CS_PLAYING then w
     else let (t, w1) = clock_now w in
       if to_ms (t - m_last_ranged_atk_time (w_pl w1 k)) < RANGED_ATK_COOL_TIME then w1
       else let w2 = upd_pl k (\<lambda>s. s\<lparr>m_last_ranged_atk_time := t\<rparr>) w1;
         me = w_pl w2 k; (ddx, ddy) = step_of (m_dir me);
         (hit_id, travel) = ranged_scan w2 (m_x me) (m_y me) ddx ddy [1, 2, 3, 4, 5, 6] 0;
         w3 = for_players (nearby w2 (m_x me) (m_y me))
                (\<lambda>i. do_send i (S2C_Projectile (m_id me) (m_x me) (m_y me) (m_dir me) travel hit_id)) w2
       in if hit_id \<noteq> -1 \<and> w_live w3 hit_id \<and> m_hp (w_npc w3 hit_id) > 0
          then strike k ''[Ranged] '' hit_id
                 (boosted (calc_skill_dmg (m_level (w_pl w3 k))) t (m_atk_boost_until (w_pl w3 k))) w3
          else w3)"

section \<open>Using items\<close>

definition heal :: "int \<Rightarrow> session \<Rightarrow> session" where
  "heal n s = s\<lparr>m_hp := min (m_max_hp s) (s16 (m_hp s + n))\<rparr>"

text \<open>The effect of an item on the session and its message, or \<^const>\<open>None\<close> when it is not used.\<close>

definition use_effect :: "item_type \<Rightarrow> session \<Rightarrow> world \<Rightarrow> ((session \<Rightarrow> session) \<times> byte list \<times> world) option" where
  "use_effect it s w =
    (if it = ITEM_HP_POTION \<and> m_hp s < m_max_hp s
     then Some (heal 30, msg_hp_potion (m_hp (heal 30 s)) (m_max_hp s), w)
     else if it = ITEM_HI_POTION \<and> m_hp s < m_max_hp s
     then Some (heal 60, msg_hi_potion (m_hp (heal 60 s)) (m_max_hp s), w)
     else if it = ITEM_ELIXIR \<and> m_hp s < m_max_hp s
     then Some (\<lambda>s. s\<lparr>m_hp := m_max_hp s\<rparr>, msg_elixir (m_max_hp s) (m_max_hp s), w)
     else if it = ITEM_ATK_BOOST
     then let (t, w1) = clock_now w in Some (\<lambda>s. s\<lparr>m_atk_boost_until := t + ms 30000\<rparr>, msg_atk_boost, w1)
     else if it = ITEM_DEF_BOOST
     then let (t, w1) = clock_now w in Some (\<lambda>s. s\<lparr>m_def_boost_until := t + ms 30000\<rparr>, msg_def_boost, w1)
     else if it = ITEM_SPD_BOOST
     then let (t, w1) = clock_now w in Some (\<lambda>s. s\<lparr>m_spd_boost_until := t + ms 30000\<rparr>, msg_spd_boost, w1)
     else None)"

definition take_item :: "nat \<Rightarrow> session \<Rightarrow> session" where
  "take_item idx s = s\<lparr>m_inventory := (m_inventory s)[idx := m_inventory s ! idx - 1]\<rparr>"

definition use_item :: "int \<Rightarrow> item_type \<Rightarrow> world \<Rightarrow> world" where
  "use_item k it w =
    (let idx = item_code it - 1; s = w_pl w k in
     if idx < 0 \<or> idx \<ge> int ITEM_SLOT_COUNT \<or> m_inventory s ! nat idx \<le> 0 then w
     else case use_effect it s w of
       None \<Rightarrow> w
     | Some (f, msg, w1) \<Rightarrow>
         let w2 = upd_pl k (\<lambda>s. take_item (nat idx) (f s)) w1;
           w3 = send_own_stat k w2;
           w4 = send_item_add k it (m_inventory (w_pl w3 k) ! nat idx) w3
         in if msg \<noteq> [] then sys_chat k msg w4 else w4)"

section \<open>Moving\<close>

definition move_target :: "direction \<Rightarrow> int \<Rightarrow> int \<Rightarrow> int \<times> int" where
  "move_target d x y =
    (case d of
       UP \<Rightarrow> (x, if y > 0 then y - 1 else y)
     | DOWN \<Rightarrow> (x, if y < WORLD_HEIGHT - 1 then y + 1 else y)
     | LEFT \<Rightarrow> (if x > 0 then x - 1 else x, y)
     | RIGHT \<Rightarrow> (if x < WORLD_WIDTH - 1 then x + 1 else x, y)
     | DIR_RAW _ \<Rightarrow> (x, y))"

definition pick_up :: "int \<Rightarrow> world_item \<Rightarrow> world \<Rightarrow> world" where
  "pick_up k it w =
    (let me = w_pl w k in
     if \<not> wi_active it \<or> wi_x it \<noteq> m_x me \<or> wi_y it \<noteq> m_y me then w
     else let slot_idx = item_code (wi_type it) - 1;
       w1 = w\<lparr>w_items := map (\<lambda>i. if wi_id i = wi_id it then i\<lparr>wi_active := False\<rparr> else i) (w_items w)\<rparr>;
       w2 = upd_pl k (add_item slot_idx) w1;
       w3 = broadcast_item_remove (wi_id it) (wi_x it) (wi_y it) w2;
       w4 = send_item_add k (wi_type it) (m_inventory (w_pl w3 k) ! nat slot_idx) w3
     in sys_chat k (msg_pick_up (item_name slot_idx) (m_inventory (w_pl w4 k) ! nat slot_idx)
          (item_code (wi_type it))) w4)"

definition do_move :: "int \<Rightarrow> direction \<Rightarrow> world \<Rightarrow> world" where
  "do_move k d w =
    (let s = w_pl w k; (nx, ny) = move_target d (m_x s) (m_y s);
       w1 = (if \<not> w_obstacle w nx ny then upd_pl k (\<lambda>s. s\<lparr>m_x := nx, m_y := ny\<rparr>) w else w);
       w2 = w1\<lparr>w_sectors := update_object_sector (m_id s) (m_x s) (m_y s) (m_x (w_pl w1 k)) (m_y (w_pl w1 k)) (w_sectors w1)\<rparr>;
       w3 = update_player_view (m_id s) w2
     in fold (pick_up k) (w_items w3) w3)"

definition move_packet :: "int \<Rightarrow> direction \<Rightarrow> int \<Rightarrow> world \<Rightarrow> world" where
  "move_packet k d move_time w =
    (let w1 = upd_pl k (\<lambda>s. s\<lparr>m_move_time := move_time, m_dir := d\<rparr>) w;
       w2 = do_move k d w1;
       (t, w3) = clock_now w2
     in if t < m_spd_boost_until (w_pl w3 k) then do_move k d w3 else w3)"

section \<open>Login and chat\<close>

definition bot_login :: "int \<Rightarrow> world \<Rightarrow> world" where
  "bot_login k w =
    (let (r1, w1) = rand_next w; (r2, w2) = rand_next w1;
       w3 = upd_pl k (\<lambda>s. s\<lparr>m_x := s16 (cmod r1 WORLD_WIDTH), m_y := s16 (cmod r2 WORLD_HEIGHT),
              m_state := CS_PLAYING\<rparr>) w2;
       s = w_pl w3 k;
       w4 = w3\<lparr>w_sectors := add_object_to_sector (m_id s) (m_x s) (m_y s) (w_sectors w3)\<rparr>;
       w5 = send_all_quest_states k (send_all_world_items k (send_avatar_info k (send_login_success k w4)));
       w6 = update_player_view (m_id s) w5;
       (t, w7) = clock_now w6
     in push_timer (m_id s) EVENT_HP_REGEN (t + ms HP_REGEN_TIME) w7)"

definition login_packet :: "int \<Rightarrow> byte list \<Rightarrow> world \<Rightarrow> world" where
  "login_packet k name w =
    (let w1 = upd_pl k (\<lambda>s. s\<lparr>m_username := name\<rparr>) w in
     if bot_prefix name then bot_login k w1
     else let w2 = upd_pl k (\<lambda>s. s\<lparr>m_state := CS_DB_WAIT\<rparr>) w1 in
       w2\<lparr>w_db_queue := w_db_queue w2 @ [DB_LOGIN (m_id (w_pl w2 k)) (strncpy_s name 19)]\<rparr>)"

definition chat_packet :: "int \<Rightarrow> byte list \<Rightarrow> world \<Rightarrow> world" where
  "chat_packet k msg w =
    (let me = w_pl w k in
     for_players (nearby w (m_x me) (m_y me)) (\<lambda>i. send_chat i (m_id me) (m_username me) msg) w)"

section \<open>process_packet\<close>

text \<open>
  \<open>p\<close> are the bytes from the packet's first to the end of the receive buffer. The result is
  what the function returns, the bytes after it (the chat branch writes a terminator into them)
  and the world; \<^const>\<open>None\<close> when it reads or writes past the buffer. The type is read before
  the tests of the state, the fields after them.
\<close>

definition process_packet :: "int \<Rightarrow> byte list \<Rightarrow> world \<Rightarrow> (bool \<times> byte list \<times> world) option" where
  "process_packet k p w =
    (if length p < 5 then None
     else let ty = rd32 (drop 1 p); st = m_state (w_pl w k) in
       if ty = 0 \<and> st \<noteq> CS_CONNECT then Some (True, p, w)
       else if ty = 5 \<and> st \<noteq> CS_PLAYING then Some (True, p, w)
       else if ty = 2 then
         (if length p < 133 then None
          else let p' = p[132 := 0] in Some (True, p', chat_packet k (cstr (take 128 (drop 5 p'))) w))
       else case dec_c2s p of
         Inl _ \<Rightarrow> None
       | Inr None \<Rightarrow> Some (False, p, w)
       | Inr (Some pk) \<Rightarrow> Some (True, p,
           (case pk of
              C2S_Login name \<Rightarrow> login_packet k name w
            | C2S_Move d t \<Rightarrow> move_packet k d t w
            | C2S_Chat msg \<Rightarrow> chat_packet k msg w
            | C2S_Attack \<Rightarrow> attack k w
            | C2S_Skill \<Rightarrow> skill k w
            | C2S_UseItem it \<Rightarrow> use_item k it w
            | C2S_RangedAttack \<Rightarrow> ranged_attack k w)))"

section \<open>The handlers keep the invariant\<close>

lemma calm_broadcasts [simp]:
  "calm w (broadcast_damage x y a t d hp w)" "calm w (broadcast_item_remove i x y w)"
  "calm w (broadcast_npc_state n w)" "calm w (sys_chat k msg w)" "calm w (send_own_stat k w)"
  unfolding broadcast_damage_def broadcast_item_remove_def broadcast_npc_state_def sys_chat_def
    send_own_stat_def Let_def
  by (auto intro: calm_for_players)

lemma stays_simps [simp]:
  "stays (gain_xp xp)" "stays (add_item i)" "stays (set_kills q n)" "stays (heal n)" "stays (take_item j)"
  "stays (\<lambda>s. s\<lparr>m_last_skill_time := t\<rparr>)" "stays (\<lambda>s. s\<lparr>m_last_ranged_atk_time := t\<rparr>)"
  "stays (\<lambda>s. s\<lparr>m_atk_boost_until := t\<rparr>)" "stays (\<lambda>s. s\<lparr>m_def_boost_until := t\<rparr>)"
  "stays (\<lambda>s. s\<lparr>m_spd_boost_until := t\<rparr>)" "stays (\<lambda>s. s\<lparr>m_hp := m_max_hp s\<rparr>)"
  "stays (\<lambda>s. s\<lparr>m_move_time := mt, m_dir := d\<rparr>)" "stays (\<lambda>s. s\<lparr>m_username := nm\<rparr>)"
  by (simp_all add: stays_def gain_xp_def add_item_def set_kills_def heal_def take_item_def
      split: prod.split)

lemma winv_sends [simp]:
  assumes "winv2 D E w"
  shows "winv2 D E (send_login_success k w)" "winv2 D E (send_avatar_info k w)"
    "winv2 D E (send_chat k i nm msg w)" "winv2 D E (send_stat_info k i hp mhp lv xp nx st w)"
    "winv2 D E (send_item_add k it n w)" "winv2 D E (send_quest_update k q w)" "winv2 D E (do_send k p w)"
    "winv2 D E (send_all_world_items k w)" "winv2 D E (send_all_inventory_items k w)"
    "winv2 D E (send_all_quest_states k w)" "winv2 D E (broadcast_damage x y a t d hp w)"
    "winv2 D E (broadcast_item_remove i x y w)" "winv2 D E (broadcast_npc_state m w)"
    "winv2 D E (sys_chat k msg w)" "winv2 D E (send_own_stat k w)" "winv2 D E (wake_up m w)"
    "winv2 D E (update_player_view k w)" "winv2 D E (disconnect k w)" "winv2 D E (send_remove_object k i w)"
    "winv2 D E (send_add_object k i w)" "winv2 D E (send_move_object k i w)"
  by (rule winv_calm [OF assms]; simp)+

lemma winv_stays [simp]: "winv2 D E w \<Longrightarrow> stays f \<Longrightarrow> winv2 D E (upd_pl k f w)"
  by (rule winv_upd_pl)

lemma winv_spawn_item:
  assumes "winv2 D E w" "it \<in> {ITEM_HP_POTION, ITEM_HI_POTION, ITEM_ELIXIR}"
  shows "winv2 D E (spawn_item x y it w)"
proof -
  let ?n = "\<lparr> wi_id = w_next_item_id w, wi_x = x, wi_y = y, wi_type = it, wi_active = True \<rparr>"
  let ?w1 = "w\<lparr>w_next_item_id := s32 (w_next_item_id w + 1),
    w_items := filter (\<lambda>i. wi_id i \<noteq> w_next_item_id w) (w_items w) @ [?n]\<rparr>"
  have "winv2 D E (w\<lparr>w_next_item_id := s32 (w_next_item_id w + 1)\<rparr>)" using assms(1) by simp
  then have "winv2 D E ?w1"
    by (rule winv_items) (use assms winvD(4) [OF assms(1)] in \<open>auto simp: item_dropped_def\<close>)
  then show ?thesis
    unfolding spawn_item_def Let_def
    by (rule winv_calm) (rule calm_for_players, simp)
qed

lemma spawn_item_hp: "m_hp (w_npc (spawn_item x y it w) n) = m_hp (w_npc w n)"
proof -
  have "calm v (for_players ids (\<lambda>i. send_item_appear i iid x y it) v)" for v ids iid
    by (rule calm_for_players) simp
  from calm_npc(4) [OF this] show ?thesis unfolding spawn_item_def Let_def by simp
qed

text \<open>The scheduling of a dead NPC's respawn pays the debt.\<close>

lemma winv_push_respawn:
  assumes w: "winv2 {} {n} w" and dead: "m_hp (w_npc w n) \<le> 0"
  shows "winv {} (push_timer n EVENT_NPC_RESPAWN t w)"
proof -
  have "grid_ok {} (push_timer n EVENT_NPC_RESPAWN t w) = grid_ok {} w"
    by (rule grid_ok_cong) (simp_all add: push_timer_def)
  moreover have "respawns_ok {} (push_timer n EVENT_NPC_RESPAWN t w)"
    using w dead by (auto simp: winv2_def respawns_ok_def respawns_push) (auto simp: push_timer_def)
  moreover have "grid_ids (push_timer n EVENT_NPC_RESPAWN t w) = grid_ids w"
    by (rule grid_ids_cong) (simp_all add: push_timer_def)
  ultimately show ?thesis using w by (simp add: winv2_def env_ok_def) (simp add: push_timer_def)
qed

lemma drop_of_dropped: "drop_of t r = Some it \<Longrightarrow> it \<in> {ITEM_HP_POTION, ITEM_HI_POTION, ITEM_ELIXIR}"
  by (auto simp: drop_of_def split: npc_type.splits if_splits)

lemma winv_npc_die:
  assumes w: "winv {n} w" and n: "is_npc n" "w_live w n" and dead: "m_hp (w_npc w n) \<le> 0"
  shows "winv {} (npc_die n w)"
proof -
  let ?x = "m_x (w_npc w n)" and ?y = "m_y (w_npc w n)"
  define w1 where "w1 = for_players (nearby w ?x ?y) (\<lambda>i. send_remove_object i n) w"
  have c: "calm w w1" unfolding w1_def by (rule calm_for_players) simp
  have w1: "winv {n} w1" by (rule winv_calm [OF w c])
  have l1: "w_live w1 n" by (rule calm_live_npc [OF w c n])
  have p1: "positions {n} w1 n = Some (?x, ?y)"
    using l1 n calm_npc(2,3) [OF c, of n] by (simp add: positions_def pc_npc)
  define w2 where "w2 = w1\<lparr>w_sectors := remove_object_from_sector n ?x ?y (w_sectors w1)\<rparr>"
  define w3 where "w3 = upd_npc n (\<lambda>c. c\<lparr>m_active_npc := False, m_target_id := -1\<rparr>) w2"
  obtain r w4 where rn: "rand_next w3 = (r, w4)" by (cases "rand_next w3")
  define w5 where "w5 = (case drop_of (m_npc_type (w_npc w4 n)) (cmod r 100) of
    None \<Rightarrow> w4 | Some it \<Rightarrow> spawn_item ?x ?y it w4)"
  have pos: "positions {} w2 = (positions {n} w1)(n := None)"
    using dead n calm_npc(4) [OF c, of n] by (auto simp: positions_def w2_def pc_npc)
  have "sectors_track (only (w_live w1) (w_sectors w2)) (positions {} w2)"
    unfolding pos using grid.tracks_remove [OF winvD(7) [OF w1] p1] by (simp add: w2_def only_remove)
  then have "grid_ok {} w2" using winvD(6) [OF w1] by (simp add: grid_ok_def w2_def ids_ok_def)
  moreover have "respawns_ok {n} w2 = respawns_ok {n} w1" by (rule respawns_ok_cong) (simp_all add: w2_def)
  moreover have "grid_ids w2"
    by (rule grid_ids_step [of w1]) (use w1 in \<open>auto simp: w2_def winv2_def env_ok_def dest: in_sector(2)\<close>)
  ultimately have "winv2 {} {n} w2" using w1 by (simp add: winv2_def w2_def env_ok_def)
  then have w3: "winv2 {} {n} w3"
    unfolding w3_def by (rule winv_upd_npc) (simp_all add: npc_stays_def)
  then have w4: "winv2 {} {n} w4" using rn winv_clock(2) [of "{}" "{n}" w3] by simp
  have w5: "winv2 {} {n} w5"
    using w4 drop_of_dropped by (auto simp: w5_def split: option.split intro: winv_spawn_item)
  define w6 where "w6 = w5\<lparr>w_ticks := Suc (w_ticks w5)\<rparr>"
  have w6: "winv2 {} {n} w6" using w5 by (simp add: w6_def)
  have hp: "m_hp (w_npc w6 n) \<le> 0"
  proof -
    have "m_hp (w_npc w3 n) = m_hp (w_npc w1 n)" by (simp add: w3_def w2_def upd_npc_def)
    moreover have "w_npc w4 = w_npc w3" using rn by (auto simp: rand_next_def)
    moreover have "m_hp (w_npc w5 n) = m_hp (w_npc w4 n)"
      using spawn_item_hp by (simp add: w5_def split: option.split)
    ultimately show ?thesis using dead calm_npc(4) [OF c, of n] by (simp add: w6_def)
  qed
  have "npc_die n w = push_timer n EVENT_NPC_RESPAWN
      (w_clock w5 (w_ticks w5) + ms (respawn_ms (m_npc_type (w_npc w6 n)))) w6"
    by (simp add: npc_die_def Let_def w1_def [symmetric] w2_def [symmetric] w3_def [symmetric]
         rn w5_def [symmetric] clock_now_def w6_def)
  then show ?thesis using winv_push_respawn [OF w6 hp] by simp
qed

lemma winv_quest_kill [simp]:
  assumes "winv D w"
  shows "winv D (process_quest_kill k t w)"
proof -
  have "stays (\<lambda>s. add_item i (gain_xp xp (set_kills q 0 s)))" for i xp q
    by (rule stays_comp [OF stays_simps(2) stays_comp [OF stays_simps(1) stays_simps(3)]])
  note st = this
  define qid where "qid = quest_of_npc t"
  define n where "n = s32 (kill_count (m_quests (w_pl w k) ! nat qid) + 1)"
  define w1 where "w1 = upd_pl k (set_kills qid n) w"
  define i where "i = item_code (quest_reward_item qid) - 1"
  define w2 where "w2 = upd_pl k (\<lambda>s. add_item i (gain_xp (quest_reward_xp qid) (set_kills qid 0 s))) w1"
  define w3 where "w3 = send_item_add k (quest_reward_item qid) (m_inventory (w_pl w2 k) ! nat i) w2"
  have w1: "winv D w1" using assms by (simp add: w1_def)
  have "winv D w2" using w1 st by (simp add: w2_def)
  then have "winv D w3" by (simp add: w3_def)
  then show ?thesis
    unfolding process_quest_kill_def Let_def qid_def [symmetric] n_def [symmetric] w1_def [symmetric]
      i_def [symmetric] w2_def [symmetric] w3_def [symmetric]
    using assms w1 by simp
qed

lemma winv_strike:
  assumes w: "winv {} w" and t: "npc_target w n"
  shows "winv {} (strike k prefix n dmg w)"
proof -
  have n: "is_npc n" "w_live w n" "m_hp (w_npc w n) > 0" using t by (auto simp: npc_target_def)
  define w1 where "w1 = upd_npc n (\<lambda>c. c\<lparr>m_hp := s16 (m_hp c - dmg)\<rparr>) w"
  define r where "r = m_hp (w_npc w1 n)"
  define w2 where "w2 = broadcast_damage (m_x (w_pl w1 k)) (m_y (w_pl w1 k)) (m_id (w_pl w1 k)) n dmg r w1"
  have "winv {n} w" using winv_exempt [OF n(3)] w by simp
  then have w1: "winv {n} w1" unfolding w1_def by (rule winv_upd_npc) (simp_all add: npc_stays_def)
  have c: "calm w1 w2" unfolding w2_def by simp
  have w2: "winv {n} w2" by (rule winv_calm [OF w1 c])
  have "w_live w1 n" using n(2) by (simp add: w1_def upd_npc_def)
  then have l2: "w_live w2 n" by (rule calm_live_npc [OF w1 c n(1)])
  have h2: "m_hp (w_npc w2 n) = r" using calm_npc(4) [OF c, of n] by (simp add: r_def)
  show ?thesis
  proof (cases "r \<le> 0")
    case True
    have die: "winv {} (npc_die n w2)" by (rule winv_npc_die [OF w2 n(1) l2]) (simp add: h2 True)
    show ?thesis
      unfolding strike_def Let_def w1_def [symmetric] r_def [symmetric] w2_def [symmetric]
      using True die by simp
  next
    case False
    have "winv {} w2" using winv_exempt [of w2 n] w2 False h2 by simp
    then have "winv {} (upd_npc n (\<lambda>c. c\<lparr>m_target_id := tid, m_move_state := NPC_STATE_CHASE\<rparr>) w2)" for tid
      by (rule winv_upd_npc) (simp_all add: npc_stays_def)
    then show ?thesis
      unfolding strike_def Let_def w1_def [symmetric] r_def [symmetric] w2_def [symmetric]
      using False by simp
  qed
qed

lemma npc_target_ticks [simp]: "npc_target (w\<lparr>w_ticks := t\<rparr>) n = npc_target w n"
  by (simp add: npc_target_def)

lemma winv_attack:
  assumes "winv {} w"
  shows "winv {} (attack k w)"
proof -
  have "winv {} (attack_one k i s)" if "winv {} s" for i s
    using that by (simp add: attack_one_def Let_def clock_now_def winv_strike)
  then show ?thesis
    unfolding attack_def by (rule fold_invariant_list [of "winv {}", OF assms])
qed

lemma winv_skill:
  assumes "winv {} w"
  shows "winv {} (skill k w)"
proof -
  have one: "winv {} (skill_one k i s)" if "winv {} s" for i s
    using that by (simp add: skill_one_def Let_def clock_now_def winv_strike)
  have "winv {} (fold (skill_one k) is (upd_pl k (\<lambda>s. s\<lparr>m_last_skill_time := t\<rparr>) (w\<lparr>w_ticks := n\<rparr>)))" for "is" t n
    by (rule fold_invariant_list) (use assms one in simp_all)
  then show ?thesis using assms by (simp add: skill_def Let_def clock_now_def)
qed

lemma hit_at_target:
  "hit_at w tx ty = Some v \<Longrightarrow> npc_target w v \<and> m_x (w_npc w v) = tx \<and> m_y (w_npc w v) = ty
     \<and> v \<in> set (nearby w tx ty)"
  by (auto simp: hit_at_def find_Some_iff)

lemma ranged_scan_hit:
  "ranged_scan w x y dx dy ds tr = (v, d) \<Longrightarrow> v \<noteq> -1 \<Longrightarrow> npc_target w v"
  by (induction ds arbitrary: tr) (auto simp: Let_def dest: hit_at_target split: if_splits option.splits)

lemma winv_ranged:
  assumes w: "winv {} w"
  shows "winv {} (ranged_attack k w)"
proof -
  obtain t w1 where c: "clock_now w = (t, w1)" by (cases "clock_now w")
  define w2 where "w2 = upd_pl k (\<lambda>s. s\<lparr>m_last_ranged_atk_time := t\<rparr>) w1"
  define me where "me = w_pl w2 k"
  obtain ddx ddy where st: "step_of (m_dir me) = (ddx, ddy)" by (cases "step_of (m_dir me)")
  obtain h tr where sc: "ranged_scan w2 (m_x me) (m_y me) ddx ddy [1, 2, 3, 4, 5, 6] 0 = (h, tr)"
    by (cases "ranged_scan w2 (m_x me) (m_y me) ddx ddy [1, 2, 3, 4, 5, 6] 0")
  define w3 where "w3 = for_players (nearby w2 (m_x me) (m_y me))
    (\<lambda>i. do_send i (S2C_Projectile (m_id me) (m_x me) (m_y me) (m_dir me) tr h)) w2"
  have w1: "winv {} w1" using w c winv_clock(1) [of "{}" "{}" w] by simp
  then have w2: "winv {} w2" by (simp add: w2_def)
  have c23: "calm w2 w3" unfolding w3_def by (rule calm_for_players) simp
  have w3: "winv {} w3" by (rule winv_calm [OF w2 c23])
  have t3: "npc_target w3 h" if "h \<noteq> -1" "w_live w3 h" "m_hp (w_npc w3 h) > 0"
    using ranged_scan_hit [OF sc that(1)] that calm_npc(13) [OF c23, of h] by (simp add: npc_target_def)
  have "ranged_attack k w =
    (if m_state (w_pl w k) \<noteq> CS_PLAYING then w
     else if to_ms (t - m_last_ranged_atk_time (w_pl w1 k)) < RANGED_ATK_COOL_TIME then w1
     else if h \<noteq> -1 \<and> w_live w3 h \<and> m_hp (w_npc w3 h) > 0
     then strike k ''[Ranged] '' h
            (boosted (calc_skill_dmg (m_level (w_pl w3 k))) t (m_atk_boost_until (w_pl w3 k))) w3
     else w3)"
    unfolding ranged_attack_def c Let_def prod.case w2_def [symmetric] me_def [symmetric] st sc
      w3_def [symmetric] by (rule refl)
  then show ?thesis using w w1 w3 t3 winv_strike [OF w3, of h] by simp
qed

lemma use_effect_inv:
  assumes "winv D w" "use_effect it s w = Some (f, msg, w1)"
  shows "winv D w1 \<and> stays f \<and> w_pl w1 = w_pl w"
  using assms by (auto simp: use_effect_def clock_now_def Let_def split: if_splits)

lemma winv_use_item:
  assumes "winv D w"
  shows "winv D (use_item k it w)"
proof (cases "use_effect it (w_pl w k) w")
  case (Some r)
  obtain f msg w1 where r: "r = (f, msg, w1)" by (cases r)
  have e: "winv D w1" "stays f" using use_effect_inv [OF assms Some [unfolded r]] by auto
  have "stays (\<lambda>s. take_item j (f s))" for j by (rule stays_comp [OF stays_simps(5) e(2)])
  then show ?thesis using assms e(1) by (simp add: use_item_def Let_def Some r)
qed (use assms in \<open>simp add: use_item_def Let_def\<close>)

section \<open>Moving and entering the grid\<close>

text \<open>A session whose moves the grid expects: not connected any more, or in play.\<close>

definition mover_ok :: "int \<Rightarrow> world \<Rightarrow> bool" where
  "mover_ok k w \<longleftrightarrow> is_pc k \<and> k < w_player_index w \<and> (w_live w k \<longrightarrow> m_state (w_pl w k) = CS_PLAYING)"

lemma mover_calm: "mover_ok k w \<Longrightarrow> calm w w' \<Longrightarrow> mover_ok k w'"
  using calmD(3) [of w w'] calmD(11,12) [of w w' k] by (auto simp: mover_ok_def)

lemma mover_playing: "winv2 D E w \<Longrightarrow> is_pc k \<Longrightarrow> m_state (w_pl w k) = CS_PLAYING \<Longrightarrow> mover_ok k w"
  using winvD(5) [of D E w] winvD(11) [of D E w k] by (auto simp: mover_ok_def env_ok_def)

text \<open>A player set on another tile, with the grid told of it.\<close>

definition relocate :: "int \<Rightarrow> int \<Rightarrow> int \<Rightarrow> world \<Rightarrow> world" where
  "relocate k x y w =
    (let s = w_pl w k; w1 = upd_pl k (\<lambda>s. s\<lparr>m_x := x, m_y := y\<rparr>) w in
     w1\<lparr>w_sectors := update_object_sector k (m_x s) (m_y s) x y (w_sectors w1)\<rparr>)"

lemma winv_relocate:
  assumes w: "winv D w" and k: "mover_ok k w" and t: "tile x y"
  shows "winv D (relocate k x y w)"
proof -
  have pc: "is_pc k" using k by (simp add: mover_ok_def)
  define w' where "w' = relocate k x y w"
  have f: "w_live w' = w_live w" "w_npc w' = w_npc w" "w_items w' = w_items w"
    "w_obstacle w' = w_obstacle w" "w_rand w' = w_rand w" "w_player_index w' = w_player_index w"
    "w_pl w' = (w_pl w)(k := (w_pl w k)\<lparr>m_x := x, m_y := y\<rparr>)"
    "w_sectors w' = update_object_sector k (m_x (w_pl w k)) (m_y (w_pl w k)) x y (w_sectors w)"
    by (simp_all add: w'_def relocate_def Let_def upd_pl_def)
  have ids: "ids_ok w'" using winvD(6) [OF w] by (auto simp: ids_ok_def f)
  have "sectors_track (only (w_live w') (w_sectors w')) (positions D w')"
  proof (cases "w_live w k")
    case True
    then have p: "positions D w k = Some (m_x (w_pl w k), m_y (w_pl w k))"
      using k by (simp add: positions_def mover_ok_def)
    have "positions D w' = (positions D w)(k \<mapsto> (x, y))"
      using True k by (auto simp: positions_def f mover_ok_def)
    moreover have "only (w_live w') (w_sectors w') =
        update_object_sector k (m_x (w_pl w k)) (m_y (w_pl w k)) x y (only (w_live w) (w_sectors w))"
      using True by (simp add: f only_update)
    ultimately show ?thesis using grid.tracks_move [OF winvD(7) [OF w] p t] by simp
  next
    case False
    then have "positions D w' = positions D w" by (auto simp: positions_def f)
    moreover have "only (w_live w') (w_sectors w') = only (w_live w) (w_sectors w)"
      using False by (simp add: f only_update_other)
    ultimately show ?thesis using winvD(7) [OF w] by simp
  qed
  moreover have "respawns_ok D w' = respawns_ok D w"
    by (rule respawns_ok_cong) (simp_all add: w'_def relocate_def Let_def upd_pl_def)
  moreover have "grid_ids w'"
    by (rule grid_ids_step [of w]) (use w k in \<open>auto simp: f winv2_def env_ok_def mover_ok_def dest: in_sector(3)\<close>)
  ultimately show ?thesis
    using w ids t unfolding w'_def [symmetric]
    by (auto simp: winv2_def grid_ok_def f player_ok_def env_ok_def)
qed

lemma update_sector_same: "update_object_sector i x y x y ss = ss"
  by (simp add: update_object_sector_def)

lemma move_target_tile: "tile x y \<Longrightarrow> move_target d x y = (nx, ny) \<Longrightarrow> tile nx ny"
  by (cases d) (auto simp: move_target_def tile_def)

text \<open>\<open>do_move\<close> is a relocation, a look around and the items on the tile.\<close>

definition moved :: "int \<Rightarrow> direction \<Rightarrow> world \<Rightarrow> world" where
  "moved k d w =
    (let s = w_pl w k; (nx, ny) = move_target d (m_x s) (m_y s) in
     if w_obstacle w nx ny then w else relocate k nx ny w)"

lemma do_move_alt:
  assumes "m_id (w_pl w k) = k"
  shows "do_move k d w =
    (let w3 = update_player_view k (moved k d w) in fold (pick_up k) (w_items w3) w3)"
proof -
  obtain nx ny where m: "move_target d (m_x (w_pl w k)) (m_y (w_pl w k)) = (nx, ny)"
    by (cases "move_target d (m_x (w_pl w k)) (m_y (w_pl w k))")
  show ?thesis
    using assms by (simp add: do_move_def moved_def relocate_def Let_def m upd_pl_def update_sector_same)
qed

lemma winv_moved: "winv D w \<Longrightarrow> mover_ok k w \<Longrightarrow> winv D (moved k d w)"
  using winvD(2) [of D D w k] move_target_tile [of "m_x (w_pl w k)" "m_y (w_pl w k)" d]
  by (auto simp: moved_def Let_def player_ok_def mover_ok_def intro: winv_relocate split: prod.split)

lemma winv_pick_up:
  assumes "winv D w"
  shows "winv D (pick_up k it w)"
proof -
  define its where "its = map (\<lambda>i. if wi_id i = wi_id it then i\<lparr>wi_active := False\<rparr> else i) (w_items w)"
  have "winv D (w\<lparr>w_items := its\<rparr>)"
    by (rule winv_items [OF assms]) (use winvD(4) [OF assms] in \<open>fastforce simp: its_def item_dropped_def\<close>)
  then show ?thesis using assms by (simp add: pick_up_def Let_def its_def [symmetric])
qed

lemma mover_moved: "mover_ok k w \<Longrightarrow> mover_ok k (moved k d w)"
  by (auto simp: mover_ok_def moved_def relocate_def Let_def upd_pl_def split: prod.split)

lemma mover_pick_up:
  assumes "mover_ok k w"
  shows "mover_ok k (pick_up j it w)"
proof -
  have "mover_ok k (upd_pl j (add_item n) (w\<lparr>w_items := its\<rparr>))" for n its
    using assms by (auto simp: mover_ok_def upd_pl_def add_item_def)
  then show ?thesis
    using assms unfolding pick_up_def Let_def
    by (auto intro!: mover_calm [OF _ calm_broadcasts(4)] mover_calm [OF _ calm_send_packets(8)]
        mover_calm [OF _ calm_broadcasts(2)])
qed

lemma do_move_inv:
  assumes w: "winv {} w" and k: "mover_ok k w"
  shows "winv {} (do_move k d w) \<and> mover_ok k (do_move k d w)"
proof -
  let ?w3 = "update_player_view k (moved k d w)"
  have id: "m_id (w_pl w k) = k" using winvD(8) [OF w] k by (simp add: mover_ok_def)
  have "winv {} ?w3 \<and> mover_ok k ?w3"
    using winv_moved [OF w k, of d] mover_calm [OF mover_moved [OF k, of d] calm_update_player_view] by simp
  then have "winv {} (fold (pick_up k) its ?w3) \<and> mover_ok k (fold (pick_up k) its ?w3)" for its
    by (rule fold_invariant_list) (simp add: winv_pick_up mover_pick_up)
  then show ?thesis by (simp add: do_move_alt [OF id] Let_def)
qed

lemma winv_move_packet:
  assumes w: "winv {} w" and k: "mover_ok k w"
  shows "winv {} (move_packet k d t w)"
proof -
  define w1 where "w1 = upd_pl k (\<lambda>s. s\<lparr>m_move_time := t, m_dir := d\<rparr>) w"
  have "winv {} w1" using w by (simp add: w1_def)
  moreover have "mover_ok k w1" using k by (auto simp: w1_def mover_ok_def upd_pl_def)
  ultimately have w2: "winv {} (do_move k d w1)" "mover_ok k (do_move k d w1)" using do_move_inv by blast+
  define w3 where "w3 = do_move k d w1\<lparr>w_ticks := Suc (w_ticks (do_move k d w1))\<rparr>"
  have "winv {} w3" "mover_ok k w3" using w2 by (simp_all add: w3_def mover_ok_def)
  then show ?thesis
    using do_move_inv [of w3 k d]
    by (simp add: move_packet_def Let_def w1_def [symmetric] clock_now_def w3_def [symmetric])
qed

text \<open>A session that enters play on a tile, with the grid told of it.\<close>

lemma winv_enter_play:
  assumes w: "winv D w" and k: "is_pc k" "w_live w k" "m_state (w_pl w k) \<noteq> CS_PLAYING"
    and f: "m_id (f (w_pl w k)) = k" "m_state (f (w_pl w k)) = CS_PLAYING" "player_ok (f (w_pl w k))"
  defines "w1 \<equiv> upd_pl k f w"
  shows "winv D (w1\<lparr>w_sectors := add_object_to_sector k (m_x (w_pl w1 k)) (m_y (w_pl w1 k)) (w_sectors w1)\<rparr>)"
proof -
  let ?x = "m_x (f (w_pl w k))" and ?y = "m_y (f (w_pl w k))"
  define w' where "w' = w1\<lparr>w_sectors := add_object_to_sector k (m_x (w_pl w1 k)) (m_y (w_pl w1 k)) (w_sectors w1)\<rparr>"
  have e: "w_live w' = w_live w" "w_npc w' = w_npc w" "w_items w' = w_items w" "w_obstacle w' = w_obstacle w"
    "w_rand w' = w_rand w" "w_player_index w' = w_player_index w" "w_pl w' = (w_pl w)(k := f (w_pl w k))"
    "w_sectors w' = add_object_to_sector k ?x ?y (w_sectors w)"
    by (simp_all add: w'_def w1_def upd_pl_def)
  have ids: "ids_ok w'" using winvD(6) [OF w] k f(1) by (auto simp: ids_ok_def e)
  have none: "positions D w k = None" using k by (simp add: positions_def)
  have pos: "positions D w' = (positions D w)(k \<mapsto> (?x, ?y))"
    using k f(2) by (auto simp: positions_def e)
  have "tile ?x ?y" using f(3) by (simp add: player_ok_def)
  from grid.tracks_add [OF winvD(7) [OF w] this none]
  have "sectors_track (only (w_live w') (w_sectors w')) (positions D w')"
    using k(2) by (simp add: pos) (simp add: e only_add)
  moreover have "respawns_ok D w' = respawns_ok D w"
    by (rule respawns_ok_cong) (simp_all add: w'_def w1_def upd_pl_def)
  moreover have "grid_ids w'"
    by (rule grid_ids_step [of w]) (use w k in \<open>auto simp: e winv2_def env_ok_def dest: in_sector(1)\<close>)
  ultimately show ?thesis
    unfolding w'_def [symmetric]
    using w ids f(3) by (auto simp: winv2_def grid_ok_def e env_ok_def)
qed

lemma winv_bot_login:
  assumes w: "winv {} w" and k: "is_pc k" "w_live w k" "m_state (w_pl w k) \<noteq> CS_PLAYING"
  shows "winv {} (bot_login k w)"
proof -
  define x where "x = s16 (cmod (w_rand w (w_rands w)) WORLD_WIDTH)"
  define y where "y = s16 (cmod (w_rand w (Suc (w_rands w))) WORLD_HEIGHT)"
  have "0 \<le> w_rand w i" for i using winvD(5) [OF w] by (simp add: env_ok_def)
  then have t: "tile x y"
    using cmod_bounds [of "w_rand w (w_rands w)" WORLD_WIDTH]
      cmod_bounds [of "w_rand w (Suc (w_rands w))" WORLD_HEIGHT]
    by (simp add: x_def y_def tile_def s16_id)
  define w2 where "w2 = w\<lparr>w_rands := Suc (Suc (w_rands w))\<rparr>"
  define w3 where "w3 = upd_pl k (\<lambda>s. s\<lparr>m_x := x, m_y := y, m_state := CS_PLAYING\<rparr>) w2"
  define w4 where "w4 = w3\<lparr>w_sectors := add_object_to_sector k (m_x (w_pl w3 k)) (m_y (w_pl w3 k)) (w_sectors w3)\<rparr>"
  have "winv {} w4"
    unfolding w4_def w3_def
    by (rule winv_enter_play) (use w k t winvD(2,8) [OF w] in \<open>auto simp: w2_def player_ok_def\<close>)
  moreover have "m_id (w_pl w3 k) = k"
    using winvD(8) [OF w k(1)] by (simp add: w3_def w2_def upd_pl_def)
  ultimately show ?thesis
    unfolding bot_login_def rand_next_def clock_now_def Let_def
    by (simp add: x_def [symmetric] y_def [symmetric] w2_def [symmetric] w3_def [symmetric] w4_def [symmetric])
qed

lemma winv_login:
  assumes w: "winv {} w" and k: "is_pc k" "w_live w k" "m_state (w_pl w k) \<noteq> CS_PLAYING"
  shows "winv {} (login_packet k name w)"
proof -
  define w1 where "w1 = upd_pl k (\<lambda>s. s\<lparr>m_username := name\<rparr>) w"
  have w1: "winv {} w1" using w by (simp add: w1_def)
  have k1: "w_live w1 k" "m_state (w_pl w1 k) \<noteq> CS_PLAYING" using k by (simp_all add: w1_def upd_pl_def)
  define w2 where "w2 = upd_pl k (\<lambda>s. s\<lparr>m_state := CS_DB_WAIT\<rparr>) w1"
  have e: "w_live w2 = w_live w1" "w_sectors w2 = w_sectors w1" "w_npc w2 = w_npc w1"
    "w_pl w2 = (w_pl w1)(k := (w_pl w1 k)\<lparr>m_state := CS_DB_WAIT\<rparr>)" "w_items w2 = w_items w1"
    "w_obstacle w2 = w_obstacle w1" "w_rand w2 = w_rand w1" "w_player_index w2 = w_player_index w1"
    by (simp_all add: w2_def upd_pl_def)
  have "positions {} w2 = positions {} w1"
    by (rule ext) (use k1 in \<open>simp add: positions_def e\<close>)
  moreover have "ids_ok w2" using winvD(6) [OF w1] k1 by (auto simp: ids_ok_def e)
  moreover have "respawns_ok {} w2 = respawns_ok {} w1"
    by (rule respawns_ok_cong) (simp_all add: w2_def upd_pl_def)
  moreover have "grid_ids w2 = grid_ids w1" by (rule grid_ids_cong) (simp_all add: e w2_def upd_pl_def)
  ultimately have "winv {} w2"
    using w1 by (auto simp: winv2_def grid_ok_def e player_ok_def env_ok_def)
  then show ?thesis
    using winv_bot_login [OF w1 k(1) k1]
    by (simp add: login_packet_def Let_def w1_def [symmetric] w2_def [symmetric])
qed

lemma winv_chat: "winv D w \<Longrightarrow> winv D (chat_packet k msg w)"
  unfolding chat_packet_def Let_def by (erule winv_calm) (rule calm_for_players, simp)

text \<open>
  Every packet but a move before login keeps the invariant. (A move of a connected session that
  is not in play leaves its id in the grid, see the property on it.)
\<close>

lemma winv_process_packet:
  assumes w: "winv {} w" and k: "is_pc k" "k < w_player_index w"
    and mv: "rd32 (drop 1 p) = 1 \<Longrightarrow> w_live w k \<Longrightarrow> m_state (w_pl w k) = CS_PLAYING"
    and r: "process_packet k p w = Some (ok, p', w')"
  shows "winv {} w'"
proof -
  have m: "mover_ok k w" if "rd32 (drop 1 p) = 1" using k mv [OF that] by (simp add: mover_ok_def)
  have cm: "\<exists>d t. dec_c2s p = Inr (Some (C2S_Move d t)) \<Longrightarrow> rd32 (drop 1 p) = 1"
    by (auto simp: dec_c2s_def Let_def split: if_splits)
  have cl: "\<exists>nm. dec_c2s p = Inr (Some (C2S_Login nm)) \<Longrightarrow> rd32 (drop 1 p) = 0"
    by (auto simp: dec_c2s_def Let_def split: if_splits)
  have lv: "m_state (w_pl w k) = CS_CONNECT \<Longrightarrow> w_live w k" using winvD(11) [OF w k(1)] by auto
  show ?thesis
    using r w cm cl m k lv
    by (auto simp: process_packet_def Let_def winv_chat winv_attack winv_skill winv_ranged
        winv_use_item winv_move_packet winv_login split: if_splits sum.splits option.splits c2s.splits)
qed

end
