(* ===== verification/Blows.thy ===== *)
theory Blows
  imports Combat
begin

text \<open>
  What the attacks, items and moves of \<open>Combat\<close> do: which objects a blow touches, the three
  attacks' targets and cooldowns, deaths with their rewards, quests, the use of items, moving and
  picking up.
\<close>

section \<open>Whom a blow touches\<close>

text \<open>
  \<open>touches k T w w'\<close>: of the NPCs only those of \<open>T\<close> changed (beyond their activity flag),
  of the sessions only \<open>k\<close>, and of that one only hit points, level, experience, inventory and
  quests.
\<close>

definition fixed :: "session \<Rightarrow> session" where
  "fixed s = (body s)\<lparr>m_hp := 0, m_max_hp := 0, m_level := 0, m_xp := 0, m_inventory := [], m_quests := []\<rparr>"

definition touches :: "int \<Rightarrow> int set \<Rightarrow> world \<Rightarrow> world \<Rightarrow> bool" where
  "touches k T w w' \<longleftrightarrow>
    (\<forall>n. n \<notin> T \<longrightarrow> npc_body (w_npc w' n) = npc_body (w_npc w n))
    \<and> (\<forall>n. m_id (w_npc w' n) = m_id (w_npc w n)) \<and> (\<forall>j. m_id (w_pl w' j) = m_id (w_pl w j))
    \<and> (\<forall>j. j \<noteq> k \<longrightarrow> body (w_pl w' j) = body (w_pl w j)) \<and> fixed (w_pl w' k) = fixed (w_pl w k)
    \<and> (\<forall>n. obj_id w n \<ge> NPC_ID_START \<longrightarrow> w_live w' n = w_live w n)
    \<and> (\<forall>n. w_live w' n \<longrightarrow> w_live w n) \<and> w_clock w' = w_clock w"

lemma touches_obj_id: "touches k T w w' \<Longrightarrow> obj_id w' n = obj_id w n"
  by (simp add: touches_def obj_id_def)

lemma touches_trans:
  assumes "touches k T a b" "touches k T' b c"
  shows "touches k (T \<union> T') a c"
  using assms touches_obj_id [OF assms(1)] unfolding touches_def by auto

lemma touches_calm: "calm w w' \<Longrightarrow> touches k {} w w'"
  using calmD(5,9,10,11,14) [of w w'] calm_pl(1) [of w w'] calm_npc(1) [of w w']
  unfolding touches_def fixed_def by auto

lemma touches_trans0: "touches k T a b \<Longrightarrow> calm b c \<Longrightarrow> touches k T a c"
  using touches_trans [of k T a b "{}" c] touches_calm by simp

lemma touches_refl [simp]: "touches k T w w"
  by (simp add: touches_def)

lemma fixedD:
  assumes "fixed s = fixed s'"
  shows "m_x s = m_x s'" "m_y s = m_y s'" "m_dir s = m_dir s'" "m_atk_boost_until s = m_atk_boost_until s'"
    "m_id s = m_id s'"
proof -
  from assms have "\<And>f. f (fixed s) = f (fixed s')" by simp
  from this [of m_x] this [of m_y] this [of m_dir] this [of m_atk_boost_until] this [of m_id]
  show "m_x s = m_x s'" "m_y s = m_y s'" "m_dir s = m_dir s'" "m_atk_boost_until s = m_atk_boost_until s'"
    "m_id s = m_id s'" by (simp_all add: fixed_def body_def)
qed

lemma touches_upd_pl:
  assumes "\<And>s. fixed (f s) = fixed s"
  shows "touches k {} w (upd_pl k f w)"
  using assms fixedD(5) [OF assms] by (simp add: touches_def upd_pl_def)

lemma touches_upd_npc: "(\<And>c. m_id (f c) = m_id c) \<Longrightarrow> touches k {n} w (upd_npc n f w)"
  by (simp add: touches_def upd_npc_def)

lemma fixed_simps [simp]:
  "fixed (gain_xp xp s) = fixed s" "fixed (add_item i s) = fixed s" "fixed (set_kills q n s) = fixed s"
  by (simp_all add: fixed_def body_def gain_xp_def add_item_def set_kills_def split: prod.split)

lemma touches_quest: "touches k {} w (process_quest_kill k t w)"
proof -
  define qid where "qid = quest_of_npc t"
  define n where "n = s32 (kill_count (m_quests (w_pl w k) ! nat qid) + 1)"
  define w1 where "w1 = upd_pl k (set_kills qid n) w"
  define i where "i = item_code (quest_reward_item qid) - 1"
  define w2 where "w2 = upd_pl k (\<lambda>s. add_item i (gain_xp (quest_reward_xp qid) (set_kills qid 0 s))) w1"
  define w3 where "w3 = send_item_add k (quest_reward_item qid) (m_inventory (w_pl w2 k) ! nat i) w2"
  define w5 where "w5 = send_own_stat k (sys_chat k (msg_quest qid (quest_reward_xp qid) (m_level (w_pl w3 k))) w3)"
  have w1: "touches k {} w w1" unfolding w1_def by (rule touches_upd_pl) simp
  have "touches k {} w1 w2" unfolding w2_def by (rule touches_upd_pl) simp
  with w1 have w2: "touches k {} w w2" using touches_trans by fastforce
  have "calm w2 w5" unfolding w5_def w3_def
    by (rule calm_trans [OF calm_trans [OF calm_send_packets(8) calm_broadcasts(4)] calm_broadcasts(5)])
  with w2 have w5: "touches k {} w w5" by (rule touches_trans0)
  show ?thesis
    unfolding process_quest_kill_def Let_def qid_def [symmetric] n_def [symmetric] w1_def [symmetric]
      i_def [symmetric] w2_def [symmetric] w3_def [symmetric] w5_def [symmetric]
    using touches_trans0 [OF w1 calm_send_packets(9)] touches_trans0 [OF w5 calm_send_packets(9)] by simp
qed

lemma touches_same:
  assumes "w_npc w' = w_npc w" "w_pl w' = w_pl w" "w_live w' = w_live w" "w_clock w' = w_clock w"
  shows "touches k {} w w'"
  using assms by (simp add: touches_def)

lemma touches_spawn: "touches k {} w (spawn_item x y it w)"
  unfolding spawn_item_def Let_def
  by (rule touches_trans0 [OF touches_same calm_for_players]) simp_all

lemma touches_npc_die: "touches k {n} w (npc_die n w)"
proof -
  let ?x = "m_x (w_npc w n)" and ?y = "m_y (w_npc w n)"
  define w1 where "w1 = for_players (nearby w ?x ?y) (\<lambda>i. send_remove_object i n) w"
  define w2 where "w2 = w1\<lparr>w_sectors := remove_object_from_sector n ?x ?y (w_sectors w1)\<rparr>"
  define w3 where "w3 = upd_npc n (\<lambda>c. c\<lparr>m_active_npc := False, m_target_id := -1\<rparr>) w2"
  obtain r w4 where rn: "rand_next w3 = (r, w4)" by (cases "rand_next w3")
  define w5 where "w5 = (case drop_of (m_npc_type (w_npc w4 n)) (cmod r 100) of
    None \<Rightarrow> w4 | Some it \<Rightarrow> spawn_item ?x ?y it w4)"
  have "calm w w1" unfolding w1_def by (rule calm_for_players) simp
  then have a: "touches k {} w w1" by (rule touches_calm)
  have b: "touches k {} w1 w2" by (rule touches_same) (simp_all add: w2_def)
  have c: "touches k {n} w2 w3" unfolding w3_def by (rule touches_upd_npc) simp
  have d: "touches k {} w3 w4" by (rule touches_same) (use rn in \<open>auto simp: rand_next_def\<close>)
  have e: "touches k {} w4 w5" unfolding w5_def by (simp add: touches_spawn split: option.split)
  have f: "touches k {} w5 (npc_die n w)"
    by (rule touches_same)
       (simp_all add: npc_die_def Let_def w1_def [symmetric] w2_def [symmetric] w3_def [symmetric]
         rn w5_def [symmetric] clock_now_def push_timer_def)
  show ?thesis
    using touches_trans [OF touches_trans [OF touches_trans [OF a b] c] touches_trans [OF touches_trans [OF d e] f]]
    by simp
qed

text \<open>One blow: the NPC struck loses the damage, nobody else is changed.\<close>

lemma touches_strike: "touches k {n} w (strike k prefix n dmg w)"
proof -
  define w1 where "w1 = upd_npc n (\<lambda>c. c\<lparr>m_hp := s16 (m_hp c - dmg)\<rparr>) w"
  define r where "r = m_hp (w_npc w1 n)"
  define w2 where "w2 = broadcast_damage (m_x (w_pl w1 k)) (m_y (w_pl w1 k)) (m_id (w_pl w1 k)) n dmg r w1"
  have "touches k {n} w w1" unfolding w1_def by (rule touches_upd_npc) simp
  moreover have "calm w1 w2" by (simp add: w2_def)
  ultimately have a: "touches k {n} w w2" by (rule touches_trans0)
  let ?g = "xp_gain (w_npc w2 n)"
  define w4 where "w4 = upd_pl k (gain_xp ?g) (npc_die n w2)"
  define w5 where "w5 = process_quest_kill k (m_npc_type (w_npc w2 n)) w4"
  have "touches k {} (npc_die n w2) w4" unfolding w4_def by (rule touches_upd_pl) simp
  then have "touches k {n} w2 w5"
    using touches_trans [OF touches_trans [OF touches_npc_die] touches_quest] by (simp add: w5_def)
  with a have b: "touches k {n} w w5" using touches_trans by fastforce
  have "touches k {n} w2 (upd_npc n (\<lambda>c. c\<lparr>m_target_id := tid, m_move_state := NPC_STATE_CHASE\<rparr>) w2)" for tid
    by (rule touches_upd_npc) simp
  with a have c: "touches k {n} w (upd_npc n (\<lambda>c. c\<lparr>m_target_id := tid, m_move_state := NPC_STATE_CHASE\<rparr>) w2)" for tid
    using touches_trans by fastforce
  show ?thesis
    unfolding strike_def Let_def w1_def [symmetric] r_def [symmetric] w2_def [symmetric]
      w4_def [symmetric] w5_def [symmetric]
    using touches_trans0 [OF touches_trans0 [OF b calm_broadcasts(4)] calm_broadcasts(5)]
      touches_trans0 [OF touches_trans0 [OF c calm_broadcasts(3)] calm_wake_up] by simp
qed


text \<open>What \<open>touches\<close> says of an NPC outside \<open>T\<close>, and of the session's fixed fields.\<close>

lemma touchesD:
  assumes "touches k T w w'"
  shows "n \<notin> T \<Longrightarrow> npc_body (w_npc w' n) = npc_body (w_npc w n)"
    "j \<noteq> k \<Longrightarrow> body (w_pl w' j) = body (w_pl w j)" "fixed (w_pl w' k) = fixed (w_pl w k)"
    "w_live w' n \<Longrightarrow> w_live w n" "w_clock w' = w_clock w"
    "obj_id w n \<ge> NPC_ID_START \<Longrightarrow> w_live w' n = w_live w n"
  using assms by (auto simp: touches_def)

lemma touches_target:
  assumes t: "touches k T w w'" and n: "n \<notin> T" and p: "npc_target w' n"
  shows "npc_target w n"
  using p touchesD(4) [OF t, of n] npc_body_eqD(4,13) [OF touchesD(1) [OF t n]]
  by (auto simp: npc_target_def)

lemma touches_clock: "clock_now w = (t, w') \<Longrightarrow> touches k {} w w'"
  by (rule touches_same) (auto simp: clock_now_def)

text \<open>
  A loop over targets: when each round strikes at most the id it is at, and only if \<open>Q\<close>, a
  condition on the session's fixed fields and the NPC, holds, then only NPCs of the list that
  fulfil \<open>Q\<close> at the start are changed.
\<close>

definition blow_loop :: "int \<Rightarrow> (session \<Rightarrow> cnpc \<Rightarrow> bool) \<Rightarrow> (int \<Rightarrow> world \<Rightarrow> world) \<Rightarrow> bool" where
  "blow_loop k Q f \<longleftrightarrow> (\<forall>i w. touches k {i} w (f i w)
     \<and> (\<not> (npc_target w i \<and> Q (w_pl w k) (w_npc w i)) \<longrightarrow> touches k {} w (f i w)))
   \<and> (\<forall>s s' c c'. fixed s = fixed s' \<longrightarrow> npc_body c = npc_body c' \<longrightarrow> Q s c = Q s' c')"

lemma touches_mono: "touches k T w w' \<Longrightarrow> T \<subseteq> T' \<Longrightarrow> touches k T' w w'"
  by (auto simp: touches_def)

lemma blow_loop_touches:
  assumes f: "blow_loop k Q f"
  shows "touches k {i \<in> set xs. npc_target w i \<and> Q (w_pl w k) (w_npc w i)} w (fold f xs w)"
proof (induction xs rule: rev_induct)
  case (snoc i xs)
  let ?T = "{j \<in> set xs. npc_target w j \<and> Q (w_pl w k) (w_npc w j)}"
  let ?T' = "{j \<in> set (xs @ [i]). npc_target w j \<and> Q (w_pl w k) (w_npc w j)}"
  let ?v = "fold f xs w"
  have one: "touches k {i} ?v (f i ?v)"
    "\<not> (npc_target ?v i \<and> Q (w_pl ?v k) (w_npc ?v i)) \<Longrightarrow> touches k {} ?v (f i ?v)"
    using f unfolding blow_loop_def by blast+
  show ?case
  proof (cases "i \<in> ?T'")
    case True
    then have "?T \<union> {i} \<subseteq> ?T'" by auto
    then show ?thesis using touches_mono [OF touches_trans [OF snoc.IH one(1)]] by simp
  next
    case False
    then have n: "i \<notin> ?T" by auto
    have "Q (w_pl ?v k) (w_npc ?v i) = Q (w_pl w k) (w_npc w i)"
      using f touchesD(3) [OF snoc.IH] touchesD(1) [OF snoc.IH n] unfolding blow_loop_def by blast
    then have "\<not> (npc_target ?v i \<and> Q (w_pl ?v k) (w_npc ?v i))"
      using False touches_target [OF snoc.IH n] by auto
    then have "touches k (?T \<union> {}) w (f i ?v)" by (rule touches_trans [OF snoc.IH one(2)])
    then show ?thesis using touches_mono [of k ?T w _ ?T'] by auto
  qed
qed simp

definition facing_arc :: "session \<Rightarrow> cnpc \<Rightarrow> bool" where
  "facing_arc s c \<longleftrightarrow> in_arc (m_dir s) (m_x c - m_x s) (m_y c - m_y s)"

definition within_one :: "session \<Rightarrow> cnpc \<Rightarrow> bool" where
  "within_one s c \<longleftrightarrow> \<bar>m_x c - m_x s\<bar> \<le> 1 \<and> \<bar>m_y c - m_y s\<bar> \<le> 1"

lemma aim_fixed:
  assumes "fixed s = fixed s'" "npc_body c = npc_body c'"
  shows "facing_arc s c = facing_arc s' c'" "within_one s c = within_one s' c'"
  using fixedD(1-3) [OF assms(1)] npc_body_eqD(2,3) [OF assms(2)]
  by (simp_all add: facing_arc_def within_one_def)

lemma attack_loop: "blow_loop k facing_arc (attack_one k)"
proof -
  have "touches k {i} w (attack_one k i w)" for i w
    using touches_trans [OF touches_clock touches_strike, of w _ _ k i]
    by (auto simp: attack_one_def Let_def intro: touches_mono split: prod.split)
  moreover have "touches k {} w (attack_one k i w)" if "\<not> (npc_target w i \<and> facing_arc (w_pl w k) (w_npc w i))" for i w
    using that by (auto simp: attack_one_def Let_def facing_arc_def)
  ultimately show ?thesis
    unfolding blow_loop_def using aim_fixed(1) by blast
qed

lemma skill_loop: "blow_loop k within_one (skill_one k)"
proof -
  have "touches k {i} w (skill_one k i w)" for i w
    using touches_trans [OF touches_clock touches_strike, of w _ _ k i]
    by (auto simp: skill_one_def Let_def intro: touches_mono split: prod.split)
  moreover have "touches k {} w (skill_one k i w)" if "\<not> (npc_target w i \<and> within_one (w_pl w k) (w_npc w i))" for i w
    using that by (auto simp: skill_one_def Let_def within_one_def)
  ultimately show ?thesis
    unfolding blow_loop_def using aim_fixed(2) by blast
qed


section \<open>What one blow does\<close>

text \<open>The rewards of a kill on the session alone.\<close>

definition quest_after :: "npc_type \<Rightarrow> session \<Rightarrow> session" where
  "quest_after t s =
    (let qid = quest_of_npc t; q = m_quests s ! nat qid; n = s32 (kill_count q + 1) in
     if qid < 0 \<or> q_state q \<noteq> Q_ACTIVE then s
     else if n \<ge> quest_target qid
     then add_item (item_code (quest_reward_item qid) - 1) (gain_xp (quest_reward_xp qid) (set_kills qid 0 s))
     else set_kills qid n s)"

lemma body_commutes:
  "body (gain_xp x s) = gain_xp x (body s)" "body (add_item i s) = add_item i (body s)"
  "body (set_kills q n s) = set_kills q n (body s)" "body (body s) = body s"
  by (simp_all add: body_def gain_xp_def add_item_def set_kills_def split: prod.split)

lemma body_quest_after: "body (quest_after t s) = quest_after t (body s)"
proof -
  have "m_quests (body s) = m_quests s" by (simp add: body_def)
  then show ?thesis by (simp add: quest_after_def Let_def body_commutes)
qed

lemma set_kills_twice: "set_kills q a (set_kills q b s) = set_kills q a s"
  by (cases "nat q < length (m_quests s)") (simp_all add: set_kills_def list_update_beyond)

lemma quest_kill_body:
  assumes "length (m_quests (w_pl w k)) = QUEST_COUNT"
  shows "body (w_pl (process_quest_kill k t w) k) = body (quest_after t (w_pl w k))"
proof -
  define qid where "qid = quest_of_npc t"
  define n where "n = s32 (kill_count (m_quests (w_pl w k) ! nat qid) + 1)"
  define w1 where "w1 = upd_pl k (set_kills qid n) w"
  define i where "i = item_code (quest_reward_item qid) - 1"
  define w2 where "w2 = upd_pl k (\<lambda>s. add_item i (gain_xp (quest_reward_xp qid) (set_kills qid 0 s))) w1"
  define w3 where "w3 = send_item_add k (quest_reward_item qid) (m_inventory (w_pl w2 k) ! nat i) w2"
  define w5 where "w5 = send_own_stat k (sys_chat k (msg_quest qid (quest_reward_xp qid) (m_level (w_pl w3 k))) w3)"
  have "calm w2 w5" unfolding w5_def w3_def
    by (rule calm_trans [OF calm_trans [OF calm_send_packets(8) calm_broadcasts(4)] calm_broadcasts(5)])
  then have "body (w_pl w5 k) = body (w_pl w2 k)" by (rule calmD)
  then have a: "body (w_pl w5 k) = body (add_item i (gain_xp (quest_reward_xp qid) (set_kills qid 0 (w_pl w k))))"
    by (simp add: w2_def w1_def upd_pl_def set_kills_twice)
  have b: "body (w_pl (send_quest_update k qid v) k) = body (w_pl v k)" for v
    using calmD(9) [OF calm_send_packets(9)] .
  have c: "w_pl w1 k = set_kills qid n (w_pl w k)" by (simp add: w1_def upd_pl_def)
  show ?thesis
    unfolding process_quest_kill_def quest_after_def Let_def qid_def [symmetric] n_def [symmetric]
      w1_def [symmetric] i_def [symmetric] w2_def [symmetric] w3_def [symmetric] w5_def [symmetric]
    using a b c by simp
qed

lemma calm_sectors_gone:
  assumes "winv {} w" "is_npc n" "w_live w n" "m_hp (w_npc w n) \<le> 0"
  shows "n \<notin> set (w_sectors w i)"
proof -
  have "positions {} w n = None" using assms(2,4) by (simp add: positions_def pc_npc)
  then have "n \<notin> set (only (w_live w) (w_sectors w) i)"
    using winvD(7) [OF assms(1)] by (simp add: sectors_track_def)
  then show ?thesis using assms(3) by (simp add: only_def)
qed

lemma wake_up_active: "m_active_npc (w_npc (wake_up n w) n)"
  by (simp add: wake_up_def Let_def clock_now_def upd_npc_def push_timer_def)

lemma closes_broadcasts:
  "closes w (broadcast_damage x y a t d hp w)" "closes w (broadcast_npc_state n w)"
  "closes w (sys_chat k msg w)" "closes w (send_own_stat k w)"
  unfolding broadcast_damage_def broadcast_npc_state_def sys_chat_def send_own_stat_def Let_def
  by (auto intro: closes_for_players)


lemma quest_keeps:
  "w_npc (process_quest_kill k t w) = w_npc w \<and> w_timers (process_quest_kill k t w) = w_timers w
    \<and> w_ticks (process_quest_kill k t w) = w_ticks w"
  unfolding process_quest_kill_def Let_def
  using closesD(2-4) [OF closes_sends(10)] closesD(2-4) [OF closes_broadcasts(4)]
    closesD(2-4) [OF closes_broadcasts(3)] closesD(2-4) [OF closes_sends(9)]
  by (simp add: upd_pl_def)

lemma spawn_keeps:
  "w_npc (spawn_item x y it w) = w_npc w \<and> w_timers (spawn_item x y it w) = w_timers w
    \<and> w_ticks (spawn_item x y it w) = w_ticks w"
proof -
  have "closes v (for_players ids (\<lambda>i. send_item_appear i iid x y it) v)" for ids iid v
    by (rule closes_for_players) simp
  note c = closesD(2-4) [OF this]
  show ?thesis unfolding spawn_item_def Let_def by (simp add: c)
qed

lemma npc_die_exact:
  "w_npc (npc_die n w) n = (w_npc w n)\<lparr>m_active_npc := False, m_target_id := -1\<rparr>"
  "w_timers (npc_die n w) = pq_push ev_wakeup_time
     \<lparr> ev_obj_id = n, ev_wakeup_time = w_clock w (w_ticks w) + ms (respawn_ms (m_npc_type (w_npc w n))),
       ev_event_id = EVENT_NPC_RESPAWN \<rparr> (w_timers w)"
  "body (w_pl (npc_die n w) j) = body (w_pl w j)"
proof -
  let ?x = "m_x (w_npc w n)" and ?y = "m_y (w_npc w n)"
  define w1 where "w1 = for_players (nearby w ?x ?y) (\<lambda>i. send_remove_object i n) w"
  define w2 where "w2 = w1\<lparr>w_sectors := remove_object_from_sector n ?x ?y (w_sectors w1)\<rparr>"
  define w3 where "w3 = upd_npc n (\<lambda>c. c\<lparr>m_active_npc := False, m_target_id := -1\<rparr>) w2"
  obtain r w4 where rn: "rand_next w3 = (r, w4)" by (cases "rand_next w3")
  define w5 where "w5 = (case drop_of (m_npc_type (w_npc w4 n)) (cmod r 100) of
    None \<Rightarrow> w4 | Some it \<Rightarrow> spawn_item ?x ?y it w4)"
  have c1: "closes w w1" unfolding w1_def by (rule closes_for_players) simp
  have w4: "w_npc w4 = w_npc w3" "w_timers w4 = w_timers w3" "w_ticks w4 = w_ticks w3" "w_clock w4 = w_clock w3"
    using rn by (auto simp: rand_next_def)
  have w5: "w_npc w5 = w_npc w4" "w_timers w5 = w_timers w4" "w_ticks w5 = w_ticks w4"
    by (simp_all add: w5_def spawn_keeps split: option.split)
  have "w_clock (spawn_item x y it v) = w_clock v" for x y it v
    using calmD(5) [OF calm_for_players [of "\<lambda>i. send_item_appear i (w_next_item_id v) x y it"]]
    by (simp add: spawn_item_def Let_def)
  then have k5: "w_clock w5 = w_clock w" "w_clock w1 = w_clock w"
    using w4 calmD(5) [OF closesD(1) [OF c1]]
    by (simp_all add: w5_def w3_def w2_def upd_npc_def split: option.split)
  have d: "npc_die n w = push_timer n EVENT_NPC_RESPAWN
      (w_clock w5 (w_ticks w5) + ms (respawn_ms (m_npc_type (w_npc w5 n)))) (w5\<lparr>w_ticks := Suc (w_ticks w5)\<rparr>)"
    by (simp add: npc_die_def Let_def w1_def [symmetric] w2_def [symmetric] w3_def [symmetric]
         rn w5_def [symmetric] clock_now_def)
  have e: "w_npc w5 n = (w_npc w n)\<lparr>m_active_npc := False, m_target_id := -1\<rparr>"
    "w_timers w5 = w_timers w" "w_ticks w5 = w_ticks w"
    using w4 w5 closesD(2-4) [OF c1] by (simp_all add: w3_def w2_def upd_npc_def)
  show "w_npc (npc_die n w) n = (w_npc w n)\<lparr>m_active_npc := False, m_target_id := -1\<rparr>"
    by (simp add: d push_timer_def e)
  show "w_timers (npc_die n w) = pq_push ev_wakeup_time
     \<lparr> ev_obj_id = n, ev_wakeup_time = w_clock w (w_ticks w) + ms (respawn_ms (m_npc_type (w_npc w n))),
       ev_event_id = EVENT_NPC_RESPAWN \<rparr> (w_timers w)"
    by (simp add: d push_timer_def e k5)
  show "body (w_pl (npc_die n w) j) = body (w_pl w j)"
    using touchesD(2) [OF touches_npc_die [of "j + 1" n w], of j] by simp
qed

text \<open>
  The two endings of a blow: the NPC keeps hit points and turns on the attacker, or it dies.
\<close>

lemma strike_split:
  fixes k n dmg :: int and prefix :: string and w :: world
  assumes k: "m_id (w_pl w k) = k"
  defines "r \<equiv> s16 (m_hp (w_npc w n) - dmg)"
  obtains w2 where "calm (upd_npc n (\<lambda>c. c\<lparr>m_hp := r\<rparr>) w) w2" "w_npc w2 = (w_npc w)(n := (w_npc w n)\<lparr>m_hp := r\<rparr>)"
    "w_timers w2 = w_timers w" "w_ticks w2 = w_ticks w"
    "r > 0 \<Longrightarrow> strike k prefix n dmg w = wake_up n (broadcast_npc_state n
       (upd_npc n (\<lambda>c. c\<lparr>m_target_id := k, m_move_state := NPC_STATE_CHASE\<rparr>) w2))"
    "r \<le> 0 \<Longrightarrow> \<exists>msg. strike k prefix n dmg w = send_own_stat k (sys_chat k msg
       (process_quest_kill k (m_npc_type (w_npc w n)) (upd_pl k (gain_xp (xp_gain (w_npc w n))) (npc_die n w2))))"
proof -
  define w1 where "w1 = upd_npc n (\<lambda>c. c\<lparr>m_hp := s16 (m_hp c - dmg)\<rparr>) w"
  define w2 where "w2 = broadcast_damage (m_x (w_pl w1 k)) (m_y (w_pl w1 k)) (m_id (w_pl w1 k)) n dmg r w1"
  have rem: "m_hp (w_npc w1 n) = r" by (simp add: w1_def r_def upd_npc_def)
  have e1: "w1 = upd_npc n (\<lambda>c. c\<lparr>m_hp := r\<rparr>) w" by (simp add: w1_def r_def upd_npc_def)
  have c: "closes w1 w2" unfolding w2_def by (rule closes_broadcasts)
  have n2: "w_npc w2 n = (w_npc w n)\<lparr>m_hp := r\<rparr>"
    using closesD(2) [OF c] by (simp add: e1 upd_npc_def)
  have id: "m_id (w_pl w2 k) = k" using calm_pl(1) [OF closesD(1) [OF c], of k] k by (simp add: e1 upd_npc_def)
  have g: "m_npc_type (w_npc w2 n) = m_npc_type (w_npc w n)" "xp_gain (w_npc w2 n) = xp_gain (w_npc w n)"
    by (simp_all add: n2 xp_gain_def)
  show thesis
  proof (rule that [of w2])
    show "calm (upd_npc n (\<lambda>c. c\<lparr>m_hp := r\<rparr>) w) w2" using closesD(1) [OF c] by (simp add: e1)
    show "w_npc w2 = (w_npc w)(n := (w_npc w n)\<lparr>m_hp := r\<rparr>)" "w_timers w2 = w_timers w" "w_ticks w2 = w_ticks w"
      using closesD(2-4) [OF c] by (simp_all add: e1 upd_npc_def)
    show "strike k prefix n dmg w = wake_up n (broadcast_npc_state n
       (upd_npc n (\<lambda>c. c\<lparr>m_target_id := k, m_move_state := NPC_STATE_CHASE\<rparr>) w2))" if "r > 0"
      using that unfolding strike_def Let_def w1_def [symmetric] rem w2_def [symmetric] id by simp
    show "\<exists>msg. strike k prefix n dmg w = send_own_stat k (sys_chat k msg
       (process_quest_kill k (m_npc_type (w_npc w n)) (upd_pl k (gain_xp (xp_gain (w_npc w n))) (npc_die n w2))))"
      if "r \<le> 0"
      using that unfolding strike_def Let_def w1_def [symmetric] rem w2_def [symmetric] g by auto
  qed
qed


lemma strike_hp:
  assumes "m_id (w_pl w k) = k"
  shows "m_hp (w_npc (strike k prefix n dmg w) n) = s16 (m_hp (w_npc w n) - dmg)"
proof -
  let ?r = "s16 (m_hp (w_npc w n) - dmg)"
  obtain w2 where w2: "w_npc w2 = (w_npc w)(n := (w_npc w n)\<lparr>m_hp := ?r\<rparr>)"
    "?r > 0 \<Longrightarrow> strike k prefix n dmg w = wake_up n (broadcast_npc_state n
       (upd_npc n (\<lambda>c. c\<lparr>m_target_id := k, m_move_state := NPC_STATE_CHASE\<rparr>) w2))"
    "?r \<le> 0 \<Longrightarrow> \<exists>msg. strike k prefix n dmg w = send_own_stat k (sys_chat k msg
       (process_quest_kill k (m_npc_type (w_npc w n)) (upd_pl k (gain_xp (xp_gain (w_npc w n))) (npc_die n w2))))"
    using strike_split [OF assms, of n dmg prefix] by metis
  show ?thesis
  proof (cases "?r > 0")
    case True
    then show ?thesis
      using calm_npc(4) [OF calm_wake_up] closesD(2) [OF closes_broadcasts(2)] w2(1)
      by (simp add: w2(2) [OF True] upd_npc_def)
  next
    case False
    then obtain msg where "strike k prefix n dmg w = send_own_stat k (sys_chat k msg
       (process_quest_kill k (m_npc_type (w_npc w n)) (upd_pl k (gain_xp (xp_gain (w_npc w n))) (npc_die n w2))))"
      using w2(3) by auto
    then show ?thesis
      using closesD(2) [OF closes_broadcasts(3)] closesD(2) [OF closes_broadcasts(4)] w2(1)
      by (simp add: quest_keeps upd_pl_def npc_die_exact(1))
  qed
qed

section \<open>A world to evaluate in\<close>

text \<open>
  A player in play at (1000, 100), looking down, with an NPC of \<open>hp\<close> hit points one tile below
  it and in its view; the map ends at the edge of the world.
\<close>

definition arena :: "int \<Rightarrow> world" where
  "arena hp = (init_world (\<lambda>x y. \<not> tile x y) (\<lambda>_. 1000000) (\<lambda>_. 0) (\<lambda>_. True))\<lparr>
     w_live := (\<lambda>k. k = 1 \<or> k = 10000), w_player_index := 2,
     w_pl := (\<lambda>k. if k = 1 then (new_session 5 1 0)\<lparr>m_state := CS_PLAYING, m_visible_objects := [10000]\<rparr>
                  else no_session k),
     w_npc := (\<lambda>k. (new_npc k 0)\<lparr>m_x := 1000, m_y := 101, m_hp := hp, m_max_hp := 50,
                  m_npc_type := NPC_AGRO_TYPE, m_origin_x := 1000, m_origin_y := 101\<rparr>),
     w_sectors := add_object_to_sector 10000 1000 101 (add_object_to_sector 1 1000 100 empty_sectors)\<rparr>"

lemma arena_fields:
  "w_live (arena hp) k = (k = 1 \<or> k = 10000)" "w_pl (arena hp) 1 = (new_session 5 1 0)\<lparr>m_state := CS_PLAYING, m_visible_objects := [10000]\<rparr>"
  "w_npc (arena hp) n = (new_npc n 0)\<lparr>m_x := 1000, m_y := 101, m_hp := hp, m_max_hp := 50,
     m_npc_type := NPC_AGRO_TYPE, m_origin_x := 1000, m_origin_y := 101\<rparr>"
  by (simp_all add: arena_def)

lemma arena_ok:
  assumes "hp > 0"
  shows "winv {} (arena hp)"
proof -
  let ?g = "add_object_to_sector 10000 1000 101 (add_object_to_sector 1 1000 100 empty_sectors)"
  have "positions {} (arena hp) = [1 \<mapsto> (1000, 100), 10000 \<mapsto> (1000, 101)]"
    by (rule ext) (use assms in \<open>auto simp: positions_def arena_fields is_pc_def new_session_def new_npc_def\<close>)
  moreover have "only (w_live (arena hp)) (w_sectors (arena hp)) = ?g"
    by (simp add: arena_def only_add) (simp add: only_def empty_sectors_def)
  moreover have "sectors_track ?g [1 \<mapsto> (1000, 100), 10000 \<mapsto> (1000, 101)]"
    using grid.tracks_add [OF grid.tracks_add [OF sectors_track_empty, of 1000 100 1], of 1000 101 10000]
    by (simp add: tile_def)
  ultimately have "grid_ok {} (arena hp)"
    by (auto simp: grid_ok_def ids_ok_def arena_def no_session_def new_session_def
        new_npc_def init_world_def is_pc_def is_npc_def)
  moreover have "grid_ids (arena hp)"
    by (auto simp: grid_ids_def arena_def init_world_def empty_sectors_def is_pc_def dest!: in_sector(1))
  ultimately show ?thesis
    using assms by (auto simp: winv2_def respawns_ok_def respawns_def arena_def init_world_def env_ok_def player_ok_def npc_ok_def
        no_session_def new_session_def new_npc_def tile_def is_pc_def)
qed

lemma arena_target:
  assumes "hp > 0"
  shows "npc_target (arena hp) 10000" "is_pc 1" "m_visible_objects (w_pl (arena hp) 1) = [10000]"
    "facing_arc (w_pl (arena hp) 1) (w_npc (arena hp) 10000)" "within_one (w_pl (arena hp) 1) (w_npc (arena hp) 10000)"
  using assms by (auto simp: npc_target_def arena_fields is_npc_def is_pc_def new_npc_def new_session_def
      facing_arc_def within_one_def in_arc_def)

lemma arena20:
  "winv {} (arena 20)" "npc_target (arena 20) 10000" "is_pc 1" "m_visible_objects (w_pl (arena 20) 1) = [10000]"
  "facing_arc (w_pl (arena 20) 1) (w_npc (arena 20) 10000)" "within_one (w_pl (arena 20) 1) (w_npc (arena 20) 10000)"
  using arena_ok [of 20] arena_target [of 20] by simp_all

section \<open>Properties\<close>

text \<open>
  C12: one blow. The NPC's hit points drop by the damage. If some are left it chases the attacker,
  is awake, and the attacker's character is unchanged. Otherwise it is asleep without a target, in
  no sector, its respawn is due 30 seconds (120 for a boss) after now and nothing else was added
  to the timers, and the attacker got exactly the kill's experience and quest progress.
\<close>

theorem strike_outcome:
  fixes k n dmg :: int and prefix :: string and w :: world
  assumes "winv {} w" "is_pc k" "npc_target w n"
  defines "w' \<equiv> strike k prefix n dmg w" and "r \<equiv> s16 (m_hp (w_npc w n) - dmg)" and "c \<equiv> w_npc w n"
  shows "m_hp (w_npc w' n) = r \<and>
    (if r > 0
     then m_target_id (w_npc w' n) = k \<and> m_move_state (w_npc w' n) = NPC_STATE_CHASE
       \<and> m_active_npc (w_npc w' n) \<and> body (w_pl w' k) = body (w_pl w k)
     else \<not> m_active_npc (w_npc w' n) \<and> m_target_id (w_npc w' n) = -1 \<and> (\<forall>i. n \<notin> set (w_sectors w' i))
       \<and> w_timers w' = pq_push ev_wakeup_time
           \<lparr> ev_obj_id = n, ev_wakeup_time = w_clock w (w_ticks w) + ms (if m_npc_type c = NPC_BOSS_TYPE then 120000 else 30000),
             ev_event_id = EVENT_NPC_RESPAWN \<rparr> (w_timers w)
       \<and> body (w_pl w' k) = body (quest_after (m_npc_type c) (gain_xp (xp_gain c) (w_pl w k))))"
proof -
  have id: "m_id (w_pl w k) = k" using winvD(8) [OF assms(1,2)] .
  obtain w2 where w2: "calm (upd_npc n (\<lambda>c. c\<lparr>m_hp := r\<rparr>) w) w2" "w_npc w2 = (w_npc w)(n := c\<lparr>m_hp := r\<rparr>)"
    "w_timers w2 = w_timers w" "w_ticks w2 = w_ticks w"
    "r > 0 \<Longrightarrow> w' = wake_up n (broadcast_npc_state n
       (upd_npc n (\<lambda>c. c\<lparr>m_target_id := k, m_move_state := NPC_STATE_CHASE\<rparr>) w2))"
    "r \<le> 0 \<Longrightarrow> \<exists>msg. w' = send_own_stat k (sys_chat k msg
       (process_quest_kill k (m_npc_type c) (upd_pl k (gain_xp (xp_gain c)) (npc_die n w2))))"
    using strike_split [OF id, of n dmg prefix] unfolding w'_def r_def c_def by metis
  have b2: "body (w_pl w2 j) = body (w_pl w j)" and k2: "w_clock w2 = w_clock w" for j
    using calmD(5,9) [OF w2(1)] by (simp_all add: upd_npc_def)
  have hp: "m_hp (w_npc w' n) = r" unfolding w'_def r_def by (rule strike_hp [OF id])
  show ?thesis
  proof (cases "r > 0")
    case True
    let ?v = "broadcast_npc_state n (upd_npc n (\<lambda>c. c\<lparr>m_target_id := k, m_move_state := NPC_STATE_CHASE\<rparr>) w2)"
    have "w_npc ?v n = c\<lparr>m_hp := r, m_target_id := k, m_move_state := NPC_STATE_CHASE\<rparr>"
      using closesD(2) [OF closes_broadcasts(2)] by (simp add: upd_npc_def w2(2))
    moreover have "body (w_pl ?v k) = body (w_pl w k)"
      using calmD(9) [OF calm_broadcasts(3)] b2 by (simp add: upd_npc_def)
    ultimately show ?thesis
      using True hp wake_up_active [of n ?v] calm_npc(8,9) [OF calm_wake_up [of ?v n], of n]
        calmD(9) [OF calm_wake_up [of ?v n]]
      by (simp add: w2(5) [OF True])
  next
    case False
    let ?u = "npc_die n w2"
    let ?v = "process_quest_kill k (m_npc_type c) (upd_pl k (gain_xp (xp_gain c)) ?u)"
    obtain msg where w': "w' = send_own_stat k (sys_chat k msg ?v)" using w2(6) False by auto
    have cl: "closes ?v w'" unfolding w' by (rule closes_trans [OF closes_broadcasts(3) closes_broadcasts(4)])
    have wi: "winv {} w'" unfolding w'_def by (rule winv_strike) (use assms in simp_all)
    have live: "is_npc n" "w_live w n" using assms(3) by (simp_all add: npc_target_def)
    have "obj_id w n \<ge> NPC_ID_START"
      using live winvD(9) [OF assms(1) live] by (simp add: obj_id_def is_pc_def is_npc_def)
    then have "w_live w' n"
      using live touchesD(6) [OF touches_strike [of k n w prefix dmg]] by (simp add: w'_def)
    then have gone: "n \<notin> set (w_sectors w' i)" for i
      using calm_sectors_gone [OF wi live(1)] False hp by simp
    have npc: "w_npc w' n = c\<lparr>m_hp := r, m_active_npc := False, m_target_id := -1\<rparr>"
      using closesD(2) [OF cl] by (simp add: quest_keeps upd_pl_def npc_die_exact(1) w2(2))
    have tm: "w_timers w' = w_timers ?u" using closesD(3) [OF cl] by (simp add: quest_keeps upd_pl_def)
    have len: "length (m_quests (gain_xp (xp_gain c) (w_pl ?u k))) = QUEST_COUNT"
      using body_eqD(11) [OF npc_die_exact(3), of n w2 k] body_eqD(11) [OF b2, of k] winvD(2) [OF assms(1,2)]
      by (simp add: gain_xp_def player_ok_def split: prod.split)
    have "body (w_pl w' k) = body (w_pl ?v k)" using calmD(9) [OF closesD(1) [OF cl]] .
    also have "\<dots> = body (quest_after (m_npc_type c) (gain_xp (xp_gain c) (w_pl ?u k)))"
      using quest_kill_body [of "upd_pl k (gain_xp (xp_gain c)) ?u" k "m_npc_type c"] len
      by (simp add: upd_pl_def)
    also have "\<dots> = body (quest_after (m_npc_type c) (gain_xp (xp_gain c) (w_pl w k)))"
      by (simp add: body_quest_after body_commutes npc_die_exact(3) b2)
    finally show ?thesis
      using False hp gone npc tm
      by (simp add: npc_die_exact(2) w2(2-4) k2 respawn_ms_def c_def)
  qed
qed

theorem strike_outcome_witness:
  "m_target_id (w_npc (strike 1 '''' 10000 10 (arena 20)) 10000) = 1
    \<and> 10000 \<notin> set (w_sectors (strike 1 '''' 10000 20 (arena 20)) 0)
    \<and> m_xp (w_pl (strike 1 '''' 10000 20 (arena 20)) 1) = 4"
proof -
  have x: "xp_gain (w_npc (arena 20) 10000) = 4" by (simp add: xp_gain_def arena_fields new_npc_def s32_def)
  have y: "m_xp (quest_after NPC_AGRO_TYPE (gain_xp 4 (w_pl (arena 20) 1))) = 4"
    unfolding arena_fields by code_simp
  note a = strike_outcome [OF arena20(1,3,2), where prefix = "[]" and dmg = 10]
  note b = strike_outcome [OF arena20(1,3,2), where prefix = "[]" and dmg = 20]
  have r: "s16 (m_hp (w_npc (arena 20) 10000) - 10) = 10" "s16 (m_hp (w_npc (arena 20) 10000) - 20) = 0"
    "m_npc_type (w_npc (arena 20) 10000) = NPC_AGRO_TYPE"
    by (simp_all add: arena_fields new_npc_def s16_def)
  have "m_target_id (w_npc (strike 1 '''' 10000 10 (arena 20)) 10000) = 1"
    using a unfolding r by simp
  moreover have "10000 \<notin> set (w_sectors (strike 1 [] 10000 20 (arena 20)) 0)"
    using b unfolding r if_not_P [OF less_irrefl] by (elim conjE) (drule spec, assumption)
  moreover have "body (w_pl (strike 1 [] 10000 20 (arena 20)) 1) = body (quest_after NPC_AGRO_TYPE (gain_xp 4 (w_pl (arena 20) 1)))"
    using b unfolding r x if_not_P [OF less_irrefl] by (elim conjE)
  note body_eqD(7) [OF this]
  ultimately show ?thesis using y by simp
qed

lemma blow_loop_hits:
  assumes f: "blow_loop k Q f" and d: "distinct xs" and i: "i \<in> set xs"
  obtains v where "touches k ({j \<in> set xs. npc_target w j \<and> Q (w_pl w k) (w_npc w j)} - {i}) w v"
    "npc_body (w_npc (fold f xs w) i) = npc_body (w_npc (f i v) i)"
proof -
  obtain us vs where xs: "xs = us @ i # vs" using split_list [OF i] by blast
  have n: "i \<notin> set us" "i \<notin> set vs" using d by (auto simp: xs)
  let ?T = "{j \<in> set xs. npc_target w j \<and> Q (w_pl w k) (w_npc w j)} - {i}"
  let ?v = "fold f us w"
  have "touches k ?T w ?v"
    by (rule touches_mono [OF blow_loop_touches [OF f]]) (use n in \<open>auto simp: xs\<close>)
  moreover have "npc_body (w_npc (fold f vs (f i ?v)) i) = npc_body (w_npc (f i ?v) i)"
    by (rule touchesD(1) [OF blow_loop_touches [OF f]]) (use n in simp)
  ultimately show thesis using that [of ?v] by (simp add: xs)
qed

text \<open>
  C14: the normal attack. Only living NPCs that the player sees and that stand on the three tiles in
  front of it are changed, nobody else's session is, and of the player's only hit points, level,
  experience, inventory and quests. Each of those NPCs is struck once, with the attack damage of a
  level the player has on the way, doubled while the attack boost lasts. This is the code's attack;
  the comment at the head of its case says all four directions, and the game's description says the
  one tile in front, at most once a second, with 15 points at every level.
\<close>

theorem attack_hits:
  assumes "winv {} w" "is_pc k" "distinct (m_visible_objects (w_pl w k))"
  defines "w' \<equiv> attack k w" and "s \<equiv> w_pl w k"
    and "T \<equiv> {n \<in> set (m_visible_objects (w_pl w k)). npc_target w n \<and> facing_arc (w_pl w k) (w_npc w n)}"
  shows "{n. npc_body (w_npc w' n) \<noteq> npc_body (w_npc w n)} \<subseteq> T \<and> {j. body (w_pl w' j) \<noteq> body (w_pl w j)} \<subseteq> {k}
    \<and> fixed (w_pl w' k) = fixed s
    \<and> (\<forall>n \<in> T. \<exists>lv i. m_hp (w_npc w' n) =
         s16 (m_hp (w_npc w n) - boosted (calc_atk_dmg lv) (w_clock w i) (m_atk_boost_until s)))"
proof -
  have t: "touches k T w w'"
    using blow_loop_touches [OF attack_loop, where w = w and k = k and xs = "m_visible_objects (w_pl w k)"]
    by (simp add: w'_def attack_def T_def)
  have "\<exists>lv i. m_hp (w_npc w' n) = s16 (m_hp (w_npc w n) - boosted (calc_atk_dmg lv) (w_clock w i) (m_atk_boost_until s))"
    if n: "n \<in> T" for n
  proof -
    have nv: "n \<in> set (m_visible_objects (w_pl w k))" using n by (simp add: T_def)
    obtain v where v: "touches k (T - {n}) w v" "npc_body (w_npc w' n) = npc_body (w_npc (attack_one k n v) n)"
      using blow_loop_hits [OF attack_loop assms(3) nv, of k w] unfolding w'_def attack_def T_def by blast
    have id: "m_id (w_pl v k) = k" using v(1) winvD(8) [OF assms(1,2)] by (simp add: touches_def)
    have nb: "npc_body (w_npc v n) = npc_body (w_npc w n)" by (rule touchesD(1) [OF v(1)]) simp
    have tg: "is_npc n" "w_live w n" "npc_target w n" using n by (auto simp: T_def npc_target_def)
    have "w_live v n"
      using touchesD(6) [OF v(1), of n] winvD(9) [OF assms(1) tg(1,2)] tg
      by (simp add: obj_id_def is_pc_def is_npc_def)
    then have "npc_target v n" using tg npc_body_eqD(4,13) [OF nb] by (simp add: npc_target_def)
    moreover have "facing_arc (w_pl v k) (w_npc v n)"
      using n aim_fixed(1) [OF touchesD(3) [OF v(1)] nb] by (simp add: T_def)
    ultimately have "attack_one k n v = strike k '''' n
        (boosted (calc_atk_dmg (m_level (w_pl v k))) (w_clock v (w_ticks v)) (m_atk_boost_until (w_pl v k)))
        (v\<lparr>w_ticks := Suc (w_ticks v)\<rparr>)"
      by (simp add: attack_one_def Let_def clock_now_def facing_arc_def)
    then show ?thesis
      using npc_body_eqD(4) [OF v(2)] npc_body_eqD(4) [OF nb] id fixedD(4) [OF touchesD(3) [OF v(1)]]
        touchesD(5) [OF v(1)]
      by (auto simp: strike_hp s_def)
  qed
  then show ?thesis using touchesD(1-3) [OF t] by (auto simp: s_def)
qed

theorem attack_hits_witness:
  "{n. npc_body (w_npc (attack 1 (arena 20)) n) \<noteq> npc_body (w_npc (arena 20) n)} \<subseteq> {10000}
    \<and> (\<exists>lv. m_hp (w_npc (attack 1 (arena 20)) 10000) = s16 (20 - calc_atk_dmg lv))"
proof -
  have "{n \<in> {10000}. npc_target (arena 20) n \<and> facing_arc (w_pl (arena 20) 1) (w_npc (arena 20) n)} = {10000}"
    using arena20 by auto
  moreover have "m_hp (w_npc (arena 20) 10000) = 20" "w_clock (arena 20) i = 1000000"
    "m_atk_boost_until (w_pl (arena 20) 1) = 0" for i
    by (simp_all add: arena_def init_world_def new_session_def)
  ultimately show ?thesis
    using attack_hits [OF arena20(1,3)] arena20(4) by (simp add: boosted_def)
qed

text \<open>
  the skill. Outside play or within three seconds of the last use nothing happens; otherwise the
  time of use is noted and only living NPCs that the player sees and that are at most one tile away
  in both axes are changed, and no other session.
\<close>

theorem skill_hits:
  "let s = w_pl w k; now = w_clock w (w_ticks w); w' = skill k w in
   if m_state s \<noteq> CS_PLAYING then w' = w
   else if to_ms (now - m_last_skill_time s) < 3000 then w' = w\<lparr>w_ticks := Suc (w_ticks w)\<rparr>
   else fixed (w_pl w' k) = fixed (s\<lparr>m_last_skill_time := now\<rparr>)
     \<and> {n. npc_body (w_npc w' n) \<noteq> npc_body (w_npc w n)}
         \<subseteq> {n \<in> set (m_visible_objects s). npc_target w n \<and> within_one s (w_npc w n)}
     \<and> {j. body (w_pl w' j) \<noteq> body (w_pl w j)} \<subseteq> {k}"
proof -
  define now where "now = w_clock w (w_ticks w)"
  define w2 where "w2 = upd_pl k (\<lambda>s. s\<lparr>m_last_skill_time := now\<rparr>) (w\<lparr>w_ticks := Suc (w_ticks w)\<rparr>)"
  have e: "skill k w =
    (if m_state (w_pl w k) \<noteq> CS_PLAYING then w
     else if to_ms (now - m_last_skill_time (w_pl w k)) < 3000 then w\<lparr>w_ticks := Suc (w_ticks w)\<rparr>
     else fold (skill_one k) (m_visible_objects (w_pl w2 k)) w2)"
    by (simp add: skill_def clock_now_def now_def [symmetric] w2_def Let_def)
  have f: "w_pl w2 = (w_pl w)(k := (w_pl w k)\<lparr>m_last_skill_time := now\<rparr>)" "w_npc w2 = w_npc w" "w_live w2 = w_live w"
    by (simp_all add: w2_def upd_pl_def)
  have q: "npc_target w2 n = npc_target w n" "within_one (w_pl w2 k) c = within_one (w_pl w k) c" for n c
    by (simp_all add: npc_target_def within_one_def f)
  note t = blow_loop_touches [OF skill_loop, where w = w2 and k = k and xs = "m_visible_objects (w_pl w2 k)",
      unfolded q, unfolded f(2)]
  show ?thesis
    unfolding Let_def e using touchesD(1-3) [OF t]
    by (auto simp: now_def [symmetric] f)
qed

text \<open>Where the projectile is after \<open>i\<close> tiles, and what stops it.\<close>

definition shot_at :: "session \<Rightarrow> int \<Rightarrow> int \<times> int" where
  "shot_at s i = (m_x s + fst (step_of (m_dir s)) * i, m_y s + snd (step_of (m_dir s)) * i)"

definition free_tile :: "world \<Rightarrow> int \<times> int \<Rightarrow> bool" where
  "free_tile w p \<longleftrightarrow> tile (fst p) (snd p) \<and> \<not> w_obstacle w (fst p) (snd p)"

definition npc_on :: "world \<Rightarrow> int \<times> int \<Rightarrow> int \<Rightarrow> bool" where
  "npc_on w p n \<longleftrightarrow> npc_target w n \<and> (m_x (w_npc w n), m_y (w_npc w n)) = p"

lemma hit_at_complete:
  assumes w: "winv {} w" and t: "tile x y" and n: "npc_on w (x, y) n"
  shows "hit_at w x y \<noteq> None"
proof -
  have p: "is_npc n" "w_live w n" "m_hp (w_npc w n) > 0" "m_x (w_npc w n) = x" "m_y (w_npc w n) = y"
    using n by (auto simp: npc_on_def npc_target_def)
  then have "positions {} w n = Some (x, y)" by (simp add: positions_def pc_npc)
  from grid.near_complete [OF winvD(7) [OF w] t this]
  have "n \<in> set (nearby w x y)" by (simp add: near_only nearby_def)
  then show ?thesis using n p by (auto simp: hit_at_def npc_on_def find_None_iff)
qed

lemma scan_line:
  assumes w: "winv {} w" and s: "tile (m_x s) (m_y s)" and a: "0 \<le> a" "a \<le> 6"
    and r: "ranged_scan w (m_x s) (m_y s) (fst (step_of (m_dir s))) (snd (step_of (m_dir s))) [a + 1..6] a = (h, d)"
  shows "a \<le> d \<and> d \<le> 6 \<and> (\<forall>i \<in> {a + 1..d}. free_tile w (shot_at s i)) \<and> (\<forall>i \<in> {a + 1..<d}. \<forall>n. \<not> npc_on w (shot_at s i) n)
    \<and> (if h = -1 then (a < d \<longrightarrow> (\<forall>n. \<not> npc_on w (shot_at s d) n)) \<and> (d = 6 \<or> \<not> free_tile w (shot_at s (d + 1)))
       else a < d \<and> npc_on w (shot_at s d) h)"
  using a r
proof (induction "nat (6 - a)" arbitrary: a)
  case 0
  then show ?case by simp
next
  case (Suc m)
  let ?dx = "fst (step_of (m_dir s))" and ?dy = "snd (step_of (m_dir s))"
  let ?tx = "m_x s + ?dx * (a + 1)" and ?ty = "m_y s + ?dy * (a + 1)"
  have a: "a < 6" "m = nat (6 - (a + 1))" using Suc.hyps(2) by auto
  have st: "\<bar>?dx\<bar> \<le> 1" "\<bar>?dy\<bar> \<le> 1" by (simp_all add: step_of_def split: direction.split)
  have "\<bar>?dx * (a + 1)\<bar> \<le> 6" "\<bar>?dy * (a + 1)\<bar> \<le> 6"
    using st a Suc.prems(1) by (auto simp: abs_mult intro: order_trans [OF mult_mono [of _ 1 _ 6]])
  then have b: "s16 ?tx = ?tx" "s16 ?ty = ?ty"
    using s by (auto simp: tile_def intro!: s16_id)
  have at: "shot_at s (a + 1) = (?tx, ?ty)" by (simp add: shot_at_def)
  have l: "[a + 1..6] = (a + 1) # [a + 1 + 1..6]" using a by (simp add: upto_rec1)
  have ivl: "{a + 1..e} = insert (a + 1) {a + 1 + 1..e}" if "a + 1 \<le> e" for e :: int using that by auto
  have ivl2: "{a + 1..<e} = insert (a + 1) {a + 1 + 1..<e}" if "a + 1 < e" for e :: int using that by auto
  show ?case
  proof (cases "free_tile w (?tx, ?ty)")
    case False
    then have "h = -1" "d = a" using Suc.prems(3) unfolding l
      by (auto simp: free_tile_def tile_def Let_def b split: if_splits)
    then show ?thesis using False Suc.prems(1,2) by (simp add: at)
  next
    case True
    then have t: "tile ?tx ?ty" by (simp add: free_tile_def)
    show ?thesis
    proof (cases "hit_at w ?tx ?ty")
      case (Some v)
      then have "h = v" "d = a + 1" using Suc.prems(3) True unfolding l
        by (auto simp: free_tile_def tile_def Let_def b split: if_splits)
      moreover have "npc_on w (?tx, ?ty) v" "v \<noteq> -1"
        using hit_at_target [OF Some] by (auto simp: npc_on_def npc_target_def is_npc_def)
      ultimately show ?thesis using True a by (auto simp: at)
    next
      case None
      then have no: "\<not> npc_on w (?tx, ?ty) n" for n using hit_at_complete [OF w t] by blast
      have "ranged_scan w (m_x s) (m_y s) ?dx ?dy [a + 1 + 1..6] (a + 1) = (h, d)"
        using Suc.prems(3) True None unfolding l
        by (auto simp: free_tile_def tile_def Let_def b split: if_splits)
      from Suc.hyps(1) [OF a(2) _ _ this] Suc.prems(1) a
      have IH: "a + 1 \<le> d \<and> d \<le> 6 \<and> (\<forall>i \<in> {a + 1 + 1..d}. free_tile w (shot_at s i))
        \<and> (\<forall>i \<in> {a + 1 + 1..<d}. \<forall>n. \<not> npc_on w (shot_at s i) n)
        \<and> (if h = -1 then (a + 1 < d \<longrightarrow> (\<forall>n. \<not> npc_on w (shot_at s d) n)) \<and> (d = 6 \<or> \<not> free_tile w (shot_at s (d + 1)))
           else a + 1 < d \<and> npc_on w (shot_at s d) h)" by simp
      have i1: "i = a + 1 \<or> i \<in> {a + 1 + 1..d}" if "i \<in> {a + 1..d}" for i using that by auto
      have i2: "i = a + 1 \<or> i \<in> {a + 1 + 1..<d}" if "i \<in> {a + 1..<d}" for i using that by auto
      have d1: "d = a + 1 \<or> a + 1 < d" using IH by auto
      have "\<forall>i \<in> {a + 1..d}. free_tile w (shot_at s i)" using i1 IH True unfolding at [symmetric] by blast
      moreover have "\<forall>i \<in> {a + 1..<d}. \<forall>n. \<not> npc_on w (shot_at s i) n"
        using i2 IH no unfolding at [symmetric] by blast
      moreover have "\<forall>n. \<not> npc_on w (shot_at s d) n" if "h = -1"
        using that d1 IH no unfolding at [symmetric] by auto
      ultimately show ?thesis using IH by auto
    qed
  qed
qed

text \<open>
  C13: the ranged attack of a player in play whose cooldown is over flies over free tiles in the
  direction faced, at most six, and ends at the first tile with a living NPC, or before the first
  tile that is an obstacle or outside the world. The NPC it hits, if any, loses the skill damage of
  the player's level (doubled under the attack boost); no other NPC and no other session changes.
  The damage is the code's, \<open>calc_skill_dmg(m_level)\<close>; the game's description (4.3 and table 6 of
  the document under \<open>docs\<close>) says 15, or 30 under the boost, at every level.
\<close>

theorem ranged_first_hit:
  assumes "winv {} w" "is_pc k" "m_state (w_pl w k) = CS_PLAYING"
    and "2000 \<le> to_ms (w_clock w (w_ticks w) - m_last_ranged_atk_time (w_pl w k))"
  defines "s \<equiv> w_pl w k" and "w' \<equiv> ranged_attack k w"
  shows "\<exists>h d. 0 \<le> d \<and> d \<le> 6 \<and> (\<forall>i \<in> {1..d}. free_tile w (shot_at s i))
    \<and> (\<forall>i \<in> {1..<d}. \<forall>n. \<not> npc_on w (shot_at s i) n)
    \<and> {n. npc_body (w_npc w' n) \<noteq> npc_body (w_npc w n)} \<subseteq> {h} \<and> {j. body (w_pl w' j) \<noteq> body (w_pl w j)} \<subseteq> {k}
    \<and> (if h = -1 then (0 < d \<longrightarrow> (\<forall>n. \<not> npc_on w (shot_at s d) n)) \<and> (d = 6 \<or> \<not> free_tile w (shot_at s (d + 1)))
       else 0 < d \<and> npc_on w (shot_at s d) h
         \<and> m_hp (w_npc w' h) = s16 (m_hp (w_npc w h)
              - boosted (calc_skill_dmg (m_level s)) (w_clock w (w_ticks w)) (m_atk_boost_until s)))"
proof -
  define now where "now = w_clock w (w_ticks w)"
  define w2 where "w2 = upd_pl k (\<lambda>s. s\<lparr>m_last_ranged_atk_time := now\<rparr>) (w\<lparr>w_ticks := Suc (w_ticks w)\<rparr>)"
  define me where "me = w_pl w2 k"
  obtain ddx ddy where st: "step_of (m_dir me) = (ddx, ddy)" by (cases "step_of (m_dir me)")
  obtain h d where sc: "ranged_scan w2 (m_x me) (m_y me) ddx ddy [1, 2, 3, 4, 5, 6] 0 = (h, d)"
    by (cases "ranged_scan w2 (m_x me) (m_y me) ddx ddy [1, 2, 3, 4, 5, 6] 0")
  define w3 where "w3 = for_players (nearby w2 (m_x me) (m_y me))
    (\<lambda>i. do_send i (S2C_Projectile (m_id me) (m_x me) (m_y me) (m_dir me) d h)) w2"
  let ?dmg = "boosted (calc_skill_dmg (m_level (w_pl w3 k))) now (m_atk_boost_until (w_pl w3 k))"
  have ck: "clock_now w = (now, w\<lparr>w_ticks := Suc (w_ticks w)\<rparr>)" by (simp add: clock_now_def now_def)
  have "w' = (if m_state (w_pl w k) \<noteq> CS_PLAYING then w
     else if to_ms (now - m_last_ranged_atk_time (w_pl (w\<lparr>w_ticks := Suc (w_ticks w)\<rparr>) k)) < RANGED_ATK_COOL_TIME
     then w\<lparr>w_ticks := Suc (w_ticks w)\<rparr>
     else if h \<noteq> -1 \<and> w_live w3 h \<and> m_hp (w_npc w3 h) > 0 then strike k ''[Ranged] '' h ?dmg w3 else w3)"
    unfolding w'_def ranged_attack_def ck Let_def prod.case w2_def [symmetric] me_def [symmetric] st sc
      w3_def [symmetric] by (rule refl)
  then have e: "w' = (if h \<noteq> -1 \<and> w_live w3 h \<and> m_hp (w_npc w3 h) > 0
     then strike k ''[Ranged] '' h ?dmg w3 else w3)"
    using assms(3,4) by (simp add: now_def)
  have f: "w_pl w2 = (w_pl w)(k := s\<lparr>m_last_ranged_atk_time := now\<rparr>)" "w_npc w2 = w_npc w" "w_live w2 = w_live w"
    "w_obstacle w2 = w_obstacle w"
    by (simp_all add: w2_def upd_pl_def s_def)
  have q: "free_tile w2 p = free_tile w p" "npc_on w2 p n = npc_on w p n" "shot_at me i = shot_at s i" for p n i
    by (simp_all add: free_tile_def npc_on_def npc_target_def shot_at_def me_def f)
  have w2: "winv {} w2" using assms(1) by (simp add: w2_def)
  have six: "[0 + 1..6] = [1, 2, 3, 4, 5, 6::int]" by (simp add: upto.simps)
  have "tile (m_x me) (m_y me)" using winvD(2) [OF w2 assms(2)] by (simp add: me_def player_ok_def)
  from scan_line [OF w2 this, of 0 h d] sc st
  have line: "0 \<le> d \<and> d \<le> 6 \<and> (\<forall>i \<in> {1..d}. free_tile w (shot_at s i)) \<and> (\<forall>i \<in> {1..<d}. \<forall>n. \<not> npc_on w (shot_at s i) n)
    \<and> (if h = -1 then (0 < d \<longrightarrow> (\<forall>n. \<not> npc_on w (shot_at s d) n)) \<and> (d = 6 \<or> \<not> free_tile w (shot_at s (d + 1)))
       else 0 < d \<and> npc_on w (shot_at s d) h)"
    unfolding q six by simp
  have c: "calm w2 w3" unfolding w3_def by (rule calm_for_players) simp
  have t3: "touches k {} w2 w3" by (rule touches_calm [OF c])
  then have t: "touches k {h} w2 w'"
    using touches_trans [OF t3 touches_strike] touches_mono [OF t3] unfolding e by simp
  have b: "body (w_pl w2 j) = body (w_pl w j)" if "j \<noteq> k" for j using that by (simp add: f)
  have hp: "m_hp (w_npc w' h) = s16 (m_hp (w_npc w h) - boosted (calc_skill_dmg (m_level s)) now (m_atk_boost_until s))"
    if "h \<noteq> -1"
  proof -
    have tg: "is_npc h" "w_live w2 h" "m_hp (w_npc w2 h) > 0"
      using ranged_scan_hit [OF sc that] by (auto simp: npc_target_def)
    have "w_live w3 h" by (rule calm_live_npc [OF w2 c tg(1,2)])
    moreover have n3: "m_hp (w_npc w3 h) = m_hp (w_npc w h)" using calm_npc(4) [OF c] f(2) by simp
    ultimately have "w' = strike k ''[Ranged] '' h ?dmg w3" using that tg(3) f(2) by (simp add: e)
    moreover have "m_id (w_pl w3 k) = k" using winvD(8) [OF winv_calm [OF w2 c] assms(2)] .
    moreover have "m_level (w_pl w3 k) = m_level s" "m_atk_boost_until (w_pl w3 k) = m_atk_boost_until s"
      using calm_pl(6,15) [OF c, of k] by (simp_all add: f)
    ultimately show ?thesis by (simp add: strike_hp n3)
  qed
  have "{n. npc_body (w_npc w' n) \<noteq> npc_body (w_npc w n)} \<subseteq> {h}" "{j. body (w_pl w' j) \<noteq> body (w_pl w j)} \<subseteq> {k}"
    using touchesD(1,2) [OF t] b by (auto simp: f(2))
  with line hp show ?thesis unfolding now_def by (intro exI [of _ h] exI [of _ d]) auto
qed

lemma arena20_ranged:
  "m_state (w_pl (arena 20) 1) = CS_PLAYING"
  "2000 \<le> to_ms (w_clock (arena 20) (w_ticks (arena 20)) - m_last_ranged_atk_time (w_pl (arena 20) 1))"
  "shot_at (w_pl (arena 20) 1) i = (1000, 100 + i)" "npc_on (arena 20) (1000, 101) n = (n = 10000)"
  "free_tile (arena 20) (1000, 101)"
  by (auto simp: arena_def init_world_def new_session_def ms_def to_ms_def cdiv_def shot_at_def step_of_def
      npc_on_def npc_target_def new_npc_def is_npc_def free_tile_def tile_def)

theorem ranged_first_hit_witness:
  "m_hp (w_npc (ranged_attack 1 (arena 20)) 10000) = s16 (20 - 30)"
proof -
  have k: "boosted (calc_skill_dmg (m_level (w_pl (arena 20) 1))) 1000000 (m_atk_boost_until (w_pl (arena 20) 1)) = 30"
    by (simp add: boosted_def arena_fields new_session_def calc_skill_dmg_def s16_def s32_def)
  have c: "w_clock (arena 20) i = 1000000" "m_hp (w_npc (arena 20) 10000) = 20" for i
    by (simp_all add: arena_def init_world_def)
  obtain h d where o: "0 \<le> d" "\<forall>i \<in> {1..<d}. \<forall>n. \<not> npc_on (arena 20) (1000, 100 + i) n"
    "if h = -1 then (0 < d \<longrightarrow> (\<forall>n. \<not> npc_on (arena 20) (1000, 100 + d) n)) \<and> (d = 6 \<or> \<not> free_tile (arena 20) (1000, 100 + (d + 1)))
     else 0 < d \<and> npc_on (arena 20) (1000, 100 + d) h
       \<and> m_hp (w_npc (ranged_attack 1 (arena 20)) h) = s16 (m_hp (w_npc (arena 20) h) - 30)"
    using ranged_first_hit [OF arena20(1,3) arena20_ranged(1,2)]
    unfolding arena20_ranged(3) c k by blast
  have "\<not> 1 < d" using o(2) arena20_ranged(4) [of 10000] by (auto dest: bspec [of _ _ 1])
  then have d: "d = 0 \<or> d = 1" using o(1) by auto
  then have "h \<noteq> -1" using o(3) arena20_ranged(4) [of 10000] arena20_ranged(5) by auto
  then show ?thesis using o(3) d c by (auto simp: arena20_ranged(4))
qed

end
