(* ===== verification/Actions.thy ===== *)
theory Actions
  imports Blows
begin

text \<open>
  What the remaining packets do (\<open>SESSION::process_packet\<close>, \<open>do_move\<close>,
  \<open>process_quest_kill\<close>): quests, the use of items, moves with the items picked up, and the
  packet handler as a whole: what it reads, and that it keeps the invariant.
\<close>

section \<open>Quests\<close>

lemma s32_add: "s32 (s32 a + b) = s32 (a + b)"
  by (simp add: s32_def mod_simps algebra_simps)

lemma quest_range:
  assumes "quest_of_npc t = q" "0 \<le> q"
  shows "q = 0 \<or> q = 1" "quest_target q = (if q = 0 then 10 else 3)"
  using assms by (cases t; simp add: quest_of_npc_def quest_target_def)+

text \<open>
  C27: a kill that counts for an active quest. The count goes up by one and wraps to 0 at the
  quest's target (10 agro NPCs, 3 bosses); exactly then the reward is paid: the experience through
  the level-up loop and one boost item. The other quest is untouched, the quest stays active: the
  code starts it over, where the game's description (4.6) has it completed and reported as
  \<open>COMPLETED\<close>.
\<close>

theorem quest_cycle:
  assumes "winv {} w" "is_pc k" "quest_of_npc t = q" "0 \<le> q"
    and "q_state (m_quests (w_pl w k) ! nat q) = Q_ACTIVE"
    and "kill_count (m_quests (w_pl w k) ! nat q) = c" "0 \<le> c" "c < quest_target q"
  defines "s \<equiv> w_pl w k" and "s' \<equiv> w_pl (process_quest_kill k t w) k"
  shows "kill_count (m_quests s' ! nat q) = (c + 1) mod quest_target q
    \<and> q_state (m_quests s' ! nat q) = Q_ACTIVE \<and> m_quests s' ! nat (1 - q) = m_quests s ! nat (1 - q)
    \<and> (m_level s', m_xp s') = (if c + 1 = quest_target q
         then level_loop (m_level s) (s32 (m_xp s + (if q = 0 then 500 else 3000))) else (m_level s, m_xp s))
    \<and> m_inventory s' = (if c + 1 = quest_target q
         then (m_inventory s)[nat (q + 3) := s32 (m_inventory s ! nat (q + 3) + 1)] else m_inventory s)"
proof -
  have ok: "length (m_quests s) = QUEST_COUNT" using winvD(2) [OF assms(1,2)] by (simp add: s_def player_ok_def)
  have b: "body s' = body (quest_after t s)" unfolding s'_def s_def by (rule quest_kill_body) (use ok in \<open>simp add: s_def\<close>)
  have q: "q = 0 \<or> q = 1" "quest_target q = (if q = 0 then 10 else 3)" using quest_range [OF assms(3,4)] by auto
  have len: "nat q < length (m_quests s)" "nat (1 - q) \<noteq> nat q" using q(1) ok by auto
  have n: "s32 (c + 1) = c + 1" using assms(7,8) q(2) by (intro s32_id) (auto split: if_splits)
  have z: "item_code (quest_reward_item q) - 1 = q + 3" "quest_reward_xp q = (if q = 0 then 500 else 3000)"
    using q(1) by (auto simp: quest_reward_item_def quest_reward_xp_def)
  have e: "quest_after t s = (if c + 1 \<ge> quest_target q
      then add_item (q + 3) (gain_xp (if q = 0 then 500 else 3000) (set_kills q 0 s)) else set_kills q (c + 1) s)"
    using assms(3-6) n z by (simp add: quest_after_def Let_def s_def add.commute)
  have "m_quests s' = m_quests (quest_after t s)" "m_level s' = m_level (quest_after t s)"
    "m_xp s' = m_xp (quest_after t s)" "m_inventory s' = m_inventory (quest_after t s)"
    using body_eqD [OF b] by simp_all
  moreover have "c + 1 \<ge> quest_target q \<longleftrightarrow> c + 1 = quest_target q" using assms(8) by auto
  moreover have "(c + 1) mod quest_target q = (if c + 1 = quest_target q then 0 else c + 1)"
    using assms(7,8) by simp
  moreover have "q_state (m_quests s ! nat q) = Q_ACTIVE" using assms(5) by (simp add: s_def)
  ultimately show ?thesis
    using len ok q(1)
    by (cases "c + 1 = quest_target q"; elim disjE)
       (simp_all add: e add_item_def gain_xp_def set_kills_def split: prod.split)
qed

theorem quest_cycle_witness:
  "kill_count (m_quests (w_pl (process_quest_kill 1 NPC_AGRO_TYPE (arena 20)) 1) ! 0) = 1"
  using quest_cycle [OF arena20(1,3), of NPC_AGRO_TYPE 0 0]
  by (simp add: quest_of_npc_def quest_target_def arena_fields new_session_def)

section \<open>Using an item\<close>

lemma calm_use_tail:
  "calm w (send_item_add k it n (send_own_stat k w))"
  "calm w (sys_chat k msg (send_item_add k it n (send_own_stat k w)))"
  using calm_trans [OF calm_broadcasts(5) calm_send_packets(8)]
    calm_trans [OF calm_trans [OF calm_broadcasts(5) calm_send_packets(8)] calm_broadcasts(4)] by blast+

lemma use_item_body:
  "body (w_pl (use_item k it w) k) =
    (let idx = item_code it - 1; s = w_pl w k in
     if idx < 0 \<or> idx \<ge> int ITEM_SLOT_COUNT \<or> m_inventory s ! nat idx \<le> 0 then body s
     else case use_effect it s w of None \<Rightarrow> body s | Some (f, msg, w1) \<Rightarrow> body (take_item (nat idx) (f s)))"
proof (cases "use_effect it (w_pl w k) w")
  case (Some r)
  obtain f msg w1 where r: "r = (f, msg, w1)" by (cases r)
  have "w_pl w1 = w_pl w" using Some by (auto simp: r use_effect_def clock_now_def Let_def split: if_splits)
  then show ?thesis
    using calmD(9) [OF calm_use_tail(1)] calmD(9) [OF calm_use_tail(2)] Some
    by (simp add: use_item_def Let_def r upd_pl_def)
qed (simp add: use_item_def Let_def)

lemma body_fields:
  "body a = body b \<Longrightarrow> m_inventory a = m_inventory b \<and> m_hp a = m_hp b \<and> m_max_hp a = m_max_hp b
    \<and> m_atk_boost_until a = m_atk_boost_until b \<and> m_def_boost_until a = m_def_boost_until b
    \<and> m_spd_boost_until a = m_spd_boost_until b \<and> m_level a = m_level b \<and> m_xp a = m_xp b
    \<and> m_x a = m_x b \<and> m_y a = m_y b \<and> m_quests a = m_quests b"
  by (intro conjI body_eqD)

text \<open>
  C28: the use of an item. It is used only if one is held, and a potion only when hit points are
  missing; then exactly one is taken from its slot, a potion restores 30 or 60 hit points up to the
  maximum, an elixir all of them, and a boost lasts 30 seconds from now. Nothing else of the
  character changes, and an unknown item does nothing.
\<close>

theorem use_item_exact:
  "let s = w_pl w k; s' = w_pl (use_item k it w) k; i = nat (item_code it - 1); now = w_clock w (w_ticks w);
     potion = it \<in> {ITEM_HP_POTION, ITEM_HI_POTION, ITEM_ELIXIR};
     used = it \<in> {ITEM_HP_POTION, ITEM_HI_POTION, ITEM_ELIXIR, ITEM_ATK_BOOST, ITEM_DEF_BOOST, ITEM_SPD_BOOST}
       \<and> m_inventory s ! i > 0 \<and> \<not> (potion \<and> m_hp s \<ge> m_max_hp s)
   in if \<not> used then body s' = body s
     else m_inventory s' = (m_inventory s)[i := m_inventory s ! i - 1]
       \<and> m_hp s' = (if it = ITEM_HP_POTION then min (m_max_hp s) (s16 (m_hp s + 30))
            else if it = ITEM_HI_POTION then min (m_max_hp s) (s16 (m_hp s + 60))
            else if it = ITEM_ELIXIR then m_max_hp s else m_hp s)
       \<and> m_atk_boost_until s' = (if it = ITEM_ATK_BOOST then now + ms 30000 else m_atk_boost_until s)
       \<and> m_def_boost_until s' = (if it = ITEM_DEF_BOOST then now + ms 30000 else m_def_boost_until s)
       \<and> m_spd_boost_until s' = (if it = ITEM_SPD_BOOST then now + ms 30000 else m_spd_boost_until s)
       \<and> (m_level s', m_xp s', m_max_hp s', m_x s', m_y s', m_quests s')
          = (m_level s, m_xp s, m_max_hp s, m_x s, m_y s, m_quests s)"
  using use_item_body [of k it w]
  by (cases it; simp add: Let_def use_effect_def clock_now_def split: if_splits)
     (auto dest!: body_fields simp: take_item_def heal_def)

section \<open>Moving and picking up\<close>

definition here :: "session \<Rightarrow> world_item \<Rightarrow> bool" where
  "here s it \<longleftrightarrow> wi_active it \<and> wi_x it = m_x s \<and> wi_y it = m_y s"

definition slot :: "world_item \<Rightarrow> nat" where
  "slot it = nat (item_code (wi_type it) - 1)"

definition picked :: "world_item \<Rightarrow> int list \<Rightarrow> int list" where
  "picked it bag = bag[slot it := s32 (bag ! slot it + 1)]"

lemma pick_up_effect:
  "w_items (pick_up k it w) = (if here (w_pl w k) it
     then map (\<lambda>i. if wi_id i = wi_id it then i\<lparr>wi_active := False\<rparr> else i) (w_items w) else w_items w)"
  "m_inventory (w_pl (pick_up k it w) k) =
     (if here (w_pl w k) it then picked it (m_inventory (w_pl w k)) else m_inventory (w_pl w k))"
  "m_x (w_pl (pick_up k it w) k) = m_x (w_pl w k)" "m_y (w_pl (pick_up k it w) k) = m_y (w_pl w k)"
proof -
  let ?i = "item_code (wi_type it) - 1"
  define w2 where "w2 = upd_pl k (add_item ?i)
    (w\<lparr>w_items := map (\<lambda>i. if wi_id i = wi_id it then i\<lparr>wi_active := False\<rparr> else i) (w_items w)\<rparr>)"
  have c: "calm w2 (sys_chat k msg (send_item_add k t n (broadcast_item_remove i x y w2)))" for msg t n i x y
    by (rule calm_trans [OF calm_trans [OF calm_broadcasts(2) calm_send_packets(8)] calm_broadcasts(4)])
  have p: "\<exists>msg t n i x y. pick_up k it w = sys_chat k msg (send_item_add k t n (broadcast_item_remove i x y w2))"
    if "here (w_pl w k) it"
  proof -
    have "\<not> (\<not> wi_active it \<or> wi_x it \<noteq> m_x (w_pl w k) \<or> wi_y it \<noteq> m_y (w_pl w k))"
      using that by (simp add: here_def)
    note e = if_not_P [OF this]
    show ?thesis unfolding pick_up_def Let_def w2_def e by (intro exI) (rule refl)
  qed
  have q: "pick_up k it w = w" if "\<not> here (w_pl w k) it" using that by (auto simp: pick_up_def here_def Let_def)
  have cc: "calm w2 (pick_up k it w)" if "here (w_pl w k) it" using p [OF that] c by auto
  show "w_items (pick_up k it w) = (if here (w_pl w k) it
     then map (\<lambda>i. if wi_id i = wi_id it then i\<lparr>wi_active := False\<rparr> else i) (w_items w) else w_items w)"
    using calmD(1) [OF cc] q by (simp add: w2_def upd_pl_def)
  show "m_inventory (w_pl (pick_up k it w) k) =
     (if here (w_pl w k) it then picked it (m_inventory (w_pl w k)) else m_inventory (w_pl w k))"
    "m_x (w_pl (pick_up k it w) k) = m_x (w_pl w k)" "m_y (w_pl (pick_up k it w) k) = m_y (w_pl w k)"
    using calm_pl(10) [OF cc, of k] calm_pl(2,3) [OF cc, of k] q
    by (cases "here (w_pl w k) it"; simp add: w2_def upd_pl_def add_item_def picked_def slot_def)+
qed

lemma pick_up_fold:
  defines "tak s xs \<equiv> wi_id ` {it \<in> set xs. here s it}"
  shows "w_items (fold (pick_up k) xs w) =
      map (\<lambda>i. if wi_id i \<in> tak (w_pl w k) xs then i\<lparr>wi_active := False\<rparr> else i) (w_items w)
    \<and> m_inventory (w_pl (fold (pick_up k) xs w) k) = fold picked (filter (here (w_pl w k)) xs) (m_inventory (w_pl w k))
    \<and> m_x (w_pl (fold (pick_up k) xs w) k) = m_x (w_pl w k) \<and> m_y (w_pl (fold (pick_up k) xs w) k) = m_y (w_pl w k)"
proof (induction xs arbitrary: w)
  case Nil
  then show ?case by (simp add: tak_def)
next
  case (Cons it xs)
  let ?v = "pick_up k it w"
  have h: "here (w_pl ?v k) = here (w_pl w k)" by (rule ext) (simp add: here_def pick_up_effect)
  show ?case
    using Cons.IH [of ?v] by (auto simp: h tak_def pick_up_effect)
qed

lemma fold_picked:
  assumes "\<forall>it \<in> set xs. slot it < length bag" "\<forall>j < length bag. in32 (bag ! j)"
  shows "length (fold picked xs bag) = length bag
    \<and> (\<forall>j < length bag. fold picked xs bag ! j = s32 (bag ! j + int (length (filter (\<lambda>it. slot it = j) xs))))"
  using assms
proof (induction xs arbitrary: bag)
  case Nil
  then show ?case by (simp add: wrap_simps)
next
  case (Cons it xs)
  let ?v = "picked it bag"
  have l: "length ?v = length bag" by (simp add: picked_def)
  have n: "?v ! j = (if slot it = j then s32 (bag ! j + 1) else bag ! j)" if "j < length bag" for j
    using that by (simp add: picked_def)
  have "\<forall>j < length ?v. in32 (?v ! j)" using Cons.prems(2) n l by simp
  note IH = Cons.IH [OF _ this]
  have e: "s32 (s32 (a + 1) + int c) = s32 (a + int (Suc c))" for a c
    unfolding s32_add by (simp add: algebra_simps)
  show ?case using IH Cons.prems(1) n l e by auto
qed

text \<open>
  C15: a move. The player steps at most one tile in the direction, stays where it is at the edge of
  the world or before an obstacle, and never stands on one by moving; of the items on the ground
  exactly the active ones on its tile become inactive, and each slot of its inventory grows by the
  number of those of its kind.
\<close>

theorem do_move_exact:
  fixes k :: int and d :: direction and w :: world
  assumes "winv {} w" "is_pc k" "w_live w k" "m_state (w_pl w k) = CS_PLAYING"
    and "distinct (map wi_id (w_items w))" "\<forall>j < ITEM_SLOT_COUNT. in32 (m_inventory (w_pl w k) ! j)"
  defines "s \<equiv> w_pl w k" and "s' \<equiv> w_pl (do_move k d w) k"
    and "nx \<equiv> fst (move_target d (m_x (w_pl w k)) (m_y (w_pl w k)))"
    and "ny \<equiv> snd (move_target d (m_x (w_pl w k)) (m_y (w_pl w k)))"
  shows "(m_x s', m_y s') = (if w_obstacle w nx ny then (m_x s, m_y s) else (nx, ny))
    \<and> tile (m_x s') (m_y s') \<and> \<bar>m_x s' - m_x s\<bar> + \<bar>m_y s' - m_y s\<bar> \<le> 1
    \<and> w_items (do_move k d w) = map (\<lambda>i. if here s' i then i\<lparr>wi_active := False\<rparr> else i) (w_items w)
    \<and> (\<forall>j < ITEM_SLOT_COUNT. m_inventory s' ! j = s32 (m_inventory s ! j
          + int (length (filter (\<lambda>i. here s' i \<and> slot i = j) (w_items w)))))"
proof -
  define w1 where "w1 = moved k d w"
  define w3 where "w3 = update_player_view k w1"
  have m: "mover_ok k w" by (rule mover_playing [OF assms(1,2,4)])
  have id: "m_id (w_pl w k) = k" using winvD(8) [OF assms(1,2)] .
  have e: "do_move k d w = fold (pick_up k) (w_items w3) w3"
    by (simp add: do_move_alt [OF id] Let_def w1_def w3_def)
  have c: "calm w1 w3" by (simp add: w3_def)
  have f1: "w_items w1 = w_items w" "m_inventory (w_pl w1 k) = m_inventory s"
    "(m_x (w_pl w1 k), m_y (w_pl w1 k)) = (if w_obstacle w nx ny then (m_x s, m_y s) else (nx, ny))"
    by (auto simp: w1_def moved_def relocate_def Let_def upd_pl_def s_def nx_def ny_def split: prod.split)
  have f3: "w_items w3 = w_items w" "m_inventory (w_pl w3 k) = m_inventory s" "m_x (w_pl w3 k) = m_x (w_pl w1 k)"
    "m_y (w_pl w3 k) = m_y (w_pl w1 k)"
    using f1 calmD(1) [OF c] calm_pl(2,3,10) [OF c, of k] by simp_all
  have p: "w_items (do_move k d w) = map (\<lambda>i. if wi_id i \<in> wi_id ` {it \<in> set (w_items w). here (w_pl w3 k) it}
      then i\<lparr>wi_active := False\<rparr> else i) (w_items w)"
    "m_inventory s' = fold picked (filter (here (w_pl w3 k)) (w_items w)) (m_inventory s)"
    "m_x s' = m_x (w_pl w1 k)" "m_y s' = m_y (w_pl w1 k)"
    using pick_up_fold [of k "w_items w3" w3] f3 by (simp_all add: e s'_def)
  have h: "here (w_pl w3 k) = here s'" by (rule ext) (simp add: here_def f3 p)
  have un: "wi_id i \<in> wi_id ` {it \<in> set (w_items w). here s' it} \<longleftrightarrow> here s' i" if "i \<in> set (w_items w)" for i
    using assms(5) that by (auto simp: distinct_map inj_on_def)
  have it: "w_items (do_move k d w) = map (\<lambda>i. if here s' i then i\<lparr>wi_active := False\<rparr> else i) (w_items w)"
    unfolding p(1) h using un by simp
  have w1: "winv {} w1" unfolding w1_def by (rule winv_moved [OF assms(1) m])
  then have t: "tile (m_x s') (m_y s')" using winvD(2) [OF w1 assms(2)] p by (simp add: player_ok_def)
  have ok: "length (m_inventory s) = ITEM_SLOT_COUNT" using winvD(2) [OF assms(1,2)] by (simp add: s_def player_ok_def)
  have sl: "slot it < ITEM_SLOT_COUNT" if "it \<in> set (w_items w)" for it
    using winvD(4) [OF assms(1) that] by (auto simp: item_dropped_def slot_def)
  have inv: "\<forall>j < ITEM_SLOT_COUNT. m_inventory s' ! j = s32 (m_inventory s ! j
          + int (length (filter (\<lambda>i. here s' i \<and> slot i = j) (w_items w))))"
    using fold_picked [of "filter (here s') (w_items w)" "m_inventory s"] sl assms(6) ok
    by (simp add: p(2) h filter_filter conj_commute s_def)
  have "\<bar>nx - m_x s\<bar> + \<bar>ny - m_y s\<bar> \<le> 1"
    by (auto simp: nx_def ny_def s_def move_target_def split: direction.split)
  then have "\<bar>m_x s' - m_x s\<bar> + \<bar>m_y s' - m_y s\<bar> \<le> 1"
    using f1(3) p(3,4) by (auto split: if_splits)
  with f1(3) p(3,4) t it inv show ?thesis by simp
qed

lemma arena20_play:
  "w_live (arena 20) 1" "distinct (map wi_id (w_items (arena 20)))"
  "\<forall>j < ITEM_SLOT_COUNT. in32 (m_inventory (w_pl (arena 20) 1) ! j)"
  by (auto simp: arena_def init_world_def new_session_def in32_def)

theorem do_move_exact_witness:
  "m_y (w_pl (do_move 1 UP (arena 20)) 1) = 99"
proof -
  have "move_target UP (m_x (w_pl (arena 20) 1)) (m_y (w_pl (arena 20) 1)) = (1000, 99)"
    "\<not> w_obstacle (arena 20) 1000 99"
    by (auto simp: arena_def new_session_def move_target_def init_world_def tile_def)
  then show ?thesis
    using do_move_exact [OF arena20(1,3) arena20_play(1) arena20_ranged(1) arena20_play(2,3), of UP] by simp
qed

section \<open>The packet handler\<close>

text \<open>Whether the handler reads or writes past the end of the receive buffer.\<close>

definition reads_past :: "cl_state \<Rightarrow> byte list \<Rightarrow> bool" where
  "reads_past st p \<longleftrightarrow> length p < 5 \<or>
    (let ty = rd32 (drop 1 p) in
     ty = 0 \<and> st = CS_CONNECT \<and> length p < 24 \<and> 0 \<notin> set (drop 5 p)
     \<or> ty = 1 \<and> length p < 13 \<or> ty = 2 \<and> length p < 133 \<or> ty = 5 \<and> st = CS_PLAYING \<and> length p < 6)"

text \<open>
  Otherwise it returns true for the seven known types and false, with the world unchanged, for all
  others. It never looks at the packet's size byte, and of the buffer it changes at most byte 132,
  by a chat packet, however short that packet claims to be.
\<close>

lemma process_outcome:
  "case process_packet k p w of
     None \<Rightarrow> reads_past (m_state (w_pl w k)) p
   | Some (ok, p', w') \<Rightarrow> \<not> reads_past (m_state (w_pl w k)) p
       \<and> ok = (rd32 (drop 1 p) \<in> {0..6}) \<and> p' = (if rd32 (drop 1 p) = 2 then p[132 := 0] else p)
       \<and> w' = (if ok then w' else w)"
proof (cases "length p < 5")
  case False
  define ty where "ty = rd32 (drop 1 p)"
  have six: "ty \<in> {0..6} \<longleftrightarrow> ty = 0 \<or> ty = 1 \<or> ty = 2 \<or> ty = 3 \<or> ty = 4 \<or> ty = 5 \<or> ty = 6" by auto
  show ?thesis
    unfolding process_packet_def dec_c2s_def reads_past_def Let_def ty_def [symmetric]
    using False six by (auto split: if_splits)
qed (simp add: process_packet_def reads_past_def)

lemma chat_terminated:
  assumes "wf_c2s (C2S_Chat m)"
  shows "(enc_c2s (C2S_Chat m) @ r)[132 := 0] = enc_c2s (C2S_Chat m) @ r"
proof -
  have "(enc_c2s (C2S_Chat m) @ r) ! 132 = 0"
    using assms by (simp add: enc_c2s_def arr_def nth_append nth_Cons' less_eq_Suc_le le1_def) arith
  then show ?thesis by (metis list_update_id)
qed

lemma dec_types:
  assumes "dec_c2s p = Inr (Some q)"
  shows "rd32 (drop 1 p) = 1 \<Longrightarrow> \<exists>d t. q = C2S_Move d t" "rd32 (drop 1 p) = 2 \<Longrightarrow> \<exists>m. q = C2S_Chat m"
  using assms by (auto simp: dec_c2s_def Let_def split: if_splits)

lemma process_wf:
  assumes "wf_c2s q"
  shows "\<exists>w'. process_packet k (enc_c2s q @ r) w = Some (True, enc_c2s q @ r, w')"
proof -
  define p where "p = enc_c2s q @ r"
  have d: "dec_c2s p = Inr (Some q)" unfolding p_def by (rule dec_enc_c2s [OF assms])
  have ty: "rd32 (drop 1 p) \<in> {0..6}" and len: "length p \<ge> 5"
    using d by (auto simp: dec_c2s_def Let_def split: if_splits)
  have chat: "length p \<ge> 133" if "rd32 (drop 1 p) = 2"
    using d that by (auto simp: dec_c2s_def Let_def split: if_splits)
  have same: "p[132 := 0] = p" if "rd32 (drop 1 p) = 2"
    using dec_types(2) [OF d that] chat_terminated [of _ r] assms unfolding p_def by blast
  have "process_packet k p w \<noteq> None"
    using d len chat by (auto simp: process_packet_def Let_def)
  then obtain ok p' w' where r: "process_packet k p w = Some (ok, p', w')" by (metis option.exhaust prod_cases3)
  have "ok" "p' = p" using process_outcome [where k = k and p = p and w = w] r ty same by simp_all
  with r show ?thesis by (auto simp: p_def)
qed

text \<open>
  C7: a complete packet of the client, whatever follows it in the buffer, is answered with true,
  and handling it keeps the invariant: for every session of an id handed out, closed ones included, in every state except
  that a move of a connected session needs it in play. The invariant says that the grid holds
  exactly the players in play and the living NPCs at their tiles, that each dead NPC has exactly
  one respawn on its way, that everyone is on a tile of the world and that closed sessions have no
  socket.
\<close>

theorem packet_keeps_invariant:
  assumes "winv {} w" "is_pc k" "k < w_player_index w" "wf_c2s q"
    and "(\<exists>d t. q = C2S_Move d t) \<Longrightarrow> w_live w k \<Longrightarrow> m_state (w_pl w k) = CS_PLAYING"
  shows "\<exists>w'. process_packet k (enc_c2s q @ r) w = Some (True, enc_c2s q @ r, w') \<and> winv {} w'"
proof -
  obtain w' where r: "process_packet k (enc_c2s q @ r) w = Some (True, enc_c2s q @ r, w')"
    using process_wf [OF assms(4)] by blast
  have mv: "rd32 (drop 1 (enc_c2s q @ r)) = 1 \<Longrightarrow> w_live w k \<Longrightarrow> m_state (w_pl w k) = CS_PLAYING"
    using dec_types(1) [OF dec_enc_c2s [OF assms(4), of r]] assms(5) by blast
  show ?thesis using r winv_process_packet [OF assms(1-3) mv r] by simp
qed

theorem packet_keeps_invariant_witness:
  "\<exists>w'. process_packet 1 (enc_c2s C2S_RangedAttack @ []) (arena 20) = Some (True, enc_c2s C2S_RangedAttack @ [], w') \<and> winv {} w'"
  by (rule packet_keeps_invariant [OF arena20(1,3)]) (simp_all add: arena_def)

text \<open>A session that has connected and not logged in.\<close>

definition lobby :: world where
  "lobby = (init_world (\<lambda>x y. \<not> tile x y) (\<lambda>_. 0) (\<lambda>_. 0) (\<lambda>_. True))\<lparr>
     w_live := (\<lambda>k. k = 1), w_player_index := 2, w_pl := (\<lambda>k. if k = 1 then new_session 5 1 0 else no_session k)\<rparr>"

lemma lobby_ok: "winv {} lobby"
proof -
  have "positions {} lobby = Map.empty"
    by (rule ext) (simp add: positions_def lobby_def is_pc_def new_session_def)
  then have "grid_ok {} lobby"
    using sectors_track_empty
    by (auto simp: grid_ok_def ids_ok_def lobby_def no_session_def new_session_def init_world_def
        is_pc_def is_npc_def only_def empty_sectors_def)
  moreover have "grid_ids lobby" by (simp add: grid_ids_def lobby_def init_world_def empty_sectors_def)
  ultimately show ?thesis
    by (auto simp: winv2_def respawns_ok_def lobby_def init_world_def env_ok_def player_ok_def no_session_def
        new_session_def tile_def is_npc_def)
qed

text \<open>
  the move of a session that has not logged in is carried out: the session enters the grid
  without being in play, which breaks the invariant. Chat and attacks before login are not refused
  either; only the login, the skill, the ranged attack and the use of items test the state.
\<close>

theorem prelogin_move_ghost:
  "\<exists>w'. winv {} lobby \<and> m_state (w_pl lobby 1) = CS_CONNECT
    \<and> process_packet 1 (enc_c2s (C2S_Move RIGHT 0)) lobby = Some (True, enc_c2s (C2S_Move RIGHT 0), w')
    \<and> m_state (w_pl w' 1) = CS_CONNECT \<and> 1 \<in> set (w_sectors w' (sector_id 1001 100)) \<and> \<not> winv {} w'"
proof -
  define w1 where "w1 = upd_pl 1 (\<lambda>s. s\<lparr>m_move_time := 0, m_dir := RIGHT\<rparr>) lobby"
  define w2 where "w2 = relocate 1 1001 100 w1"
  have l: "w_pl w1 1 = (new_session 5 1 0)\<lparr>m_dir := RIGHT\<rparr>" "w_live w1 = (\<lambda>k. k = 1)" "w_items w1 = []"
    "w_sectors w1 = empty_sectors" "w_clock w1 = (\<lambda>_. 0)" "w_obstacle w1 = (\<lambda>x y. \<not> tile x y)"
    by (simp_all add: w1_def upd_pl_def lobby_def init_world_def new_session_def)
  have sid: "sector_id 1000 100 \<noteq> sector_id 1001 100" by code_simp
  have mv: "moved 1 RIGHT w1 = w2"
    by (simp add: moved_def Let_def l new_session_def move_target_def tile_def w2_def)
  have f2: "w_pl w2 1 = (new_session 5 1 0)\<lparr>m_dir := RIGHT, m_x := 1001\<rparr>" "w_live w2 = (\<lambda>k. k = 1)"
    "w_items w2 = []" "w_clock w2 = (\<lambda>_. 0)" "w_sectors w2 = update_object_sector 1 1000 100 1001 100 empty_sectors"
    by (simp_all add: w2_def relocate_def Let_def upd_pl_def l new_session_def)
  have sec: "w_sectors w2 = add_object_to_sector 1 1001 100 empty_sectors"
    unfolding f2(5) update_sector_alt using sid
    by (auto simp: remove_object_from_sector_def us_erase_def empty_sectors_def
        intro!: arg_cong [of _ _ "add_object_to_sector 1 1001 100"])
  have "i = 1" if "i \<in> set (nearby w2 x y)" for i x y
    using that by (auto simp: nearby_def sec get_objects_in_adjacent_sectors_def add_object_to_sector_def
        empty_sectors_def us_insert_def split: if_splits)
  then have "new_view 1 w2 = []"
    by (auto simp: new_view_def Let_def filter_empty_conv)
  moreover have "send_move_object 1 1 w2 = w2"
    by (simp add: send_move_object_def get_object_def f2 is_pc_def new_session_def cobject.truncate_def)
  ultimately have v: "update_player_view 1 w2 = w2"
    by (simp add: update_player_view_def Let_def f2 new_session_def)
  have "do_move 1 RIGHT w1 = w2"
    using do_move_alt [of w1 1 RIGHT] by (simp add: l new_session_def mv v f2 Let_def)
  then have m: "move_packet 1 RIGHT 0 lobby = w2\<lparr>w_ticks := Suc (w_ticks w2)\<rparr>"
    by (simp add: move_packet_def w1_def [symmetric] clock_now_def f2 new_session_def)
  have "dec_c2s (enc_c2s (C2S_Move RIGHT 0)) = Inr (Some (C2S_Move RIGHT 0))"
    using dec_enc_c2s [of "C2S_Move RIGHT 0" "[]"] by (simp add: in32_def)
  moreover have "\<not> length (enc_c2s (C2S_Move RIGHT 0)) < 5" "rd32 (drop 1 (enc_c2s (C2S_Move RIGHT 0))) = 1"
    by code_simp+
  ultimately have r: "process_packet 1 (enc_c2s (C2S_Move RIGHT 0)) lobby =
      Some (True, enc_c2s (C2S_Move RIGHT 0), w2\<lparr>w_ticks := Suc (w_ticks w2)\<rparr>)"
    by (simp add: process_packet_def Let_def m)
  have g: "1 \<in> set (w_sectors w2 (sector_id 1001 100))" by (simp add: sec add_object_to_sector_def)
  have "positions {} w2 1 = None" by (simp add: positions_def f2 is_pc_def new_session_def)
  then have "1 \<notin> set (only (w_live w2) (w_sectors w2) s)" if "winv {} w2" for s
    using winvD(7) [OF that] by (simp add: sectors_track_def)
  then have "\<not> winv {} w2" using g by (auto simp: only_def f2(2))
  then show ?thesis
    using r g lobby_ok by (intro exI [of _ "w2\<lparr>w_ticks := Suc (w_ticks w2)\<rparr>"])
      (simp add: f2 lobby_def new_session_def)
qed

end
