(* ===== verification/Npc.thy ===== *)
theory Npc
  imports Blows AStar
begin

text \<open>
  The behaviour of NPCs (\<open>SERVER/npc.cpp\<close>): roaming, chasing with the attacks of the three
  kinds, the reaction to the move timer, respawning. \<open>n\<close> is the NPC's key (\<open>this\<close>); the path
  of a chase is \<open>astar_next_step\<close>.
\<close>

section \<open>Moving in front of the players\<close>

definition viewer :: "world \<Rightarrow> int \<Rightarrow> int \<Rightarrow> int \<Rightarrow> bool" where
  "viewer w x y i \<longleftrightarrow> is_pc i \<and> w_live w i \<and> can_send (w_pl w i) \<and> can_see (w_pl w i) x y"

text \<open>One round of the loop over the ids around the new tile, with the set \<open>new_viewers\<close>.\<close>

definition show_move :: "int \<Rightarrow> int \<Rightarrow> uset \<times> world \<Rightarrow> uset \<times> world" where
  "show_move n i vw =
    (let (nv, w) = vw; c = w_npc w n in
     if \<not> viewer w (m_x c) (m_y c) i then vw
     else (us_insert i nv,
       if m_id c \<in> set (m_visible_objects (w_pl w i)) then send_move_object i (m_id c) w
       else send_add_object i (m_id c) w))"

definition update_viewers :: "int \<Rightarrow> int \<Rightarrow> int \<Rightarrow> world \<Rightarrow> world" where
  "update_viewers n old_x old_y w =
    (let old_viewers = fold us_insert (filter (viewer w old_x old_y) (nearby w old_x old_y)) [];
       c = w_npc w n;
       w1 = w\<lparr>w_sectors := update_object_sector (m_id c) old_x old_y (m_x c) (m_y c) (w_sectors w)\<rparr>;
       (t, w2) = clock_now w1;
       w3 = upd_npc n (\<lambda>c. c\<lparr>m_last_npc_move_time := t\<rparr>) w2;
       (new_viewers, w4) = fold (show_move n) (nearby w3 (m_x c) (m_y c)) ([], w3)
     in for_players (filter (\<lambda>i. i \<notin> set new_viewers) old_viewers)
          (\<lambda>i w. send_remove_object i (m_id (w_npc w n)) w) w4)"

section \<open>Choosing a target\<close>

definition detect_range :: "npc_type \<Rightarrow> int" where
  "detect_range t = (if t = NPC_BOSS_TYPE then BOSS_DETECT_RANGE else AGRO_DETECT_RANGE)"

definition eligible :: "world \<Rightarrow> cnpc \<Rightarrow> int \<Rightarrow> bool" where
  "eligible w c i \<longleftrightarrow> is_pc i \<and> w_live w i \<and> m_state (w_pl w i) = CS_PLAYING \<and> can_send (w_pl w i)
    \<and> \<bar>m_x c - m_x (w_pl w i)\<bar> \<le> detect_range (m_npc_type c) \<and> \<bar>m_y c - m_y (w_pl w i)\<bar> \<le> detect_range (m_npc_type c)"

definition tile_dist :: "world \<Rightarrow> cnpc \<Rightarrow> int \<Rightarrow> int" where
  "tile_dist w c i = \<bar>m_x c - m_x (w_pl w i)\<bar> + \<bar>m_y c - m_y (w_pl w i)\<bar>"

text \<open>The loop with \<open>min_dist\<close> and \<open>m_target_id\<close>.\<close>

definition scan_one :: "world \<Rightarrow> cnpc \<Rightarrow> int \<Rightarrow> int \<times> int \<Rightarrow> int \<times> int" where
  "scan_one w c i md =
    (if eligible w c i \<and> tile_dist w c i < fst md then (tile_dist w c i, i) else md)"

definition scan_target :: "world \<Rightarrow> int \<Rightarrow> int" where
  "scan_target w n =
    (let c = w_npc w n in
     snd (fold (scan_one w c) (nearby w (m_x c) (m_y c)) (2147483647, m_target_id c)))"

definition set_target :: "int \<Rightarrow> int \<Rightarrow> world \<Rightarrow> world" where
  "set_target n t = upd_npc n (\<lambda>c. c\<lparr>m_target_id := t\<rparr>)"

definition set_move_state :: "int \<Rightarrow> npc_state \<Rightarrow> world \<Rightarrow> world" where
  "set_move_state n st = upd_npc n (\<lambda>c. c\<lparr>m_move_state := st\<rparr>)"

section \<open>Roaming\<close>

definition face :: "int \<Rightarrow> int \<Rightarrow> int \<Rightarrow> int \<Rightarrow> direction" where
  "face ox oy nx ny = (if nx \<noteq> ox then (if nx > ox then RIGHT else LEFT) else (if ny > oy then DOWN else UP))"

definition clamp :: "int \<Rightarrow> int \<Rightarrow> int \<Rightarrow> int" where
  "clamp lo hi v = max lo (min v hi)"

definition roam_to :: "int \<Rightarrow> cnpc \<Rightarrow> int \<times> int" where
  "roam_to r c =
    (let d = cmod r 4;
       nx = (if d = 2 then s16 (m_x c - 1) else if d = 3 then s16 (m_x c + 1) else m_x c);
       ny = (if d = 0 then s16 (m_y c - 1) else if d = 1 then s16 (m_y c + 1) else m_y c)
     in (s16 (clamp 0 (WORLD_WIDTH - 1) nx), s16 (clamp 0 (WORLD_HEIGHT - 1) ny)))"

text \<open>One tile back towards the origin.\<close>

definition return_to :: "cnpc \<Rightarrow> int \<times> int" where
  "return_to c =
    (if m_x c < m_origin_x c then (s16 (m_x c + 1), m_y c)
     else if m_x c > m_origin_x c then (s16 (m_x c - 1), m_y c)
     else if m_y c < m_origin_y c then (m_x c, s16 (m_y c + 1))
     else if m_y c > m_origin_y c then (m_x c, s16 (m_y c - 1))
     else (m_x c, m_y c))"

definition roam_step :: "(int \<Rightarrow> int \<Rightarrow> bool) \<Rightarrow> int \<Rightarrow> cnpc \<Rightarrow> cnpc" where
  "roam_step obs r c =
    (let (nx, ny) = roam_to r c in
     if \<bar>nx - m_origin_x c\<bar> \<le> 20 \<and> \<bar>ny - m_origin_y c\<bar> \<le> 20 \<and> \<not> obs nx ny
     then c\<lparr>m_dir := face (m_x c) (m_y c) nx ny, m_x := nx, m_y := ny\<rparr>
     else if \<not> obs (m_x c) (m_y c)
     then let (rx, ry) = return_to c in
       if \<not> obs rx ry then c\<lparr>m_dir := face (m_x c) (m_y c) rx ry, m_x := rx, m_y := ry\<rparr> else c
     else c)"

definition roam_walk :: "int \<Rightarrow> world \<Rightarrow> world" where
  "roam_walk n w =
    (let c = w_npc w n; (r, w1) = rand_next w;
       w2 = upd_npc n (roam_step (w_obstacle w1) r) w1
     in update_viewers n (m_x c) (m_y c) w2)"

text \<open>\<open>chase\<close> is \<open>do_chase_move\<close>, which this calls and which calls this.\<close>

definition roaming_with :: "(int \<Rightarrow> world \<Rightarrow> world) \<Rightarrow> int \<Rightarrow> world \<Rightarrow> world" where
  "roaming_with chase n w =
    (let w1 = (if m_npc_type (w_npc w n) \<noteq> NPC_PEACE_TYPE then set_target n (scan_target w n) w else w) in
     if m_npc_type (w_npc w n) \<noteq> NPC_PEACE_TYPE \<and> m_target_id (w_npc w1 n) \<noteq> -1
     then chase n (broadcast_npc_state n (set_move_state n NPC_STATE_CHASE w1))
     else roam_walk n w1)"

section \<open>Attacking players\<close>

definition guarded :: "int \<Rightarrow> int \<Rightarrow> int \<Rightarrow> int" where
  "guarded dmg t until = (if t < until then cdiv dmg 2 else dmg)"

text \<open>
  The death of a player: the lines each attack repeats, and the body of \<open>player_die\<close> of
  \<open>session.cpp\<close>.
\<close>

definition player_die :: "int \<Rightarrow> world \<Rightarrow> world" where
  "player_die k w =
    (let s = w_pl w k;
       w1 = upd_pl k (\<lambda>s. s\<lparr>m_xp := cdiv (m_xp s) 2, m_hp := m_max_hp s, m_x := PC_SPAWN_X, m_y := PC_SPAWN_Y\<rparr>) w;
       w2 = w1\<lparr>w_sectors := update_object_sector k (m_x s) (m_y s) PC_SPAWN_X PC_SPAWN_Y (w_sectors w1)\<rparr>;
       w3 = send_avatar_info k w2; s3 = w_pl w3 k;
       w4 = send_stat_info k k (m_hp s3) (m_max_hp s3) (m_level s3) (m_xp s3) (exp_for_next_level s3) NPC_STATE_IDLE w3
     in update_player_view k w4)"

text \<open>The damage to a player and its broadcast around the NPC; the remaining hit points.\<close>

definition hurt :: "int \<Rightarrow> int \<Rightarrow> int \<Rightarrow> world \<Rightarrow> int \<times> world" where
  "hurt n k base w =
    (let (t, w1) = clock_now w;
       dmg = guarded base t (m_def_boost_until (w_pl w1 k));
       w2 = upd_pl k (\<lambda>s. s\<lparr>m_hp := s16 (m_hp s - dmg)\<rparr>) w1;
       rem = m_hp (w_pl w2 k); c = w_npc w2 n;
       w3 = for_players (nearby w2 (m_x c) (m_y c)) (\<lambda>i. send_damage_info i (m_id c) k dmg rem) w2
     in (rem, w3))"

definition send_hp :: "int \<Rightarrow> int \<Rightarrow> world \<Rightarrow> world" where
  "send_hp k rem w =
    (let s = w_pl w k in
     send_stat_info k k rem (m_max_hp s) (m_level s) (m_xp s) (exp_for_next_level s) NPC_STATE_IDLE w)"

text \<open>The area attack of the boss's third phase, on one id.\<close>

definition area_one :: "int \<Rightarrow> int \<Rightarrow> world \<Rightarrow> world" where
  "area_one n i w =
    (let c = w_npc w n; s = w_pl w i in
     if \<not> (is_pc i \<and> w_live w i \<and> m_state s = CS_PLAYING \<and> can_send s
       \<and> \<bar>m_x c - m_x s\<bar> \<le> BOSS_AREA_RANGE \<and> \<bar>m_y c - m_y s\<bar> \<le> BOSS_AREA_RANGE) then w
     else let (rem, w1) = hurt n i 45 w in
       if rem \<le> 0
       then let w2 = player_die i w1 in
         if i = m_target_id (w_npc w2 n) then set_target n (-1) w2 else w2
       else send_hp i rem w1)"

definition area_attack :: "int \<Rightarrow> world \<Rightarrow> world" where
  "area_attack n w = fold (area_one n) (nearby w (m_x (w_npc w n)) (m_y (w_npc w n))) w"

text \<open>A boss in its first phases on its target, and the other NPCs on theirs.\<close>

definition boss_attack :: "int \<Rightarrow> int \<Rightarrow> world \<Rightarrow> world" where
  "boss_attack n base w =
    (let k = m_target_id (w_npc w n) in
     if \<not> can_send (w_pl w k) then set_target n (-1) w
     else let (rem, w1) = hurt n k base w in
       if rem \<le> 0 then set_target n (-1) (player_die k w1) else send_hp k rem w1)"

definition npc_attack :: "int \<Rightarrow> world \<Rightarrow> world" where
  "npc_attack n w =
    (let k = m_target_id (w_npc w n) in
     if \<not> can_send (w_pl w k) then set_target n (-1) w
     else let (rem, w1) = hurt n k 8 w in
       if rem \<le> 0
       then let w2 = set_target n (-1) (player_die k w1);
              w3 = set_move_state n (if m_npc_type (w_npc w2 n) = NPC_AGRO_TYPE then NPC_STATE_ROAMING else NPC_STATE_IDLE) w2
            in broadcast_npc_state n w3
       else send_hp k rem w1)"

section \<open>Chasing\<close>

text \<open>Whether the target is still one: in play and within the detection range.\<close>

definition target_valid :: "world \<Rightarrow> int \<Rightarrow> bool" where
  "target_valid w n =
    (let c = w_npc w n in
     case get_object w (m_target_id c) of
       None \<Rightarrow> False
     | Some ob \<Rightarrow> is_pc (m_target_id c) \<and> m_state ob = CS_PLAYING
         \<and> \<bar>m_x c - m_x ob\<bar> \<le> detect_range (m_npc_type c) \<and> \<bar>m_y c - m_y ob\<bar> \<le> detect_range (m_npc_type c))"

definition retarget :: "int \<Rightarrow> world \<Rightarrow> world" where
  "retarget n w =
    (let w1 = (if m_target_id (w_npc w n) \<noteq> -1 \<and> \<not> target_valid w n then set_target n (-1) w else w) in
     if m_target_id (w_npc w1 n) = -1 \<and> m_npc_type (w_npc w1 n) \<noteq> NPC_PEACE_TYPE
     then set_target n (scan_target w1 n) w1 else w1)"

definition idle_state :: "npc_type \<Rightarrow> npc_state" where
  "idle_state t = (if t = NPC_PEACE_TYPE then NPC_STATE_IDLE else NPC_STATE_ROAMING)"

definition chase_walk :: "int \<Rightarrow> int \<Rightarrow> int \<Rightarrow> world \<Rightarrow> world" where
  "chase_walk n tx ty w =
    (let c = w_npc w n; (nx, ny) = astar_next_step (w_obstacle w) (m_x c) (m_y c) tx ty;
       w1 = (if nx \<noteq> m_x c \<or> ny \<noteq> m_y c
         then upd_npc n (\<lambda>c. c\<lparr>m_dir := face (m_x c) (m_y c) nx ny, m_x := nx, m_y := ny\<rparr>) w else w)
     in update_viewers n (m_x c) (m_y c) w1)"

definition chase_with :: "(int \<Rightarrow> world \<Rightarrow> world) \<Rightarrow> int \<Rightarrow> world \<Rightarrow> world" where
  "chase_with roam n w =
    (let w1 = retarget n w; c = w_npc w1 n in
     if m_target_id c = -1
     then let w2 = broadcast_npc_state n (set_move_state n (idle_state (m_npc_type c)) w1) in
       if m_npc_type c \<noteq> NPC_PEACE_TYPE then roam n w2 else w2
     else case get_object w1 (m_target_id c) of
       None \<Rightarrow> broadcast_npc_state n (set_move_state n (idle_state (m_npc_type c)) (set_target n (-1) w1))
     | Some ob \<Rightarrow>
         let dx = \<bar>m_x c - m_x ob\<bar>; dy = \<bar>m_y c - m_y ob\<bar> in
         if m_npc_type c = NPC_BOSS_TYPE \<and> dx \<le> BOSS_ATTACK_RANGE \<and> dy \<le> BOSS_ATTACK_RANGE
         then if get_boss_phase c = 3 then area_attack n w1
              else boss_attack n (if get_boss_phase c = 2 then 30 else 20) w1
         else if m_npc_type c \<noteq> NPC_BOSS_TYPE \<and> dx \<le> ATTACK_RANGE \<and> dy \<le> ATTACK_RANGE
         then npc_attack n w1
         else chase_walk n (m_x ob) (m_y ob) w1)"

text \<open>
  The mutual recursion: roaming finds a target and chases, a chase without a target roams. It
  turns at most once each way, see \<open>npc_recursion_ends\<close>, so this depth is enough.
\<close>

primrec roam_fuel :: "nat \<Rightarrow> int \<Rightarrow> world \<Rightarrow> world" where
  "roam_fuel 0 = (\<lambda>n w. w)"
| "roam_fuel (Suc k) = roaming_with (chase_with (roam_fuel k))"

definition do_roaming_move :: "int \<Rightarrow> world \<Rightarrow> world" where
  "do_roaming_move = roam_fuel 2"

definition do_chase_move :: "int \<Rightarrow> world \<Rightarrow> world" where
  "do_chase_move = chase_with (roam_fuel 1)"

section \<open>The move timer\<close>

text \<open>For a boss: whether someone is near, and the time to its next move.\<close>

definition boss_near :: "int \<Rightarrow> world \<Rightarrow> bool \<times> int" where
  "boss_near n w =
    (let c = w_npc w n; phase = get_boss_phase c;
       cool = (if phase \<ge> 2 then BOSS_MOVE_P2 else MOVE_COOL_TIME);
       (near, cool') = (if m_target_id c = -1 then (False, cool)
         else case get_object w (m_target_id c) of
           None \<Rightarrow> (False, cool)
         | Some ob \<Rightarrow>
             let adx = \<bar>m_x c - m_x ob\<bar>; ady = \<bar>m_y c - m_y ob\<bar> in
             if m_state ob = CS_PLAYING \<and> adx \<le> BOSS_DETECT_RANGE \<and> ady \<le> BOSS_DETECT_RANGE
             then (True, if adx \<le> BOSS_ATTACK_RANGE \<and> ady \<le> BOSS_ATTACK_RANGE
                     then (if phase = 3 then 600 else if phase = 2 then 750 else ATTACK_COOL_TIME) else cool)
             else (False, cool))
     in (near \<or> (\<exists>i \<in> set (nearby w (m_x c) (m_y c)). is_pc i \<and> w_live w i \<and> can_send (w_pl w i)), cool'))"

text \<open>For the others: the first player within the range decides.\<close>

definition others_near :: "int \<Rightarrow> world \<Rightarrow> bool \<times> int" where
  "others_near n w =
    (let c = w_npc w n;
       deact = (if m_npc_type c = NPC_AGRO_TYPE \<and> m_move_state c = NPC_STATE_CHASE
         then AGRO_DETECT_RANGE else VIEW_RANGE)
     in case find (\<lambda>i. is_pc i \<and> w_live w i \<and> can_send (w_pl w i)
           \<and> \<bar>m_x c - m_x (w_pl w i)\<bar> \<le> deact \<and> \<bar>m_y c - m_y (w_pl w i)\<bar> \<le> deact)
         (nearby w (m_x c) (m_y c)) of
       None \<Rightarrow> (False, MOVE_COOL_TIME)
     | Some i \<Rightarrow> (True,
         if m_npc_type c = NPC_AGRO_TYPE \<and> m_target_id c \<noteq> -1
           \<and> \<bar>m_x c - m_x (w_pl w i)\<bar> \<le> ATTACK_RANGE \<and> \<bar>m_y c - m_y (w_pl w i)\<bar> \<le> ATTACK_RANGE
         then ATTACK_COOL_TIME else MOVE_COOL_TIME))"

definition next_move :: "int \<Rightarrow> world \<Rightarrow> world" where
  "next_move n w =
    (let (near, cool) = (if m_npc_type (w_npc w n) = NPC_BOSS_TYPE then boss_near n w else others_near n w) in
     if near then let (t, w1) = clock_now w in push_timer n EVENT_NPC_MOVE (t + ms cool) w1
     else upd_npc n (\<lambda>c. let c1 = c\<lparr>m_active_npc := False\<rparr> in
            if m_npc_type c1 = NPC_AGRO_TYPE then c1\<lparr>m_target_id := -1\<rparr> else c1) w)"

definition process_npc_move :: "int \<Rightarrow> world \<Rightarrow> world" where
  "process_npc_move n w =
    (case get_object w n of
       None \<Rightarrow> w
     | Some ob \<Rightarrow>
         if m_id ob < NPC_ID_START \<or> m_state ob \<noteq> CS_PLAYING then w
         else if m_hp (w_npc w n) \<le> 0 then w
         else case m_move_state (w_npc w n) of
           NPC_STATE_IDLE \<Rightarrow> upd_npc n (\<lambda>c. c\<lparr>m_active_npc := False\<rparr>) w
         | NPC_STATE_ROAMING \<Rightarrow> next_move n (do_roaming_move n w)
         | NPC_STATE_CHASE \<Rightarrow> next_move n (do_chase_move n w))"

section \<open>Respawning\<close>

text \<open>Up to \<open>tries\<close> random tiles around the origin; the origin when all are obstacles.\<close>

fun respawn_tile :: "nat \<Rightarrow> cnpc \<Rightarrow> world \<Rightarrow> (int \<times> int) \<times> world" where
  "respawn_tile 0 c w = ((m_origin_x c, m_origin_y c), w)"
| "respawn_tile (Suc tries) c w =
    (let (r1, w1) = rand_next w; (r2, w2) = rand_next w1;
       cx = s16 (clamp 1 (WORLD_WIDTH - 1) (s16 (m_origin_x c + s16 (cmod r1 161 - 80))));
       cy = s16 (clamp 1 (WORLD_HEIGHT - 1) (s16 (m_origin_y c + s16 (cmod r2 161 - 80))))
     in if \<not> w_obstacle w2 cx cy then ((cx, cy), w2) else respawn_tile tries c w2)"

definition respawn_npc :: "int \<Rightarrow> int \<Rightarrow> cnpc \<Rightarrow> cnpc" where
  "respawn_npc x y c =
    c\<lparr>m_hp := m_max_hp c, m_target_id := -1, m_move_state := idle_state (m_npc_type c), m_x := x, m_y := y\<rparr>"

definition process_npc_respawn :: "int \<Rightarrow> world \<Rightarrow> world" where
  "process_npc_respawn n w =
    (if \<not> w_live w n \<or> \<not> is_npc n then w
     else let c = w_npc w n;
       ((x, y), w1) = (if m_npc_type c = NPC_BOSS_TYPE then ((m_origin_x c, m_origin_y c), w)
         else respawn_tile 100 c w);
       w2 = upd_npc n (respawn_npc x y) w1;
       w3 = w2\<lparr>w_sectors := add_object_to_sector n x y (w_sectors w2)\<rparr>
     in fold (\<lambda>i w. if viewer w (m_x (w_npc w n)) (m_y (w_npc w n)) i
          then wake_up n (send_add_object i n w) else w) (nearby w3 x y) w3)"

end
