(* ===== verification/NpcSafe.thy ===== *)
theory NpcSafe
  imports Npc
begin

text \<open>
  NPCs and the server's invariant: what a turn of an NPC keeps (\<open>keeps\<close>) and how far it moves
  (\<open>turn\<close>), the end of the mutual recursion of roaming and chasing, the choice of targets, the
  attacks on players and the respawn.
\<close>

section \<open>What a turn keeps\<close>

definition npc_up :: "int \<Rightarrow> world \<Rightarrow> bool" where
  "npc_up n w \<longleftrightarrow> winv {} w \<and> is_npc n \<and> w_live w n \<and> m_hp (w_npc w n) > 0"

definition npos :: "world \<Rightarrow> int \<Rightarrow> int \<times> int" where
  "npos w n = (m_x (w_npc w n), m_y (w_npc w n))"

definition hop :: "(int \<Rightarrow> int \<Rightarrow> bool) \<Rightarrow> int \<times> int \<Rightarrow> int \<times> int \<Rightarrow> bool" where
  "hop obs p q \<longleftrightarrow> q = p \<or> step4 p q \<and> \<not> obs (fst q) (snd q)"

definition keeps :: "int \<Rightarrow> world \<Rightarrow> world \<Rightarrow> bool" where
  "keeps n w w' \<longleftrightarrow> (npc_up n w \<longrightarrow> npc_up n w' \<and> npos w' n = npos w n \<and> w_obstacle w' = w_obstacle w)"

definition turn :: "int \<Rightarrow> world \<Rightarrow> world \<Rightarrow> bool" where
  "turn n w w' \<longleftrightarrow>
    (npc_up n w \<longrightarrow> npc_up n w' \<and> hop (w_obstacle w) (npos w n) (npos w' n) \<and> w_obstacle w' = w_obstacle w)"

lemma keeps_refl [simp]: "keeps n w w"
  by (simp add: keeps_def)

lemma keepsI: "(npc_up n w \<Longrightarrow> keeps n w w') \<Longrightarrow> keeps n w w'"
  by (auto simp: keeps_def)

lemma keeps_trans: "keeps n a b \<Longrightarrow> keeps n b c \<Longrightarrow> keeps n a c"
  by (auto simp: keeps_def)

lemma turn_keeps: "keeps n a b \<Longrightarrow> turn n a b"
  by (auto simp: keeps_def turn_def hop_def)

lemma keeps_turn: "keeps n a b \<Longrightarrow> turn n b c \<Longrightarrow> turn n a c"
  by (auto simp: keeps_def turn_def)

lemma turn_then_keeps: "turn n a b \<Longrightarrow> keeps n b c \<Longrightarrow> turn n a c"
  by (auto simp: keeps_def turn_def)

lemma keeps_calm [simp]: "calm w w' \<Longrightarrow> keeps n w w'"
  using calm_npc(2-4) [of w w' n] calmD(4) [of w w'] calm_live_npc [of "{}" "{}" w w' n] winv_calm [of "{}" "{}" w w']
  by (auto simp: keeps_def npc_up_def npos_def)

lemma keeps_pl: "stays f \<Longrightarrow> keeps n w (upd_pl k f w)"
  by (simp add: keeps_def npc_up_def npos_def) (simp add: upd_pl_def)

lemma keeps_npc:
  assumes "npc_stays f" "\<And>c. m_hp (f c) = m_hp c"
  shows "keeps n w (upd_npc m f w)"
proof -
  have "winv {} w \<Longrightarrow> winv {} (upd_npc m f w)" by (rule winv_upd_npc [OF _ assms(1)]) (simp_all add: assms(2))
  then show ?thesis using assms by (auto simp: keeps_def npc_up_def npos_def upd_npc_def npc_stays_def)
qed

lemma keeps_set [simp]:
  "keeps n w (set_target m t w)" "keeps n w (set_move_state m st w)"
  "keeps n w (upd_npc m (\<lambda>c. c\<lparr>m_active_npc := b\<rparr>) w)"
  "keeps n w (upd_npc m (\<lambda>c. c\<lparr>m_last_npc_move_time := tm\<rparr>) w)"
  unfolding set_target_def set_move_state_def
  by (rule keeps_npc; simp add: npc_stays_def)+

lemma keeps_ticks [simp]: "keeps n w (w\<lparr>w_ticks := t\<rparr>)" "keeps n w (w\<lparr>w_rands := r\<rparr>)"
  by (simp_all add: keeps_def npc_up_def npos_def)

lemma keeps_push [simp]: "e \<noteq> EVENT_NPC_RESPAWN \<Longrightarrow> keeps n w (push_timer i e t w)"
  by (simp add: keeps_def npc_up_def npos_def) (simp add: push_timer_def)

lemma keeps_relocate: "mover_ok k w \<Longrightarrow> tile x y \<Longrightarrow> keeps n w (relocate k x y w)"
  using winv_relocate [of "{}" w k x y]
  by (auto simp: keeps_def npc_up_def npos_def relocate_def Let_def upd_pl_def)

section \<open>Attacks on players\<close>

lemma stays_hurt [simp]: "stays (\<lambda>s. s\<lparr>m_hp := s16 (m_hp s - d)\<rparr>)" "stays (\<lambda>s. s\<lparr>m_xp := cdiv (m_xp s) 2, m_hp := m_max_hp s\<rparr>)"
  by (simp_all add: stays_def)

lemma hurt_alt:
  "\<exists>w2. hurt m k b w = (m_hp (w_pl w2 k), for_players (nearby w2 (m_x (w_npc w m)) (m_y (w_npc w m)))
      (\<lambda>i. send_damage_info i (m_id (w_npc w m)) k (guarded b (w_clock w (w_ticks w)) (m_def_boost_until (w_pl w k)))
        (m_hp (w_pl w2 k))) w2)
    \<and> w2 = upd_pl k (\<lambda>s. s\<lparr>m_hp := s16 (m_hp s - guarded b (w_clock w (w_ticks w)) (m_def_boost_until (w_pl w k)))\<rparr>)
        (w\<lparr>w_ticks := Suc (w_ticks w)\<rparr>)"
  by (simp add: hurt_def clock_now_def Let_def upd_pl_def)

lemma calm_damage: "calm w (for_players ids (\<lambda>i. send_damage_info i a k d r) w)"
  by (rule calm_for_players) simp

lemma hurt_split:
  assumes "hurt m k b w = (r, w')"
  obtains d where "calm (upd_pl k (\<lambda>s. s\<lparr>m_hp := s16 (m_hp s - d)\<rparr>) (w\<lparr>w_ticks := Suc (w_ticks w)\<rparr>)) w'"
proof -
  obtain w2 ids a d r' where "hurt m k b w = (r', for_players ids (\<lambda>i. send_damage_info i a k d r') w2)"
    "w2 = upd_pl k (\<lambda>s. s\<lparr>m_hp := s16 (m_hp s - d)\<rparr>) (w\<lparr>w_ticks := Suc (w_ticks w)\<rparr>)"
    using hurt_alt [of m k b w] by blast
  with that [of d] calm_damage [of w2 ids a k d r'] assms show thesis by auto
qed

lemma keeps_hurt:
  assumes "hurt m k b w = (r, w')"
  shows "keeps n w w'"
proof (rule hurt_split [OF assms])
  fix d assume "calm (upd_pl k (\<lambda>s. s\<lparr>m_hp := s16 (m_hp s - d)\<rparr>) (w\<lparr>w_ticks := Suc (w_ticks w)\<rparr>)) w'"
  then show "keeps n w w'"
    by (rule keeps_trans [OF keeps_trans [OF keeps_ticks(1) keeps_pl [OF stays_hurt(1)]] keeps_calm])
qed

lemma mover_hurt:
  assumes "hurt m k b w = (r, w')" "mover_ok j w"
  shows "mover_ok j w'"
proof (rule hurt_split [OF assms(1)])
  fix d assume c: "calm (upd_pl k (\<lambda>s. s\<lparr>m_hp := s16 (m_hp s - d)\<rparr>) (w\<lparr>w_ticks := Suc (w_ticks w)\<rparr>)) w'"
  show "mover_ok j w'" by (rule mover_calm [OF _ c]) (use assms(2) in \<open>auto simp: mover_ok_def upd_pl_def\<close>)
qed

lemma player_die_alt:
  "player_die k w =
    (let w2 = relocate k PC_SPAWN_X PC_SPAWN_Y (upd_pl k (\<lambda>s. s\<lparr>m_xp := cdiv (m_xp s) 2, m_hp := m_max_hp s\<rparr>) w);
       w3 = send_avatar_info k w2; s3 = w_pl w3 k
     in update_player_view k
          (send_stat_info k k (m_hp s3) (m_max_hp s3) (m_level s3) (m_xp s3) (exp_for_next_level s3) NPC_STATE_IDLE w3))"
  by (simp add: player_die_def relocate_def Let_def upd_pl_def)

lemma calm_die_tail:
  "calm w (update_player_view k (send_stat_info k k (m_hp s) (m_max_hp s) (m_level s) (m_xp s)
     (exp_for_next_level s) NPC_STATE_IDLE (send_avatar_info k w)))"
  by (rule calm_trans [OF calm_trans [OF calm_send_packets(2) calm_send_packets(4)] calm_update_player_view])

lemma keeps_player_die:
  assumes "mover_ok k w"
  shows "keeps n w (player_die k w)"
proof -
  let ?w1 = "upd_pl k (\<lambda>s. s\<lparr>m_xp := cdiv (m_xp s) 2, m_hp := m_max_hp s\<rparr>) w"
  have "mover_ok k ?w1" using assms by (auto simp: mover_ok_def upd_pl_def)
  then have "keeps n ?w1 (relocate k PC_SPAWN_X PC_SPAWN_Y ?w1)" by (rule keeps_relocate) (simp add: tile_def)
  from keeps_trans [OF keeps_trans [OF keeps_pl [OF stays_hurt(2)] this] keeps_calm [OF calm_die_tail]]
  show ?thesis by (simp add: player_die_alt Let_def)
qed

lemma calm_send_hp [simp]: "calm w (send_hp k r w)"
  by (simp add: send_hp_def Let_def)

lemma keeps_area_one: "keeps n w (area_one m i w)"
proof (rule keepsI)
  assume "npc_up n w"
  then have w: "winv {} w" by (simp add: npc_up_def)
  obtain r w1 where h: "hurt m i 45 w = (r, w1)" by (cases "hurt m i 45 w")
  have m: "mover_ok i w1" if "is_pc i" "m_state (w_pl w i) = CS_PLAYING"
    by (rule mover_hurt [OF h mover_playing [OF w that]])
  show "keeps n w (area_one m i w)"
    using keeps_trans [OF keeps_hurt [OF h] keeps_player_die [OF m]]
      keeps_trans [OF keeps_trans [OF keeps_hurt [OF h] keeps_player_die [OF m]] keeps_set(1)]
      keeps_trans [OF keeps_hurt [OF h] keeps_calm [OF calm_send_hp]]
    by (simp add: area_one_def Let_def h)
qed

lemma keeps_fold: "(\<And>i w. keeps n w (f i w)) \<Longrightarrow> keeps n w (fold f xs w)"
  by (rule fold_preorder [of "keeps n"]) (auto intro: keeps_trans)

lemma keeps_area: "keeps n w (area_attack m w)"
  unfolding area_attack_def by (rule keeps_fold [OF keeps_area_one])

definition good_target :: "world \<Rightarrow> int \<Rightarrow> bool" where
  "good_target w n \<longleftrightarrow> mover_ok (m_target_id (w_npc w n)) w"

lemma keeps_boss_attack:
  assumes "good_target w m"
  shows "keeps n w (boss_attack m b w)"
proof -
  let ?k = "m_target_id (w_npc w m)"
  obtain r w1 where h: "hurt m ?k b w = (r, w1)" by (cases "hurt m ?k b w")
  have m: "mover_ok ?k w1" using mover_hurt [OF h] assms by (simp add: good_target_def)
  show ?thesis
    using keeps_trans [OF keeps_trans [OF keeps_hurt [OF h] keeps_player_die [OF m]] keeps_set(1)]
      keeps_trans [OF keeps_hurt [OF h] keeps_calm [OF calm_send_hp]]
    by (simp add: boss_attack_def Let_def h)
qed

lemma keeps_npc_attack:
  assumes "good_target w m"
  shows "keeps n w (npc_attack m w)"
proof -
  let ?k = "m_target_id (w_npc w m)"
  obtain r w1 where h: "hurt m ?k 8 w = (r, w1)" by (cases "hurt m ?k 8 w")
  have m: "mover_ok ?k w1" using mover_hurt [OF h] assms by (simp add: good_target_def)
  have "keeps n w (broadcast_npc_state m (set_move_state m st (set_target m (-1) (player_die ?k w1))))" for st
    by (rule keeps_trans [OF keeps_trans [OF keeps_trans [OF keeps_trans [OF keeps_hurt [OF h]
      keeps_player_die [OF m]] keeps_set(1)] keeps_set(2)] keeps_calm [OF calm_broadcasts(3)]])
  then show ?thesis
    using keeps_trans [OF keeps_hurt [OF h] keeps_calm [OF calm_send_hp]]
    by (simp add: npc_attack_def Let_def h)
qed

section \<open>Walking\<close>

text \<open>An NPC set on another tile, facing anywhere, with the grid told of it.\<close>

definition npc_walks :: "(cnpc \<Rightarrow> cnpc) \<Rightarrow> bool" where
  "npc_walks f \<longleftrightarrow> (\<forall>c. m_id (f c) = m_id c \<and> m_state (f c) = m_state c \<and> m_hp (f c) = m_hp c
    \<and> m_origin_x (f c) = m_origin_x c \<and> m_origin_y (f c) = m_origin_y c
    \<and> m_max_hp (f c) = m_max_hp c)"

lemma winv_npc_walk:
  assumes w: "npc_up n w" and f: "npc_walks f" and t: "tile (m_x (f (w_npc w n))) (m_y (f (w_npc w n)))"
  defines "c \<equiv> w_npc w n"
  defines "w' \<equiv> (upd_npc n f w)\<lparr>w_sectors := update_object_sector n (m_x c) (m_y c) (m_x (f c)) (m_y (f c)) (w_sectors w)\<rparr>"
  shows "npc_up n w'"
proof -
  have u: "winv {} w" "is_npc n" "w_live w n" "m_hp c > 0" using w by (auto simp: npc_up_def c_def)
  have fc: "m_id (f d) = m_id d" "m_state (f d) = m_state d" "m_hp (f d) = m_hp d"
    "m_origin_x (f d) = m_origin_x d" "m_origin_y (f d) = m_origin_y d" "m_max_hp (f d) = m_max_hp d" for d
    using f by (simp_all add: npc_walks_def)
  have e: "w_live w' = w_live w" "w_pl w' = w_pl w" "w_items w' = w_items w" "w_obstacle w' = w_obstacle w"
    "w_rand w' = w_rand w" "w_player_index w' = w_player_index w" "w_npc w' = (w_npc w)(n := f c)"
    "w_sectors w' = update_object_sector n (m_x c) (m_y c) (m_x (f c)) (m_y (f c)) (w_sectors w)"
    by (simp_all add: w'_def upd_npc_def c_def)
  have ids: "ids_ok w'" using winvD(6) [OF u(1)] by (auto simp: ids_ok_def e fc c_def)
  have p: "positions {} w n = Some (m_x c, m_y c)" using u by (simp add: positions_def pc_npc c_def)
  have "positions {} w' = (positions {} w)(n \<mapsto> (m_x (f c), m_y (f c)))"
    using u by (auto simp: positions_def e pc_npc fc)
  moreover have "only (w_live w') (w_sectors w') =
      update_object_sector n (m_x c) (m_y c) (m_x (f c)) (m_y (f c)) (only (w_live w) (w_sectors w))"
    using u(3) by (simp add: e only_update)
  ultimately have "grid_ok {} w'"
    using grid.tracks_move [OF winvD(7) [OF u(1)] p t [folded c_def]] ids by (simp add: grid_ok_def)
  moreover have "respawns_ok {} w' = respawns_ok {} w"
    by (rule respawns_ok_cong) (simp_all add: w'_def upd_npc_def fc c_def)
  moreover have "grid_ids w'"
    by (rule grid_ids_step [of w]) (use u in \<open>auto simp: e winv2_def env_ok_def pc_npc dest!: in_sector(3)\<close>)
  moreover have "npc_ok (f c)" using winvD(3) [OF u(1-3)] t by (simp add: npc_ok_def fc c_def)
  ultimately have "winv {} w'"
    using u by (auto simp: winv2_def e env_ok_def)
  then show ?thesis using u by (simp add: npc_up_def e fc)
qed

lemma calm_show_move: "calm (snd vw) (snd (show_move n i vw))"
  by (simp add: show_move_def Let_def split: prod.split)

lemma update_viewers_calm:
  "\<exists>t. calm (upd_npc n (\<lambda>c. c\<lparr>m_last_npc_move_time := t\<rparr>) (w\<lparr>w_sectors := update_object_sector (m_id (w_npc w n)) ox oy
      (m_x (w_npc w n)) (m_y (w_npc w n)) (w_sectors w), w_ticks := Suc (w_ticks w)\<rparr>)) (update_viewers n ox oy w)"
proof -
  have f: "calm (snd vw) (snd (fold (show_move n) ids vw))" for ids vw
    by (rule fold_preorder [of "\<lambda>a b. calm (snd a) (snd b)"]) (auto intro: calm_trans calm_show_move)
  have g: "calm w4 (for_players ids (\<lambda>i w. send_remove_object i (m_id (w_npc w n)) w) w4)" for w4 ids
    by (rule calm_for_players) simp
  let ?c = "w_npc w n" and ?t = "w_clock w (w_ticks w)"
  let ?s = "w\<lparr>w_sectors := update_object_sector (m_id ?c) ox oy (m_x ?c) (m_y ?c) (w_sectors w), w_ticks := Suc (w_ticks w)\<rparr>"
  let ?w3 = "upd_npc n (\<lambda>c. c\<lparr>m_last_npc_move_time := ?t\<rparr>) ?s"
  obtain nv w4 where s: "fold (show_move n) (nearby ?w3 (m_x ?c) (m_y ?c)) ([], ?w3) = (nv, w4)"
    by (cases "fold (show_move n) (nearby ?w3 (m_x ?c) (m_y ?c)) ([], ?w3)")
  have "calm ?w3 w4" using f [of "([], ?w3)" "nearby ?w3 (m_x ?c) (m_y ?c)"] s by simp
  moreover obtain ids where "update_viewers n ox oy w = for_players ids (\<lambda>i w. send_remove_object i (m_id (w_npc w n)) w) w4"
    unfolding update_viewers_def Let_def clock_now_def prod.case using s [simplified] by (simp split del: if_split)
  ultimately have "calm ?w3 (update_viewers n ox oy w)" using calm_trans [OF _ g] by simp
  then show ?thesis by (rule exI)
qed

lemma turn_walk:
  assumes w: "npc_up n w" and f: "npc_walks f" and t: "tile (m_x (f (w_npc w n))) (m_y (f (w_npc w n)))"
    and h: "hop (w_obstacle w) (npos w n) (m_x (f (w_npc w n)), m_y (f (w_npc w n)))"
  shows "turn n w (update_viewers n (m_x (w_npc w n)) (m_y (w_npc w n)) (upd_npc n f w))"
proof -
  let ?c = "w_npc w n" and ?w1 = "upd_npc n f w"
  let ?w2 = "?w1\<lparr>w_sectors := update_object_sector n (m_x ?c) (m_y ?c) (m_x (f ?c)) (m_y (f ?c)) (w_sectors w)\<rparr>"
  have id: "m_id ?c = n" using winvD(9) [of "{}" "{}" w n] w by (simp add: npc_up_def)
  obtain t where c: "calm (upd_npc n (\<lambda>c. c\<lparr>m_last_npc_move_time := t\<rparr>) (?w1\<lparr>w_sectors := update_object_sector (m_id (w_npc ?w1 n))
      (m_x ?c) (m_y ?c) (m_x (w_npc ?w1 n)) (m_y (w_npc ?w1 n)) (w_sectors ?w1), w_ticks := Suc (w_ticks ?w1)\<rparr>))
      (update_viewers n (m_x ?c) (m_y ?c) ?w1)"
    using update_viewers_calm by blast
  have e: "?w1\<lparr>w_sectors := update_object_sector (m_id (w_npc ?w1 n))
      (m_x ?c) (m_y ?c) (m_x (w_npc ?w1 n)) (m_y (w_npc ?w1 n)) (w_sectors ?w1), w_ticks := Suc (w_ticks ?w1)\<rparr>
      = ?w2\<lparr>w_ticks := Suc (w_ticks ?w2)\<rparr>"
    using f id by (simp add: upd_npc_def npc_walks_def)
  have u2: "npc_up n ?w2" by (rule winv_npc_walk [OF w f t])
  have n2: "npos ?w2 n = (m_x (f ?c), m_y (f ?c))" "w_obstacle ?w2 = w_obstacle w"
    by (simp_all add: npos_def upd_npc_def)
  have "keeps n ?w2 (update_viewers n (m_x ?c) (m_y ?c) ?w1)"
    by (rule keeps_trans [OF keeps_trans [OF keeps_ticks(1) keeps_set(4)] keeps_calm [OF c [unfolded e]]])
  then show ?thesis using u2 n2 h by (simp add: keeps_def turn_def)
qed

section \<open>Roaming and chasing\<close>

lemma step4_simps: "step4 (x, y) (x', y') \<longleftrightarrow> \<bar>x' - x\<bar> + \<bar>y' - y\<bar> = 1"
  by (auto simp: step4_def dirs_def)

lemma roam_step_fields [simp]:
  "m_id (roam_step obs r c) = m_id c" "m_state (roam_step obs r c) = m_state c" "m_hp (roam_step obs r c) = m_hp c"
  "m_origin_x (roam_step obs r c) = m_origin_x c" "m_origin_y (roam_step obs r c) = m_origin_y c"
  "m_npc_type (roam_step obs r c) = m_npc_type c" "m_max_hp (roam_step obs r c) = m_max_hp c" "m_target_id (roam_step obs r c) = m_target_id c"
  by (simp_all add: roam_step_def Let_def split: prod.split)

lemma roam_to_hop:
  assumes "tile (m_x c) (m_y c)" "roam_to r c = (x, y)"
  shows "(x, y) = (m_x c, m_y c) \<or> step4 (m_x c, m_y c) (x, y)" "tile x y"
  using assms by (auto simp: roam_to_def Let_def tile_def clamp_def wrap_simps step4_simps min_def max_def split: if_splits)

lemma return_to_hop:
  assumes "tile (m_x c) (m_y c)" "tile (m_origin_x c) (m_origin_y c)" "return_to c = (x, y)"
  shows "(x, y) = (m_x c, m_y c) \<or> step4 (m_x c, m_y c) (x, y)" "tile x y"
  using assms by (auto simp: return_to_def tile_def wrap_simps step4_simps split: if_splits)

lemma roam_step_hop:
  assumes "tile (m_x c) (m_y c)" "tile (m_origin_x c) (m_origin_y c)"
  shows "hop obs (m_x c, m_y c) (m_x (roam_step obs r c), m_y (roam_step obs r c))
    \<and> tile (m_x (roam_step obs r c)) (m_y (roam_step obs r c))"
proof -
  obtain nx ny where n: "roam_to r c = (nx, ny)" by (cases "roam_to r c")
  obtain rx ry where b: "return_to c = (rx, ry)" by (cases "return_to c")
  show ?thesis
    using roam_to_hop [OF assms(1) n] return_to_hop [OF assms b] assms(1)
    by (auto simp: roam_step_def n b hop_def)
qed

lemma turn_roam_walk: "turn n w (roam_walk n w)"
proof (cases "npc_up n w")
  case True
  obtain r w1 where r: "rand_next w = (r, w1)" by (cases "rand_next w")
  have e: "w1 = w\<lparr>w_rands := Suc (w_rands w)\<rparr>" using r by (simp add: rand_next_def)
  have u: "npc_up n w1" "npos w1 n = npos w n" "w_npc w1 = w_npc w" "w_obstacle w1 = w_obstacle w"
    using True keeps_ticks(2) [of n w] by (auto simp: e keeps_def npos_def)
  have ok: "npc_ok (w_npc w n)" using True winvD(3) [of "{}" "{}" w n] by (simp add: npc_up_def)
  then have h: "hop (w_obstacle w1) (npos w1 n) (m_x (roam_step (w_obstacle w1) r (w_npc w1 n)), m_y (roam_step (w_obstacle w1) r (w_npc w1 n)))"
    "tile (m_x (roam_step (w_obstacle w1) r (w_npc w1 n))) (m_y (roam_step (w_obstacle w1) r (w_npc w1 n)))"
    using roam_step_hop [of "w_npc w n" "w_obstacle w1" r] by (auto simp: npc_ok_def npos_def u(3))
  have "turn n w1 (roam_walk n w)"
    using turn_walk [where f = "roam_step (w_obstacle w1) r", OF u(1) _ h(2) h(1)] by (simp add: roam_walk_def r u(3) npc_walks_def Let_def)
  then show ?thesis by (rule keeps_turn [rotated]) (simp add: e)
qed (simp add: turn_def)

lemma turn_chase_walk:
  assumes "tile tx ty"
  shows "turn n w (chase_walk n tx ty w)"
proof (cases "npc_up n w")
  case True
  let ?c = "w_npc w n"
  obtain nx ny where a: "astar_next_step (w_obstacle w) (m_x ?c) (m_y ?c) tx ty = (nx, ny)"
    by (cases "astar_next_step (w_obstacle w) (m_x ?c) (m_y ?c) tx ty")
  have w: "winv {} w" "npc_ok ?c" using True winvD(3) [of "{}" "{}" w n] by (auto simp: npc_up_def)
  have t: "tile (m_x ?c) (m_y ?c)" using w(2) by (simp add: npc_ok_def)
  have h: "hop (w_obstacle w) (npos w n) (nx, ny) \<and> tile nx ny"
  proof (cases "(m_x ?c, m_y ?c) = (tx, ty)")
    case True
    then show ?thesis using a t by (simp add: astar_next_step_def hop_def npos_def)
  next
    case False
    from astar_answer_world [OF _ _ False, of "w_obstacle w"] a t assms
    have "(nx, ny) = (m_x ?c, m_y ?c) \<or> step4 (m_x ?c, m_y ?c) (nx, ny) \<and> \<not> w_obstacle w nx ny"
      by (auto simp: in_world_def tile_def box_free_def Let_def)
    moreover have "\<not> w_obstacle w nx ny \<Longrightarrow> tile nx ny" using winvD(5) [OF w(1)] by (auto simp: env_ok_def)
    ultimately show ?thesis using t by (auto simp: hop_def npos_def)
  qed
  let ?f = "\<lambda>c. if nx \<noteq> m_x ?c \<or> ny \<noteq> m_y ?c then c\<lparr>m_dir := face (m_x c) (m_y c) nx ny, m_x := nx, m_y := ny\<rparr> else c"
  have f: "npc_walks ?f" by (simp add: npc_walks_def)
  have "(m_x (?f ?c), m_y (?f ?c)) = (nx, ny)" by auto
  then have "turn n w (update_viewers n (m_x ?c) (m_y ?c) (upd_npc n ?f w))"
    using h by (intro turn_walk [OF True f]) simp_all
  moreover have "upd_npc n (\<lambda>c. c) w = w" by (simp add: upd_npc_def)
  ultimately show ?thesis by (cases "nx = m_x ?c"; cases "ny = m_y ?c"; simp add: chase_walk_def a Let_def)
qed (simp add: turn_def)

section \<open>The choice of the target\<close>

lemma scan_fold:
  assumes "fold (scan_one w c) is (d, t) = (d', t')"
  shows "d' \<le> d \<and> (t' = t \<and> d' = d \<or> t' \<in> set is \<and> eligible w c t' \<and> d' = tile_dist w c t')
    \<and> (\<forall>i \<in> set is. eligible w c i \<longrightarrow> d' \<le> tile_dist w c i)"
  using assms
proof (induction "is" arbitrary: d t)
  case (Cons i "is")
  obtain d1 t1 where s: "scan_one w c i (d, t) = (d1, t1)" by (cases "scan_one w c i (d, t)")
  then have "d1 \<le> d" "t1 = t \<and> d1 = d \<or> t1 = i \<and> eligible w c i \<and> d1 = tile_dist w c i"
    "eligible w c i \<longrightarrow> d1 \<le> tile_dist w c i"
    by (auto simp: scan_one_def split: if_splits)
  moreover have "fold (scan_one w c) is (d1, t1) = (d', t')" using Cons.prems s by simp
  note Cons.IH [OF this]
  ultimately show ?case by auto
qed simp

lemma eligible_dist: "eligible w c i \<Longrightarrow> tile_dist w c i \<le> 30"
  by (auto simp: eligible_def tile_dist_def detect_range_def split: if_splits)

lemma scan_target_cases:
  assumes "m_target_id (w_npc w n) = -1"
  defines "c \<equiv> w_npc w n" and "ids \<equiv> nearby w (m_x (w_npc w n)) (m_y (w_npc w n))"
  shows "scan_target w n = -1 \<and> (\<forall>i \<in> set ids. \<not> eligible w c i)
    \<or> scan_target w n \<in> set ids \<and> eligible w c (scan_target w n)
      \<and> (\<forall>i \<in> set ids. eligible w c i \<longrightarrow> tile_dist w c (scan_target w n) \<le> tile_dist w c i)"
proof -
  obtain d t where f: "fold (scan_one w c) ids (2147483647, -1) = (d, t)"
    by (cases "fold (scan_one w c) ids (2147483647, -1)")
  have s: "scan_target w n = t" using assms(1) f by (simp add: scan_target_def Let_def c_def ids_def)
  from scan_fold [OF f] eligible_dist [of w c] show ?thesis unfolding s by fastforce
qed

lemma scan_none_iff:
  assumes "m_target_id (w_npc w n) = -1" "\<not> w_live w (-1)"
  shows "scan_target w n = -1 \<longleftrightarrow>
    (\<forall>i \<in> set (nearby w (m_x (w_npc w n)) (m_y (w_npc w n))). \<not> eligible w (w_npc w n) i)"
  using scan_target_cases [OF assms(1)] assms(2) by (auto simp: eligible_def)

lemma get_object_pc: "is_pc i \<Longrightarrow> w_live w i \<Longrightarrow> get_object w i = Some (cobject.truncate (w_pl w i))"
  by (simp add: get_object_def)

lemma truncate_fields [simp]:
  "m_id (cobject.truncate s) = m_id s" "m_x (cobject.truncate s) = m_x s" "m_y (cobject.truncate s) = m_y s"
  "m_state (cobject.truncate s) = m_state s"
  by (simp_all add: cobject.truncate_def)

text \<open>What a chase goes after: a session in play, seen from where the NPC stands.\<close>

definition prey :: "world \<Rightarrow> int \<Rightarrow> int \<Rightarrow> bool" where
  "prey w n i \<longleftrightarrow> is_pc i \<and> w_live w i \<and> m_state (w_pl w i) = CS_PLAYING
    \<and> \<bar>m_x (w_npc w n) - m_x (w_pl w i)\<bar> \<le> detect_range (m_npc_type (w_npc w n))
    \<and> \<bar>m_y (w_npc w n) - m_y (w_pl w i)\<bar> \<le> detect_range (m_npc_type (w_npc w n))"

lemma target_valid_iff: "target_valid w n \<longleftrightarrow> prey w n (m_target_id (w_npc w n))"
  by (auto simp: target_valid_def prey_def get_object_def Let_def)

lemma eligible_prey: "eligible w (w_npc w n) i \<longleftrightarrow> prey w n i \<and> can_send (w_pl w i)"
  by (auto simp: eligible_def prey_def)

lemma set_target_simps [simp]:
  "w_live (set_target n t w) = w_live w" "w_pl (set_target n t w) = w_pl w" "w_sectors (set_target n t w) = w_sectors w"
  "w_npc (set_target n t w) n = (w_npc w n)\<lparr>m_target_id := t\<rparr>" "w_obstacle (set_target n t w) = w_obstacle w"
  "prey (set_target n t w) n = prey w n"
  by (simp_all add: set_target_def upd_npc_def prey_def fun_eq_iff)

lemma retarget_prey:
  assumes "m_target_id (w_npc (retarget n w) n) \<noteq> -1"
  shows "prey (retarget n w) n (m_target_id (w_npc (retarget n w) n))"
proof -
  define w1 where "w1 = (if m_target_id (w_npc w n) \<noteq> -1 \<and> \<not> target_valid w n then set_target n (-1) w else w)"
  have r: "retarget n w = (if m_target_id (w_npc w1 n) = -1 \<and> m_npc_type (w_npc w1 n) \<noteq> NPC_PEACE_TYPE
     then set_target n (scan_target w1 n) w1 else w1)"
    by (simp add: retarget_def w1_def Let_def)
  have v: "m_target_id (w_npc w1 n) = -1 \<or> prey w1 n (m_target_id (w_npc w1 n))"
    by (auto simp: w1_def target_valid_iff)
  show ?thesis
    using assms v scan_target_cases [of w1 n] by (auto simp: r eligible_prey split: if_splits)
qed

lemma keeps_retarget: "keeps n w (retarget m w)"
proof -
  have "keeps n w (if b then set_target m (scan_target w1 m) w1 else w1)" if "keeps n w w1" for b w1
    using keeps_trans [OF that keeps_set(1)] that by simp
  then show ?thesis by (simp add: retarget_def Let_def)
qed

lemma prey_good: "winv2 D E w \<Longrightarrow> prey w n (m_target_id (w_npc w n)) \<Longrightarrow> good_target w n"
  by (simp add: prey_def good_target_def mover_playing)

section \<open>One turn\<close>

lemma prey_tile: "winv2 D E w \<Longrightarrow> prey w n i \<Longrightarrow> tile (m_x (w_pl w i)) (m_y (w_pl w i))"
  using winvD(2) [of D E w i] by (simp add: prey_def player_ok_def)

lemma keeps_settle: "keeps n w (broadcast_npc_state m (set_move_state m st w))"
  by (rule keeps_trans [OF keeps_set(2) keeps_calm [OF calm_broadcasts(3)]])

lemma turn_chase:
  assumes "\<And>w. turn n w (roam n w)"
  shows "turn n w (chase_with roam n w)"
proof (cases "npc_up n w")
  case True
  define w1 where "w1 = retarget n w"
  let ?c = "w_npc w1 n"
  have k: "keeps n w w1" by (simp add: w1_def keeps_retarget)
  have u: "npc_up n w1" using k True by (simp add: keeps_def)
  have "turn n w1 (chase_with roam n w)"
  proof (cases "m_target_id ?c = -1")
    case True
    let ?w2 = "broadcast_npc_state n (set_move_state n (idle_state (m_npc_type ?c)) w1)"
    show ?thesis
      using keeps_turn [OF keeps_settle assms] turn_keeps [OF keeps_settle] True
      by (simp add: chase_with_def w1_def [symmetric] Let_def)
  next
    case False
    then have p: "prey w1 n (m_target_id ?c)" using retarget_prey [where w = w and n = n] by (simp add: w1_def)
    then have g: "good_target w1 n" "get_object w1 (m_target_id ?c) = Some (cobject.truncate (w_pl w1 (m_target_id ?c)))"
      using u prey_good [OF _ p] by (auto simp: npc_up_def prey_def get_object_pc)
    have t: "tile (m_x (w_pl w1 (m_target_id ?c))) (m_y (w_pl w1 (m_target_id ?c)))"
      using u p by (auto simp: npc_up_def intro: prey_tile)
    show ?thesis
      using False turn_keeps [OF keeps_area] turn_keeps [OF keeps_boss_attack [OF g(1)]]
        turn_keeps [OF keeps_npc_attack [OF g(1)]] turn_chase_walk [OF t]
      by (simp add: chase_with_def w1_def [symmetric] Let_def g(2))
  qed
  with k show ?thesis by (rule keeps_turn)
qed (simp add: turn_def)

lemma turn_roaming:
  assumes "\<And>w. turn n w (chase n w)"
  shows "turn n w (roaming_with chase n w)"
proof -
  define w1 where "w1 = (if m_npc_type (w_npc w n) \<noteq> NPC_PEACE_TYPE then set_target n (scan_target w n) w else w)"
  have "keeps n w w1" by (simp add: w1_def)
  moreover have "turn n w1 (roaming_with chase n w)"
    using keeps_turn [OF keeps_settle assms] turn_roam_walk
    by (simp add: roaming_with_def w1_def [symmetric] Let_def)
  ultimately show ?thesis by (rule keeps_turn)
qed

lemma turn_roam_fuel: "turn n w (roam_fuel k n w)"
proof (induction k arbitrary: w)
  case 0
  show ?case by (simp add: turn_keeps)
next
  case (Suc k)
  show ?case using turn_roaming [of n "chase_with (roam_fuel k)" w] turn_chase [of n "roam_fuel k"] Suc by simp
qed

lemma keeps_next_move: "keeps n w (next_move m w)"
proof -
  have "keeps n w (upd_npc m (\<lambda>c. let c1 = c\<lparr>m_active_npc := False\<rparr> in
      if m_npc_type c1 = NPC_AGRO_TYPE then c1\<lparr>m_target_id := -1\<rparr> else c1) w)"
    by (rule keeps_npc) (simp_all add: npc_stays_def Let_def)
  moreover have "keeps n w (push_timer m EVENT_NPC_MOVE t (w\<lparr>w_ticks := Suc (w_ticks w)\<rparr>))" for t
    by (rule keeps_trans [OF keeps_ticks(1) keeps_push]) simp
  ultimately show ?thesis by (simp add: next_move_def clock_now_def split: prod.split)
qed

lemma process_npc_move_turn:
  assumes "winv {} w"
  shows "process_npc_move n w = w \<or> npc_up n w \<and> turn n w (process_npc_move n w)"
proof (cases "w_live w n \<and> is_npc n \<and> m_hp (w_npc w n) > 0")
  case True
  then have u: "npc_up n w" using assms by (simp add: npc_up_def)
  have "turn n w (process_npc_move n w)"
    using turn_keeps [OF keeps_set(3)] turn_then_keeps [OF turn_roam_fuel [of n w 2] keeps_next_move [of n _ n]]
      turn_then_keeps [OF turn_chase [of n "roam_fuel 1" w] keeps_next_move [of n _ n]] turn_roam_fuel [of n _ 1] turn_keeps [OF keeps_refl, of n w]
    by (simp add: process_npc_move_def do_roaming_move_def do_chase_move_def split: option.split npc_state.split)
  with u show ?thesis by simp
next
  case False
  have "m_id (w_pl w n) < NPC_ID_START" if "is_pc n" using winvD(8) [OF assms that] that by (simp add: is_pc_def)
  with False show ?thesis
    by (auto simp: process_npc_move_def get_object_def pc_npc)
qed

text \<open>
  C19: An NPC's turn (the move timer) keeps the server's invariant. The NPC ends where it was or
  on one of the four tiles beside it, and never on an obstacle, whatever the turn was: roaming,
  going back to its origin, chasing along the path search, attacking, killing its target.
\<close>

theorem npc_move_safe:
  assumes "winv {} w"
  shows "winv {} (process_npc_move n w)
    \<and> hop (w_obstacle w) (npos w n) (npos (process_npc_move n w) n)
    \<and> (npc_up n w \<longrightarrow> npc_up n (process_npc_move n w))"
  using process_npc_move_turn [OF assms, of n] assms
  by (auto simp: turn_def npc_up_def hop_def)

theorem npc_move_safe_witness:
  "winv {} (process_npc_move 10000 (arena 20)) \<and> npc_up 10000 (process_npc_move 10000 (arena 20))"
  using npc_move_safe [OF arena20(1), of 10000] arena20(1)
  by (simp add: npc_up_def arena_fields is_npc_def)

section \<open>The end of the recursion\<close>

lemma nearby_iff:
  assumes "winv2 D E w" "tile x y" "w_live w i"
  shows "i \<in> set (nearby w x y) \<longleftrightarrow>
    (\<exists>u v. positions D w i = Some (u, v) \<and> \<bar>u div 11 - x div 11\<bar> \<le> 1 \<and> \<bar>v div 11 - y div 11\<bar> \<le> 1)"
proof -
  have s: "sectors_track (only (w_live w) (w_sectors w)) (positions D w)" by (rule winvD(7) [OF assms(1)])
  have "i \<in> set (nearby w x y) \<longleftrightarrow> i \<in> set (get_objects_in_adjacent_sectors x y (only (w_live w) (w_sectors w)))"
    using assms(3) by (simp add: near_only nearby_def)
  also have "\<dots> \<longleftrightarrow> (\<exists>u v. positions D w i = Some (u, v) \<and> sector_id u v \<in> set (adjacent_sectors x y))"
    using s by (auto simp: get_objects_in_adjacent_sectors_def sectors_track_def)
  also have "\<dots> \<longleftrightarrow> (\<exists>u v. positions D w i = Some (u, v) \<and> \<bar>u div 11 - x div 11\<bar> \<le> 1 \<and> \<bar>v div 11 - y div 11\<bar> \<le> 1)"
    using adjacent_iff [OF assms(2)] s by (auto simp: sectors_track_def)
  finally show ?thesis .
qed

text \<open>A player who can be seen after sends and broadcasts could be seen before them.\<close>

lemma nearby_calm:
  assumes "winv2 D E w" "calm w w'" "tile x y" "w_live w' i" "is_pc i" "i \<in> set (nearby w' x y)"
  shows "i \<in> set (nearby w x y)"
proof -
  have l: "w_live w i" "m_state (w_pl w' i) = m_state (w_pl w i)" using calmD(11,12) [OF assms(2,4)] by auto
  have "positions D w' i = positions D w i"
    using assms(4,5) l calm_pl(2,3) [OF assms(2), of i] by (simp add: positions_def)
  with assms(6) show ?thesis
    by (simp add: nearby_iff [OF winv_calm [OF assms(1,2)] assms(3,4)] nearby_iff [OF assms(1,3) l(1)])
qed

lemma eligible_calm:
  assumes "calm w w'" "eligible w' (w_npc w' n) i"
  shows "eligible w (w_npc w n) i"
  using assms(2) calmD(11-13) [OF assms(1), of i] calm_pl(1-3) [OF assms(1), of i] calm_npc(2,3) [OF assms(1), of n]
    npc_body_eqD [OF calmD(10) [OF assms(1)], of n]
  by (auto simp: eligible_def can_send_def)

text \<open>Once a scan found nobody, a scan after the broadcast of the new state finds nobody.\<close>

lemma scan_still_none:
  fixes st :: npc_state
  assumes w: "npc_up n w" "\<not> w_live w (-1)" and none: "m_target_id (w_npc w n) = -1" "scan_target w n = -1"
  defines "w' \<equiv> broadcast_npc_state n (set_move_state n st w)"
  shows "m_target_id (w_npc w' n) = -1" "scan_target w' n = -1"
proof -
  let ?s = "set_move_state n st w"
  have c: "calm ?s w'" by (simp add: w'_def)
  have k: "npc_up n ?s" using keeps_set(2) [of n w n st] w(1) by (simp add: keeps_def)
  have s: "w_live ?s = w_live w" "w_pl ?s = w_pl w" "w_sectors ?s = w_sectors w" "m_x (w_npc ?s n) = m_x (w_npc w n)"
    "m_y (w_npc ?s n) = m_y (w_npc w n)" "m_target_id (w_npc ?s n) = m_target_id (w_npc w n)"
    "m_npc_type (w_npc ?s n) = m_npc_type (w_npc w n)"
    by (simp_all add: set_move_state_def upd_npc_def)
  have e: "eligible ?s (w_npc ?s n) i = eligible w (w_npc w n) i" for i
    by (simp add: eligible_def s)
  have none': "\<forall>i \<in> set (nearby ?s (m_x (w_npc ?s n)) (m_y (w_npc ?s n))). \<not> eligible ?s (w_npc ?s n) i"
    using none scan_none_iff [OF none(1) w(2)] by (simp add: nearby_def s e [unfolded s])
  show t: "m_target_id (w_npc w' n) = -1"
    using npc_body_eqD(9) [OF calmD(10) [OF c], of n] s none(1) by simp
  have l: "\<not> w_live w' (-1)" using calmD(11) [OF c, of "-1"] s w(2) by auto
  have p: "m_x (w_npc w' n) = m_x (w_npc ?s n)" "m_y (w_npc w' n) = m_y (w_npc ?s n)"
    using calm_npc(2,3) [OF c, of n] by simp_all
  have tile: "tile (m_x (w_npc ?s n)) (m_y (w_npc ?s n))"
    using winvD(3) [of "{}" "{}" ?s n] k by (simp add: npc_up_def npc_ok_def)
  have "\<not> eligible w' (w_npc w' n) i" if "i \<in> set (nearby w' (m_x (w_npc w' n)) (m_y (w_npc w' n)))" for i
  proof
    assume el: "eligible w' (w_npc w' n) i"
    then have "i \<in> set (nearby ?s (m_x (w_npc ?s n)) (m_y (w_npc ?s n)))"
      using nearby_calm [OF _ c tile, of "{}" "{}" i] k that by (simp add: npc_up_def eligible_def p)
    with eligible_calm [OF c el] none' show False by simp
  qed
  then show "scan_target w' n = -1" using scan_none_iff [OF t l] by simp
qed

text \<open>Roaming that finds nobody does not chase.\<close>

lemma set_target_same: "m_target_id (w_npc w n) = t \<Longrightarrow> set_target n t w = w"
  by (simp add: set_target_def upd_npc_def fun_upd_idem)

lemma roaming_alone:
  assumes "m_target_id (w_npc w n) = -1" "scan_target w n = -1"
  shows "roaming_with chase n w = roam_walk n w"
  using assms by (simp add: roaming_with_def set_target_same Let_def)

lemma retarget_none:
  assumes "m_target_id (w_npc (retarget n w) n) = -1" "m_npc_type (w_npc w n) \<noteq> NPC_PEACE_TYPE"
  shows "scan_target (retarget n w) n = -1"
proof -
  define w1 where "w1 = (if m_target_id (w_npc w n) \<noteq> -1 \<and> \<not> target_valid w n then set_target n (-1) w else w)"
  have t: "m_npc_type (w_npc w1 n) \<noteq> NPC_PEACE_TYPE" using assms(2) by (simp add: w1_def)
  have r: "retarget n w = (if m_target_id (w_npc w1 n) = -1 then set_target n (scan_target w1 n) w1 else w1)"
    using t by (simp add: retarget_def w1_def Let_def)
  show ?thesis using assms(1) by (auto simp: r set_target_same split: if_splits)
qed

lemma chase_depth:
  assumes w: "npc_up n w" "\<not> w_live w (-1)"
  shows "chase_with (roaming_with f) n w = chase_with (roaming_with g) n w"
proof (cases "m_target_id (w_npc (retarget n w) n) = -1 \<and> m_npc_type (w_npc (retarget n w) n) \<noteq> NPC_PEACE_TYPE")
  case True
  let ?w1 = "retarget n w"
  have ty: "m_npc_type (w_npc ?w1 n) = m_npc_type (w_npc w n)" and l: "w_live ?w1 = w_live w"
    by (simp_all add: retarget_def Let_def)
  have u: "npc_up n ?w1" using keeps_retarget [of n w n] w(1) by (simp add: keeps_def)
  note s = scan_still_none [OF u _ conjunct1 [OF True] retarget_none]
  have "roaming_with f n (broadcast_npc_state n (set_move_state n st ?w1))
      = roaming_with g n (broadcast_npc_state n (set_move_state n st ?w1))" for st
    using s [of st] True w(2) by (simp add: roaming_alone ty l)
  then show ?thesis using True by (simp add: chase_with_def Let_def)
next
  case False
  then show ?thesis by (auto simp: chase_with_def Let_def)
qed

lemma live_settle: "\<not> w_live w i \<Longrightarrow> \<not> w_live (broadcast_npc_state n (set_move_state n st (set_target n t w))) i"
  using calmD(11) [OF calm_broadcasts(3), of n "set_move_state n st (set_target n t w)" i]
  by (auto simp: set_move_state_def upd_npc_def)

lemma chase_ends:
  "npc_up n w \<Longrightarrow> \<not> w_live w (-1) \<Longrightarrow> chase_with (roam_fuel (Suc m)) n w = do_chase_move n w"
  unfolding do_chase_move_def One_nat_def roam_fuel.simps by (rule chase_depth)

lemma no_minus_one: "winv2 D E w \<Longrightarrow> \<not> w_live w (-1)"
  using winvD(5) [of D E w] by (force simp: env_ok_def is_pc_def)

lemma roaming_ends:
  assumes w: "npc_up n w" "\<not> w_live w (-1)"
  shows "roam_fuel (Suc (Suc m)) n w = do_roaming_move n w"
proof -
  let ?t = "scan_target w n"
  let ?v = "broadcast_npc_state n (set_move_state n NPC_STATE_CHASE (set_target n ?t w))"
  have "npc_up n ?v" "\<not> w_live ?v (-1)"
    using keeps_trans [OF keeps_set(1) [of n w n ?t] keeps_settle [of n _ n NPC_STATE_CHASE]] w live_settle
    by (auto simp: keeps_def)
  from chase_ends [OF this, of m] chase_ends [OF this, of 0]
  have "chase_with (roam_fuel (Suc m)) n ?v = chase_with (roam_fuel (Suc 0)) n ?v" by simp
  then show ?thesis
    unfolding do_roaming_move_def numeral_2_eq_2 roam_fuel.simps(2) [of "Suc m"] roam_fuel.simps(2) [of "Suc 0"]
    by (simp add: roaming_with_def Let_def del: roam_fuel.simps)
qed

text \<open>
  C26: The mutual recursion of roaming and chasing ends: a chase that finds nobody roams, and that
  roaming finds nobody either (what was broadcast in between can only close sessions), so it
  walks. Deeper recursion than the two levels of \<open>do_roaming_move\<close> and the one of
  \<open>do_chase_move\<close> is never entered.
\<close>

theorem npc_recursion_ends:
  assumes "npc_up n w"
  shows "roam_fuel (Suc (Suc m)) n w = do_roaming_move n w
    \<and> chase_with (roam_fuel (Suc m)) n w = do_chase_move n w"
proof -
  have "\<not> w_live w (-1)" using assms no_minus_one by (auto simp: npc_up_def)
  from roaming_ends [OF assms this] chase_ends [OF assms this] show ?thesis by blast
qed

theorem npc_recursion_ends_witness:
  "roam_fuel (Suc (Suc 5)) 10000 (arena 20) = do_roaming_move 10000 (arena 20)"
  using npc_recursion_ends [of 10000 "arena 20" 5] arena20(1)
  by (simp add: npc_up_def arena_fields is_npc_def)

text \<open>
  The target an NPC without one picks is a nearest of the players it may pick: in play,
  reachable, within the detection range and in the sectors around. It picks none only when there
  is none.
\<close>

theorem nearest_target:
  assumes "m_target_id (w_npc w n) = -1" "\<not> w_live w (-1)"
  shows "(scan_target w n = -1 \<longleftrightarrow> (\<forall>i \<in> set (nearby w (m_x (w_npc w n)) (m_y (w_npc w n))). \<not> eligible w (w_npc w n) i))
    \<and> (scan_target w n \<noteq> -1 \<longrightarrow> eligible w (w_npc w n) (scan_target w n)
        \<and> scan_target w n \<in> set (nearby w (m_x (w_npc w n)) (m_y (w_npc w n)))
        \<and> (\<forall>i \<in> set (nearby w (m_x (w_npc w n)) (m_y (w_npc w n))). eligible w (w_npc w n) i \<longrightarrow>
            tile_dist w (w_npc w n) (scan_target w n) \<le> tile_dist w (w_npc w n) i))"
  using scan_target_cases [OF assms(1)] scan_none_iff [OF assms] by auto

theorem nearest_target_witness:
  "scan_target (arena 20) 10000 = 1"
proof -
  have c: "m_target_id (w_npc (arena 20) 10000) = -1" "m_x (w_npc (arena 20) 10000) = 1000" "m_y (w_npc (arena 20) 10000) = 101"
    by (simp_all add: arena_fields new_npc_def)
  have "1 \<in> set (nearby (arena 20) 1000 101)"
    by (subst nearby_iff [OF arena20(1)]) (simp_all add: arena_fields tile_def positions_def is_pc_def new_session_def)
  moreover have "eligible (arena 20) (w_npc (arena 20) 10000) i \<longleftrightarrow> i = 1" for i
    by (auto simp: eligible_def arena_fields is_pc_def new_session_def can_send_def detect_range_def c)
  ultimately show ?thesis using nearest_target [OF c(1)] by (auto simp: arena_fields c)
qed

end
