(* ===== verification/NpcLife.thy ===== *)
theory NpcLife
  imports NpcSafe
begin

text \<open>
  What an attack of an NPC does to its target, and the return of a dead NPC: the respawn pays
  what the death left open in the invariant.
\<close>

section \<open>The attack on a player\<close>

definition wound :: "int \<Rightarrow> session \<Rightarrow> session" where
  "wound d s =
    (if s16 (m_hp s - d) \<le> 0
     then s\<lparr>m_xp := cdiv (m_xp s) 2, m_hp := m_max_hp s, m_x := PC_SPAWN_X, m_y := PC_SPAWN_Y\<rparr>
     else s\<lparr>m_hp := s16 (m_hp s - d)\<rparr>)"

lemma body_upds [simp]:
  "body (s\<lparr>m_xp := p\<rparr>) = (body s)\<lparr>m_xp := p\<rparr>" "body (s\<lparr>m_hp := h\<rparr>) = (body s)\<lparr>m_hp := h\<rparr>" "body (s\<lparr>m_x := x, m_y := y\<rparr>) = (body s)\<lparr>m_x := x, m_y := y\<rparr>"
  "body (s\<lparr>m_xp := p, m_hp := h\<rparr>) = (body s)\<lparr>m_xp := p, m_hp := h\<rparr>"
  "body (s\<lparr>m_xp := p, m_hp := h, m_x := x, m_y := y\<rparr>) = (body s)\<lparr>m_xp := p, m_hp := h, m_x := x, m_y := y\<rparr>"
  by (simp_all add: body_def)

lemma body_reads [simp]:
  "m_hp (body s) = m_hp s" "m_max_hp (body s) = m_max_hp s" "m_xp (body s) = m_xp s" "m_x (body s) = m_x s" "m_y (body s) = m_y s"
  by (simp_all add: body_def)

lemma die_body:
  "body (w_pl (player_die k w) j) =
    (if j = k then (body (w_pl w k))\<lparr>m_xp := cdiv (m_xp (w_pl w k)) 2, m_hp := m_max_hp (w_pl w k),
        m_x := PC_SPAWN_X, m_y := PC_SPAWN_Y\<rparr> else body (w_pl w j))"
  unfolding player_die_alt Let_def calmD(9) [OF calm_die_tail]
  by (simp add: relocate_def upd_pl_def Let_def)

lemma die_npc: "npc_body (w_npc (player_die k w) n) = npc_body (w_npc w n)"
  unfolding player_die_alt Let_def calmD(10) [OF calm_die_tail]
  by (simp add: relocate_def upd_pl_def Let_def)

lemma hurt_exact:
  assumes "hurt m k b w = (r, w1)"
  defines "d \<equiv> guarded b (w_clock w (w_ticks w)) (m_def_boost_until (w_pl w k))"
  shows "r = s16 (m_hp (w_pl w k) - d)"
    "body (w_pl w1 j) = (if j = k then (body (w_pl w k))\<lparr>m_hp := r\<rparr> else body (w_pl w j))"
    "npc_body (w_npc w1 n) = npc_body (w_npc w n)"
proof -
  let ?w2 = "upd_pl k (\<lambda>s. s\<lparr>m_hp := s16 (m_hp s - d)\<rparr>) (w\<lparr>w_ticks := Suc (w_ticks w)\<rparr>)"
  show r: "r = s16 (m_hp (w_pl w k) - d)"
    using assms(1) by (auto simp: hurt_def clock_now_def Let_def upd_pl_def d_def)
  have "w1 = for_players (nearby ?w2 (m_x (w_npc w m)) (m_y (w_npc w m)))
      (\<lambda>i. send_damage_info i (m_id (w_npc w m)) k d (m_hp (w_pl ?w2 k))) ?w2"
    using assms(1) by (auto simp: hurt_def clock_now_def Let_def upd_pl_def d_def)
  then have c: "calm ?w2 w1" using calm_damage by simp
  show "body (w_pl w1 j) = (if j = k then (body (w_pl w k))\<lparr>m_hp := r\<rparr> else body (w_pl w j))"
    unfolding calmD(9) [OF c] by (simp add: upd_pl_def r)
  show "npc_body (w_npc w1 n) = npc_body (w_npc w n)"
    unfolding calmD(10) [OF c] by (simp add: upd_pl_def)
qed

lemma set_target_pl [simp]: "w_pl (set_move_state n st w) = w_pl w"
  by (simp add: set_move_state_def upd_npc_def)

lemma settle_pl: "body (w_pl (broadcast_npc_state n w) j) = body (w_pl w j)"
  "m_target_id (w_npc (broadcast_npc_state n w) m) = m_target_id (w_npc w m)"
  using calmD(9) [OF calm_broadcasts(3)] npc_body_eqD(9) [OF calmD(10) [OF calm_broadcasts(3)]] by blast+

lemma npc_attack_alt:
  assumes "can_send (w_pl w (m_target_id (w_npc w n)))"
  defines "k \<equiv> m_target_id (w_npc w n)"
  defines "d \<equiv> guarded 8 (w_clock w (w_ticks w)) (m_def_boost_until (w_pl w k))"
  shows "body (w_pl (npc_attack n w) j) = (if j = k then wound d (body (w_pl w k)) else body (w_pl w j))"
    and "m_target_id (w_npc (npc_attack n w) n) = (if s16 (m_hp (w_pl w k) - d) \<le> 0 then -1 else k)"
proof -
  obtain r w1 where h: "hurt n k 8 w = (r, w1)" by (cases "hurt n k 8 w")
  note e = hurt_exact [OF h, folded d_def]
  have r: "m_hp (w_pl w1 k) = r" "m_max_hp (w_pl w1 k) = m_max_hp (w_pl w k)" "m_xp (w_pl w1 k) = m_xp (w_pl w k)"
    using arg_cong [OF e(2) [of k], of m_hp] arg_cong [OF e(2) [of k], of m_max_hp] arg_cong [OF e(2) [of k], of m_xp]
    by simp_all
  have t: "m_target_id (w_npc (send_hp k r w1) n) = k"
    using npc_body_eqD(9) [OF calmD(10) [OF calm_send_hp]] npc_body_eqD(9) [OF e(3), of n] by (simp add: k_def)
  have u: "npc_attack n w = (if r \<le> 0
      then let w2 = set_target n (-1) (player_die k w1) in broadcast_npc_state n (set_move_state n
        (if m_npc_type (w_npc w2 n) = NPC_AGRO_TYPE then NPC_STATE_ROAMING else NPC_STATE_IDLE) w2)
      else send_hp k r w1)"
    using assms(1) by (simp add: npc_attack_def Let_def h k_def [symmetric])
  have v: "m_target_id (w_npc (set_move_state n st w) n) = m_target_id (w_npc w n)" for st w
    by (simp add: set_move_state_def upd_npc_def)
  show "body (w_pl (npc_attack n w) j) = (if j = k then wound d (body (w_pl w k)) else body (w_pl w j))"
    using e(1) r by (auto simp: u Let_def settle_pl die_body e(2) wound_def calmD(9) [OF calm_send_hp])
  show "m_target_id (w_npc (npc_attack n w) n) = (if s16 (m_hp (w_pl w k) - d) \<le> 0 then -1 else k)"
    using e(1) t by (simp add: u Let_def settle_pl v)
qed

lemma boss_attack_alt:
  fixes b :: int
  assumes "can_send (w_pl w (m_target_id (w_npc w n)))"
  defines "k \<equiv> m_target_id (w_npc w n)"
  defines "d \<equiv> guarded b (w_clock w (w_ticks w)) (m_def_boost_until (w_pl w k))"
  shows "body (w_pl (boss_attack n b w) j) = (if j = k then wound d (body (w_pl w k)) else body (w_pl w j))"
    and "m_target_id (w_npc (boss_attack n b w) n) = (if s16 (m_hp (w_pl w k) - d) \<le> 0 then -1 else k)"
proof -
  obtain r w1 where h: "hurt n k b w = (r, w1)" by (cases "hurt n k b w")
  note e = hurt_exact [OF h, folded d_def]
  have r: "m_hp (w_pl w1 k) = r" "m_max_hp (w_pl w1 k) = m_max_hp (w_pl w k)" "m_xp (w_pl w1 k) = m_xp (w_pl w k)"
    using arg_cong [OF e(2) [of k], of m_hp] arg_cong [OF e(2) [of k], of m_max_hp] arg_cong [OF e(2) [of k], of m_xp]
    by simp_all
  have t: "m_target_id (w_npc (send_hp k r w1) n) = k"
    using npc_body_eqD(9) [OF calmD(10) [OF calm_send_hp]] npc_body_eqD(9) [OF e(3), of n] by (simp add: k_def)
  have u: "boss_attack n b w = (if r \<le> 0 then set_target n (-1) (player_die k w1) else send_hp k r w1)"
    using assms(1) by (simp add: boss_attack_def Let_def h k_def [symmetric])
  show "body (w_pl (boss_attack n b w) j) = (if j = k then wound d (body (w_pl w k)) else body (w_pl w j))"
    using e(1) r by (auto simp: u settle_pl die_body e(2) wound_def calmD(9) [OF calm_send_hp])
  show "m_target_id (w_npc (boss_attack n b w) n) = (if s16 (m_hp (w_pl w k) - d) \<le> 0 then -1 else k)"
    using e(1) t by (simp add: u)
qed

text \<open>
  C22: The attack of an agro or peaceful NPC, and that of a boss in its first two phases, on a
  target that can be sent to hurts the target and nobody else: eight points, 20 in a boss's first
  and 30 in its second phase, half of it under the defence boost. A target left without hit points
  is back at the spawn point with full hit points and half its experience, and the NPC drops it;
  otherwise it keeps it.
\<close>

theorem npc_attack_hits:
  assumes "can_send (w_pl w (m_target_id (w_npc w n)))"
    and "(f, b) \<in> {(npc_attack n, 8), (boss_attack n 20, 20), (boss_attack n 30, 30)}"
  defines "k \<equiv> m_target_id (w_npc w n)"
  defines "d \<equiv> guarded b (w_clock w (w_ticks w)) (m_def_boost_until (w_pl w k))"
  shows "body (w_pl (f w) k) = wound d (body (w_pl w k))
    \<and> (\<forall>j. j \<noteq> k \<longrightarrow> body (w_pl (f w) j) = body (w_pl w j))
    \<and> m_target_id (w_npc (f w) n) = (if s16 (m_hp (w_pl w k) - d) \<le> 0 then -1 else k)"
  using npc_attack_alt [OF assms(1)] boss_attack_alt [OF assms(1)] assms(2) by (auto simp: k_def d_def)

theorem npc_attack_hits_witness:
  "let w = upd_pl 1 (\<lambda>s. s\<lparr>m_hp := 5, m_xp := 40\<rparr>) (set_target 10000 1 (arena 20)) in
     m_hp (w_pl (npc_attack 10000 w) 1) = 100 \<and> m_xp (w_pl (npc_attack 10000 w) 1) = 20
     \<and> m_target_id (w_npc (npc_attack 10000 w) 10000) = -1"
proof -
  let ?w = "upd_pl 1 (\<lambda>s. s\<lparr>m_hp := 5, m_xp := 40\<rparr>) (set_target 10000 1 (arena 20))"
  have t: "m_target_id (w_npc ?w 10000) = 1" by (simp add: upd_pl_def)
  have d: "guarded 8 (w_clock ?w i) (m_def_boost_until (w_pl ?w 1)) = 8" for i
    by (simp add: upd_pl_def set_target_def upd_npc_def arena_def init_world_def new_session_def guarded_def)
  have p: "m_hp (w_pl ?w 1) = 5" "m_xp (w_pl ?w 1) = 40" "m_max_hp (w_pl ?w 1) = 100"
    by (simp_all add: upd_pl_def arena_fields new_session_def)
  have "can_send (w_pl ?w 1)" by (simp add: upd_pl_def arena_fields new_session_def can_send_def)
  from npc_attack_hits [of ?w 10000 "npc_attack 10000" 8, unfolded t d, OF this] p
  have b: "body (w_pl (npc_attack 10000 ?w) 1) = wound 8 (body (w_pl ?w 1))"
    "m_target_id (w_npc (npc_attack 10000 ?w) 10000) = -1" by (auto simp: s16_def)
  show ?thesis
    using arg_cong [OF b(1), of m_hp] arg_cong [OF b(1), of m_xp] b(2) p by (simp add: wound_def s16_def cdiv_def)
qed

section \<open>The area attack\<close>

text \<open>Whom the area attack of a boss reaches.\<close>

definition in_area :: "world \<Rightarrow> int \<Rightarrow> int \<Rightarrow> bool" where
  "in_area w n i \<longleftrightarrow> is_pc i \<and> w_live w i \<and> m_state (w_pl w i) = CS_PLAYING \<and> can_send (w_pl w i)
    \<and> \<bar>m_x (w_npc w n) - m_x (w_pl w i)\<bar> \<le> BOSS_AREA_RANGE \<and> \<bar>m_y (w_npc w n) - m_y (w_pl w i)\<bar> \<le> BOSS_AREA_RANGE"

text \<open>Sessions that stay keep their state and their socket; and the NPCs stay where they are.\<close>

definition stay_open :: "world \<Rightarrow> world \<Rightarrow> bool" where
  "stay_open w w' \<longleftrightarrow> w_clock w' = w_clock w \<and> (\<forall>j. w_live w' j \<longrightarrow> w_live w j \<and> m_state (w_pl w' j) = m_state (w_pl w j) \<and> m_client (w_pl w' j) = m_client (w_pl w j))
    \<and> (\<forall>j. m_id (w_pl w' j) = m_id (w_pl w j) \<and> m_def_boost_until (w_pl w' j) = m_def_boost_until (w_pl w j))
    \<and> (\<forall>m. m_x (w_npc w' m) = m_x (w_npc w m) \<and> m_y (w_npc w' m) = m_y (w_npc w m))"

lemma stay_open_trans: "stay_open a b \<Longrightarrow> stay_open b c \<Longrightarrow> stay_open a c"
  by (simp add: stay_open_def)

lemma stay_open_calm: "calm w w' \<Longrightarrow> stay_open w w'"
  using calmD(5,11-13) [of w w'] calm_pl(1,16) [of w w'] calm_npc(2,3) [of w w'] by (auto simp: stay_open_def)

lemma stay_open_die: "stay_open w (player_die k w)"
proof -
  have "stay_open w (relocate k PC_SPAWN_X PC_SPAWN_Y (upd_pl k (\<lambda>s. s\<lparr>m_xp := cdiv (m_xp s) 2, m_hp := m_max_hp s\<rparr>) w))"
    by (simp add: stay_open_def relocate_def upd_pl_def Let_def)
  then show ?thesis
    unfolding player_die_alt Let_def by (rule stay_open_trans [OF _ stay_open_calm [OF calm_die_tail]])
qed

lemma stay_open_hurt: "hurt m k b w = (r, w1) \<Longrightarrow> stay_open w w1"
proof (erule hurt_split)
  fix d assume "calm (upd_pl k (\<lambda>s. s\<lparr>m_hp := s16 (m_hp s - d)\<rparr>) (w\<lparr>w_ticks := Suc (w_ticks w)\<rparr>)) w1"
  from stay_open_calm [OF this] show "stay_open w w1"
    by (rule stay_open_trans [rotated]) (simp add: stay_open_def upd_pl_def)
qed

lemma area_one_alt:
  "stay_open w (area_one n i w)"
  "body (w_pl (area_one n i w) j) =
    (if j = i \<and> in_area w n i
     then wound (guarded 45 (w_clock w (w_ticks w)) (m_def_boost_until (w_pl w i))) (body (w_pl w i)) else body (w_pl w j))"
proof -
  obtain r w1 where h: "hurt n i 45 w = (r, w1)" by (cases "hurt n i 45 w")
  note e = hurt_exact [OF h]
  have r: "m_hp (w_pl w1 i) = r" "m_max_hp (w_pl w1 i) = m_max_hp (w_pl w i)" "m_xp (w_pl w1 i) = m_xp (w_pl w i)"
    using arg_cong [OF e(2) [of i], of m_hp] arg_cong [OF e(2) [of i], of m_max_hp] arg_cong [OF e(2) [of i], of m_xp]
    by simp_all
  let ?die = "player_die i w1"
  have u: "area_one n i w = (if \<not> in_area w n i then w
      else if r \<le> 0 then (if i = m_target_id (w_npc ?die n) then set_target n (-1) ?die else ?die) else send_hp i r w1)"
    by (simp add: area_one_def in_area_def Let_def h)
  have t: "stay_open v (set_target n x v)" for v x by (simp add: stay_open_def set_target_def upd_npc_def)
  show "stay_open w (area_one n i w)"
    using stay_open_trans [OF stay_open_hurt [OF h] stay_open_die]
      stay_open_trans [OF stay_open_trans [OF stay_open_hurt [OF h] stay_open_die] t]
      stay_open_trans [OF stay_open_hurt [OF h] stay_open_calm [OF calm_send_hp]]
    by (simp add: u) (simp add: stay_open_def)
  have p: "w_pl (set_target n x v) = w_pl v" for x v by (simp add: set_target_def upd_npc_def)
  show "body (w_pl (area_one n i w) j) =
    (if j = i \<and> in_area w n i
     then wound (guarded 45 (w_clock w (w_ticks w)) (m_def_boost_until (w_pl w i))) (body (w_pl w i)) else body (w_pl w j))"
    using e(1) r by (auto simp: u p die_body e(2) wound_def calmD(9) [OF calm_send_hp])
qed

lemma in_area_later:
  assumes "stay_open w w'" "body (w_pl w' j) = body (w_pl w j)" "w_live w' j"
  shows "in_area w' n j = in_area w n j"
  using assms body_eqD(2,3) [OF assms(2)] by (auto simp: in_area_def stay_open_def can_send_def)

lemma area_fold:
  assumes "distinct (filter (w_live w) ids)"
  shows "stay_open w (fold (area_one n) ids w)
    \<and> (\<forall>j. \<not> (j \<in> set ids \<and> in_area w n j) \<longrightarrow> body (w_pl (fold (area_one n) ids w) j) = body (w_pl w j))
    \<and> (\<forall>j. j \<in> set ids \<and> in_area w n j \<and> w_live (fold (area_one n) ids w) j \<longrightarrow>
      (\<exists>t. body (w_pl (fold (area_one n) ids w) j) = wound (guarded 45 (w_clock w t) (m_def_boost_until (w_pl w j))) (body (w_pl w j))))"
  using assms
proof (induction ids arbitrary: w)
  case Nil
  then show ?case by (simp add: stay_open_def)
next
  case (Cons i ids)
  let ?w1 = "area_one n i w" and ?w2 = "fold (area_one n) ids (area_one n i w)"
  note one = area_one_alt(1) [of w n i] area_one_alt(2) [of n i w]
  have live: "w_live ?w1 k \<Longrightarrow> w_live w k" for k using one(1) by (simp add: stay_open_def)
  have "filter (w_live ?w1) ids = filter (w_live ?w1) (filter (w_live w) ids)" using live by (induction ids) auto
  moreover have "distinct (filter (w_live w) ids)" using Cons.prems by (simp split: if_splits)
  ultimately have "distinct (filter (w_live ?w1) ids)" using distinct_filter by metis
  note IH = Cons.IH [OF this]
  have so: "stay_open w ?w2" using stay_open_trans [OF one(1)] IH by blast
  have same: "body (w_pl ?w1 j) = body (w_pl w j)" if "\<not> (j = i \<and> in_area w n i)" for j
    by (subst one(2)) (use that in auto)
  have keep: "body (w_pl ?w2 j) = body (w_pl w j)" if "\<not> (j \<in> set (i # ids) \<and> in_area w n j)" for j
  proof -
    have b: "body (w_pl ?w1 j) = body (w_pl w j)" by (rule same) (use that in auto)
    have "\<not> (j \<in> set ids \<and> in_area ?w1 n j)"
      using that in_area_later [OF one(1) b, of n] by (auto simp: in_area_def)
    then show ?thesis using IH b by simp
  qed
  have hit: "\<exists>t. body (w_pl ?w2 j) = wound (guarded 45 (w_clock w t) (m_def_boost_until (w_pl w j))) (body (w_pl w j))"
    if j: "j \<in> set (i # ids)" "in_area w n j" "w_live ?w2 j" for j
  proof -
    have l: "w_live ?w1 j" "w_live w j" using j(3) IH live by (auto simp: stay_open_def)
    show ?thesis
    proof (cases "j = i")
      case True
      have "j \<notin> set ids" using Cons.prems l(2) True by auto
      then have "body (w_pl ?w2 j) = body (w_pl ?w1 j)" using IH by blast
      then show ?thesis using one(2) [of j] j(2) True by auto
    next
      case False
      then have b: "body (w_pl ?w1 j) = body (w_pl w j)" using same by blast
      have "in_area ?w1 n j" "j \<in> set ids" using in_area_later [OF one(1) b l(1)] j(1,2) False by simp_all
      then have "\<exists>t. body (w_pl ?w2 j) = wound (guarded 45 (w_clock ?w1 t) (m_def_boost_until (w_pl ?w1 j))) (body (w_pl ?w1 j))"
        using IH j(3) by blast
      then show ?thesis using one(1) by (simp add: b stay_open_def)
    qed
  qed
  show ?case using so keep hit by (simp only: fold_simps) blast
qed

text \<open>While no send is refused nobody is closed.\<close>

definition spares :: "world \<Rightarrow> world \<Rightarrow> bool" where
  "spares w w' \<longleftrightarrow> (sends_ok w \<longrightarrow> sends_ok w' \<and> w_live w' = w_live w)"

lemma spares_refl [simp]: "spares w w"
  by (simp add: spares_def)

lemma spares_trans: "spares a b \<Longrightarrow> spares b c \<Longrightarrow> spares a c"
  by (auto simp: spares_def)

lemma spares_fold: "(\<And>x v. spares v (f x v)) \<Longrightarrow> spares w (fold f xs w)"
  by (rule fold_preorder [of spares]) (auto intro: spares_trans)

lemma spares_steady: "(sends_ok w \<Longrightarrow> steady w w') \<Longrightarrow> spares w w'"
  using steadyD(2,6) [of w w'] by (auto simp: spares_def)

lemma spares_send: "spares w (do_send k p w)"
  by (rule spares_steady) (rule do_send_ok)

lemma spares_views:
  "spares w (send_add_object k i w)" "spares w (send_remove_object k i w)" "spares w (send_move_object k i w)"
  "spares w (wake_up i w)"
  using send_add_ok(1) send_remove_ok(1) send_move_ok(1) wake_up_ok(1) by (blast intro: spares_steady)+

lemma spares_enter: "spares w (enter_view k ov i w)"
proof -
  have "spares w (send_add_object i k (send_add_object k i w))" "spares w (wake_up i (send_add_object k i w))"
    by (rule spares_trans [OF spares_views(1)]; rule spares_views)+
  then show ?thesis using spares_views by (simp add: enter_view_def Let_def)
qed

lemma spares_leave: "spares w (leave_view k nv i w)"
proof -
  have "spares w (send_remove_object i k (send_remove_object k i w))"
    by (rule spares_trans [OF spares_views(2)]) (rule spares_views)
  then show ?thesis using spares_views by (simp add: leave_view_def Let_def)
qed

lemma spares_update: "spares w (update_player_view k w)"
proof -
  have "spares v (fold (leave_view k nv) xs (fold (enter_view k ov) ys v))" for v nv xs ov ys
    by (rule spares_trans [OF spares_fold [OF spares_enter] spares_fold [OF spares_leave]])
  from spares_trans [OF spares_views(3) this]
  have "spares w (fold (leave_view k nv) xs (fold (enter_view k ov) ys (send_move_object k k w)))" for nv xs ov ys .
  then show ?thesis unfolding update_player_view_def Let_def by (cases "w_live w k"; cases "can_send (w_pl w k)") simp_all
qed

lemma spares_area_one: "spares w (area_one n i w)"
proof -
  obtain r w1 where h: "hurt n i 45 w = (r, w1)" by (cases "hurt n i 45 w")
  have u: "spares w (upd_pl k f w)" "spares w (set_target n x w)" "spares w (w\<lparr>w_ticks := m\<rparr>)" for k f x w m
    by (simp_all add: spares_def sends_ok_def upd_pl_def set_target_def upd_npc_def)
  have "spares v (for_players ids (\<lambda>i. send_damage_info i a k d m) v)" for v ids a k d m
    unfolding for_players_def by (rule spares_fold) (simp add: send_damage_info_def spares_send)
  note f = this
  obtain w2 ids a d m v where w2: "hurt n i 45 w = (m, for_players ids (\<lambda>j. send_damage_info j a i d m) w2)"
    "w2 = upd_pl i v (w\<lparr>w_ticks := Suc (w_ticks w)\<rparr>)"
    using hurt_alt [of n i 45 w] by blast
  have "spares w w2" unfolding w2(2) by (rule spares_trans [OF u(3) u(1)])
  from spares_trans [OF this f] w2(1) h have hu: "spares w w1" by simp
  have s: "spares v (send_hp i m v)" for v m by (simp add: send_hp_def send_stat_info_def Let_def spares_send)
  have r: "spares v (relocate k x y v)" for v k x y by (simp add: spares_def sends_ok_def relocate_def upd_pl_def Let_def)
  have a: "spares v (send_avatar_info k v)" "spares v (send_stat_info k i h mh lv xp nx st v)" for v k i h mh lv xp nx st
    by (simp_all add: send_avatar_info_def send_stat_info_def Let_def spares_send)
  have t: "spares v (update_player_view k (send_stat_info k k h mh lv xp nx st (send_avatar_info k v)))" for v k h mh lv xp nx st
    by (rule spares_trans [OF spares_trans [OF a(1) a(2)] spares_update])
  have d: "spares v (player_die k v)" for v k
    unfolding player_die_alt Let_def by (rule spares_trans [OF spares_trans [OF u(1) r] t])
  show ?thesis
    using spares_trans [OF hu d] spares_trans [OF spares_trans [OF hu d] u(2)] spares_trans [OF hu s]
    by (simp add: area_one_def Let_def h)
qed

text \<open>
  C23: The area attack of a boss in its third phase: every player in play and connected within three
  tiles of it is hurt once, by 45 points or half of it under the defence boost, with the same
  consequences as a single attack; only a session closed on the way by a refused send may be spared.
  Nobody else is changed, those who stay connected keep their state and socket, and while no send
  is refused everybody stays.
\<close>

theorem boss_area_hits:
  assumes "winv {} w" "is_npc n" "w_live w n"
  defines "w' \<equiv> area_attack n w"
  shows "(\<forall>j. \<not> in_area w n j \<longrightarrow> body (w_pl w' j) = body (w_pl w j))
    \<and> (\<forall>j. in_area w n j \<and> w_live w' j \<longrightarrow>
         (\<exists>t. body (w_pl w' j) = wound (guarded 45 (w_clock w t) (m_def_boost_until (w_pl w j))) (body (w_pl w j))))
    \<and> (\<forall>j. w_live w' j \<longrightarrow> m_state (w_pl w' j) = m_state (w_pl w j) \<and> m_client (w_pl w' j) = m_client (w_pl w j))
    \<and> (sends_ok w \<longrightarrow> w_live w' = w_live w)"
proof -
  let ?x = "m_x (w_npc w n)" and ?y = "m_y (w_npc w n)"
  have t: "tile ?x ?y" using winvD(3) [OF assms(1-3)] by (simp add: npc_ok_def)
  note tr = winvD(7) [OF assms(1)]
  have "distinct (get_objects_in_adjacent_sectors ?x ?y (only (w_live w) (w_sectors w)))"
    by (rule grid.near_distinct [OF tr t])
  then have d: "distinct (filter (w_live w) (nearby w ?x ?y))" by (simp add: near_only nearby_def)
  have n: "j \<in> set (nearby w ?x ?y)" if j: "in_area w n j" for j
  proof -
    have "positions {} w j = Some (m_x (w_pl w j), m_y (w_pl w j))" using j by (simp add: positions_def in_area_def)
    from grid.near_complete [OF tr t this] j show ?thesis by (auto simp: in_area_def near_only nearby_def)
  qed
  have e: "fold (area_one n) (nearby w ?x ?y) w = w'" by (simp add: w'_def area_attack_def)
  have "spares w w'" unfolding w'_def area_attack_def by (rule spares_fold [OF spares_area_one])
  then have "sends_ok w \<longrightarrow> w_live w' = w_live w" by (simp add: spares_def)
  with area_fold [OF d, of n] n show ?thesis unfolding e stay_open_def by blast
qed

theorem boss_area_hits_witness:
  "m_hp (w_pl (area_attack 10000 (arena 20)) 1) = 55"
proof -
  let ?w = "arena 20"
  have n: "is_npc 10000" "w_live ?w 10000" by (simp_all add: is_npc_def arena_fields)
  have a: "in_area ?w 10000 1"
    by (simp add: in_area_def is_pc_def arena_fields new_session_def new_npc_def can_send_def)
  have "sends_ok ?w" by (simp add: sends_ok_def arena_def init_world_def)
  with boss_area_hits [OF arena20(1) n] a obtain t
    where "body (w_pl (area_attack 10000 ?w) 1) = wound (guarded 45 (w_clock ?w t) (m_def_boost_until (w_pl ?w 1))) (body (w_pl ?w 1))"
    by (auto simp: arena_fields)
  moreover have "w_clock ?w t = 1000000" by (simp add: arena_def init_world_def)
  ultimately have "body (w_pl (area_attack 10000 ?w) 1) = wound 45 (body (w_pl ?w 1))"
    by (simp add: guarded_def arena_fields new_session_def)
  from arg_cong [OF this, of m_hp] show ?thesis
    by (simp add: wound_def arena_fields new_session_def s16_def)
qed

section \<open>The respawn\<close>

lemma clamp_range: "lo \<le> hi \<Longrightarrow> lo \<le> clamp lo hi v \<and> clamp lo hi v \<le> hi"
  by (simp add: clamp_def)

lemma respawn_tile_range:
  assumes "tile (m_origin_x c) (m_origin_y c)" "respawn_tile tries c w = ((x, y), w')"
  shows "tile x y \<and> (\<not> w_obstacle w x y \<or> (x, y) = (m_origin_x c, m_origin_y c))
    \<and> (\<exists>r. w' = w\<lparr>w_rands := r\<rparr>)"
  using assms(2)
proof (induction tries arbitrary: w)
  case 0
  then show ?case using assms(1) by (auto intro: exI [of _ "w_rands w"])
next
  case (Suc tries)
  obtain r1 w1 where r1: "rand_next w = (r1, w1)" by (cases "rand_next w")
  obtain r2 w2 where r2: "rand_next w1 = (r2, w2)" by (cases "rand_next w1")
  have w2: "w2 = w\<lparr>w_rands := Suc (Suc (w_rands w))\<rparr>" using r1 r2 by (auto simp: rand_next_def)
  show ?case
  proof (cases "respawn_tile tries c w2 = ((x, y), w')")
    case True
    from Suc.IH [OF this] show ?thesis by (auto simp: w2)
  next
    case False
    let ?x = "clamp 1 1999 (s16 (m_origin_x c + s16 (cmod r1 161 - 80)))"
    let ?y = "clamp 1 1999 (s16 (m_origin_y c + s16 (cmod r2 161 - 80)))"
    have b: "1 \<le> ?x \<and> ?x \<le> 1999" "1 \<le> ?y \<and> ?y \<le> 1999" by (rule clamp_range; simp)+
    then have "s16 ?x = ?x" "s16 ?y = ?y" by (simp_all add: s16_id)
    then have "x = ?x" "y = ?y" "\<not> w_obstacle w2 ?x ?y" "w' = w2"
      using Suc.prems False by (auto simp: r1 r2 Let_def split: if_splits)
    with b show ?thesis by (auto simp: w2 tile_def)
  qed
qed

definition respawn_show :: "int \<Rightarrow> int \<Rightarrow> world \<Rightarrow> world" where
  "respawn_show n i w = (if viewer w (m_x (w_npc w n)) (m_y (w_npc w n)) i then wake_up n (send_add_object i n w) else w)"

lemma calm_respawn_show: "calm w (fold (respawn_show n) ids w)"
  by (rule calm_fold) (auto simp: respawn_show_def intro: calm_trans [OF calm_send_add_object calm_wake_up])

lemma respawns_ok_paid:
  assumes "respawns_ok {n} w" "m_hp (f (w_npc w n)) > 0"
    "w' = (upd_npc n f w)\<lparr>w_sectors := ss\<rparr>"
  shows "respawns_ok {} w'"
proof -
  have "respawns w' = respawns w" by (rule respawns_cong) (simp_all add: assms(3) upd_npc_def)
  then show ?thesis using assms by (auto simp: respawns_ok_def upd_npc_def)
qed

lemma winv_revive:
  assumes w: "winv2 {} {n} w" and n: "is_npc n" "w_live w n" "m_hp (w_npc w n) \<le> 0" and t: "tile x y"
  defines "w3 \<equiv> (upd_npc n (respawn_npc x y) w)\<lparr>w_sectors := add_object_to_sector n x y (w_sectors w)\<rparr>"
  shows "winv {} w3"
proof -
  let ?c = "w_npc w n"
  have ok: "npc_ok ?c" by (rule winvD(3) [OF w n(1,2)])
  have e: "w_live w3 = w_live w" "w_pl w3 = w_pl w" "w_items w3 = w_items w" "w_obstacle w3 = w_obstacle w"
    "w_rand w3 = w_rand w" "w_player_index w3 = w_player_index w" "w_npc w3 = (w_npc w)(n := respawn_npc x y ?c)"
    "w_sectors w3 = add_object_to_sector n x y (w_sectors w)"
    by (simp_all add: w3_def upd_npc_def)
  have f: "m_id (respawn_npc x y ?c) = m_id ?c" "npc_ok (respawn_npc x y ?c)" "m_hp (respawn_npc x y ?c) > 0"
    using ok t by (simp_all add: respawn_npc_def npc_ok_def)
  have ids: "ids_ok w3" using winvD(6) [OF w] f(1) by (auto simp: ids_ok_def e)
  have none: "positions {} w n = None" using n by (simp add: positions_def pc_npc)
  have "positions {} w3 = (positions {} w)(n \<mapsto> (x, y))"
    by (rule ext) (use n f(3) in \<open>auto simp: positions_def e pc_npc respawn_npc_def\<close>)
  moreover have "only (w_live w3) (w_sectors w3) = add_object_to_sector n x y (only (w_live w) (w_sectors w))"
    using n(2) by (simp add: e only_add)
  ultimately have "grid_ok {} w3"
    using grid.tracks_add [OF winvD(7) [OF w] t none] ids by (simp add: grid_ok_def)
  moreover have "respawns_ok {} w3" by (rule respawns_ok_paid [OF winvD(10) [OF w] f(3) w3_def [THEN meta_eq_to_obj_eq]])
  moreover have "grid_ids w3"
    by (rule grid_ids_step [of w]) (use w n in \<open>auto simp: e winv2_def env_ok_def pc_npc dest!: in_sector(1)\<close>)
  ultimately show ?thesis using w f(2) by (auto simp: winv2_def e env_ok_def)
qed

lemma respawn_alt:
  assumes w: "winv2 {} {n} w" and n: "is_npc n" "w_live w n" "m_hp (w_npc w n) \<le> 0"
  shows "\<exists>x y r ids. tile x y
    \<and> (\<not> w_obstacle w x y \<or> (x, y) = (m_origin_x (w_npc w n), m_origin_y (w_npc w n)))
    \<and> (m_npc_type (w_npc w n) = NPC_BOSS_TYPE \<longrightarrow> (x, y) = (m_origin_x (w_npc w n), m_origin_y (w_npc w n)))
    \<and> process_npc_respawn n w = fold (respawn_show n) ids ((upd_npc n (respawn_npc x y) (w\<lparr>w_rands := r\<rparr>))\<lparr>
       w_sectors := add_object_to_sector n x y (w_sectors w)\<rparr>)"
proof -
  let ?c = "w_npc w n"
  have ok: "tile (m_origin_x ?c) (m_origin_y ?c)" using winvD(3) [OF w n(1,2)] by (simp add: npc_ok_def)
  obtain x y w1 where r: "(if m_npc_type ?c = NPC_BOSS_TYPE then ((m_origin_x ?c, m_origin_y ?c), w)
      else respawn_tile 100 ?c w) = ((x, y), w1)"
    by (metis surj_pair)
  have "tile x y \<and> (\<not> w_obstacle w x y \<or> (x, y) = (m_origin_x ?c, m_origin_y ?c)) \<and> (\<exists>r. w1 = w\<lparr>w_rands := r\<rparr>)"
  proof (cases "m_npc_type ?c = NPC_BOSS_TYPE")
    case True
    then show ?thesis using r ok by (auto intro: exI [of _ "w_rands w"])
  next
    case False
    then show ?thesis using r by (intro respawn_tile_range [OF ok]) simp
  qed
  then obtain rs where t: "tile x y" "\<not> w_obstacle w x y \<or> (x, y) = (m_origin_x ?c, m_origin_y ?c)"
    "w1 = w\<lparr>w_rands := rs\<rparr>" by blast
  have "process_npc_respawn n w = (let w2 = upd_npc n (respawn_npc x y) w1;
      w3 = w2\<lparr>w_sectors := add_object_to_sector n x y (w_sectors w2)\<rparr>
    in fold (respawn_show n) (nearby w3 x y) w3)"
    using n r by (simp add: process_npc_respawn_def Let_def respawn_show_def [abs_def])
  then have "process_npc_respawn n w = fold (respawn_show n) (nearby ((upd_npc n (respawn_npc x y) (w\<lparr>w_rands := rs\<rparr>))\<lparr>
       w_sectors := add_object_to_sector n x y (w_sectors w)\<rparr>) x y) ((upd_npc n (respawn_npc x y) (w\<lparr>w_rands := rs\<rparr>))\<lparr>
       w_sectors := add_object_to_sector n x y (w_sectors w)\<rparr>)"
    by (simp add: t(3) Let_def upd_npc_def)
  moreover have "m_npc_type ?c = NPC_BOSS_TYPE \<longrightarrow> (x, y) = (m_origin_x ?c, m_origin_y ?c)" using r by auto
  ultimately show ?thesis using t(1,2) by blast
qed

lemma winv_respawn:
  assumes w: "winv2 {} {n} w" and d: "is_npc n \<Longrightarrow> w_live w n \<Longrightarrow> m_hp (w_npc w n) \<le> 0"
  shows "winv {} (process_npc_respawn n w)"
proof (cases "is_npc n \<and> w_live w n")
  case True
  then have n: "is_npc n" "w_live w n" and dead: "m_hp (w_npc w n) \<le> 0" using d by simp_all
  obtain x y r ids where t: "tile x y" "\<not> w_obstacle w x y \<or> (x, y) = (m_origin_x (w_npc w n), m_origin_y (w_npc w n))"
    "m_npc_type (w_npc w n) = NPC_BOSS_TYPE \<longrightarrow> (x, y) = (m_origin_x (w_npc w n), m_origin_y (w_npc w n))"
    "process_npc_respawn n w = fold (respawn_show n) ids ((upd_npc n (respawn_npc x y) (w\<lparr>w_rands := r\<rparr>))\<lparr>
       w_sectors := add_object_to_sector n x y (w_sectors w)\<rparr>)"
    using respawn_alt [OF w n dead] by blast
  have "winv {} ((upd_npc n (respawn_npc x y) (w\<lparr>w_rands := r\<rparr>))\<lparr>
       w_sectors := add_object_to_sector n x y (w_sectors (w\<lparr>w_rands := r\<rparr>))\<rparr>)"
    by (rule winv_revive) (use w n dead t(1) in simp_all)
  from winv_calm [OF this calm_respawn_show] show ?thesis by (simp add: t(4))
next
  case False
  then have "process_npc_respawn n w = w" by (auto simp: process_npc_respawn_def)
  moreover have "respawns_ok {} w" using winvD(10) [OF w] False by (auto simp: respawns_ok_def)
  ultimately show ?thesis using w by (simp add: winv2_def)
qed

text \<open>
  A dead NPC whose respawn comes is back with full hit points and no target, a boss and one
  that finds no free tile at its origin, the others on a tile that is not an obstacle; the
  invariant, which a death left with a debt, is whole again.
\<close>

lemma respawn_back:
  assumes w: "winv2 {} {n} w" and n: "is_npc n" "w_live w n" "m_hp (w_npc w n) \<le> 0"
  defines "c \<equiv> w_npc w n" and "c' \<equiv> w_npc (process_npc_respawn n w) n"
  shows "winv {} (process_npc_respawn n w) \<and> m_hp c' = m_max_hp c \<and> 0 < m_hp c' \<and> m_target_id c' = -1
    \<and> m_move_state c' = idle_state (m_npc_type c) \<and> tile (m_x c') (m_y c')
    \<and> (\<not> w_obstacle w (m_x c') (m_y c') \<or> (m_x c', m_y c') = (m_origin_x c, m_origin_y c))
    \<and> (m_npc_type c = NPC_BOSS_TYPE \<longrightarrow> (m_x c', m_y c') = (m_origin_x c, m_origin_y c))"
proof -
  obtain x y r ids where t: "tile x y" "\<not> w_obstacle w x y \<or> (x, y) = (m_origin_x c, m_origin_y c)"
    "m_npc_type c = NPC_BOSS_TYPE \<longrightarrow> (x, y) = (m_origin_x c, m_origin_y c)"
    "process_npc_respawn n w = fold (respawn_show n) ids ((upd_npc n (respawn_npc x y) (w\<lparr>w_rands := r\<rparr>))\<lparr>
       w_sectors := add_object_to_sector n x y (w_sectors w)\<rparr>)"
    unfolding c_def using respawn_alt [OF w n] by blast
  have "npc_body c' = npc_body (respawn_npc x y c)"
    unfolding c'_def t(4) calmD(10) [OF calm_respawn_show] by (simp add: upd_npc_def c_def)
  note b = npc_body_eqD(2-4,8,9) [OF this, unfolded respawn_npc_def, simplified]
  have "0 < m_max_hp c" using winvD(3) [OF w n(1,2)] by (simp add: c_def npc_ok_def)
  then show ?thesis unfolding b using winv_respawn [OF w n(3)] t(1-3) by blast
qed

text \<open>The demonstration world with its NPC dead.\<close>

definition grave :: world where
  "grave = (arena 0)\<lparr>w_sectors := add_object_to_sector 1 1000 100 empty_sectors\<rparr>"

lemma grave_ok: "winv2 {} {10000} grave"
proof -
  let ?g = "add_object_to_sector 1 1000 100 empty_sectors"
  have "positions {} grave = [1 \<mapsto> (1000, 100)]"
    by (rule ext) (auto simp: grave_def positions_def arena_fields is_pc_def new_session_def)
  moreover have "only (w_live grave) (w_sectors grave) = ?g"
    by (simp add: grave_def arena_def only_add) (simp add: only_def empty_sectors_def)
  moreover have "sectors_track ?g [1 \<mapsto> (1000, 100)]"
    using grid.tracks_add [OF sectors_track_empty, of 1000 100 1] by (simp add: tile_def)
  ultimately have "grid_ok {} grave"
    by (auto simp: grid_ok_def ids_ok_def grave_def arena_def no_session_def new_session_def
        new_npc_def init_world_def is_pc_def is_npc_def)
  moreover have "grid_ids grave"
    by (auto simp: grid_ids_def grave_def arena_def init_world_def empty_sectors_def is_pc_def dest!: in_sector(1))
  ultimately show ?thesis
    by (auto simp: winv2_def respawns_ok_def respawns_def grave_def arena_def init_world_def env_ok_def player_ok_def
        npc_ok_def no_session_def new_session_def new_npc_def tile_def is_pc_def is_npc_def)
qed

end
