(* ===== verification/ObstacleMap.thy ===== *)
theory ObstacleMap
  imports Protocol Sectors
begin

text \<open>
  The obstacle map and the spawn groups: \<open>SERVER/lua_manager.cpp\<close>, its header, and the reader
  of \<open>obstacles.bin\<close> in \<open>CLIENT/client/client.cpp\<close>. What the Lua library answers for the
  tables \<open>obstacles\<close> and \<open>npc_groups\<close> is an argument: no table (\<open>None\<close>), or its
  entries, where an entry that is not a table is \<open>None\<close>.
\<close>

section \<open>Loading\<close>

record obstacle_rect =
  ob_x :: int
  ob_y :: int
  ob_w :: int
  ob_h :: int
  ob_type :: int

text \<open>The fields \<open>get_int\<close> reads, converted to \<open>int\<close>; \<open>lo_t\<close> may be no number.\<close>

record lua_obstacle =
  lo_x :: int
  lo_y :: int
  lo_w :: int
  lo_h :: int
  lo_t :: "int option"

type_synonym obstacle_map = "int \<Rightarrow> bool"

definition rect_of :: "lua_obstacle \<Rightarrow> obstacle_rect" where
  "rect_of e = \<lparr> ob_x = lo_x e, ob_y = lo_y e, ob_w = lo_w e, ob_h = lo_h e,
     ob_type = (case lo_t e of None \<Rightarrow> 0 | Some t \<Rightarrow> t) \<rparr>"

definition set_cell :: "obstacle_rect \<Rightarrow> int \<Rightarrow> int \<Rightarrow> obstacle_map \<Rightarrow> obstacle_map" where
  "set_cell r dy dx m =
    (let tx = s32 (ob_x r + dx); ty = s32 (ob_y r + dy) in
     if tx \<ge> 0 \<and> tx < WORLD_WIDTH \<and> ty \<ge> 0 \<and> ty < WORLD_HEIGHT
     then m(ty * WORLD_WIDTH + tx := True) else m)"

definition set_rect :: "obstacle_rect \<Rightarrow> obstacle_map \<Rightarrow> obstacle_map" where
  "set_rect r m = fold (\<lambda>dy. fold (set_cell r dy) [0..ob_w r - 1]) [0..ob_h r - 1] m"

definition load_entry :: "lua_obstacle option \<Rightarrow> obstacle_rect list \<times> obstacle_map \<Rightarrow> obstacle_rect list \<times> obstacle_map" where
  "load_entry e st =
    (case e of
       None \<Rightarrow> st
     | Some e \<Rightarrow> let r = rect_of e in (fst st @ [r], set_rect r (snd st)))"

definition load_obstacles :: "lua_obstacle option list option \<Rightarrow> obstacle_rect list \<times> obstacle_map" where
  "load_obstacles tab =
    (let empty = ([], \<lambda>_. False) in
     case tab of None \<Rightarrow> empty | Some es \<Rightarrow> fold load_entry es empty)"

definition is_obstacle :: "obstacle_map \<Rightarrow> int \<Rightarrow> int \<Rightarrow> bool" where
  "is_obstacle m x y = (if x < 0 \<or> x \<ge> 2000 \<or> y < 0 \<or> y \<ge> 2000 then True else m (y * 2000 + x))"

section \<open>Spawn groups\<close>

record npc_spawn_group =
  g_x :: int
  g_y :: int
  g_range :: int
  g_count :: int
  g_npc_type :: int
  g_level :: int
  g_name :: "byte list"

text \<open>An entry as Lua gives it: the name may be missing.\<close>

record lua_group =
  lg_ints :: "int \<times> int \<times> int \<times> int \<times> int \<times> int"
  lg_name :: "byte list option"

definition group_of :: "lua_group \<Rightarrow> npc_spawn_group" where
  "group_of e =
    (case lg_ints e of (x, y, rng, cnt, t, lv) \<Rightarrow>
       \<lparr> g_x = x, g_y = y, g_range = rng, g_count = cnt, g_npc_type = t, g_level = lv,
         g_name = (case lg_name e of None \<Rightarrow> [] | Some s \<Rightarrow> strncpy_s s 31) \<rparr>)"

definition load_npc_groups :: "lua_group option list option \<Rightarrow> npc_spawn_group list" where
  "load_npc_groups tab =
    (case tab of None \<Rightarrow> [] | Some es \<Rightarrow> map group_of (List.map_filter id es))"

section \<open>The file\<close>

definition rect_bytes :: "obstacle_rect \<Rightarrow> byte list" where
  "rect_bytes r = le 2 (ob_x r) @ le 2 (ob_y r) @ le 2 (ob_w r) @ le 2 (ob_h r) @ le 2 (ob_type r)"

definition write_obstacle_bin :: "obstacle_rect list \<Rightarrow> byte list" where
  "write_obstacle_bin rs = bytes_of ''OBS2'' @ le 4 (int (length rs)) @ concat (map rect_bytes rs)"

text \<open>
  \<open>fread\<close> into a variable leaves the rest of it as it was when the file ends: here the reader
  gives up with an error where the code goes on with uninitialised values. A negative count makes
  \<open>resize\<close> throw.
\<close>

datatype bin_error = BAD_MAGIC | FILE_ENDS | BAD_COUNT

definition read16s :: "nat \<Rightarrow> byte list \<Rightarrow> int list" where
  "read16s k bs = map (\<lambda>i. rd16 (drop (2 * i) bs)) [0..<k]"

fun read_rects :: "nat \<Rightarrow> bool \<Rightarrow> byte list \<Rightarrow> bin_error + obstacle_rect list" where
  "read_rects 0 v2 bs = Inr []"
| "read_rects (Suc n) v2 bs =
    (let k = (if v2 then 5 else 4) in
     if length bs < 2 * k then Inl FILE_ENDS
     else let v = read16s k bs;
            r = \<lparr> ob_x = v ! 0, ob_y = v ! 1, ob_w = v ! 2, ob_h = v ! 3, ob_type = (if v2 then v ! 4 else 0) \<rparr>
          in case read_rects n v2 (drop (2 * k) bs) of Inl e \<Rightarrow> Inl e | Inr rs \<Rightarrow> Inr (r # rs))"

definition load_obstacles_bin :: "byte list \<Rightarrow> bin_error + obstacle_rect list" where
  "load_obstacles_bin bs =
    (let v2 = take 4 bs = bytes_of ''OBS2''; v1 = take 4 bs = bytes_of ''OBS1'' in
     if \<not> v2 \<and> \<not> v1 then Inl BAD_MAGIC
     else if length bs < 8 then Inl FILE_ENDS
     else let n = rd32 (drop 4 bs) in
       if n < 0 then Inl BAD_COUNT else read_rects (nat n) v2 (drop 8 bs))"

section \<open>The map is the union of the rectangles\<close>

definition covers :: "obstacle_rect \<Rightarrow> int \<Rightarrow> int \<Rightarrow> bool" where
  "covers r x y \<longleftrightarrow> ob_x r \<le> x \<and> x < ob_x r + ob_w r \<and> ob_y r \<le> y \<and> y < ob_y r + ob_h r"

text \<open>No corner of the rectangle is outside \<open>int\<close>.\<close>

definition rect_fits :: "obstacle_rect \<Rightarrow> bool" where
  "rect_fits r \<longleftrightarrow> in32 (ob_x r) \<and> in32 (ob_y r) \<and> in32 (ob_x r + ob_w r - 1) \<and> in32 (ob_y r + ob_h r - 1)"

lemma cell_index:
  assumes "tile x y" "tile u v"
  shows "y * WORLD_WIDTH + x = v * WORLD_WIDTH + u \<longleftrightarrow> x = u \<and> y = v"
proof
  assume eq: "y * WORLD_WIDTH + x = v * WORLD_WIDTH + u"
  have "x = (y * 2000 + x) mod 2000" "u = (v * 2000 + u) mod 2000" using assms by (simp_all add: tile_def)
  then have "x = u" using eq by simp
  with eq show "x = u \<and> y = v" by simp
qed simp

lemma set_cell_iff:
  assumes "tile x y" "rect_fits r" "0 \<le> dx" "dx < ob_w r" "0 \<le> dy" "dy < ob_h r"
  shows "set_cell r dy dx m (y * WORLD_WIDTH + x) \<longleftrightarrow> m (y * WORLD_WIDTH + x) \<or> ob_x r + dx = x \<and> ob_y r + dy = y"
proof -
  have "s32 (ob_x r + dx) = ob_x r + dx" "s32 (ob_y r + dy) = ob_y r + dy"
    using assms(2-6) by (auto simp: rect_fits_def in32_def s32_id)
  then show ?thesis
    using assms(1) cell_index [OF assms(1), of "ob_x r + dx" "ob_y r + dy"]
    by (auto simp: set_cell_def Let_def tile_def)
qed

lemma fold_grow_set:
  assumes "\<And>i m. i \<in> set is \<Longrightarrow> step i m k \<longleftrightarrow> m k \<or> Q i"
  shows "fold step is m k \<longleftrightarrow> m k \<or> (\<exists>i \<in> set is. Q i)"
  using assms by (induction "is" arbitrary: m) auto

lemma set_rect_iff:
  assumes "tile x y" "rect_fits r"
  shows "set_rect r m (y * WORLD_WIDTH + x) \<longleftrightarrow> m (y * WORLD_WIDTH + x) \<or> covers r x y"
proof -
  have row: "fold (set_cell r dy) [0..ob_w r - 1] m (y * WORLD_WIDTH + x) \<longleftrightarrow>
      m (y * WORLD_WIDTH + x) \<or> (\<exists>dx \<in> set [0..ob_w r - 1]. ob_x r + dx = x \<and> ob_y r + dy = y)"
    if "dy \<in> set [0..ob_h r - 1]" for dy m
    by (rule fold_grow_set) (use that set_cell_iff [OF assms, of _ dy] in simp)
  have "set_rect r m (y * WORLD_WIDTH + x) \<longleftrightarrow> m (y * WORLD_WIDTH + x)
      \<or> (\<exists>dy \<in> set [0..ob_h r - 1]. \<exists>dx \<in> set [0..ob_w r - 1]. ob_x r + dx = x \<and> ob_y r + dy = y)"
    unfolding set_rect_def
    by (rule fold_grow_set [where Q = "\<lambda>dy. \<exists>dx \<in> set [0..ob_w r - 1]. ob_x r + dx = x \<and> ob_y r + dy = y"])
      (rule row)
  also have "(\<exists>dy \<in> set [0..ob_h r - 1]. \<exists>dx \<in> set [0..ob_w r - 1]. ob_x r + dx = x \<and> ob_y r + dy = y) \<longleftrightarrow> covers r x y"
    by (auto simp: covers_def intro: bexI [of _ "y - ob_y r"] bexI [of _ "x - ob_x r"])
  finally show ?thesis .
qed

lemma load_entries:
  assumes "tile x y" "\<forall>e. Some e \<in> set es \<longrightarrow> rect_fits (rect_of e)"
  shows "fst (fold load_entry es st) = fst st @ map rect_of (List.map_filter id es)
    \<and> (snd (fold load_entry es st) (y * WORLD_WIDTH + x) \<longleftrightarrow> snd st (y * WORLD_WIDTH + x)
        \<or> (\<exists>r \<in> set (map rect_of (List.map_filter id es)). covers r x y))"
  using assms(2)
proof (induction es arbitrary: st)
  case (Cons e es)
  then show ?case
    using set_rect_iff [OF assms(1)]
    by (cases e) (auto simp: load_entry_def Let_def map_filter_simps)
qed (simp add: map_filter_simps)

text \<open>
  The loaded map has an obstacle on exactly the tiles some rectangle of the script covers; a
  coordinate outside the world counts as an obstacle. Rectangles may reach beyond the world.
\<close>

lemma load_obstacles_exact:
  assumes "\<forall>e. Some e \<in> set es \<longrightarrow> rect_fits (rect_of e)"
  shows "is_obstacle (snd (load_obstacles (Some es))) x y \<longleftrightarrow>
    \<not> tile x y \<or> (\<exists>r \<in> set (fst (load_obstacles (Some es))). covers r x y)"
  using load_entries [OF _ assms, of x y "([], \<lambda>_. False)"]
  by (auto simp: is_obstacle_def load_obstacles_def tile_def)

section \<open>Round trip of the file\<close>

definition rect16 :: "obstacle_rect \<Rightarrow> obstacle_rect" where
  "rect16 r = \<lparr> ob_x = s16 (ob_x r), ob_y = s16 (ob_y r), ob_w = s16 (ob_w r), ob_h = s16 (ob_h r), ob_type = s16 (ob_type r) \<rparr>"

lemma length_rect_bytes [simp]: "length (rect_bytes r) = 10"
  by (simp add: rect_bytes_def)

lemma read16s_rect:
  "read16s 5 (rect_bytes r @ bs) = [s16 (ob_x r), s16 (ob_y r), s16 (ob_w r), s16 (ob_h r), s16 (ob_type r)]"
proof -
  have d: "drop (2 * k) (le 2 x @ r) = drop (2 * (k - 1)) r" if "0 < k" for k x r
    using that by (cases k) simp_all
  show ?thesis
    by (simp add: read16s_def rect_bytes_def upt_rec numeral_eq_Suc d rd16_le del: drop_append)
      (simp add: rd16_le numeral_2_eq_2 [symmetric])
qed

lemma read_write_rects: "read_rects (length rs) True (concat (map rect_bytes rs) @ bs) = Inr (map rect16 rs)"
  by (induction rs) (simp_all add: read16s_rect rect16_def Let_def)

text \<open>
  The client reads back from \<open>obstacles.bin\<close> the rectangles the server wrote, each field
  cut to 16 bits, so unchanged when they were in the range of \<open>int16_t\<close>.
\<close>

lemma load_written:
  assumes "length rs < 2 ^ 31"
  shows "load_obstacles_bin (write_obstacle_bin rs) = Inr (map rect16 rs)"
proof -
  have b: "length (bytes_of ''OBS2'') = 4" by (simp add: bytes_of_def)
  have "s32 (int (length rs)) = int (length rs)" using assms by (simp add: s32_id)
  then show ?thesis
    using read_write_rects [of rs "[]"] b
    by (simp add: load_obstacles_bin_def write_obstacle_bin_def Let_def rd32_le)
qed

end
