(* ===== verification/Spawn.thy ===== *)
theory Spawn
  imports NpcLife ObstacleMap
begin

text \<open>
  The NPCs the server starts with: \<open>InitializeNPC\<close> of \<open>SERVER/npc.cpp\<close>. \<open>npc_id\<close> is
  \<open>NPC_ID_START + tot\<close> throughout, both are stepped together. \<open>sprintf_s\<close> into the 20
  bytes of \<open>m_username\<close> ends the program when the text does not fit: the result is then
  \<open>None\<close>.
\<close>

section \<open>Placing an NPC\<close>

definition BOSS_SPAWN_X :: "int list" where
  "BOSS_SPAWN_X = [1000, 400, 1600, 400, 1600, 400, 1600, 650, 1350, 650, 1350, 750, 1250, 750, 1250]"

definition BOSS_SPAWN_Y :: "int list" where
  "BOSS_SPAWN_Y = [1000, 450, 450, 1550, 1550, 1000, 1000, 700, 700, 1300, 1300, 900, 900, 1100, 1100]"

definition sprintf_name :: "byte list \<Rightarrow> byte list option" where
  "sprintf_name bs = (if length bs < MAX_NAME_LEN then Some bs else None)"

definition place_npc :: "cnpc \<Rightarrow> world \<Rightarrow> world" where
  "place_npc c w =
    w\<lparr>w_live := (w_live w)(m_id c := True), w_npc := (w_npc w)(m_id c := c),
      w_sectors := add_object_to_sector (m_id c) (m_x c) (m_y c) (w_sectors w)\<rparr>"

text \<open>An NPC of a kind, at a tile that is its origin too.\<close>

definition born :: "nat \<Rightarrow> int \<Rightarrow> int \<Rightarrow> npc_type \<Rightarrow> npc_state \<Rightarrow> int \<Rightarrow> int \<Rightarrow> byte list \<Rightarrow> int \<Rightarrow> cnpc" where
  "born tot x y t st lv hp name now =
    (new_npc (NPC_ID_START + int tot) now)\<lparr>m_x := x, m_origin_x := x, m_y := y, m_origin_y := y,
       m_npc_type := t, m_move_state := st, m_level := lv, m_hp := hp, m_max_hp := hp, m_username := name\<rparr>"

section \<open>Bosses\<close>

text \<open>\<open>i\<close> is the boss; the loop is left on a free tile or after 50 tries.\<close>

fun boss_tile :: "nat \<Rightarrow> nat \<Rightarrow> int \<Rightarrow> int \<Rightarrow> world \<Rightarrow> (int \<times> int) \<times> world" where
  "boss_tile 0 i bx by w = ((bx, by), w)"
| "boss_tile (Suc tries) i bx by w =
    (if w_obstacle w bx by
     then let (r1, w1) = rand_next w; (r2, w2) = rand_next w1 in
       boss_tile tries i (s16 (BOSS_SPAWN_X ! i + s16 (cmod r1 21 - 10))) (s16 (BOSS_SPAWN_Y ! i + s16 (cmod r2 21 - 10))) w2
     else ((bx, by), w))"

definition spawn_boss :: "nat \<Rightarrow> nat \<Rightarrow> world \<Rightarrow> world option" where
  "spawn_boss i tot w =
    (let (now, w1) = clock_now w; ((bx, by), w2) = boss_tile 50 i (BOSS_SPAWN_X ! i) (BOSS_SPAWN_Y ! i) w1 in
     case sprintf_name (bytes_of ''Boss_'' @ dec_int (int i + 1)) of
       None \<Rightarrow> None
     | Some name \<Rightarrow> Some (place_npc (born tot bx by NPC_BOSS_TYPE NPC_STATE_ROAMING 20 500 name now) w2))"

section \<open>Groups and the rest\<close>

text \<open>One round of the \<open>do\<close> loop, and the loop: at most 100 rounds.\<close>

definition group_draw :: "npc_spawn_group \<Rightarrow> world \<Rightarrow> (int \<times> int) \<times> world" where
  "group_draw g w =
    (let (r1, w1) = rand_next w; (r2, w2) = rand_next w1;
       dx = s32 (cmod r1 (s32 (g_range g * 2 + 1)) - g_range g);
       dy = s32 (cmod r2 (s32 (g_range g * 2 + 1)) - g_range g)
     in ((s16 (clamp 0 (WORLD_WIDTH - 1) (s32 (g_x g + dx))), s16 (clamp 0 (WORLD_HEIGHT - 1) (s32 (g_y g + dy)))), w2))"

fun group_tile :: "nat \<Rightarrow> npc_spawn_group \<Rightarrow> world \<Rightarrow> (int \<times> int) \<times> world" where
  "group_tile 0 g w = group_draw g w"
| "group_tile (Suc tries) g w =
    (let ((px, py), w1) = group_draw g w in
     if w_obstacle w1 px py then group_tile tries g w1 else ((px, py), w1))"

definition spawn_of_group :: "npc_spawn_group \<Rightarrow> nat \<Rightarrow> world \<Rightarrow> world option" where
  "spawn_of_group g tot w =
    (let (now, w1) = clock_now w; ((px, py), w2) = group_tile 99 g w1 in
     case sprintf_name (g_name g @ bytes_of ''_'' @ dec_int (int tot)) of
       None \<Rightarrow> None
     | Some name \<Rightarrow> Some (place_npc
         (if g_npc_type g = 2 then born tot px py NPC_AGRO_TYPE NPC_STATE_ROAMING (g_level g) 80 name now
          else born tot px py NPC_PEACE_TYPE NPC_STATE_IDLE (g_level g) 30 name now) w2))"

definition spawn_random :: "nat \<Rightarrow> world \<Rightarrow> world option" where
  "spawn_random tot w =
    (let (now, w1) = clock_now w; (r1, w2) = rand_next w1; (r2, w3) = rand_next w2;
       x = s16 (cmod r1 WORLD_WIDTH); y = s16 (cmod r2 WORLD_HEIGHT)
     in case sprintf_name (bytes_of ''NPC_'' @ dec_int (int tot)) of
       None \<Rightarrow> None
     | Some name \<Rightarrow> Some (place_npc
         (if even tot then born tot x y NPC_PEACE_TYPE NPC_STATE_IDLE 1 30 name now
          else born tot x y NPC_AGRO_TYPE NPC_STATE_ROAMING 2 80 name now) w3))"

text \<open>
  The loops: up to \<open>count\<close> NPCs, the \<open>i\<close>-th by \<open>spawn i\<close>, while there is room for
  another; the state is \<open>tot\<close> and the world.
\<close>

fun spawn_loop :: "(nat \<Rightarrow> nat \<Rightarrow> world \<Rightarrow> world option) \<Rightarrow> nat \<Rightarrow> nat \<Rightarrow> nat \<times> world \<Rightarrow> (nat \<times> world) option" where
  "spawn_loop spawn i 0 st = Some st"
| "spawn_loop spawn i (Suc n) (tot, w) =
    (if tot < MAX_NPCS
     then case spawn i tot w of
         None \<Rightarrow> None
       | Some w' \<Rightarrow> spawn_loop spawn (Suc i) n (Suc tot, w')
     else Some (tot, w))"

fun spawn_groups :: "npc_spawn_group list \<Rightarrow> nat \<times> world \<Rightarrow> (nat \<times> world) option" where
  "spawn_groups [] st = Some st"
| "spawn_groups (g # gs) st =
    (case spawn_loop (\<lambda>i. spawn_of_group g) 0 (nat (g_count g)) st of
       None \<Rightarrow> None | Some st' \<Rightarrow> spawn_groups gs st')"

definition InitializeNPC :: "npc_spawn_group list \<Rightarrow> world \<Rightarrow> world option" where
  "InitializeNPC groups w =
    (case spawn_loop spawn_boss 0 15 (0, w) of
       None \<Rightarrow> None
     | Some st1 \<Rightarrow>
       (case spawn_groups groups st1 of
          None \<Rightarrow> None
        | Some st2 \<Rightarrow> map_option snd (spawn_loop (\<lambda>i. spawn_random) 0 (MAX_NPCS - fst st2) st2)))"

section \<open>The world after it\<close>

text \<open>The state while NPCs are placed: \<open>tot\<close> of them, nothing timed yet.\<close>

definition staffed :: "nat \<Rightarrow> world \<Rightarrow> bool" where
  "staffed tot w \<longleftrightarrow> winv {} w \<and> (\<forall>n. is_npc n \<longrightarrow> w_live w n = (n < NPC_ID_START + int tot))
    \<and> w_timers w = [] \<and> w_completions w = []
    \<and> (\<forall>s. \<forall>n \<in> set (w_sectors w s). n < NPC_ID_START + int tot)
    \<and> (\<forall>i < min 15 tot. m_npc_type (w_npc w (NPC_ID_START + int i)) = NPC_BOSS_TYPE)"

lemma staffed_env [simp]:
  "staffed tot (w\<lparr>w_ticks := a\<rparr>) = staffed tot w" "staffed tot (w\<lparr>w_rands := b\<rparr>) = staffed tot w"
  by (simp_all add: staffed_def)

lemma staffed_place:
  assumes s: "staffed tot w" and t: "tile x y" and hp: "0 < hp" and b: "tot < 15 \<longrightarrow> ty = NPC_BOSS_TYPE"
  shows "staffed (Suc tot) (place_npc (born tot x y ty st lv hp name now) w)"
proof -
  let ?n = "NPC_ID_START + int tot" and ?c = "born tot x y ty st lv hp name now"
  define w' where "w' = place_npc ?c w"
  have w: "winv {} w" and q: "w_timers w = []" "w_completions w = []"
    and l: "\<And>n. is_npc n \<Longrightarrow> w_live w n = (n < NPC_ID_START + int tot)" using s by (auto simp: staffed_def)
  have c: "m_id ?c = ?n" "m_x ?c = x" "m_y ?c = y" "m_hp ?c = hp" "m_npc_type ?c = ty" "npc_ok ?c"
    using t hp by (simp_all add: born_def new_npc_def npc_ok_def)
  have e: "w_live w' = (w_live w)(?n := True)" "w_pl w' = w_pl w" "w_items w' = w_items w" "w_obstacle w' = w_obstacle w"
    "w_rand w' = w_rand w" "w_player_index w' = w_player_index w" "w_npc w' = (w_npc w)(?n := ?c)"
    "w_sectors w' = add_object_to_sector ?n x y (w_sectors w)" "w_timers w' = []" "w_completions w' = []"
    by (simp_all add: w'_def place_npc_def c q)
  have n: "is_npc ?n" "\<not> is_pc ?n" "\<not> w_live w ?n" using l [of ?n] by (simp_all add: is_npc_def is_pc_def)
  have ids: "ids_ok w'" using winvD(6) [OF w] c(1) n by (auto simp: ids_ok_def e)
  have none: "positions {} w ?n = None" using n by (simp add: positions_def)
  have "positions {} w' = (positions {} w)(?n \<mapsto> (x, y))"
    by (rule ext) (use n c hp in \<open>auto simp: positions_def e\<close>)
  moreover have "only (w_live w') (w_sectors w') = add_object_to_sector ?n x y (only (w_live w) (w_sectors w))"
  proof -
    have "i \<noteq> ?n" if "i \<in> set (w_sectors w t)" for i t using s that by (auto simp: staffed_def)
    then have "only (w_live w') (w_sectors w) = only (w_live w) (w_sectors w)"
      by (auto simp: only_def e fun_eq_iff intro!: filter_cong)
    then show ?thesis by (simp add: e only_add)
  qed
  ultimately have "grid_ok {} w'"
    using grid.tracks_add [OF winvD(7) [OF w] t none] ids by (simp add: grid_ok_def)
  moreover have "respawns w' = respawns w" by (rule respawns_cong) (simp_all add: e q)
  then have "respawns_ok {} w'" using winvD(10) [OF w] c(4) hp by (auto simp: respawns_ok_def e respawns_def q)
  moreover have "grid_ids w'"
    by (rule grid_ids_step [of w]) (use w n in \<open>auto simp: e winv2_def env_ok_def pc_npc dest!: in_sector(1)\<close>)
  ultimately have "winv {} w'" using w c(6) n by (auto simp: winv2_def e env_ok_def)
  moreover have "n < NPC_ID_START + int (Suc tot)" if "n \<in> set (w_sectors w' t)" for n t
  proof -
    have "n = ?n \<or> n \<in> set (w_sectors w t)" using in_sector(1) [of n ?n x y "w_sectors w" t] that by (simp add: e)
    moreover have "n \<in> set (w_sectors w t) \<Longrightarrow> n < ?n" using s by (auto simp: staffed_def)
    ultimately show ?thesis by auto
  qed
  moreover have "\<forall>i < min 15 (Suc tot). m_npc_type (w_npc w' (NPC_ID_START + int i)) = NPC_BOSS_TYPE"
  proof (intro allI impI)
    fix i assume "i < min 15 (Suc tot)"
    then have "i < 15" "i = tot \<or> i < tot" by auto
    then show "m_npc_type (w_npc w' (NPC_ID_START + int i)) = NPC_BOSS_TYPE"
      using s b c(5) by (auto simp: e staffed_def)
  qed
  moreover have "\<forall>n. is_npc n \<longrightarrow> w_live w' n = (n < NPC_ID_START + int (Suc tot))" using l by (auto simp: e)
  ultimately show ?thesis
    unfolding w'_def [symmetric] staffed_def by (simp add: e)
qed

section \<open>Every placement finds a tile\<close>

lemma rand_tile:
  assumes "staffed tot w" "rand_next w = (r, w')"
  shows "0 \<le> r" "w' = w\<lparr>w_rands := Suc (w_rands w)\<rparr>" "staffed tot w'" "w_obstacle w' = w_obstacle w"
proof -
  have "env_ok w" using assms(1) winvD(5) [of "{}" "{}" w] by (simp add: staffed_def)
  then show "0 \<le> r" using assms(2) by (auto simp: env_ok_def rand_next_def)
  show e: "w' = w\<lparr>w_rands := Suc (w_rands w)\<rparr>" using assms(2) by (simp add: rand_next_def)
  then show "staffed tot w'" "w_obstacle w' = w_obstacle w" using assms(1) by simp_all
qed

lemma boss_spawn_range:
  assumes "i < 15"
  shows "400 \<le> BOSS_SPAWN_X ! i \<and> BOSS_SPAWN_X ! i \<le> 1600" "450 \<le> BOSS_SPAWN_Y ! i \<and> BOSS_SPAWN_Y ! i \<le> 1550"
proof -
  have "\<forall>x \<in> set BOSS_SPAWN_X. 400 \<le> x \<and> x \<le> 1600" "\<forall>x \<in> set BOSS_SPAWN_Y. 450 \<le> x \<and> x \<le> 1550"
    "length BOSS_SPAWN_X = 15" "length BOSS_SPAWN_Y = 15"
    by (simp_all add: BOSS_SPAWN_X_def BOSS_SPAWN_Y_def)
  with assms show "400 \<le> BOSS_SPAWN_X ! i \<and> BOSS_SPAWN_X ! i \<le> 1600" "450 \<le> BOSS_SPAWN_Y ! i \<and> BOSS_SPAWN_Y ! i \<le> 1550"
    by simp_all
qed

lemma jitter:
  assumes "0 \<le> r" "400 \<le> v" "v \<le> 1600"
  shows "0 \<le> s16 (v + s16 (cmod r 21 - 10)) \<and> s16 (v + s16 (cmod r 21 - 10)) < 2000"
proof -
  have b: "0 \<le> cmod r 21" "cmod r 21 < 21" using cmod_bounds [OF assms(1), of 21] by auto
  then have "s16 (cmod r 21 - 10) = cmod r 21 - 10" by (intro s16_id) linarith+
  moreover have "s16 (v + (cmod r 21 - 10)) = v + (cmod r 21 - 10)" using b assms by (intro s16_id) linarith+
  ultimately show ?thesis using b assms by simp
qed

lemma boss_tile_ok:
  assumes "staffed tot w" "i < 15" "tile bx by" "boss_tile tries i bx by w = ((x, y), w')"
  shows "tile x y \<and> staffed tot w'"
  using assms(1,3,4)
proof (induction tries arbitrary: bx "by" w)
  case (Suc tries)
  show ?case
  proof (cases "w_obstacle w bx by")
    case True
    obtain r1 w1 where r1: "rand_next w = (r1, w1)" by (cases "rand_next w")
    obtain r2 w2 where r2: "rand_next w1 = (r2, w2)" by (cases "rand_next w1")
    note a = rand_tile [OF Suc.prems(1) r1]
    note b = rand_tile [OF a(3) r2]
    have "tile (s16 (BOSS_SPAWN_X ! i + s16 (cmod r1 21 - 10))) (s16 (BOSS_SPAWN_Y ! i + s16 (cmod r2 21 - 10)))"
      using boss_spawn_range [OF assms(2)] jitter [OF a(1), of "BOSS_SPAWN_X ! i"] jitter [OF b(1), of "BOSS_SPAWN_Y ! i"]
      by (simp add: tile_def)
    from Suc.IH [OF b(3) this] show ?thesis using Suc.prems(3) True by (simp add: r1 r2)
  qed (use Suc.prems in simp)
qed simp

lemma group_draw_ok:
  assumes "staffed tot w" "group_draw g w = ((x, y), w')"
  shows "tile x y \<and> staffed tot w'"
proof -
  obtain r1 w1 where r1: "rand_next w = (r1, w1)" by (cases "rand_next w")
  obtain r2 w2 where r2: "rand_next w1 = (r2, w2)" by (cases "rand_next w1")
  note a = rand_tile [OF assms(1) r1]
  note b = rand_tile [OF a(3) r2]
  have "0 \<le> clamp 0 1999 v \<and> clamp 0 1999 v \<le> 1999" for v by (rule clamp_range) simp
  then have "s16 (clamp 0 1999 v) = clamp 0 1999 v" "0 \<le> clamp 0 1999 v" "clamp 0 1999 v < 2000" for v
    by (auto intro: s16_id simp: clamp_def)
  then show ?thesis using assms(2) b(3) by (auto simp: group_draw_def Let_def r1 r2 tile_def)
qed

lemma group_tile_ok:
  "staffed tot w \<Longrightarrow> group_tile tries g w = ((x, y), w') \<Longrightarrow> tile x y \<and> staffed tot w'"
proof (induction tries arbitrary: w)
  case (Suc tries)
  obtain px py w1 where d: "group_draw g w = ((px, py), w1)" by (metis surj_pair)
  show ?case
    using group_draw_ok [OF Suc.prems(1) d] Suc.IH [of w1] Suc.prems(2) by (auto simp: d split: if_splits)
qed (simp add: group_draw_ok)

section \<open>The whole start\<close>

lemma staffed_clock: "staffed tot w \<Longrightarrow> clock_now w = (t, w') \<Longrightarrow> staffed tot w'"
  by (auto simp: clock_now_def)

lemma length_dec_nat: "n < 10 ^ Suc k \<Longrightarrow> length (dec_int (int n)) \<le> Suc k"
  using length_digits [of n k] by (simp add: dec_int_def)

lemma spawn_boss_ok:
  assumes "staffed tot w" "i < 15"
  shows "\<exists>w'. spawn_boss i tot w = Some w' \<and> staffed (Suc tot) w'"
proof -
  obtain now w1 where c: "clock_now w = (now, w1)" by (cases "clock_now w")
  obtain x y w2 where b: "boss_tile 50 i (BOSS_SPAWN_X ! i) (BOSS_SPAWN_Y ! i) w1 = ((x, y), w2)" by (metis surj_pair)
  have "tile (BOSS_SPAWN_X ! i) (BOSS_SPAWN_Y ! i)" using boss_spawn_range [OF assms(2)] by (simp add: tile_def)
  from boss_tile_ok [OF staffed_clock [OF assms(1) c] assms(2) this b] have t: "tile x y" "staffed tot w2" by simp_all
  have "length (dec_int (int (Suc i))) \<le> Suc 1" using assms(2) by (intro length_dec_nat) simp
  then show ?thesis
    using staffed_place [OF t(2,1)] by (simp add: spawn_boss_def c b sprintf_name_def bytes_of_def add.commute)
qed

lemma spawn_of_group_ok:
  assumes "staffed tot w" "15 \<le> tot" "tot < MAX_NPCS" "length (g_name g) \<le> 12"
  shows "\<exists>w'. spawn_of_group g tot w = Some w' \<and> staffed (Suc tot) w'"
proof -
  obtain now w1 where c: "clock_now w = (now, w1)" by (cases "clock_now w")
  obtain x y w2 where b: "group_tile 99 g w1 = ((x, y), w2)" by (metis surj_pair)
  from group_tile_ok [OF staffed_clock [OF assms(1) c] b] have t: "tile x y" "staffed tot w2" by simp_all
  have "length (dec_int (int tot)) \<le> Suc 5" using assms(3) by (intro length_dec_nat) simp
  then show ?thesis
    using staffed_place [OF t(2,1)] assms(2,4) by (simp add: spawn_of_group_def c b sprintf_name_def bytes_of_def)
qed

lemma spawn_random_ok:
  assumes "staffed tot w" "15 \<le> tot" "tot < MAX_NPCS"
  shows "\<exists>w'. spawn_random tot w = Some w' \<and> staffed (Suc tot) w'"
proof -
  obtain now w1 where c: "clock_now w = (now, w1)" by (cases "clock_now w")
  obtain r1 w2 where r1: "rand_next w1 = (r1, w2)" by (cases "rand_next w1")
  obtain r2 w3 where r2: "rand_next w2 = (r2, w3)" by (cases "rand_next w2")
  note a = rand_tile [OF staffed_clock [OF assms(1) c] r1]
  note b = rand_tile [OF a(3) r2]
  have t: "tile (s16 (cmod r1 2000)) (s16 (cmod r2 2000))"
    using cmod_bounds [OF a(1), of 2000] cmod_bounds [OF b(1), of 2000] by (simp add: tile_def s16_id)
  have "length (dec_int (int tot)) \<le> Suc 5" using assms(3) by (intro length_dec_nat) simp
  then show ?thesis
    using staffed_place [OF b(3) t] assms(2) by (simp add: spawn_random_def c r1 r2 sprintf_name_def bytes_of_def Let_def)
qed

text \<open>
  The loops keep whatever each placement keeps: \<open>Q tot w\<close>, for a placement of the \<open>tot\<close>-th
  NPC from \<open>lo\<close> on.
\<close>

definition places :: "(nat \<Rightarrow> world \<Rightarrow> bool) \<Rightarrow> nat \<Rightarrow> nat \<Rightarrow> (nat \<Rightarrow> nat \<Rightarrow> world \<Rightarrow> world option) \<Rightarrow> bool" where
  "places Q hi lo spawn \<longleftrightarrow> (\<forall>i tot w. i < hi \<longrightarrow> lo \<le> tot \<longrightarrow> tot < MAX_NPCS \<longrightarrow> Q tot w
      \<longrightarrow> (\<exists>w'. spawn i tot w = Some w' \<and> Q (Suc tot) w'))"

lemma spawn_loop_ok:
  assumes "places Q hi lo spawn"
  shows "i + n \<le> hi \<Longrightarrow> lo \<le> tot \<Longrightarrow> tot \<le> MAX_NPCS \<Longrightarrow> Q tot w
    \<Longrightarrow> \<exists>w'. spawn_loop spawn i n (tot, w) = Some (min (tot + n) MAX_NPCS, w') \<and> Q (min (tot + n) MAX_NPCS) w'"
proof (induction n arbitrary: i tot w)
  case (Suc n)
  show ?case
  proof (cases "tot < MAX_NPCS")
    case True
    obtain w' where w': "spawn i tot w = Some w'" "Q (Suc tot) w'"
      using assms [unfolded places_def, rule_format, of i tot w] Suc.prems True by auto
    then show ?thesis using Suc.IH [of "Suc i" "Suc tot" w'] Suc.prems True by simp
  next
    case False
    then have "min (tot + Suc n) MAX_NPCS = tot" using Suc.prems(3) by simp
    then show ?thesis using False Suc.prems(4) by simp
  qed
qed simp

lemma spawn_groups_ok:
  assumes "\<forall>g \<in> set gs. \<forall>hi. places Q hi 15 (\<lambda>i. spawn_of_group g)" "15 \<le> tot" "tot \<le> MAX_NPCS" "Q tot w"
  shows "\<exists>tot' w'. spawn_groups gs (tot, w) = Some (tot', w') \<and> Q tot' w' \<and> 15 \<le> tot' \<and> tot' \<le> MAX_NPCS"
  using assms
proof (induction gs arbitrary: tot w)
  case (Cons g gs)
  let ?t = "min (tot + nat (g_count g)) MAX_NPCS"
  have "places Q (nat (g_count g)) 15 (\<lambda>i. spawn_of_group g)" using Cons.prems(1) by simp
  from spawn_loop_ok [OF this, of 0 "nat (g_count g)" tot w] obtain w' where
    w': "spawn_loop (\<lambda>i. spawn_of_group g) 0 (nat (g_count g)) (tot, w) = Some (?t, w')" "Q ?t w'"
    using Cons.prems by auto
  then show ?case using Cons.IH [of ?t w'] Cons.prems by simp
qed simp

lemma initialize_with:
  assumes "Q 0 w" "places Q 15 0 spawn_boss" "\<forall>g \<in> set groups. \<forall>hi. places Q hi 15 (\<lambda>i. spawn_of_group g)"
    and "\<And>hi. places Q hi 15 (\<lambda>i. spawn_random)"
  shows "\<exists>w'. InitializeNPC groups w = Some w' \<and> Q MAX_NPCS w'"
proof -
  obtain w1 where w1: "spawn_loop spawn_boss 0 15 (0, w) = Some (15, w1)" "Q 15 w1"
    using spawn_loop_ok [OF assms(2), of 0 15 0 w] assms(1) by auto
  obtain t2 w2 where w2: "spawn_groups groups (15, w1) = Some (t2, w2)" "Q t2 w2" "15 \<le> t2" "t2 \<le> MAX_NPCS"
    using spawn_groups_ok [OF assms(3) _ _ w1(2)] by auto
  have "t2 + (MAX_NPCS - t2) = MAX_NPCS" using w2(4) by simp
  then obtain w3 where w3: "spawn_loop (\<lambda>i. spawn_random) 0 (MAX_NPCS - t2) (t2, w2) = Some (MAX_NPCS, w3)" "Q MAX_NPCS w3"
    using spawn_loop_ok [OF assms(4) [of "MAX_NPCS - t2"], of 0 "MAX_NPCS - t2" t2 w2] w2 by auto
  have "InitializeNPC groups w = Some w3"
    unfolding InitializeNPC_def w1(1) by (simp only: option.case w2(1) fst_conv w3(1)) simp
  then show ?thesis using w3(2) by blast
qed

lemma initialize_npcs:
  assumes "winv {} w" "\<forall>n. is_npc n \<longrightarrow> \<not> w_live w n" "w_timers w = []" "w_completions w = []"
    "\<forall>s. \<forall>n \<in> set (w_sectors w s). is_pc n" "\<forall>g \<in> set groups. length (g_name g) \<le> 12"
  shows "\<exists>w'. InitializeNPC groups w = Some w' \<and> winv {} w'
    \<and> (\<forall>n. is_npc n \<longrightarrow> w_live w' n = (n < NPC_ID_START + int MAX_NPCS))
    \<and> (\<forall>i < 15. m_npc_type (w_npc w' (NPC_ID_START + int i)) = NPC_BOSS_TYPE)"
proof -
  have s0: "staffed 0 w" using assms(1-5) by (auto simp: staffed_def is_npc_def is_pc_def)
  have "\<exists>w'. InitializeNPC groups w = Some w' \<and> staffed MAX_NPCS w'"
    by (rule initialize_with [of staffed, OF s0])
      (use assms(6) spawn_boss_ok spawn_of_group_ok spawn_random_ok in \<open>auto simp: places_def\<close>)
  then show ?thesis by (auto simp: staffed_def)
qed

text \<open>
  C35: \<open>InitializeNPC\<close> on a world without NPCs fills it with exactly \<open>MAX_NPCS\<close> of them, from
  \<open>NPC_ID_START\<close> on, all on tiles of the world and in the grid (the invariant), the first 15
  bosses; whatever the script's groups ask for, as long as their names leave room for the number.
\<close>

theorem npcs_initialized:
  assumes "winv {} w" "\<forall>n. is_npc n \<longrightarrow> \<not> w_live w n" "w_timers w = []" "w_completions w = []"
    "\<forall>s. \<forall>n \<in> set (w_sectors w s). is_pc n" "\<forall>g \<in> set groups. length (g_name g) \<le> 12"
  shows "\<exists>w'. InitializeNPC groups w = Some w' \<and> winv {} w'
    \<and> (\<forall>n. is_npc n \<longrightarrow> w_live w' n = (n < NPC_ID_START + int MAX_NPCS))
    \<and> (\<forall>i < 15. m_npc_type (w_npc w' (NPC_ID_START + int i)) = NPC_BOSS_TYPE)"
  by (rule initialize_npcs [OF assms])

theorem npcs_initialized_witness:
  "\<exists>w'. InitializeNPC [group_of \<lparr> lg_ints = (200, 180, 150, 5000, 1, 1), lg_name = Some (bytes_of ''Rabbit'') \<rparr>]
      (init_world (\<lambda>x y. \<not> tile x y) (\<lambda>_. 0) (\<lambda>_. 0) (\<lambda>_. True)) = Some w' \<and> winv {} w'"
  using npcs_initialized [OF winv_init [of "\<lambda>x y. \<not> tile x y" "\<lambda>_. 0" "{}" "\<lambda>_. 0" "\<lambda>_. True"],
      of "[group_of \<lparr> lg_ints = (200, 180, 150, 5000, 1, 1), lg_name = Some (bytes_of ''Rabbit'') \<rparr>]"]
  by (auto simp: init_world_def empty_sectors_def group_of_def strncpy_s_def cstr_def bytes_of_def)

end
