(* ===== verification/Server.thy ===== *)
theory Server
  imports Spawn Actions
begin

text \<open>
  The threads of the server: the worker's dispatch of completions with the receive loop and the
  database login, \<open>process_hp_regen\<close> and \<open>timer_thread\<close> (\<open>SERVER/network.cpp\<close>), the
  database thread (\<open>SERVER/db.cpp\<close>) with what the database answers as an argument, and the
  constructors and \<open>do_recv\<close> of a session (\<open>SERVER/session.h\<close>). A step of a thread runs
  without another one in between. The buffer of a pending receive is \<open>m_buff\<close> of its session.
\<close>

section \<open>Accepting\<close>

definition send_login_fail :: "byte list \<Rightarrow> byte list" where
  "send_login_fail message = enc_s2c (S2C_LoginResult False message)"

text \<open>\<open>player_index\<close> only grows; its wrap-around, after 2^31 connections, is left out.\<close>

function get_new_player_id :: "world \<Rightarrow> int \<times> world" where
  "get_new_player_id w =
    (let id = w_player_index w; w1 = w\<lparr>w_player_index := id + 1\<rparr> in
     if id \<ge> NPC_ID_START then (-1, w1)
     else case get_object w1 id of
         None \<Rightarrow> (id, w1)
       | Some ob \<Rightarrow> if m_state ob = CS_FREE \<or> m_state ob = CS_LOGOUT then (id, w1)
           else get_new_player_id w1)"
  by auto

termination get_new_player_id
  by (relation "measure (\<lambda>w. nat (NPC_ID_START - w_player_index w))") auto

declare get_new_player_id.simps [simp del]

definition do_recv :: "session \<Rightarrow> session" where
  "do_recv s = s\<lparr>m_recv_len := BUF_SIZE - m_prev_recv s\<rparr>"

text \<open>A new connection on socket \<open>sock\<close>: the bytes sent to it directly, when it is refused.\<close>

definition do_accept :: "int \<Rightarrow> world \<Rightarrow> byte list option \<times> world" where
  "do_accept sock w =
    (let (my_id, w1) = get_new_player_id w in
     if my_id = -1 then (Some (send_login_fail (bytes_of ''Server is full.'')), w1)
     else let (t1, w2) = clock_now w1; (t2, w3) = clock_now w2;
       s = (new_session sock my_id t1)\<lparr>m_last_ranged_atk_time := t2 - ms 10000\<rparr>
     in (None, w3\<lparr>w_live := (w_live w3)(my_id := True), w_pl := (w_pl w3)(my_id := do_recv s)\<rparr>))"

section \<open>Receiving\<close>

text \<open>
  The loop over the packets in the buffer; \<open>off\<close> is \<open>p - m_buff\<close>. No value: it never
  ends. \<open>READS_PAST\<close>: a handler reads past the end of the buffer. \<open>proc\<close> is
  \<open>process_packet\<close>.
\<close>

datatype recv_out = READS_PAST | LEFT_AT nat nat "byte list" world

partial_function (option) recv_loop ::
  "(byte list \<Rightarrow> world \<Rightarrow> (bool \<times> byte list \<times> world) option) \<Rightarrow> int \<Rightarrow> nat \<Rightarrow> nat \<Rightarrow> byte list \<Rightarrow> world \<Rightarrow> recv_out option"
where
  "recv_loop proc key off data_size buff w =
    (if data_size = 0 then Some (LEFT_AT off data_size buff w)
     else let p = drop off buff; packet_size = nat (rd8 p) in
       if packet_size > data_size then Some (LEFT_AT off data_size buff w)
       else case proc p w of
           None \<Rightarrow> Some READS_PAST
         | Some (ok, p', w') \<Rightarrow>
             let buff' = take off buff @ p' in
             if \<not> ok then Some (LEFT_AT off data_size buff' (disconnect key w'))
             else recv_loop proc key (off + packet_size) (data_size - packet_size) buff' w')"

text \<open>After the loop: the rest of the data to the front of the buffer, and the next receive.\<close>

definition recv_rest :: "nat \<Rightarrow> nat \<Rightarrow> byte list \<Rightarrow> session \<Rightarrow> session" where
  "recv_rest off data_size buff s =
    do_recv (if data_size > 0
      then s\<lparr>m_buff := take data_size (drop off buff) @ drop data_size buff, m_prev_recv := data_size\<rparr>
      else s\<lparr>m_buff := buff, m_prev_recv := 0\<rparr>)"

definition recv_with :: "(int \<Rightarrow> byte list \<Rightarrow> world \<Rightarrow> (bool \<times> byte list \<times> world) option) \<Rightarrow> int \<Rightarrow> byte list \<Rightarrow> world \<Rightarrow> (unit + world) option" where
  "recv_with proc key bs w =
    (if bs = [] then Some (Inr (disconnect key w))
     else if \<not> w_live w key then Some (Inr w)
     else let s = w_pl w key; n = m_prev_recv s;
       buff = take n (m_buff s) @ bs @ drop (n + length bs) (m_buff s)
     in map_option (\<lambda>r. case r of
          READS_PAST \<Rightarrow> Inl ()
        | LEFT_AT off ds buff' w' \<Rightarrow> Inr (upd_pl key (recv_rest off ds buff') w'))
        (recv_loop (proc key) key 0 (length bs + n) buff w))"

definition on_recv :: "int \<Rightarrow> byte list \<Rightarrow> world \<Rightarrow> (unit + world) option" where
  "on_recv = recv_with process_packet"

section \<open>The database\<close>

text \<open>
  The texts of the statements. \<open>swprintf_s\<close> with \<open>%S\<close> converts the bytes of the login id in
  the current locale; the program never calls \<open>setlocale\<close>, and the run-time library's start-up
  locale "C" maps each byte to the character of its value, so the texts are lists of these values.
  It ends the program when the text does not fit the array.
\<close>

definition swprintf_s :: "nat \<Rightarrow> byte list \<Rightarrow> byte list option" where
  "swprintf_s n text = (if length text < n then Some text else None)"

definition quote :: "byte list" where
  "quote = [39]"

definition sql_login :: "byte list \<Rightarrow> byte list option" where
  "sql_login login_id = swprintf_s 128
    (bytes_of ''EXEC dbo.sp_LoginOrCreate @login_id=N'' @ quote @ login_id @ quote)"

definition sql_load_extra :: "byte list \<Rightarrow> byte list option" where
  "sql_load_extra login_id = swprintf_s 128
    (bytes_of ''EXEC dbo.sp_LoadPlayerExtra @login_id=N'' @ quote @ login_id @ quote)"

definition sql_save :: "byte list \<Rightarrow> int \<Rightarrow> int \<Rightarrow> int \<Rightarrow> int \<Rightarrow> int \<Rightarrow> int list \<Rightarrow> byte list option" where
  "sql_save login_id x y hp level xp items = swprintf_s 300
    (bytes_of ''EXEC dbo.sp_SavePlayer @login_id=N'' @ quote @ login_id @ quote @ bytes_of '',''
     @ bytes_of ''@x='' @ dec_int x @ bytes_of '',@y='' @ dec_int y @ bytes_of '',@hp='' @ dec_int hp
     @ bytes_of '',@level='' @ dec_int level @ bytes_of '',@exp='' @ dec_int xp @ bytes_of '',''
     @ bytes_of ''@inv1='' @ dec_int (items ! 0) @ bytes_of '',@inv2='' @ dec_int (items ! 1)
     @ bytes_of '',@inv3='' @ dec_int (items ! 2) @ bytes_of '',@inv4='' @ dec_int (items ! 3)
     @ bytes_of '',@inv5='' @ dec_int (items ! 4) @ bytes_of '',@inv6='' @ dec_int (items ! 5))"

definition sql_save_extra :: "byte list \<Rightarrow> int list \<Rightarrow> byte list option" where
  "sql_save_extra login_id kills = swprintf_s 150
    (bytes_of ''EXEC dbo.sp_SavePlayerExtra @login_id=N'' @ quote @ login_id @ quote
     @ bytes_of '',@q0_kill='' @ dec_int (kills ! 0) @ bytes_of '',@q1_kill='' @ dec_int (kills ! 1))"

text \<open>
  Answers of the database: \<open>None\<close> when the statement fails, else the rows. A login row is
  \<open>x, y, hp, level, exp\<close> and the six inventory columns; a quest row an id and a count.
\<close>

type_synonym login_row = "int \<times> int \<times> int \<times> int \<times> int \<times> int list"

definition no_result :: db_result where
  "no_result = \<lparr> dr_success = False, dr_x = PC_SPAWN_X, dr_y = PC_SPAWN_Y, dr_hp = 100, dr_level = 1,
     dr_exp = 0, dr_inventory = replicate ITEM_SLOT_COUNT 0, dr_quest_kill = replicate QUEST_COUNT 0 \<rparr>"

definition db_login_or_create :: "login_row list option \<Rightarrow> db_result \<Rightarrow> db_result" where
  "db_login_or_create ans r =
    (case ans of
       Some ((x, y, hp, level, xp, items) # _) \<Rightarrow>
         r\<lparr>dr_success := True, dr_x := x, dr_y := y, dr_hp := hp, dr_level := level, dr_exp := xp,
           dr_inventory := items\<rparr>
     | _ \<Rightarrow> r)"

definition load_quest :: "int \<times> int \<Rightarrow> int list \<Rightarrow> int list" where
  "load_quest row ks =
    (let (quest_id, kills) = row in
     if quest_id \<ge> 0 \<and> quest_id < int QUEST_COUNT then ks[nat quest_id := kills] else ks)"

definition db_load_quests :: "(int \<times> int) list option \<Rightarrow> db_result \<Rightarrow> db_result" where
  "db_load_quests ans r =
    (case ans of None \<Rightarrow> r | Some rows \<Rightarrow> r\<lparr>dr_quest_kill := fold load_quest rows (dr_quest_kill r)\<rparr>)"

text \<open>
  One round of \<open>db_thread\<close>: the statements it executes and the state after it. \<open>None\<close>: a
  text does not fit. A login is answered by a completion for its session.
\<close>

definition db_step :: "bool \<Rightarrow> login_row list option \<Rightarrow> (int \<times> int) list option \<Rightarrow> world \<Rightarrow> (byte list list \<times> world) option" where
  "db_step connected logins quests w =
    (case w_db_queue w of
       [] \<Rightarrow> Some ([], w)
     | ev # rest \<Rightarrow>
       let w1 = w\<lparr>w_db_queue := rest\<rparr> in
       (case ev of
          DB_LOGIN session_id login_id \<Rightarrow>
            if \<not> connected
            then Some ([], w1\<lparr>w_completions := w_completions w1 @ [IO_DB_LOGIN session_id no_result]\<rparr>)
            else (case sql_login login_id of
                None \<Rightarrow> None
              | Some q1 \<Rightarrow>
                let r1 = db_login_or_create logins no_result in
                if \<not> dr_success r1
                then Some ([q1], w1\<lparr>w_completions := w_completions w1 @ [IO_DB_LOGIN session_id r1]\<rparr>)
                else (case sql_load_extra login_id of
                    None \<Rightarrow> None
                  | Some q2 \<Rightarrow> Some ([q1, q2], w1\<lparr>w_completions := w_completions w1
                      @ [IO_DB_LOGIN session_id (db_load_quests quests r1)]\<rparr>)))
        | DB_SAVE session_id login_id x y hp level xp items kills \<Rightarrow>
            if \<not> connected then Some ([], w1)
            else (case sql_save login_id x y hp level xp items of
                None \<Rightarrow> None
              | Some q1 \<Rightarrow>
                (case sql_save_extra login_id kills of None \<Rightarrow> None | Some q2 \<Rightarrow> Some ([q1, q2], w1)))))"

text \<open>The login completion.\<close>

definition load_session :: "db_result \<Rightarrow> session \<Rightarrow> session" where
  "load_session r s =
    (let mhp = calc_max_hp (dr_level r) in
     s\<lparr>m_x := dr_x r, m_y := dr_y r, m_level := dr_level r, m_max_hp := mhp, m_hp := min (dr_hp r) mhp,
       m_xp := dr_exp r, m_inventory := dr_inventory r,
       m_quests := map2 (\<lambda>q n. q\<lparr>kill_count := n\<rparr>) (m_quests s) (dr_quest_kill r),
       m_state := CS_PLAYING\<rparr>)"

definition on_db_login :: "int \<Rightarrow> db_result \<Rightarrow> world \<Rightarrow> world" where
  "on_db_login key r w =
    (if \<not> w_live w key \<or> m_state (w_pl w key) \<noteq> CS_DB_WAIT then w
     else if \<not> dr_success r then upd_pl key (\<lambda>s. s\<lparr>m_state := CS_LOGOUT\<rparr>) w
     else let w1 = upd_pl key (load_session r) w;
       w2 = w1\<lparr>w_sectors := add_object_to_sector key (m_x (w_pl w1 key)) (m_y (w_pl w1 key)) (w_sectors w1)\<rparr>;
       w3 = send_all_quest_states key (send_all_world_items key (send_all_inventory_items key
              (send_avatar_info key (send_login_success key w2))));
       w4 = update_player_view key w3;
       (t, w5) = clock_now w4
     in push_timer key EVENT_HP_REGEN (t + ms HP_REGEN_TIME) w5)"

section \<open>Timers\<close>

definition process_hp_regen :: "int \<Rightarrow> world \<Rightarrow> world" where
  "process_hp_regen player_id w =
    (if \<not> w_live w player_id \<or> \<not> is_pc player_id then w
     else let s = w_pl w player_id in
       if \<not> can_send s \<or> m_state s \<noteq> CS_PLAYING then w
       else let w1 = (if m_hp s < m_max_hp s
           then let regen = max 1 (cdiv (m_max_hp s) 10); hp = min (m_max_hp s) (s16 (m_hp s + regen)) in
             send_stat_info player_id player_id hp (m_max_hp s) (m_level s) (m_xp s) (exp_for_next_level s)
               NPC_STATE_IDLE (upd_pl player_id (\<lambda>s. s\<lparr>m_hp := hp\<rparr>) w)
           else w);
         (t, w2) = clock_now w1
       in push_timer player_id EVENT_HP_REGEN (t + ms HP_REGEN_TIME) w2)"

definition timer_completion :: "event_type \<Rightarrow> completion" where
  "timer_completion ev =
    (case ev_event_id ev of
       EVENT_NPC_MOVE \<Rightarrow> IO_NPC_MOVE (ev_obj_id ev)
     | EVENT_HP_REGEN \<Rightarrow> IO_HP_REGEN (ev_obj_id ev)
     | EVENT_NPC_RESPAWN \<Rightarrow> IO_NPC_RESPAWN (ev_obj_id ev))"

text \<open>One round of \<open>timer_thread\<close>.\<close>

definition timer_step :: "world \<Rightarrow> world" where
  "timer_step w =
    (case pq_pop (w_timers w) of
       None \<Rightarrow> w
     | Some (ev, rest) \<Rightarrow>
         let (now, w1) = clock_now (w\<lparr>w_timers := rest\<rparr>) in
         if ev_wakeup_time ev \<le> now
         then w1\<lparr>w_completions := w_completions w1 @ [timer_completion ev]\<rparr>
         else w1\<lparr>w_timers := pq_push ev_wakeup_time ev (w_timers w1)\<rparr>)"

section \<open>The worker\<close>

definition on_completion :: "completion \<Rightarrow> world \<Rightarrow> world" where
  "on_completion c w =
    (case c of
       IO_NPC_MOVE n \<Rightarrow> process_npc_move n w
     | IO_HP_REGEN k \<Rightarrow> process_hp_regen k w
     | IO_NPC_RESPAWN n \<Rightarrow> process_npc_respawn n w
     | IO_DB_LOGIN k r \<Rightarrow> on_db_login k r w)"

definition on_sent :: "int \<Rightarrow> byte list \<Rightarrow> nat \<Rightarrow> world \<Rightarrow> world" where
  "on_sent key bs n w = (if \<not> w_live w key \<or> \<not> is_pc key then w else on_send_complete key bs n w)"

definition on_error :: "int \<Rightarrow> world \<Rightarrow> world" where
  "on_error key w = (if key \<ge> 0 then disconnect key w else w)"

text \<open>
  What can happen next. \<open>Work i\<close> is the \<open>i\<close>-th of the posted completions, \<open>Db\<close> one round of
  the database thread with what the database answers.
\<close>

datatype event =
    Accept int
  | Recv int "byte list"
  | Sent int "byte list" nat
  | Gone int
  | Work nat
  | Tick
  | Db bool "login_row list option" "(int \<times> int) list option"

datatype stop = OVERREAD | TEXT_TOO_LONG

text \<open>\<open>None\<close>: the thread never comes back.\<close>

definition serve :: "event \<Rightarrow> world \<Rightarrow> (stop + world) option" where
  "serve ev w =
    (case ev of
       Accept sock \<Rightarrow> Some (Inr (snd (do_accept sock w)))
     | Recv key bs \<Rightarrow> map_option (map_sum (\<lambda>_. OVERREAD) id) (on_recv key bs w)
     | Sent key bs n \<Rightarrow> Some (Inr (on_sent key bs n w))
     | Gone key \<Rightarrow> Some (Inr (on_error key w))
     | Work i \<Rightarrow> Some (Inr (if i < length (w_completions w)
         then on_completion (w_completions w ! i)
           (w\<lparr>w_completions := take i (w_completions w) @ drop (Suc i) (w_completions w)\<rparr>)
         else w))
     | Tick \<Rightarrow> Some (Inr (timer_step w))
     | Db connected logins quests \<Rightarrow>
         Some (case db_step connected logins quests w of None \<Rightarrow> Inl TEXT_TOO_LONG | Some (_, w') \<Rightarrow> Inr w'))"

end
