(* ===== verification/Steps.thy ===== *)
theory Steps
  imports Server
begin

text \<open>
  What no packet handler touches (\<open>undisturbed\<close>): the ids handed out, and every session's
  receive buffer, which belongs to the receive loop.
\<close>

definition undisturbed :: "world \<Rightarrow> world \<Rightarrow> bool" where
  "undisturbed w w' \<longleftrightarrow> w_player_index w' = w_player_index w
    \<and> (\<forall>k. m_buff (w_pl w' k) = m_buff (w_pl w k) \<and> m_prev_recv (w_pl w' k) = m_prev_recv (w_pl w k)
         \<and> m_recv_len (w_pl w' k) = m_recv_len (w_pl w k))"

lemma undisturbed_refl [simp]: "undisturbed w w"
  by (simp add: undisturbed_def)

lemma undisturbed_trans [trans]: "undisturbed a b \<Longrightarrow> undisturbed b c \<Longrightarrow> undisturbed a c"
  by (simp add: undisturbed_def)

lemma undisturbed_calm [simp]:
  assumes "calm w w'"
  shows "undisturbed w w'"
proof -
  have "f (body (w_pl w' k)) = f (body (w_pl w k))" for f :: "session \<Rightarrow> 'x" and k
    using calmD(9) [OF assms, of k] by simp
  from this [of m_buff] have "m_buff (w_pl w' k) = m_buff (w_pl w k)" for k by (simp add: body_def)
  moreover have "m_prev_recv (w_pl w' k) = m_prev_recv (w_pl w k)" for k
    using arg_cong [OF calmD(9) [OF assms, of k], of m_prev_recv] by (simp add: body_def)
  moreover have "m_recv_len (w_pl w' k) = m_recv_len (w_pl w k)" for k
    using arg_cong [OF calmD(9) [OF assms, of k], of m_recv_len] by (simp add: body_def)
  ultimately show ?thesis using calmD(3) [OF assms] by (simp add: undisturbed_def)
qed

text \<open>
  It is an equivalence: a step with the property can be taken off the state on the right. The
  handlers are chains of such steps.
\<close>

lemma undisturbed_same: "undisturbed a b \<Longrightarrow> undisturbed w b = undisturbed w a"
  by (auto simp: undisturbed_def)

lemma undisturbed_pl [simp]:
  "(\<And>s. m_buff (f s) = m_buff s \<and> m_prev_recv (f s) = m_prev_recv s \<and> m_recv_len (f s) = m_recv_len s)
    \<Longrightarrow> undisturbed w (upd_pl k f w') = undisturbed w w'"
  by (auto simp: undisturbed_def upd_pl_def)

lemma undisturbed_fields [simp]:
  "undisturbed w (upd_npc n g w') = undisturbed w w'" "undisturbed w (w'\<lparr>w_ticks := a\<rparr>) = undisturbed w w'"
  "undisturbed w (w'\<lparr>w_rands := b\<rparr>) = undisturbed w w'" "undisturbed w (w'\<lparr>w_items := its\<rparr>) = undisturbed w w'"
  "undisturbed w (w'\<lparr>w_sectors := ss\<rparr>) = undisturbed w w'" "undisturbed w (w'\<lparr>w_db_queue := q\<rparr>) = undisturbed w w'"
  "undisturbed w (w'\<lparr>w_next_item_id := i\<rparr>) = undisturbed w w'"
  "undisturbed w (push_timer i e t w') = undisturbed w w'"
  by (simp_all add: undisturbed_def upd_npc_def push_timer_def)

lemma undisturbed_fold: "(\<And>x w. undisturbed w (f x w)) \<Longrightarrow> undisturbed w (fold f xs w)"
  by (rule fold_preorder [of undisturbed]) (auto intro: undisturbed_trans)

lemmas undisturbed_sends [simp] =
  calm_send_packets [THEN undisturbed_calm, THEN undisturbed_same]
  calm_send_all [THEN undisturbed_calm, THEN undisturbed_same]
  calm_broadcasts [THEN undisturbed_calm, THEN undisturbed_same]
  calm_wake_up [THEN undisturbed_calm, THEN undisturbed_same]
  calm_update_player_view [THEN undisturbed_calm, THEN undisturbed_same]

lemma undisturbed_for_players [simp]:
  "(\<And>i w. calm w (f i w)) \<Longrightarrow> undisturbed w (for_players ids f w') = undisturbed w w'"
  by (rule undisturbed_same [OF undisturbed_calm [OF calm_for_players]]) simp

section \<open>The handlers\<close>

lemma undisturbed_npc_die [simp]: "undisturbed w (npc_die n w') = undisturbed w w'"
  by (simp add: npc_die_def spawn_item_def Let_def rand_next_def clock_now_def split: option.split)

lemma recv_gain [simp]:
  "m_buff (gain_xp x s) = m_buff s \<and> m_prev_recv (gain_xp x s) = m_prev_recv s \<and> m_recv_len (gain_xp x s) = m_recv_len s"
  "m_buff (add_item i s) = m_buff s \<and> m_prev_recv (add_item i s) = m_prev_recv s \<and> m_recv_len (add_item i s) = m_recv_len s"
  "m_buff (set_kills q n s) = m_buff s \<and> m_prev_recv (set_kills q n s) = m_prev_recv s \<and> m_recv_len (set_kills q n s) = m_recv_len s"
  "m_buff (take_item j s) = m_buff s \<and> m_prev_recv (take_item j s) = m_prev_recv s \<and> m_recv_len (take_item j s) = m_recv_len s"
  by (simp_all add: gain_xp_def add_item_def set_kills_def take_item_def Let_def split: prod.split)

lemma undisturbed_quest [simp]: "undisturbed w (process_quest_kill k t w') = undisturbed w w'"
  by (simp add: process_quest_kill_def Let_def)

lemma undisturbed_strike [simp]: "undisturbed w (strike k p n d w') = undisturbed w w'"
  by (simp add: strike_def Let_def)

lemma undisturbed_attack: "undisturbed w (attack k w)"
  unfolding attack_def by (rule undisturbed_fold) (simp add: attack_one_def Let_def clock_now_def)

lemma undisturbed_skill: "undisturbed w (skill k w)"
proof -
  have "undisturbed v (fold (skill_one k) ids v)" for ids v
    by (rule undisturbed_fold) (simp add: skill_one_def Let_def clock_now_def)
  note [simp] = undisturbed_same [OF this]
  show ?thesis by (simp add: skill_def Let_def clock_now_def)
qed

lemma undisturbed_ranged: "undisturbed w (ranged_attack k w)"
  by (simp add: ranged_attack_def Let_def clock_now_def split: prod.split)

lemma undisturbed_use_item: "undisturbed w (use_item k it w)"
proof (cases "use_effect it (w_pl w k) w")
  case None
  then show ?thesis by (simp add: use_item_def Let_def)
next
  case (Some r)
  obtain f msg w1 where r: "r = (f, msg, w1)" by (cases r)
  have f: "m_buff (f s) = m_buff s \<and> m_prev_recv (f s) = m_prev_recv s \<and> m_recv_len (f s) = m_recv_len s"
    "undisturbed w w1" for s
    using Some by (auto simp: r use_effect_def clock_now_def Let_def heal_def split: if_splits)
  then show ?thesis by (simp add: use_item_def Let_def Some r)
qed

lemma undisturbed_do_move [simp]: "undisturbed w (do_move k d w') = undisturbed w w'"
proof -
  have "undisturbed v (fold (pick_up k) its v)" for its v
    by (rule undisturbed_fold) (simp add: pick_up_def Let_def)
  note [simp] = undisturbed_same [OF this]
  show ?thesis by (simp add: do_move_def Let_def split: prod.split)
qed

lemma undisturbed_move_packet: "undisturbed w (move_packet k d t w)"
  by (simp add: move_packet_def Let_def clock_now_def)

lemma undisturbed_login: "undisturbed w (login_packet k name w)"
  by (simp add: login_packet_def bot_login_def Let_def rand_next_def clock_now_def)

lemma undisturbed_chat: "undisturbed w (chat_packet k m w)"
  by (simp add: chat_packet_def Let_def)

lemma undisturbed_process:
  assumes "process_packet k p w = Some (ok, p', w')"
  shows "undisturbed w w'"
  using assms undisturbed_login undisturbed_move_packet undisturbed_chat undisturbed_attack undisturbed_skill
    undisturbed_use_item undisturbed_ranged
  by (auto simp: process_packet_def Let_def split: if_splits sum.splits option.splits c2s.splits)

end
