(* ===== verification/Receive.thy ===== *)
theory Receive
  imports Steps
begin

text \<open>
  The receive loop: the framing of the packets in the stream, and what a packet of size zero does.
\<close>

section \<open>Framing\<close>

text \<open>What handling a complete packet does to the state.\<close>

definition packet_effect :: "int \<Rightarrow> c2s \<Rightarrow> world \<Rightarrow> world" where
  "packet_effect k q w =
    (case q of
       C2S_Login name \<Rightarrow> if m_state (w_pl w k) = CS_CONNECT then login_packet k name w else w
     | C2S_Move d t \<Rightarrow> move_packet k d t w
     | C2S_Chat msg \<Rightarrow> chat_packet k msg w
     | C2S_Attack \<Rightarrow> attack k w
     | C2S_Skill \<Rightarrow> skill k w
     | C2S_UseItem it \<Rightarrow> if m_state (w_pl w k) = CS_PLAYING then use_item k it w else w
     | C2S_RangedAttack \<Rightarrow> ranged_attack k w)"

lemma dec_kinds:
  assumes "dec_c2s p = Inr (Some q)"
  shows "(rd32 (drop 1 p) = 0) = (\<exists>nm. q = C2S_Login nm)" "(rd32 (drop 1 p) = 5) = (\<exists>it. q = C2S_UseItem it)"
    "(rd32 (drop 1 p) = 2) = (\<exists>m. q = C2S_Chat m)" "\<not> length p < 5"
  using assms by (auto simp: dec_c2s_def Let_def split: if_splits)

lemma dec_chat:
  assumes "dec_c2s p = Inr (Some (C2S_Chat m))"
  shows "\<not> length p < 133" "m = cstr (take 127 (drop 5 p))" "rd32 (drop 1 p) = 2"
  using assms by (auto simp: dec_c2s_def Let_def split: if_splits)

lemma cstr_terminated:
  assumes "length xs = Suc n" "xs ! n = 0"
  shows "cstr xs = cstr (take n xs)"
proof -
  have "xs = take n xs @ [0]" using assms by (metis lessI order_refl take_Suc_conv_app_nth take_all)
  then have "cstr xs = takeWhile (\<lambda>b. b \<noteq> 0) (take n xs @ [0])" by (simp add: cstr_def)
  also have "\<dots> = cstr (take n xs)"
  proof (cases "0 \<in> set (take n xs)")
    case True
    then show ?thesis unfolding cstr_def by (rule takeWhile_append1) simp
  next
    case False
    then have a: "b \<noteq> 0" if "b \<in> set (take n xs)" for b using that by metis
    have "takeWhile (\<lambda>b. b \<noteq> 0) (take n xs @ [0]) = take n xs @ takeWhile (\<lambda>b. b \<noteq> 0) [0]"
      by (rule takeWhile_append2) (rule a)
    moreover have "takeWhile (\<lambda>b. b \<noteq> 0) (take n xs) = take n xs" using a by (simp add: takeWhile_eq_all_conv)
    moreover have "takeWhile (\<lambda>b. b \<noteq> 0) [0 :: byte] = []" by simp
    ultimately show ?thesis unfolding cstr_def by (metis append_Nil2)
  qed
  finally show ?thesis .
qed

lemma process_effect:
  assumes "wf_c2s q"
  shows "process_packet k (enc_c2s q @ r) w = Some (True, enc_c2s q @ r, packet_effect k q w)"
proof -
  define p where "p = enc_c2s q @ r"
  have d: "dec_c2s p = Inr (Some q)" unfolding p_def by (rule dec_enc_c2s [OF assms])
  note kinds = dec_kinds [OF d]
  show ?thesis
  proof (cases "\<exists>m. q = C2S_Chat m")
    case True
    then obtain m where m: "q = C2S_Chat m" by blast
    note c = dec_chat [OF d [unfolded m]]
    have same: "p[132 := 0] = p" using chat_terminated [of m r] assms by (simp add: p_def m)
    have "p[132 := 0] ! 132 = 0" using c(1) by (intro nth_list_update_eq) simp
    then have "p ! 132 = 0" by (simp add: same)
    then have "take 128 (drop 5 p) ! 127 = 0" "length (take 128 (drop 5 p)) = Suc 127" using c(1) by simp_all
    then have "cstr (take 128 (drop 5 p)) = m" using cstr_terminated [of "take 128 (drop 5 p)" 127] c(2) by (simp add: min_def)
    then show ?thesis
      using c same unfolding p_def [symmetric] by (simp add: process_packet_def Let_def packet_effect_def m)
  next
    case False
    then show ?thesis
      using d kinds unfolding p_def [symmetric]
      by (cases q) (auto simp: process_packet_def Let_def packet_effect_def)
  qed
qed

text \<open>Bytes that are no complete packet yet.\<close>

definition incomplete :: "byte list \<Rightarrow> bool" where
  "incomplete bs \<longleftrightarrow> bs = [] \<or> length bs < nat (rd8 bs)"

lemma recv_loop_frames:
  assumes "\<forall>q \<in> set qs. wf_c2s q" "incomplete part" "drop off buff = concat (map enc_c2s qs) @ part @ r"
  shows "recv_loop (process_packet k) k off (length (concat (map enc_c2s qs)) + length part) buff w =
    Some (LEFT_AT (off + length (concat (map enc_c2s qs))) (length part) buff (fold (packet_effect k) qs w))"
  using assms
proof (induction qs arbitrary: off w)
  case Nil
  then show ?case by (subst recv_loop.simps) (auto simp: incomplete_def rd8_append Let_def)
next
  case (Cons q qs)
  let ?n = "length (concat (map enc_c2s qs)) + length part"
  have p: "drop off buff = enc_c2s q @ concat (map enc_c2s qs) @ part @ r" using Cons.prems(3) by simp
  have sz: "nat (rd8 (drop off buff)) = c2s_size q" by (simp add: p rd8_enc_c2s)
  have pos: "0 < c2s_size q" using c2s_size_bounds(1) [of q] by simp
  have same: "take off buff @ drop off buff = buff" by (rule append_take_drop_id)
  have wf: "wf_c2s q" "\<forall>q \<in> set qs. wf_c2s q" using Cons.prems(1) by auto
  have next': "drop (off + c2s_size q) buff = concat (map enc_c2s qs) @ part @ r"
    by (metis p drop_drop add.commute append_eq_conv_conj length_enc_c2s)
  have "recv_loop (process_packet k) k off (c2s_size q + ?n) buff w =
      recv_loop (process_packet k) k (off + c2s_size q) ?n buff (packet_effect k q w)"
    using pos process_effect [OF wf(1), of k "concat (map enc_c2s qs) @ part @ r" w, folded p]
    by (subst recv_loop.simps) (simp add: Let_def sz same)
  with Cons.IH [OF wf(2) Cons.prems(2) next'] show ?case by (simp add: add.assoc)
qed

lemma on_recv_frames:
  assumes q: "\<forall>q \<in> set qs. wf_c2s q" and part: "incomplete part" and bs: "bs \<noteq> []" "w_live w k"
    and data: "take (m_prev_recv (w_pl w k)) (m_buff (w_pl w k)) @ bs = concat (map enc_c2s qs) @ part"
    and n: "m_prev_recv (w_pl w k) \<le> length (m_buff (w_pl w k))"
  shows "\<exists>buff. on_recv k bs w = Some (Inr (upd_pl k (recv_rest (length (concat (map enc_c2s qs))) (length part) buff)
      (fold (packet_effect k) qs w)))
    \<and> drop (length (concat (map enc_c2s qs))) buff = part @ drop (length (concat (map enc_c2s qs) @ part)) (m_buff (w_pl w k))"
proof -
  let ?s = "w_pl w k"
  let ?n = "m_prev_recv ?s"
  define buff where "buff = take ?n (m_buff ?s) @ bs @ drop (?n + length bs) (m_buff ?s)"
  have len: "?n + length bs = length (concat (map enc_c2s qs)) + length part"
    using arg_cong [OF data, of length] n by simp
  have b: "buff = concat (map enc_c2s qs) @ part @ drop (?n + length bs) (m_buff ?s)"
    using data by (simp add: buff_def flip: append_assoc)
  have l: "recv_loop (process_packet k) k 0 (length bs + ?n) buff w =
      Some (LEFT_AT (length (concat (map enc_c2s qs))) (length part) buff (fold (packet_effect k) qs w))"
    using recv_loop_frames [OF q part, of 0 buff _ k w] b len by (simp add: add.commute)
  have "on_recv k bs w = Some (Inr (upd_pl k (recv_rest (length (concat (map enc_c2s qs))) (length part) buff)
      (fold (packet_effect k) qs w)))"
    using bs l by (simp add: on_recv_def recv_with_def Let_def buff_def [symmetric])
  moreover have "drop (length (concat (map enc_c2s qs))) buff = part @ drop (length (concat (map enc_c2s qs) @ part)) (m_buff ?s)"
    by (simp add: b len)
  ultimately show ?thesis by blast
qed

lemma recv_frames_kept:
  assumes q: "\<forall>q \<in> set qs. wf_c2s q" and part: "incomplete part" and bs: "bs \<noteq> []" "w_live w k"
    and data: "take (m_prev_recv (w_pl w k)) (m_buff (w_pl w k)) @ bs = concat (map enc_c2s qs) @ part"
    and n: "m_prev_recv (w_pl w k) \<le> length (m_buff (w_pl w k))"
  shows "\<exists>b. on_recv k bs w = Some (Inr (upd_pl k (\<lambda>s. s\<lparr>m_buff := b, m_prev_recv := length part,
      m_recv_len := BUF_SIZE - length part\<rparr>) (fold (packet_effect k) qs w))) \<and> take (length part) b = part"
proof -
  obtain buff where b: "on_recv k bs w = Some (Inr (upd_pl k (recv_rest (length (concat (map enc_c2s qs))) (length part) buff)
      (fold (packet_effect k) qs w)))"
    "drop (length (concat (map enc_c2s qs))) buff = part @ drop (length (concat (map enc_c2s qs) @ part)) (m_buff (w_pl w k))"
    using on_recv_frames [OF assms] by blast
  let ?b = "if length part > 0 then part @ drop (length part) buff else buff"
  have "recv_rest (length (concat (map enc_c2s qs))) (length part) buff =
      (\<lambda>s. s\<lparr>m_buff := ?b, m_prev_recv := length part, m_recv_len := BUF_SIZE - length part\<rparr>)"
    using b(2) by (intro ext) (simp add: recv_rest_def do_recv_def)
  then show ?thesis using b(1) by (intro exI [of _ ?b]) auto
qed

text \<open>
  C8: Framing does not depend on how TCP cuts the stream: when what was left over and the new
  bytes together are complete packets followed by the beginning of one (or nothing), exactly
  these packets are handled, in order, each once; the beginning is kept at the front of the
  buffer, and the next receive asks for just the room behind it. The loop ends.
\<close>

theorem recv_frames:
  assumes q: "\<forall>q \<in> set qs. wf_c2s q" and part: "incomplete part" and bs: "bs \<noteq> []" "w_live w k"
    and data: "take (m_prev_recv (w_pl w k)) (m_buff (w_pl w k)) @ bs = concat (map enc_c2s qs) @ part"
    and n: "m_prev_recv (w_pl w k) \<le> length (m_buff (w_pl w k))"
  shows "\<exists>b. on_recv k bs w = Some (Inr (upd_pl k (\<lambda>s. s\<lparr>m_buff := b, m_prev_recv := length part,
      m_recv_len := BUF_SIZE - length part\<rparr>) (fold (packet_effect k) qs w))) \<and> take (length part) b = part"
  by (rule recv_frames_kept [OF assms])

theorem recv_frames_witness:
  "\<exists>b. on_recv 1 (enc_c2s C2S_Attack @ [5, 3]) (arena 20) =
    Some (Inr (upd_pl 1 (\<lambda>s. s\<lparr>m_buff := b, m_prev_recv := 2, m_recv_len := 198\<rparr>) (attack 1 (arena 20))))"
proof -
  have l: "w_live (arena 20) 1" "m_prev_recv (w_pl (arena 20) 1) = 0" by (simp_all add: arena_fields new_session_def)
  have "incomplete [5, 3]" by (simp add: incomplete_def rd8_def)
  from recv_frames [of "[C2S_Attack]" "[5, 3]" "enc_c2s C2S_Attack @ [5, 3]" "arena 20" 1, OF _ this _ l(1)] l(2)
  show ?thesis by (auto simp: packet_effect_def numeral_2_eq_2)
qed

section \<open>Packets of size zero\<close>

lemmas recv_loop_induct = recv_loop.raw_induct [rotated]

text \<open>Enough bytes for every handler, at the start a size of zero and one of the seven types.\<close>

definition nothing_of :: "byte list \<Rightarrow> bool" where
  "nothing_of p \<longleftrightarrow> rd8 p = 0 \<and> rd32 (drop 1 p) \<in> {0..6} \<and> 133 \<le> length p"

lemma nothing_stays:
  assumes "nothing_of p"
  shows "nothing_of (p[132 := 0])"
proof -
  have "rd8 (p[132 := 0]) = rd8 p" using assms by (cases p) (simp_all add: rd8_def)
  moreover have "take 4 (drop 1 (p[132 := 0])) = take 4 (drop 1 p)" by (simp add: drop_update_swap)
  ultimately show ?thesis using assms by (simp add: nothing_of_def rd32_def)
qed

lemma process_nothing:
  assumes "nothing_of p"
  obtains p' w' where "process_packet k p w = Some (True, p', w')" "nothing_of p'" "length p' = length p"
proof -
  have "\<not> reads_past (m_state (w_pl w k)) p" using assms by (auto simp: reads_past_def nothing_of_def Let_def)
  then show ?thesis
    using process_outcome [where k = k and p = p and w = w] assms nothing_stays [OF assms] that
    by (auto simp: nothing_of_def split: option.splits if_splits)
qed

lemma loop_of_nothing:
  assumes r: "recv_loop proc k off ds buff w = Some r"
  shows "proc = process_packet k \<longrightarrow> nothing_of (drop off buff) \<longrightarrow> ds = 0"
  using r
proof (induction rule: recv_loop_induct [consumes 1])
  case (1 loop proc k off ds buff w r)
  show ?case
  proof (intro impI, rule ccontr)
    assume a: "proc = process_packet k" "nothing_of (drop off buff)" "ds \<noteq> 0"
    obtain p' w' where p': "process_packet k (drop off buff) w = Some (True, p', w')" "nothing_of p'"
      by (rule process_nothing [OF a(2)])
    have sz: "nat (rd8 (drop off buff)) = 0" using a(2) by (simp add: nothing_of_def)
    then have "loop proc k off ds (take off buff @ p') w' = Some r" using 1(2) a(1,3) p'(1) by (simp add: Let_def)
    from 1(1) [OF this] a(1,3) have "\<not> nothing_of (drop off (take off buff @ p'))" by blast
    moreover have "off < length buff" using a(2) by (auto simp: nothing_of_def intro: ccontr)
    ultimately show False using p'(2) by simp
  qed
qed



end
