(* ===== verification/ServerSafe.thy ===== *)
theory ServerSafe
  imports Receive
begin

text \<open>
  The server as a whole: new connections, the framing of received bytes, the timers and the
  statements for the database each on their own, and the invariant over every run of the threads.
\<close>

section \<open>New connections\<close>

lemma new_id:
  assumes "winv {} w"
  shows "get_new_player_id w = (if w_player_index w \<ge> NPC_ID_START then -1 else w_player_index w,
    w\<lparr>w_player_index := w_player_index w + 1\<rparr>)"
proof -
  have "get_object (w\<lparr>w_player_index := w_player_index w + 1\<rparr>) (w_player_index w) = None"
    if "w_player_index w < NPC_ID_START"
    using winvD(5) [OF assms] that by (fastforce simp: get_object_def env_ok_def is_pc_def)
  then show ?thesis by (simp add: get_new_player_id.simps Let_def)
qed

lemma winv_index:
  assumes "winv {} w" "i \<ge> w_player_index w"
  shows "winv {} (w\<lparr>w_player_index := i\<rparr>)"
proof -
  let ?w = "w\<lparr>w_player_index := i\<rparr>"
  have "grid_ok {} ?w = grid_ok {} w" by (rule grid_ok_cong) simp_all
  moreover have "respawns_ok {} ?w = respawns_ok {} w" by (rule respawns_ok_cong) simp_all
  ultimately show ?thesis
    using assms by (auto simp: winv2_def env_ok_def grid_ids_def) force+
qed

text \<open>A fresh id gets a session that is connected and not in play.\<close>

lemma winv_new_session:
  assumes w: "winv {} w" and k: "is_pc k" "0 < k" "k < w_player_index w" "\<not> w_live w k"
    and none: "\<And>s. k \<notin> set (w_sectors w s)" and s: "m_id s = k" "m_state s \<noteq> CS_PLAYING" "player_ok s"
  shows "winv {} (w\<lparr>w_live := (w_live w)(k := True), w_pl := (w_pl w)(k := s)\<rparr>)"
proof -
  let ?w = "w\<lparr>w_live := (w_live w)(k := True), w_pl := (w_pl w)(k := s)\<rparr>"
  have "only (w_live ?w) (w_sectors ?w) = only (w_live w) (w_sectors w)"
    using none by (auto simp: only_def fun_eq_iff intro!: filter_cong split: if_splits)
  moreover have "positions {} ?w = positions {} w"
    by (rule ext) (use k s in \<open>auto simp: positions_def\<close>)
  moreover have "ids_ok ?w" using winvD(6) [OF w] k s by (auto simp: ids_ok_def pc_npc)
  ultimately have "grid_ok {} ?w" using winvD(7) [OF w] by (simp add: grid_ok_def)
  moreover have "respawns ?w = respawns w" by (rule respawns_cong) simp_all
  then have "respawns_ok {} ?w" using winvD(10) [OF w] k by (auto simp: respawns_ok_def pc_npc)
  moreover have "grid_ids ?w = grid_ids w" by (rule grid_ids_cong) simp_all
  ultimately show ?thesis using w k s by (auto simp: winv2_def env_ok_def pc_npc)
qed

lemma accept_alt:
  assumes "winv {} w"
  defines "k \<equiv> w_player_index w"
  shows "k < NPC_ID_START \<Longrightarrow> \<exists>s. do_accept sock w = (None, w\<lparr>w_player_index := k + 1, w_ticks := Suc (Suc (w_ticks w)),
      w_live := (w_live w)(k := True), w_pl := (w_pl w)(k := s)\<rparr>)
    \<and> m_id s = k \<and> m_state s = CS_CONNECT \<and> m_client s = Some sock \<and> player_ok s \<and> m_recv_len s = BUF_SIZE"
    and "k \<ge> NPC_ID_START \<Longrightarrow> do_accept sock w = (Some (send_login_fail (bytes_of ''Server is full.'')), w\<lparr>w_player_index := k + 1\<rparr>)"
  using winvD(5) [OF assms(1)]
  by (auto simp: do_accept_def new_id [OF assms(1)] k_def clock_now_def Let_def do_recv_def new_session_def player_ok_def
      tile_def env_ok_def)

lemma winv_accept:
  assumes w: "winv {} w"
  shows "winv {} (snd (do_accept sock w))"
proof (cases "w_player_index w < NPC_ID_START")
  case True
  let ?k = "w_player_index w"
  obtain s where s: "do_accept sock w = (None, w\<lparr>w_player_index := ?k + 1, w_ticks := Suc (Suc (w_ticks w)),
      w_live := (w_live w)(?k := True), w_pl := (w_pl w)(?k := s)\<rparr>)"
    "m_id s = ?k" "m_state s = CS_CONNECT" "player_ok s"
    using accept_alt(1) [OF w True] by blast
  let ?w = "w\<lparr>w_player_index := ?k + 1, w_ticks := Suc (Suc (w_ticks w))\<rparr>"
  have w1: "winv {} ?w" using winv_index [OF w, of "?k + 1"] by simp
  have e: "env_ok w" by (rule winvD(5) [OF w])
  have "winv {} (?w\<lparr>w_live := (w_live ?w)(?k := True), w_pl := (w_pl ?w)(?k := s)\<rparr>)"
    by (rule winv_new_session [OF w1]) (use True e s in \<open>auto simp: env_ok_def grid_ids_def is_pc_def\<close>)
  then show ?thesis by (simp add: s(1))
next
  case False
  then show ?thesis using accept_alt(2) [OF w] winv_index [OF w, of "w_player_index w + 1"] by simp
qed

text \<open>
  C24: A connection gets a fresh id and a session that is connected, not in play, with an empty
  receive buffer of 200 bytes, and nobody else is touched; but ids are only handed out once: from
  the 10000th connection on everyone is refused, also when all others have left.
\<close>

theorem accept_outcome:
  assumes "winv {} w"
  defines "k \<equiv> w_player_index w"
  shows "(k < NPC_ID_START \<longrightarrow> \<not> w_live w k \<and> fst (do_accept sock w) = None
      \<and> (\<exists>s. w_pl (snd (do_accept sock w)) = (w_pl w)(k := s) \<and> m_state s = CS_CONNECT \<and> m_client s = Some sock
           \<and> m_recv_len s = BUF_SIZE)
      \<and> w_live (snd (do_accept sock w)) = (w_live w)(k := True))
    \<and> (k \<ge> NPC_ID_START \<longrightarrow> fst (do_accept sock w) = Some (send_login_fail (bytes_of ''Server is full.''))
        \<and> w_live (snd (do_accept sock w)) = w_live w)
    \<and> w_player_index (snd (do_accept sock w)) = k + 1"
proof -
  have l: "\<not> w_live w k" if "k < NPC_ID_START"
    using winvD(5) [OF assms(1)] that by (auto simp: env_ok_def k_def is_pc_def)
  show ?thesis
  proof (cases "k < NPC_ID_START")
    case True
    then show ?thesis using accept_alt(1) [OF assms(1), of sock] l by (auto simp: k_def)
  next
    case False
    then show ?thesis using accept_alt(2) [OF assms(1), of sock] by (simp add: k_def)
  qed
qed

theorem accept_outcome_witness:
  "fst (do_accept 9 ((arena 20)\<lparr>w_player_index := 10000\<rparr>)) \<noteq> None
    \<and> w_live (snd (do_accept 9 (arena 20))) 2"
proof -
  have "winv {} ((arena 20)\<lparr>w_player_index := 10000\<rparr>)"
    by (rule winv_index [OF arena20(1)]) (simp add: arena_def)
  from accept_outcome [OF this, of 9] accept_outcome [OF arena20(1), of 9] show ?thesis by (auto simp: arena_def)
qed

section \<open>Receiving keeps the invariant\<close>

text \<open>
  \<open>wary\<close> is \<open>process_packet\<close> which refuses the packets the invariant does not survive: moves of
  a connected session that is not in play. A receive that goes through with it goes through, with
  the same result, with the code's.
\<close>

definition wary :: "int \<Rightarrow> byte list \<Rightarrow> world \<Rightarrow> (bool \<times> byte list \<times> world) option" where
  "wary k p w =
    (if rd32 (drop 1 p) = 1 \<and> w_live w k \<and> m_state (w_pl w k) \<noteq> CS_PLAYING then None else process_packet k p w)"

lemma wary_loop:
  assumes "recv_loop pr k off ds buff w = Some r"
  shows "pr = wary k \<longrightarrow> r \<noteq> READS_PAST \<longrightarrow> winv {} w \<longrightarrow> is_pc k \<longrightarrow> k < w_player_index w \<longrightarrow>
    recv_loop (process_packet k) k off ds buff w = Some r \<and> (\<exists>o' d' b' w'. r = LEFT_AT o' d' b' w' \<and> winv {} w')"
  using assms
proof (induction rule: recv_loop_induct [consumes 1])
  case (1 loop pr k off ds buff w r)
  show ?case
  proof (intro impI)
    assume a: "pr = wary k" "r \<noteq> READS_PAST" "winv {} w" "is_pc k" "k < w_player_index w"
    let ?p = "drop off buff" and ?n = "nat (rd8 (drop off buff))"
    show "recv_loop (process_packet k) k off ds buff w = Some r \<and> (\<exists>o' d' b' w'. r = LEFT_AT o' d' b' w' \<and> winv {} w')"
    proof (cases "ds = 0 \<or> ?n > ds")
      case True
      then show ?thesis using 1(2) a(3) by (subst recv_loop.simps) (auto simp: Let_def split: if_splits)
    next
      case False
      then obtain ok p' w' where p: "wary k ?p w = Some (ok, p', w')"
        using 1(2) a(1,2) by (auto simp: Let_def split: option.splits)
      then have q: "process_packet k ?p w = Some (ok, p', w')"
        and m: "rd32 (drop 1 ?p) = 1 \<Longrightarrow> w_live w k \<Longrightarrow> m_state (w_pl w k) = CS_PLAYING"
        by (auto simp: wary_def split: if_splits)
      have w': "winv {} w'" by (rule winv_process_packet [OF a(3-5) m q])
      have i: "k < w_player_index w'" using undisturbed_process [OF q] a(5) by (simp add: undisturbed_def)
      show ?thesis
      proof (cases ok)
        case True
        then have l: "loop pr k (off + ?n) (ds - ?n) (take off buff @ p') w' = Some r"
          using 1(2) False a(1) p by (simp add: Let_def)
        have "recv_loop (process_packet k) k off ds buff w =
            recv_loop (process_packet k) k (off + ?n) (ds - ?n) (take off buff @ p') w'"
          using False q True by (subst recv_loop.simps) (simp add: Let_def)
        then show ?thesis using 1(1) [OF l] a w' i by simp
      next
        case f: False
        then have "r = LEFT_AT off ds (take off buff @ p') (disconnect k w')"
          using 1(2) False a(1) p by (simp add: Let_def)
        moreover have "recv_loop (process_packet k) k off ds buff w = Some (LEFT_AT off ds (take off buff @ p') (disconnect k w'))"
          using False q f by (subst recv_loop.simps) (simp add: Let_def)
        ultimately show ?thesis using winv_calm [OF w'] by simp
      qed
    qed
  qed
qed

lemma stays_recv [simp]: "stays (recv_rest off ds buff)"
  by (simp add: stays_def recv_rest_def do_recv_def)

lemma winv_recv:
  assumes w: "winv {} w" and k: "is_pc k" and r: "recv_with wary k bs w = Some (Inr w')"
  shows "on_recv k bs w = Some (Inr w')" "winv {} w'"
proof -
  have "on_recv k bs w = Some (Inr w') \<and> winv {} w'"
  proof (cases "bs = [] \<or> \<not> w_live w k")
    case True
    then show ?thesis using r winv_calm [OF w, of "disconnect k w"] w
      by (auto simp: recv_with_def on_recv_def split: if_splits)
  next
    case False
    let ?s = "w_pl w k"
    let ?n = "m_prev_recv ?s"
    let ?buff = "take ?n (m_buff ?s) @ bs @ drop (?n + length bs) (m_buff ?s)"
    let ?f = "\<lambda>r. case r of READS_PAST \<Rightarrow> Inl () | LEFT_AT off ds buff' w' \<Rightarrow> Inr (upd_pl k (recv_rest off ds buff') w')"
    have "map_option ?f (recv_loop (wary k) k 0 (length bs + ?n) ?buff w) = Some (Inr w')"
      using r False by (simp add: recv_with_def Let_def)
    then obtain lr where lr: "recv_loop (wary k) k 0 (length bs + ?n) ?buff w = Some lr" "?f lr = Inr w'" by blast
    then have np: "lr \<noteq> READS_PAST" by auto
    have "k < w_player_index w" using winvD(5) [OF w] k False by (auto simp: env_ok_def)
    then obtain o' d' b' v where v: "recv_loop (process_packet k) k 0 (length bs + ?n) ?buff w = Some lr"
      "lr = LEFT_AT o' d' b' v" "winv {} v"
      using wary_loop [OF lr(1)] np w k by blast
    then have "w' = upd_pl k (recv_rest o' d' b') v" using lr(2) by simp
    then show ?thesis using v False by (simp add: on_recv_def recv_with_def Let_def winv_upd_pl)
  qed
  then show "on_recv k bs w = Some (Inr w')" "winv {} w'" by simp_all
qed

section \<open>Completions and timers keep the invariant\<close>

text \<open>Only the respawns on their way matter of the timers and completions.\<close>

lemma winv_counts:
  assumes "w_live w' = w_live w" "w_pl w' = w_pl w" "w_npc w' = w_npc w" "w_sectors w' = w_sectors w"
    "w_items w' = w_items w" "w_obstacle w' = w_obstacle w" "w_rand w' = w_rand w" "w_player_index w' = w_player_index w"
    "respawns w' = respawns w"
  shows "winv2 D E w' = winv2 D E w"
proof -
  have "grid_ok D w' = grid_ok D w" by (rule grid_ok_cong) (simp_all add: assms)
  moreover have "grid_ids w' = grid_ids w" by (rule grid_ids_cong) (simp_all add: assms)
  ultimately show ?thesis by (simp add: winv2_def respawns_ok_def env_ok_def assms)
qed

lemmas winv_countsI = winv_counts [THEN iffD2, rotated 9]

lemma winv_timer_step:
  assumes "winv {} w"
  shows "winv {} (timer_step w)"
proof (cases "pq_pop (w_timers w)")
  case None
  then show ?thesis using assms by (simp add: timer_step_def)
next
  case (Some p)
  obtain ev rest where p: "p = (ev, rest)" by (cases p)
  have t: "w_timers w = ev # rest" using Some by (cases "w_timers w") (simp_all add: p)
  have "respawns (w\<lparr>w_timers := rest, w_ticks := a, w_completions := w_completions w @ [timer_completion ev]\<rparr>) = respawns w" for a
    by (rule ext) (auto simp: respawns_def t timer_completion_def split: event_id.split)
  then have a: "winv {} (w\<lparr>w_timers := rest, w_ticks := a, w_completions := w_completions w @ [timer_completion ev]\<rparr>)" for a
    by (rule winv_countsI [OF assms, rotated -1]) simp_all
  have "respawns (w\<lparr>w_ticks := a, w_timers := pq_push ev_wakeup_time ev rest\<rparr>) = respawns w" for a
    by (rule ext) (simp add: respawns_def t)
  then have "winv {} (w\<lparr>w_ticks := a, w_timers := pq_push ev_wakeup_time ev rest\<rparr>)" for a
    by (rule winv_countsI [OF assms, rotated -1]) simp_all
  with a show ?thesis by (simp add: timer_step_def Some p clock_now_def)
qed

lemma respawns_pop:
  assumes "i < length (w_completions w)"
  defines "w' \<equiv> w\<lparr>w_completions := take i (w_completions w) @ drop (Suc i) (w_completions w)\<rparr>"
  shows "respawns w n = respawns w' n + (if w_completions w ! i = IO_NPC_RESPAWN n then 1 else 0)"
proof -
  let ?cs = "w_completions w"
  have "mset (take i ?cs @ ?cs ! i # drop (Suc i) ?cs) = add_mset (?cs ! i) (mset (take i ?cs @ drop (Suc i) ?cs))"
    by simp
  then have "mset ?cs = add_mset (?cs ! i) (mset (take i ?cs @ drop (Suc i) ?cs))"
    by (simp only: id_take_nth_drop [OF assms(1), symmetric])
  then show ?thesis by (simp add: respawns_def w'_def)
qed

lemma winv_pop:
  assumes w: "winv {} w" and i: "i < length (w_completions w)"
  defines "w' \<equiv> w\<lparr>w_completions := take i (w_completions w) @ drop (Suc i) (w_completions w)\<rparr>"
  shows "(\<forall>n. w_completions w ! i \<noteq> IO_NPC_RESPAWN n) \<Longrightarrow> winv {} w'"
    and "w_completions w ! i = IO_NPC_RESPAWN n \<Longrightarrow> winv2 {} {n} w'
      \<and> (is_npc n \<longrightarrow> w_live w' n \<longrightarrow> m_hp (w_npc w' n) \<le> 0)"
proof -
  note c = respawns_pop [OF i, folded w'_def]
  have e: "w_live w' = w_live w" "w_npc w' = w_npc w" by (simp_all add: w'_def)
  {
    assume "\<forall>n. w_completions w ! i \<noteq> IO_NPC_RESPAWN n"
    then have "respawns w' = respawns w" using c by (intro ext) simp
    then have "winv2 {} {} w' = winv2 {} {} w" by (intro winv_counts) (simp_all add: w'_def)
    with w show "winv {} w'" by simp
  }
  assume n: "w_completions w ! i = IO_NPC_RESPAWN n"
  have r: "0 < respawns w n" using c [of n] n by simp
  have ok: "respawns_ok {} w" by (rule winvD(10) [OF w])
  have dead: "is_npc n \<longrightarrow> w_live w n \<longrightarrow> m_hp (w_npc w n) \<le> 0 \<and> respawns w n = 1"
    using ok r by (auto simp: respawns_ok_def)
  have "respawns_ok {n} w'"
    unfolding respawns_ok_def e
  proof (intro allI impI)
    fix m
    assume m: "is_npc m" "w_live w m"
    have "respawns w m = (if m_hp (w_npc w m) \<le> 0 \<and> m \<notin> {} then 1 else 0)"
      using ok m unfolding respawns_ok_def by blast
    then show "respawns w' m = (if m_hp (w_npc w m) \<le> 0 \<and> m \<notin> {n} then 1 else 0)"
      using c [of m] n dead m by (cases "m = n") auto
  qed
  moreover have "grid_ok {} w' = grid_ok {} w" by (rule grid_ok_cong) (simp_all add: w'_def)
  moreover have "grid_ids w' = grid_ids w" by (rule grid_ids_cong) (simp_all add: w'_def)
  ultimately show "winv2 {} {n} w' \<and> (is_npc n \<longrightarrow> w_live w' n \<longrightarrow> m_hp (w_npc w' n) \<le> 0)"
    using w dead by (simp add: winv2_def env_ok_def e) (simp add: w'_def)
qed

lemma winv_npc_move: "winv {} w \<Longrightarrow> winv {} (process_npc_move n w)"
  using process_npc_move_turn [of w n] by (auto simp: turn_def npc_up_def)

lemma winv_hp_regen:
  assumes "winv {} w"
  shows "winv {} (process_hp_regen k w)"
proof -
  have "winv {} (upd_pl k (\<lambda>s. s\<lparr>m_hp := h\<rparr>) w)" for h
    by (rule winv_upd_pl [OF assms]) (simp add: stays_def)
  note winv_calm [OF this calm_send_packets(4)]
  then show ?thesis using assms by (simp add: process_hp_regen_def Let_def clock_now_def)
qed

text \<open>A session out of play put into another state out of play.\<close>

lemma winv_state:
  assumes w: "winv {} w" and k: "is_pc k" "w_live w k" "m_state (w_pl w k) \<noteq> CS_PLAYING" "st \<noteq> CS_PLAYING"
  shows "winv {} (upd_pl k (\<lambda>s. s\<lparr>m_state := st\<rparr>) w)"
proof -
  let ?w = "upd_pl k (\<lambda>s. s\<lparr>m_state := st\<rparr>) w"
  have e: "w_live ?w = w_live w" "w_sectors ?w = w_sectors w" "w_npc ?w = w_npc w" "w_items ?w = w_items w"
    "w_obstacle ?w = w_obstacle w" "w_rand ?w = w_rand w" "w_player_index ?w = w_player_index w"
    "w_pl ?w = (w_pl w)(k := (w_pl w k)\<lparr>m_state := st\<rparr>)"
    by (simp_all add: upd_pl_def)
  have "positions {} ?w = positions {} w" by (rule ext) (use k in \<open>simp add: positions_def e\<close>)
  moreover have "ids_ok ?w" using winvD(6) [OF w] k by (auto simp: ids_ok_def e)
  moreover have "respawns_ok {} ?w = respawns_ok {} w" by (rule respawns_ok_cong) (simp_all add: upd_pl_def)
  moreover have "grid_ids ?w = grid_ids w" by (rule grid_ids_cong) (simp_all add: e)
  ultimately show ?thesis using w by (auto simp: winv2_def grid_ok_def e player_ok_def env_ok_def)
qed

definition result_ok :: "db_result \<Rightarrow> bool" where
  "result_ok r \<longleftrightarrow> tile (dr_x r) (dr_y r) \<and> length (dr_inventory r) = ITEM_SLOT_COUNT
    \<and> length (dr_quest_kill r) = QUEST_COUNT"

lemma winv_db_login:
  assumes w: "winv {} w" and k: "is_pc k" and r: "result_ok r"
  shows "winv {} (on_db_login k r w)"
proof (cases "w_live w k \<and> m_state (w_pl w k) = CS_DB_WAIT \<and> dr_success r")
  case True
  let ?w1 = "upd_pl k (load_session r) w"
  let ?w2 = "?w1\<lparr>w_sectors := add_object_to_sector k (m_x (w_pl ?w1 k)) (m_y (w_pl ?w1 k)) (w_sectors ?w1)\<rparr>"
  have "winv {} ?w2"
    by (rule winv_enter_play [OF w k])
      (use True r winvD(2,8) [OF w k] in \<open>auto simp: load_session_def Let_def player_ok_def result_ok_def\<close>)
  from winv_calm [OF winv_calm [OF this calm_trans [OF calm_trans [OF calm_send_packets(1) calm_send_packets(2)]
      calm_trans [OF calm_trans [OF calm_send_all(2) calm_send_all(1)] calm_send_all(3)]]] calm_update_player_view]
  show ?thesis using True by (simp add: on_db_login_def Let_def clock_now_def)
next
  case False
  then show ?thesis using w winv_state [OF w k, of CS_LOGOUT] by (auto simp: on_db_login_def)
qed

lemma winv_completion:
  assumes w: "winv {} w" and i: "i < length (w_completions w)"
    and db: "\<And>k r. w_completions w ! i = IO_DB_LOGIN k r \<Longrightarrow> is_pc k \<and> result_ok r"
  shows "winv {} (on_completion (w_completions w ! i)
    (w\<lparr>w_completions := take i (w_completions w) @ drop (Suc i) (w_completions w)\<rparr>))"
proof (cases "w_completions w ! i")
  case (IO_NPC_RESPAWN n)
  note p = winv_pop(2) [OF w i this]
  have "winv {} (process_npc_respawn n
      (w\<lparr>w_completions := take i (w_completions w) @ drop (Suc i) (w_completions w)\<rparr>))"
    by (rule winv_respawn [OF conjunct1 [OF p]]) (use conjunct2 [OF p] in blast)
  then show ?thesis by (simp add: IO_NPC_RESPAWN on_completion_def)
qed (use winv_pop(1) [OF w i] db in \<open>auto simp: on_completion_def
  intro: winv_npc_move winv_hp_regen winv_db_login\<close>)

lemma winv_db_step:
  assumes "winv {} w" "db_step c l q w = Some (qs, w')"
  shows "winv {} w'"
proof -
  have "winv {} (w\<lparr>w_db_queue := rest, w_completions := w_completions w @ [IO_DB_LOGIN k r]\<rparr>)" for rest k r
    by (rule winv_countsI [OF assms(1)]) (simp_all add: respawns_def fun_eq_iff)
  then show ?thesis
    using assms by (auto simp: db_step_def Let_def split: list.splits db_event.splits if_splits option.splits)
qed

section \<open>Every run\<close>

text \<open>
  What the runs assume of the clients and the database: nobody moves between connecting and
  logging in, and the database's players stand on tiles of the world.
\<close>

definition event_ok :: "event \<Rightarrow> world \<Rightarrow> bool" where
  "event_ok ev w =
    (case ev of
       Recv k bs \<Rightarrow> is_pc k \<and> (case recv_with wary k bs w of Some (Inr _) \<Rightarrow> True | _ \<Rightarrow> False)
     | Work i \<Rightarrow> i < length (w_completions w) \<longrightarrow>
         (case w_completions w ! i of IO_DB_LOGIN k r \<Rightarrow> is_pc k \<and> result_ok r | _ \<Rightarrow> True)
     | _ \<Rightarrow> True)"

inductive server_reach :: "world \<Rightarrow> world \<Rightarrow> bool" for w0 where
  reach_start: "server_reach w0 w0"
| reach_step: "server_reach w0 w \<Longrightarrow> event_ok ev w \<Longrightarrow> serve ev w = Some (Inr w') \<Longrightarrow> server_reach w0 w'"

lemma winv_serve:
  assumes w: "winv {} w" and ok: "event_ok ev w" and s: "serve ev w = Some (Inr w')"
  shows "winv {} w'"
proof (cases ev)
  case (Recv k bs)
  then obtain v where v: "recv_with wary k bs w = Some (Inr v)" and k: "is_pc k"
    using ok by (auto simp: event_ok_def split: option.splits sum.splits)
  show ?thesis using winv_recv [OF w k v] s by (simp add: Recv serve_def)
next
  case (Work i)
  have db: "is_pc k \<and> result_ok r" if "w_completions w ! i = IO_DB_LOGIN k r" "i < length (w_completions w)" for k r
    using ok that by (simp add: event_ok_def Work)
  show ?thesis
  proof (cases "i < length (w_completions w)")
    case True
    then show ?thesis using s winv_completion [OF w True db] by (simp add: Work serve_def)
  next
    case False
    then show ?thesis using s w by (simp add: Work serve_def)
  qed
next
  case (Db c l q)
  then show ?thesis using s winv_db_step [OF w] by (auto simp: serve_def split: option.splits)
qed (use s w in \<open>auto simp: serve_def on_sent_def on_error_def winv_accept winv_timer_step
  intro: winv_calm [OF w calm_on_send_complete] winv_calm [OF w calm_send_packets(11)]\<close>)

lemma reach_winv: "server_reach w0 w \<Longrightarrow> winv {} w0 \<Longrightarrow> winv {} w"
  by (induction rule: server_reach.induct) (auto intro: winv_serve)

text \<open>
  C1: Started by \<open>InitializeNPC\<close> over any script, the server keeps its invariant through every
  interleaving of connections, received bytes, sends, timers, NPC turns and database answers that
  its threads can take one after the other, with two kinds of runs left out (\<open>event_ok\<close>): those
  with a move packet of a session that has not logged in, which \<open>C2S_MOVE\<close> does not refuse and
  which breaks the grid (\<open>prelogin_move_ghost\<close>), and those in which the database answers with a
  position off the map. Always every living player and NPC stands on a tile of the
  world and is in exactly the sector of its tile, every session's buffers and inventory have
  their sizes, and an NPC has a respawn on its way exactly when it is dead.
\<close>

theorem server_safe:
  assumes "\<And>x y. \<not> tile x y \<Longrightarrow> obs x y" "\<And>i. 0 \<le> rnd i" "\<forall>g \<in> set groups. length (g_name g) \<le> 12"
    and "InitializeNPC groups (init_world obs clk rnd ack) = Some w0" "server_reach w0 w"
  shows "winv {} w"
proof -
  have "winv {} (init_world obs clk rnd ack)" by (rule winv_init) (use assms in auto)
  from initialize_npcs [OF this, of groups] have "winv {} w0"
    using assms(3,4) by (auto simp: init_world_def empty_sectors_def)
  with assms(5) show ?thesis by (rule reach_winv)
qed

theorem server_safe_witness:
  "\<exists>w0 w. InitializeNPC [] (init_world (\<lambda>x y. \<not> tile x y) (\<lambda>_. 0) (\<lambda>_. 0) (\<lambda>_. True)) = Some w0
    \<and> server_reach w0 w \<and> w \<noteq> w0 \<and> winv {} w"
proof -
  let ?i = "init_world (\<lambda>x y. \<not> tile x y) (\<lambda>_. 0) (\<lambda>_. 0) (\<lambda>_. True)"
  have "winv {} ?i" by (rule winv_init) auto
  from initialize_npcs [OF this, of "[]"] obtain w0 where w0: "InitializeNPC [] ?i = Some w0" "winv {} w0"
    by (auto simp: init_world_def empty_sectors_def)
  let ?w = "snd (do_accept 9 w0)"
  have r: "server_reach w0 ?w"
    by (rule reach_step [OF reach_start, of "Accept 9"]) (simp_all add: event_ok_def serve_def)
  have "w_player_index ?w \<noteq> w_player_index w0"
    using accept_alt [OF w0(2), of 9] by (cases "w_player_index w0 < NPC_ID_START") auto
  then have "?w \<noteq> w0" by metis
  then show ?thesis using w0 r server_safe [OF _ _ _ w0(1) r] by auto
qed

end
