(* ===== verification/Handlers.thy ===== *)
theory Handlers
  imports Receive
begin

text \<open>
  What all handlers have in common, proved once: a relation between the worlds before and after
  that is kept by the functions of the send layer and does not see the other fields a handler
  changes is kept by every handler of the server. \<open>Mirror\<close> and \<open>Apart\<close> are such relations.
\<close>

text \<open>The packets that say nothing about the view; a refused login is never queued.\<close>

fun neutral :: "s2c \<Rightarrow> bool" where
  "neutral (S2C_AddPlayer _ _ _ _ _ _ _ _ _) \<longleftrightarrow> False"
| "neutral (S2C_RemovePlayer _) \<longleftrightarrow> False"
| "neutral (S2C_LoginResult ok _) \<longleftrightarrow> ok"
| "neutral _ \<longleftrightarrow> True"

text \<open>What the handlers change in a session besides.\<close>

lemma told_fields [simp]:
  "m_id (gain_xp x s) = m_id s" "m_client (gain_xp x s) = m_client s" "m_send_queue (gain_xp x s) = m_send_queue s"
  "m_visible_objects (gain_xp x s) = m_visible_objects s" "m_id (add_item i s) = m_id s" "m_client (add_item i s) = m_client s"
  "m_send_queue (add_item i s) = m_send_queue s" "m_visible_objects (add_item i s) = m_visible_objects s"
  "m_id (set_kills q n s) = m_id s" "m_client (set_kills q n s) = m_client s"
  "m_send_queue (set_kills q n s) = m_send_queue s" "m_visible_objects (set_kills q n s) = m_visible_objects s"
  "m_id (take_item l s) = m_id s" "m_client (take_item l s) = m_client s"
  "m_send_queue (take_item l s) = m_send_queue s" "m_visible_objects (take_item l s) = m_visible_objects s"
  by (simp_all add: gain_xp_def add_item_def set_kills_def take_item_def Let_def split: prod.split)

lemma buffer_fields [simp]:
  "m_buff (gain_xp x s) = m_buff s" "m_prev_recv (gain_xp x s) = m_prev_recv s" "m_recv_len (gain_xp x s) = m_recv_len s"
  "m_buff (add_item i s) = m_buff s" "m_prev_recv (add_item i s) = m_prev_recv s" "m_recv_len (add_item i s) = m_recv_len s"
  "m_buff (set_kills q n s) = m_buff s" "m_prev_recv (set_kills q n s) = m_prev_recv s" "m_recv_len (set_kills q n s) = m_recv_len s"
  "m_buff (take_item l s) = m_buff s" "m_prev_recv (take_item l s) = m_prev_recv s" "m_recv_len (take_item l s) = m_recv_len s"
  "m_buff (load_session r s) = m_buff s" "m_prev_recv (load_session r s) = m_prev_recv s" "m_recv_len (load_session r s) = m_recv_len s"
  by (simp_all add: gain_xp_def add_item_def set_kills_def take_item_def load_session_def Let_def split: prod.split)

lemma id_fields [simp]: "m_id (load_session r s) = m_id s" "m_client (load_session r s) = m_client s"
  "m_send_queue (load_session r s) = m_send_queue s" "m_visible_objects (load_session r s) = m_visible_objects s"
  by (simp_all add: load_session_def Let_def)

text \<open>
  What a handler may change in a session besides: not its identity, its socket, its queue and view
  (they are the send layer's), nor its receive buffer.
\<close>

definition keeps_link :: "(session \<Rightarrow> session) \<Rightarrow> bool" where
  "keeps_link f \<longleftrightarrow> (\<forall>s. m_id (f s) = m_id s \<and> m_client (f s) = m_client s \<and> m_send_queue (f s) = m_send_queue s
    \<and> m_visible_objects (f s) = m_visible_objects s \<and> m_buff (f s) = m_buff s \<and> m_prev_recv (f s) = m_prev_recv s
    \<and> m_recv_len (f s) = m_recv_len s)"

text \<open>The handlers are taken apart from the right: each lemma below takes one step off.\<close>

named_theorems handler_steps

locale handler_relation =
  fixes R :: "world \<Rightarrow> world \<Rightarrow> bool"
  assumes R_refl [simp]: "R w w"
    and R_trans: "R a b \<Longrightarrow> R b c \<Longrightarrow> R a c"
    and R_globals: "R w (w'\<lparr>w_ticks := tk\<rparr>) = R w w'" "R w (w'\<lparr>w_rands := rd\<rparr>) = R w w'"
      "R w (w'\<lparr>w_items := its\<rparr>) = R w w'" "R w (w'\<lparr>w_sectors := ss\<rparr>) = R w w'"
      "R w (w'\<lparr>w_db_queue := dq\<rparr>) = R w w'" "R w (w'\<lparr>w_next_item_id := ni\<rparr>) = R w w'"
      "R w (w'\<lparr>w_timers := tm\<rparr>) = R w w'" "R w (w'\<lparr>w_completions := cs\<rparr>) = R w w'"
      "R w (upd_npc n g w') = R w w'"
    and R_link: "keeps_link f \<Longrightarrow> R w (upd_pl k f w') = R w w'"
    and R_send: "neutral p \<Longrightarrow> R w (do_send k p w)"
    and R_shows: "R w (send_add_object k i w)" "R w (send_remove_object k i w)"
    and R_closes: "R w (disconnect k w)"
begin

lemma R_fields [simp]:
  "R w (w'\<lparr>w_ticks := a\<rparr>) = R w w'" "R w (w'\<lparr>w_rands := b\<rparr>) = R w w'"
  "R w (w'\<lparr>w_items := its\<rparr>) = R w w'" "R w (w'\<lparr>w_sectors := ss\<rparr>) = R w w'"
  "R w (w'\<lparr>w_db_queue := q\<rparr>) = R w w'" "R w (w'\<lparr>w_next_item_id := i\<rparr>) = R w w'"
  "R w (w'\<lparr>w_timers := t\<rparr>) = R w w'" "R w (w'\<lparr>w_completions := c\<rparr>) = R w w'"
  "R w (w'\<lparr>w_next_item_id := i, w_items := its\<rparr>) = R w w'"
  "R w (upd_npc n g w') = R w w'" "R w (push_timer i' e t' w') = R w w'"
proof -
  have "R w (w'\<lparr>w_next_item_id := i, w_items := its\<rparr>) = R w (w'\<lparr>w_next_item_id := i\<rparr>)" by (rule R_globals(3))
  then show "R w (w'\<lparr>w_next_item_id := i, w_items := its\<rparr>) = R w w'" by (simp only: R_globals)
qed (simp_all add: R_globals push_timer_def)

lemma R_upd_pl [simp]:
  assumes "\<And>s. m_id (f s) = m_id s \<and> m_client (f s) = m_client s \<and> m_send_queue (f s) = m_send_queue s
    \<and> m_visible_objects (f s) = m_visible_objects s \<and> m_buff (f s) = m_buff s \<and> m_prev_recv (f s) = m_prev_recv s
    \<and> m_recv_len (f s) = m_recv_len s"
  shows "R w (upd_pl k f w') = R w w'"
  by (rule R_link) (use assms in \<open>simp add: keeps_link_def\<close>)

lemma R_do_send [handler_steps]: "R w w' \<Longrightarrow> neutral p \<Longrightarrow> R w (do_send k p w')"
  using R_trans R_send by blast

lemma R_views [handler_steps]:
  "R w w' \<Longrightarrow> R w (send_add_object k i w')" "R w w' \<Longrightarrow> R w (send_remove_object k i w')" "R w w' \<Longrightarrow> R w (disconnect k w')"
  using R_trans R_shows R_closes by blast+

lemma R_fold: "R w w' \<Longrightarrow> (\<And>x s. R s (f x s)) \<Longrightarrow> R w (fold f xs w')"
  by (rule R_trans, assumption, rule fold_preorder [of R]) (auto intro: R_trans)

lemma R_for_players: "R w w' \<Longrightarrow> (\<And>i s. R s (f i s)) \<Longrightarrow> R w (for_players ids f w')"
  unfolding for_players_def by (rule R_fold) auto

lemma R_sends [handler_steps]:
  assumes "R w w'"
  shows "R w (send_login_success k w')" "R w (send_avatar_info k w')" "R w (send_move_object k i w')"
    "R w (send_chat k i nm msg w')" "R w (send_stat_info k i hp mhp lv xp nx st w')"
    "R w (send_damage_info k a t d hp w')" "R w (send_item_appear k iid x y it w')"
    "R w (send_item_remove k iid w')" "R w (send_item_add k it n w')"
    "R w (send_quest_update k q w')"
  using assms R_do_send [OF assms]
  by (simp_all add: send_login_success_def send_avatar_info_def send_chat_def send_stat_info_def
      send_damage_info_def send_item_appear_def send_item_remove_def send_item_add_def send_move_object_def
      send_quest_update_def Let_def split: option.split)

lemma R_send_all [handler_steps]:
  assumes "R w w'"
  shows "R w (send_all_world_items k w')" "R w (send_all_inventory_items k w')"
    "R w (send_all_quest_states k w')"
  unfolding send_all_world_items_def send_all_inventory_items_def send_all_quest_states_def
  by (rule R_fold [OF assms]; auto intro: handler_steps)+

lemma R_wake_up [handler_steps]: "R w w' \<Longrightarrow> R w (wake_up n w')"
  by (simp add: wake_up_def clock_now_def Let_def)

lemma R_view [handler_steps]:
  assumes "R w w'"
  shows "R w (update_player_view k w')"
proof -
  have e: "R s (enter_view k ov i s)" for ov i s by (auto simp: enter_view_def Let_def intro!: handler_steps)
  have l: "R s (leave_view k nv i s)" for nv i s by (auto simp: leave_view_def Let_def intro!: handler_steps)
  show ?thesis
    using assms by (auto simp: update_player_view_def Let_def intro!: R_fold handler_steps e l)
qed

lemma R_broadcasts [handler_steps]:
  assumes "R w w'"
  shows "R w (broadcast_damage ax ay a t d hp w')" "R w (broadcast_item_remove iid x y w')"
    "R w (broadcast_npc_state n w')" "R w (sys_chat k msg w')" "R w (send_own_stat k w')"
    "R w (spawn_item x y it w')"
  using assms
  by (auto simp: broadcast_damage_def broadcast_item_remove_def broadcast_npc_state_def sys_chat_def send_own_stat_def
    spawn_item_def Let_def intro!: R_for_players handler_steps)

lemma R_npc_die [handler_steps]: "R w w' \<Longrightarrow> R w (npc_die n w')"
  by (auto simp: npc_die_def Let_def rand_next_def clock_now_def intro!: R_for_players handler_steps split: option.split)

lemma R_quest [handler_steps]: "R w w' \<Longrightarrow> R w (process_quest_kill k t w')"
  by (auto simp: process_quest_kill_def Let_def intro!: handler_steps)

lemma R_strike [handler_steps]: "R w w' \<Longrightarrow> R w (strike k p n d w')"
  by (auto simp: strike_def Let_def intro!: handler_steps)

lemma R_attacks [handler_steps]:
  assumes "R w w'"
  shows "R w (attack k w')" "R w (skill k w')" "R w (ranged_attack k w')"
  using assms
  by (auto simp: attack_def attack_one_def skill_def skill_one_def ranged_attack_def Let_def clock_now_def
    intro!: R_fold R_for_players handler_steps split: prod.split)

lemma R_use_item [handler_steps]:
  assumes "R w w'"
  shows "R w (use_item k it w')"
proof (cases "use_effect it (w_pl w' k) w'")
  case (Some r)
  obtain f msg w1 where r: "r = (f, msg, w1)" by (cases r)
  have "m_id (f s) = m_id s \<and> m_client (f s) = m_client s \<and> m_send_queue (f s) = m_send_queue s
      \<and> m_visible_objects (f s) = m_visible_objects s \<and> m_buff (f s) = m_buff s \<and> m_prev_recv (f s) = m_prev_recv s
      \<and> m_recv_len (f s) = m_recv_len s" "R w w1" for s
    using Some assms by (auto simp: r use_effect_def clock_now_def Let_def heal_def split: if_splits)
  then show ?thesis using assms by (auto simp: use_item_def Let_def Some r intro!: handler_steps)
qed (use assms in \<open>simp add: use_item_def Let_def\<close>)

lemma R_do_move [handler_steps]: "R w w' \<Longrightarrow> R w (do_move k d w')"
  by (auto simp: do_move_def pick_up_def Let_def intro!: R_fold handler_steps split: prod.split)

lemma R_packets [handler_steps]:
  assumes "R w w'"
  shows "R w (move_packet k d t w')" "R w (login_packet k nm w')" "R w (chat_packet k msg w')"
  using assms
  by (auto simp: move_packet_def login_packet_def bot_login_def chat_packet_def Let_def clock_now_def rand_next_def
    intro!: R_for_players handler_steps)

lemma R_process: "process_packet k p w = Some (ok, p', w') \<Longrightarrow> R w w'"
  by (auto simp: process_packet_def Let_def intro!: handler_steps split: if_splits sum.splits option.splits c2s.splits)

lemma R_recv_loop:
  assumes "recv_loop pr k off ds buff w = Some r"
  shows "pr = process_packet k \<longrightarrow> (\<forall>o' d' b' w'. r = LEFT_AT o' d' b' w' \<longrightarrow> R w w')"
  using assms
proof (induction rule: recv_loop.raw_induct [rotated, consumes 1])
  case (1 loop pr k off ds buff w r)
  show ?case
  proof (cases "ds = 0 \<or> nat (rd8 (drop off buff)) > ds \<or> pr (drop off buff) w = None")
    case True
    then show ?thesis using 1(2) by (auto simp: Let_def split: if_splits)
  next
    case False
    then obtain ok p' w1 where p: "pr (drop off buff) w = Some (ok, p', w1)" by auto
    show ?thesis
    proof (intro impI allI)
      fix o' d' b' w' assume pr: "pr = process_packet k" and r: "r = LEFT_AT o' d' b' w'"
      have m: "R w w1" using R_process p pr by blast
      show "R w w'"
      proof (cases ok)
        case True
        then have "loop pr k (off + nat (rd8 (drop off buff))) (ds - nat (rd8 (drop off buff))) (take off buff @ p') w1 = Some r"
          using 1(2) False p by (simp add: Let_def)
        from 1(1) [OF this] pr r R_trans [OF m] show ?thesis by blast
      next
        case False
        then have "w' = disconnect k w1" using 1(2) \<open>\<not> (ds = 0 \<or> _)\<close> p r by (auto simp: Let_def)
        then show ?thesis using R_views(3) [OF m] by simp
      qed
    qed
  qed
qed

text \<open>A receive is packets and then a change of the session's own buffer.\<close>

lemma R_recv:
  assumes "on_recv k bs w = Some (Inr w')"
  shows "R w w' \<or> (\<exists>off d b v. R w v \<and> w' = upd_pl k (recv_rest off d b) v)"
proof (cases "bs = [] \<or> \<not> w_live w k")
  case True
  then show ?thesis using assms by (auto simp: on_recv_def recv_with_def intro: handler_steps split: if_splits)
next
  case False
  let ?n = "m_prev_recv (w_pl w k)"
  let ?b = "take ?n (m_buff (w_pl w k)) @ bs @ drop (?n + length bs) (m_buff (w_pl w k))"
  obtain o' d' b' v where v: "recv_loop (process_packet k) k 0 (length bs + ?n) ?b w = Some (LEFT_AT o' d' b' v)"
    "w' = upd_pl k (recv_rest o' d' b') v"
  proof -
    from assms False obtain r where "recv_loop (process_packet k) k 0 (length bs + ?n) ?b w = Some r"
      "(case r of READS_PAST \<Rightarrow> Inl () | LEFT_AT o' d' b' v \<Rightarrow> Inr (upd_pl k (recv_rest o' d' b') v)) = Inr w'"
      by (auto simp: on_recv_def recv_with_def Let_def)
    with that show ?thesis by (cases r) auto
  qed
  have "R w v" using R_recv_loop [OF v(1)] by simp
  with v(2) show ?thesis by blast
qed

lemma R_viewers [handler_steps]:
  assumes "R w w'"
  shows "R w (update_viewers n x y w')"
proof -
  have one: "R (snd a) (snd (show_move n i a))" for i a
    by (cases a) (auto simp: show_move_def Let_def intro!: handler_steps)
  have "R (snd a) (snd (fold (show_move n) ids a))" for ids a
    by (rule fold_preorder [of "\<lambda>a b. R (snd a) (snd b)"]) (auto intro: R_trans one)
  note g = this
  have f: "R w u" if m: "R w v" "fold (show_move n) ids ([], v) = (nv, u)" for v ids nv u
    using R_trans [OF m(1)] g [of "([], v)" ids] by (simp add: m(2))
  let ?c = "w_npc w' n"
  let ?w1 = "w'\<lparr>w_sectors := update_object_sector (m_id ?c) x y (m_x ?c) (m_y ?c) (w_sectors w')\<rparr>"
  let ?w3 = "upd_npc n (\<lambda>c. c\<lparr>m_last_npc_move_time := fst (clock_now ?w1)\<rparr>) (snd (clock_now ?w1))"
  obtain nv u where e: "fold (show_move n) (nearby ?w3 (m_x ?c) (m_y ?c)) ([], ?w3) = (nv, u)"
    by (cases "fold (show_move n) (nearby ?w3 (m_x ?c) (m_y ?c)) ([], ?w3)")
  have "R w ?w3" using assms by (simp add: clock_now_def)
  from f [OF this e] have u: "R w u" .
  show ?thesis
    unfolding update_viewers_def Let_def
    using e by (simp add: clock_now_def R_for_players [OF u] R_views(2))
qed

lemma R_roam_walk [handler_steps]: "R w w' \<Longrightarrow> R w (roam_walk n w')"
  by (auto simp: roam_walk_def Let_def rand_next_def intro!: handler_steps)

lemma R_die [handler_steps]: "R w w' \<Longrightarrow> R w (player_die k w')"
  by (auto simp: player_die_def Let_def intro!: handler_steps)

lemma R_hurt [handler_steps]: "R w w' \<Longrightarrow> R w (snd (hurt n k base w'))"
  by (auto simp: hurt_def Let_def clock_now_def intro!: R_for_players handler_steps)

lemma R_targets [simp]: "R w (set_target n t w') = R w w'" "R w (set_move_state n st w') = R w w'"
  by (simp_all add: set_target_def set_move_state_def)

lemma R_hp [handler_steps]: "R w w' \<Longrightarrow> R w (send_hp k rem w')"
  by (auto simp: send_hp_def Let_def intro!: handler_steps)

lemma R_npc_attacks [handler_steps]:
  assumes "R w w'"
  shows "R w (area_attack n w')" "R w (boss_attack n base w')" "R w (npc_attack n w')"
  using assms
  by (auto simp: area_attack_def area_one_def boss_attack_def npc_attack_def Let_def split_beta
    intro!: R_fold handler_steps)

lemma R_retarget [simp]: "R w (retarget n w') = R w w'"
  by (simp add: retarget_def Let_def)

lemma R_chase:
  assumes "\<And>s. R s (roam n s)"
  shows "R w (chase_with roam n w)"
proof -
  have r: "R w v \<Longrightarrow> R w (roam n v)" for v using R_trans assms by blast
  show ?thesis
    by (auto simp: chase_with_def chase_walk_def Let_def intro!: handler_steps r split: option.split prod.split)
qed

lemma R_roaming:
  assumes "\<And>s. R s (chase n s)"
  shows "R w (roaming_with chase n w)"
proof -
  have r: "R w v \<Longrightarrow> R w (chase n v)" for v using R_trans assms by blast
  show ?thesis by (auto simp: roaming_with_def Let_def intro!: handler_steps r)
qed

lemma R_roam_fuel: "R w (roam_fuel m n w)"
  by (induction m arbitrary: w) (auto intro: R_roaming R_chase)

lemma R_npc_move: "R w (process_npc_move n w)"
proof -
  have nx: "R w v \<Longrightarrow> R w (next_move n v)" for v
    by (auto simp: next_move_def Let_def clock_now_def split: prod.split)
  have "R w (do_roaming_move n w)" "R w (do_chase_move n w)"
    unfolding do_roaming_move_def do_chase_move_def by (rule R_roam_fuel R_chase [OF R_roam_fuel])+
  then show ?thesis by (auto simp: process_npc_move_def Let_def intro!: nx split: option.split npc_state.split)
qed

lemma R_respawn_tile: "respawn_tile m c w = (p, w') \<Longrightarrow> R v w' = R v w"
  by (induction m arbitrary: w) (auto simp: Let_def rand_next_def split: if_splits)

lemma R_npc_respawn: "R w (process_npc_respawn n w)"
  by (auto simp: process_npc_respawn_def Let_def intro!: R_fold handler_steps split: prod.split
    dest: R_respawn_tile [of _ _ _ _ _ w])

lemma R_regen: "R w (process_hp_regen k w)"
  by (auto simp: process_hp_regen_def Let_def clock_now_def intro!: handler_steps)

lemma R_db_login: "R w (on_db_login k r w)"
  by (auto simp: on_db_login_def load_session_def Let_def clock_now_def intro!: handler_steps)

lemma R_completion: "R w (on_completion c w)"
  by (auto simp: on_completion_def R_npc_move R_npc_respawn R_regen R_db_login split: completion.split)

lemma R_timer: "R w (timer_step w)"
  by (auto simp: timer_step_def Let_def clock_now_def split: option.split)

lemma R_db_step: "db_step c l q w = Some (qs, w') \<Longrightarrow> R w w'"
  by (auto simp: db_step_def Let_def split: list.splits db_event.splits if_splits option.splits)

end

text \<open>The id a new connection gets is at least \<open>player_index\<close>.\<close>

lemma new_id_index: "get_new_player_id w = (i, w') \<Longrightarrow> w_player_index w \<le> w_player_index w'"
proof (induction w arbitrary: i w' rule: get_new_player_id.induct)
  case (1 w)
  let ?id = "w_player_index w" and ?w1 = "w\<lparr>w_player_index := w_player_index w + 1\<rparr>"
  show ?case
  proof (cases "?id \<ge> NPC_ID_START \<or> (case get_object ?w1 ?id of None \<Rightarrow> True | Some ob \<Rightarrow> m_state ob = CS_FREE \<or> m_state ob = CS_LOGOUT)")
    case True
    then show ?thesis using 1(2) by (subst (asm) get_new_player_id.simps) (auto simp: Let_def split: option.splits if_splits)
  next
    case False
    then obtain ob where ob: "get_object ?w1 ?id = Some ob" "\<not> (m_state ob = CS_FREE \<or> m_state ob = CS_LOGOUT)" "\<not> ?id \<ge> NPC_ID_START"
      by (auto split: option.splits)
    then have "get_new_player_id ?w1 = (i, w')" using 1(2) by (subst (asm) get_new_player_id.simps) (simp add: Let_def)
    from 1(1) [OF refl refl ob(3,1,2) this] show ?thesis by simp
  qed
qed

lemma new_id_any:
  "get_new_player_id w = (i, w') \<Longrightarrow> (\<exists>x. w' = w\<lparr>w_player_index := x\<rparr>) \<and> (i = -1 \<or> w_player_index w \<le> i \<and> i < MAX_PLAYERS)"
proof (induction w arbitrary: i w' rule: get_new_player_id.induct)
  case (1 w)
  let ?id = "w_player_index w" and ?w1 = "w\<lparr>w_player_index := w_player_index w + 1\<rparr>"
  show ?case
  proof (cases "?id \<ge> NPC_ID_START \<or> (case get_object ?w1 ?id of None \<Rightarrow> True | Some ob \<Rightarrow> m_state ob = CS_FREE \<or> m_state ob = CS_LOGOUT)")
    case True
    then show ?thesis using 1(2) by (subst (asm) get_new_player_id.simps) (auto simp: Let_def split: option.splits if_splits)
  next
    case False
    then obtain ob where ob: "get_object ?w1 ?id = Some ob" "\<not> (m_state ob = CS_FREE \<or> m_state ob = CS_LOGOUT)" "\<not> ?id \<ge> NPC_ID_START"
      by (auto split: option.splits)
    then have "get_new_player_id ?w1 = (i, w')" using 1(2) by (subst (asm) get_new_player_id.simps) (simp add: Let_def)
    from 1(1) [OF refl refl ob(3,1,2) this] show ?thesis by auto
  qed
qed

end
