(* ===== verification/Apart.thy ===== *)
theory Apart
  imports Handlers
begin

text \<open>
  What the threads do to a session besides its own receives: nothing to its receive buffer, and a
  session that is closed never comes back under its id. Every event of the server, other sessions'
  connections and packets included.
\<close>

definition apart :: "int \<Rightarrow> world \<Rightarrow> world \<Rightarrow> bool" where
  "apart k w w' \<longleftrightarrow> w_player_index w \<le> w_player_index w' \<and> (w_live w' k \<longrightarrow> w_live w k)
    \<and> m_buff (w_pl w' k) = m_buff (w_pl w k) \<and> m_prev_recv (w_pl w' k) = m_prev_recv (w_pl w k)
    \<and> m_recv_len (w_pl w' k) = m_recv_len (w_pl w k)"

lemma apart_calm: "calm w w' \<Longrightarrow> apart k w w'"
  using undisturbed_calm [of w w'] calmD(11) [of w w' k] by (simp add: apart_def undisturbed_def)

lemma apart_trans: "apart k a b \<Longrightarrow> apart k b c \<Longrightarrow> apart k a c"
  by (simp add: apart_def)

interpretation aside: handler_relation "apart k" for k
proof (unfold_locales, goal_cases)
  case (2 a b c)
  then show ?case by (rule apart_trans)
next
  case (12 f w k w')
  then show ?case by (simp add: apart_def keeps_link_def upd_pl_def)
qed (auto intro: apart_calm, simp_all add: apart_def upd_npc_def)

section \<open>Runs\<close>

text \<open>Every event but a receive of the session itself; that its peer closed it is one.\<close>

definition elsewhere :: "int \<Rightarrow> event \<Rightarrow> bool" where
  "elsewhere k ev \<longleftrightarrow> (\<forall>bs. ev = Recv k bs \<longrightarrow> bs = [])"

lemma apart_accept:
  assumes "k < w_player_index w" "0 \<le> k"
  shows "apart k w (snd (do_accept sock w))"
proof -
  obtain i w1 where i: "get_new_player_id w = (i, w1)" by (cases "get_new_player_id w")
  then obtain x where x: "w1 = w\<lparr>w_player_index := x\<rparr>" "i = -1 \<or> w_player_index w \<le> i \<and> i < MAX_PLAYERS"
    using new_id_any by blast
  have "w_player_index w \<le> x" using new_id_index [OF i] by (simp add: x(1))
  moreover have "i \<noteq> k" using assms x(2) by auto
  ultimately show ?thesis
    by (auto simp: do_accept_def i x(1) apart_def clock_now_def Let_def)
qed

lemma apart_serve:
  assumes "serve ev w = Some (Inr w')" "elsewhere k ev" "k < w_player_index w" "0 \<le> k"
  shows "apart k w w'"
proof (cases ev)
  case (Accept sock)
  then show ?thesis using assms(1) apart_accept [OF assms(3,4), of sock] by (simp add: serve_def)
next
  case (Recv i bs)
  then obtain r where r: "on_recv i bs w = Some r" "map_sum (\<lambda>_. OVERREAD) id r = Inr w'" using assms(1) by (auto simp: serve_def)
  then have on: "on_recv i bs w = Some (Inr w')" by (cases r) simp_all
  show ?thesis
  proof (cases "i = k")
    case True
    then have "bs = []" using assms(2) Recv by (simp add: elsewhere_def)
    then have "w' = disconnect i w" using on by (simp add: on_recv_def recv_with_def)
    then show ?thesis by (simp add: aside.R_closes)
  next
    case False
    have "apart k w w' = apart k w v" if "w' = upd_pl i f v" for f v
      using that False by (simp add: apart_def upd_pl_def)
    then show ?thesis using aside.R_recv [OF on, of k] by blast
  qed
next
  case (Sent i bs n)
  obtain ok w1 where p: "post_send i (drop n bs) w = (ok, w1)" by (cases "post_send i (drop n bs) w")
  have "apart k w w1" by (rule apart_calm [OF calm_post_send [OF p]])
  moreover have "apart k v (fail_send i v)" "apart k v (start_next_send i v)" for v
    unfolding fail_send_def start_next_send_def
    using net.calm_fail_with net.calm_start_with by (blast intro: apart_calm)+
  ultimately have "apart k w (on_send_complete i bs n w)"
    using apart_trans [of k w w1] by (simp add: on_send_complete_def p)
  then show ?thesis using assms(1) Sent by (auto simp: serve_def on_sent_def)
next
  case (Gone i)
  then show ?thesis using assms(1) by (auto simp: serve_def on_error_def intro: aside.R_closes)
next
  case (Work i)
  have "apart k (w\<lparr>w_completions := cs\<rparr>) v = apart k w v" for cs v by (simp add: apart_def)
  then have "apart k w (on_completion c (w\<lparr>w_completions := cs\<rparr>))" for c cs
    using aside.R_completion [of k "w\<lparr>w_completions := cs\<rparr>"] by blast
  then show ?thesis using assms(1) by (simp add: serve_def Work split: if_splits) blast
next
  case Tick
  then show ?thesis using assms(1) aside.R_timer by (auto simp: serve_def)
next
  case (Db c l q)
  then show ?thesis using assms(1) aside.R_db_step by (auto simp: serve_def split: option.splits)
qed

lemma recv_index:
  assumes "on_recv i bs w = Some (Inr w')"
  shows "w_player_index w \<le> w_player_index w'"
  using aside.R_recv [OF assms, of i] by (auto simp: apart_def upd_pl_def)

end
