(* ===== verification/Framing.thy ===== *)
theory Framing
  imports Protocol
begin

text \<open>
  A byte stream of packets, each opening with its size: what both readers of the server's stream
  (the client and the stress tester) make of it. \<open>frames\<close> is the reference: the complete packets
  at the front of the bytes, and the rest. The interface \<open>stream_reader\<close> is a program that gets
  the stream in pieces; proved once in it: however the stream is cut, the program ends as if it
  had handled the packets of the whole stream in order.
\<close>

function frames :: "byte list \<Rightarrow> byte list list \<times> byte list" where
  "frames bs =
    (let n = nat (rd8 bs) in
     if n = 0 \<or> length bs < n then ([], bs)
     else let (ps, r) = frames (drop n bs) in (take n bs # ps, r))"
  by pat_completeness auto
termination by (relation "measure length") auto

declare frames.simps [simp del]

lemma rd8_range: "0 \<le> rd8 xs" "rd8 xs < 256"
proof -
  have "0 \<le> uint b \<and> uint b < 256" for b :: byte using uint_lt2p [of b] by simp
  then show "0 \<le> rd8 xs" "rd8 xs < 256" by (cases xs; simp add: rd8_def)+
qed

lemma frames_stop: "rd8 bs = 0 \<or> int (length bs) < rd8 bs \<Longrightarrow> frames bs = ([], bs)"
  by (subst frames.simps) (auto simp: Let_def)

lemma frames_next:
  assumes "0 < rd8 bs" "rd8 bs \<le> int (length bs)"
  shows "frames bs = (take (nat (rd8 bs)) bs # fst (frames (drop (nat (rd8 bs)) bs)), snd (frames (drop (nat (rd8 bs)) bs)))"
  by (subst frames.simps) (use assms in \<open>auto simp: Let_def split: prod.split\<close>)

lemma frames_Nil [simp]: "frames [] = ([], [])"
  by (rule frames_stop) (simp add: rd8_def)

text \<open>More bytes only add packets behind those already complete.\<close>

lemma frames_append:
  "frames (xs @ ys) = (fst (frames xs) @ fst (frames (snd (frames xs) @ ys)), snd (frames (snd (frames xs) @ ys)))"
proof (induction xs rule: frames.induct)
  case (1 xs)
  show ?case
  proof (cases "nat (rd8 xs) = 0 \<or> length xs < nat (rd8 xs)")
    case True
    then have "frames xs = ([], xs)" by (intro frames_stop) (use rd8_range(1) [of xs] in linarith)
    then show ?thesis by simp
  next
    case False
    let ?n = "nat (rd8 xs)"
    have n: "0 < rd8 xs" "rd8 xs \<le> int (length xs)" "xs \<noteq> []"
      using False by (auto simp: rd8_def)
    have "rd8 (xs @ ys) = rd8 xs" by (rule rd8_append [OF n(3)])
    then have "frames (xs @ ys) = (take ?n (xs @ ys) # fst (frames (drop ?n (xs @ ys))), snd (frames (drop ?n (xs @ ys))))"
      using frames_next [of "xs @ ys"] n by simp
    moreover have "take ?n (xs @ ys) = take ?n xs" "drop ?n (xs @ ys) = drop ?n xs @ ys" using n by simp_all
    ultimately show ?thesis using 1(1) [OF refl False] by (simp add: frames_next [OF n(1,2)])
  qed
qed

text \<open>What is left is less than a packet, or starts with a size of 0.\<close>

lemma frames_rest: "snd (frames bs) = r \<Longrightarrow> rd8 r = 0 \<or> int (length r) < rd8 r"
proof (induction bs rule: frames.induct)
  case (1 bs)
  show ?case
  proof (cases "nat (rd8 bs) = 0 \<or> length bs < nat (rd8 bs)")
    case True
    then have "frames bs = ([], bs)" by (intro frames_stop) (use rd8_range(1) [of bs] in linarith)
    then show ?thesis using 1(2) True rd8_range(1) [of r] by auto
  next
    case False
    then have "frames bs = (take (nat (rd8 bs)) bs # fst (frames (drop (nat (rd8 bs)) bs)), snd (frames (drop (nat (rd8 bs)) bs)))"
      by (intro frames_next) (use False in linarith)+
    then show ?thesis using 1(1) [OF refl False] 1(2) by simp
  qed
qed

lemma frames_rest_short: "rd8 (snd (frames bs)) \<noteq> 0 \<Longrightarrow> length (snd (frames bs)) < 255"
  using frames_rest [OF refl, of bs] rd8_range(2) [of "snd (frames bs)"] by linarith

text \<open>A stream of the server's packets.\<close>

lemma frames_enc: "frames (concat (map enc_s2c ps) @ r) = (map enc_s2c ps @ fst (frames r), snd (frames r))"
proof (induction ps)
  case (Cons p ps)
  have "rd8 (enc_s2c p @ x) = int (s2c_size p)" for x by (rule rd8_enc_s2c)
  then show ?case
    using s2c_size_bounds [of p] Cons frames_next [of "enc_s2c p @ concat (map enc_s2c ps) @ r"] by simp
qed simp

section \<open>The interface of a reader\<close>

text \<open>
  \<open>step bs\<close> is one receive of the bytes \<open>bs\<close>, \<open>handle\<close> what is done with one packet,
  \<open>pending\<close> the bytes kept for later. The law is for \<open>good\<close> packets, those that the
  program reads nothing behind and that do not end it.
\<close>

locale stream_reader =
  fixes step :: "byte list \<Rightarrow> 's \<Rightarrow> 's option"
    and handle :: "byte list \<Rightarrow> 's \<Rightarrow> 's"
    and pending :: "'s \<Rightarrow> byte list"
    and put :: "byte list \<Rightarrow> 's \<Rightarrow> 's"
    and live :: "'s \<Rightarrow> bool"
    and fits :: "byte list \<Rightarrow> 's \<Rightarrow> bool"
    and good :: "byte list \<Rightarrow> bool"
  assumes step_frames: "live s \<Longrightarrow> fits bs s \<Longrightarrow> rd8 (snd (frames (pending s @ bs))) \<noteq> 0 \<or> snd (frames (pending s @ bs)) = []
      \<Longrightarrow> \<forall>p \<in> set (fst (frames (pending s @ bs))). good p
      \<Longrightarrow> step bs s = Some (put (snd (frames (pending s @ bs))) (fold handle (fst (frames (pending s @ bs))) s))"
    and frames_pending: "live s \<Longrightarrow> frames (pending s) = ([], pending s)"
    and pending_put: "pending (put r s) = r"
    and put_put: "put r (put r' s) = put r s"
    and handle_put: "handle p (put r s) = put r (handle p s)"
    and put_pending: "live s \<Longrightarrow> put (pending s) s = s"
    and live_handle: "live s \<Longrightarrow> good p \<Longrightarrow> live (handle p s)"
    and live_put: "live s \<Longrightarrow> frames r = ([], r) \<Longrightarrow> rd8 r \<noteq> 0 \<or> r = [] \<Longrightarrow> live (put r s)"
begin

lemma fold_put: "fold handle ps (put r s) = put r (fold handle ps s)"
  by (induction ps arbitrary: s) (simp_all add: handle_put)

lemma live_fold: "live s \<Longrightarrow> \<forall>p \<in> set ps. good p \<Longrightarrow> live (fold handle ps s)"
  by (induction ps arbitrary: s) (simp_all add: live_handle)

lemma frames_idem: "frames (snd (frames bs)) = ([], snd (frames bs))"
  by (rule frames_stop) (rule frames_rest [OF refl])

text \<open>Receives one after the other.\<close>

inductive reads :: "'s \<Rightarrow> byte list list \<Rightarrow> 's \<Rightarrow> bool" where
  reads_start: "reads s [] s"
| reads_more: "reads s bss s' \<Longrightarrow> fits bs s' \<Longrightarrow> step bs s' = Some s'' \<Longrightarrow> reads s (bss @ [bs]) s''"

lemma reads_append: "reads s' ys s'' \<Longrightarrow> reads s xs s' \<Longrightarrow> reads s (xs @ ys) s''"
  by (induction rule: reads.induct) (auto simp: append_assoc [symmetric] simp del: append_assoc intro: reads_more)

lemma reads_one: "fits bs s \<Longrightarrow> step bs s = Some s' \<Longrightarrow> reads s' bss s'' \<Longrightarrow> reads s (bs # bss) s''"
  using reads_append [of s' bss s'' s "[bs]"] reads_more [OF reads_start, of bs s s'] by simp

lemma step_again:
  assumes s': "s' = put (snd (frames x)) (fold handle (fst (frames x)) s)" and s: "live s" and f: "fits bs s'"
    and g: "\<forall>p \<in> set (fst (frames (x @ bs))). good p"
    and z: "rd8 (snd (frames x)) \<noteq> 0 \<or> snd (frames x) = []" "rd8 (snd (frames (x @ bs))) \<noteq> 0 \<or> snd (frames (x @ bs)) = []"
  shows "step bs s' = Some (put (snd (frames (x @ bs))) (fold handle (fst (frames (x @ bs))) s))"
proof -
  have a: "frames (x @ bs) = (fst (frames x) @ fst (frames (snd (frames x) @ bs)), snd (frames (snd (frames x) @ bs)))"
    by (rule frames_append)
  have p: "pending s' = snd (frames x)" by (simp add: s' pending_put)
  have "live s'"
    unfolding s' using g a by (intro live_put live_fold s frames_idem z(1)) simp
  then have "step bs s' = Some (put (snd (frames (pending s' @ bs))) (fold handle (fst (frames (pending s' @ bs))) s'))"
    by (rule step_frames [OF _ f]) (use g z(2) a in \<open>simp_all add: p\<close>)
  then show ?thesis unfolding p a by (simp add: s' fold_put put_put)
qed

lemma reads_stream:
  assumes "reads s bss s'" "live s"
    and "\<forall>p \<in> set (fst (frames (pending s @ concat bss))). good p"
    and "\<And>xs ys. pending s @ concat bss = xs @ ys \<Longrightarrow> rd8 (snd (frames xs)) \<noteq> 0 \<or> snd (frames xs) = []"
  shows "s' = put (snd (frames (pending s @ concat bss))) (fold handle (fst (frames (pending s @ concat bss))) s)"
  using assms
proof (induction rule: reads.induct)
  case (reads_start s)
  then show ?case using frames_pending [OF reads_start(1)] put_pending [OF reads_start(1)] by simp
next
  case (reads_more s bss s' bs s'')
  let ?x = "pending s @ concat bss"
  have z: "rd8 (snd (frames xs)) \<noteq> 0 \<or> snd (frames xs) = []" if "?x = xs @ ys" for xs ys
    by (rule reads_more.prems(3) [of xs "ys @ bs"]) (use that in simp)
  have "\<forall>p \<in> set (fst (frames ?x)). good p" using reads_more.prems(2) frames_append [of ?x bs] by simp
  then have s': "s' = put (snd (frames ?x)) (fold handle (fst (frames ?x)) s)"
    by (rule reads_more.IH [OF reads_more.prems(1) _ z])
  have "step bs s' = Some (put (snd (frames (?x @ bs))) (fold handle (fst (frames (?x @ bs))) s))"
    by (rule step_again [OF s' reads_more.prems(1) reads_more.hyps(2)])
      (use reads_more.prems z [of ?x "[]"] reads_more.prems(3) [of "?x @ bs" "[]"] in simp_all)
  with reads_more.hyps(3) show ?case by simp
qed

text \<open>A receive of such a stream always comes back.\<close>

lemma reads_on:
  assumes "reads s bss s'" "live s" "fits bs s'"
    and "\<forall>p \<in> set (fst (frames (pending s @ concat bss @ bs))). good p"
    and "\<And>xs ys. pending s @ concat bss @ bs = xs @ ys \<Longrightarrow> rd8 (snd (frames xs)) \<noteq> 0 \<or> snd (frames xs) = []"
  shows "\<exists>s''. step bs s' = Some s''"
proof -
  let ?x = "pending s @ concat bss"
  have z: "rd8 (snd (frames xs)) \<noteq> 0 \<or> snd (frames xs) = []" if "?x = xs @ ys" for xs ys
    by (rule assms(5) [of xs "ys @ bs"]) (use that in simp)
  have "\<forall>p \<in> set (fst (frames ?x)). good p" using assms(4) frames_append [of ?x bs] by simp
  then have "s' = put (snd (frames ?x)) (fold handle (fst (frames ?x)) s)"
    using assms(1,2) z by (intro reads_stream)
  from step_again [OF this assms(2,3)] assms(4,5) z [of ?x "[]"] assms(5) [of "?x @ bs" "[]"] show ?thesis by simp
qed

end

text \<open>
  A prefix of a stream of the server's packets: the packets it completes, then less than the next
  packet, and never a size of 0.
\<close>

lemma enc_prefix:
  assumes "xs @ ys = concat (map enc_s2c ps)"
  shows "\<exists>qs qs'. ps = qs @ qs' \<and> frames xs = (map enc_s2c qs, snd (frames xs))
    \<and> xs = concat (map enc_s2c qs) @ snd (frames xs)
    \<and> (case qs' of [] \<Rightarrow> snd (frames xs) = [] | q # _ \<Rightarrow> length (snd (frames xs)) < s2c_size q)
    \<and> (rd8 (snd (frames xs)) \<noteq> 0 \<or> snd (frames xs) = [])"
  using assms
proof (induction ps arbitrary: xs)
  case (Cons p ps)
  have e: "rd8 (enc_s2c p @ x) = int (s2c_size p)" for x by (rule rd8_enc_s2c)
  show ?case
  proof (cases "s2c_size p \<le> length xs")
    case True
    then have "take (s2c_size p) xs = take (s2c_size p) (xs @ ys)" by simp
    then have "take (s2c_size p) xs = enc_s2c p" by (simp add: Cons.prems)
    then have xs: "xs = enc_s2c p @ drop (s2c_size p) xs"
      using append_take_drop_id [of "s2c_size p" xs] by simp
    have "drop (s2c_size p) xs @ ys = concat (map enc_s2c ps)"
      using Cons.prems by (subst (asm) xs) simp
    from Cons.IH [OF this] obtain qs qs' r where q: "ps = qs @ qs'"
      "frames (drop (s2c_size p) xs) = (map enc_s2c qs, r)" "drop (s2c_size p) xs = concat (map enc_s2c qs) @ r"
      "case qs' of [] \<Rightarrow> r = [] | q # _ \<Rightarrow> length r < s2c_size q" "rd8 r \<noteq> 0 \<or> r = []"
      by (metis snd_conv)
    have "frames xs = (enc_s2c p # map enc_s2c qs, r)"
      using frames_enc [of "[p]" "drop (s2c_size p) xs"] xs q(2) by simp
    with q xs show ?thesis by - (rule exI [of _ "p # qs"], rule exI [of _ qs'], cases qs'; simp)
  next
    case False
    have "frames xs = ([], xs) \<and> (rd8 xs \<noteq> 0 \<or> xs = [])"
    proof (cases "xs = []")
      case f: False
      have "rd8 xs = int (s2c_size p)"
        using rd8_append [OF f, of ys] Cons.prems e [of "concat (map enc_s2c ps)"] by simp
      moreover from this have "frames xs = ([], xs)" using False by (intro frames_stop) simp
      ultimately show ?thesis using s2c_size_bounds [of p] by simp
    qed simp
    with False show ?thesis by - (rule exI [of _ "[]"], rule exI [of _ "p # ps"], simp)
  qed
qed simp

end
