(* ===== verification/Client.thy ===== *)
theory Client
  imports Framing Messages
begin

text \<open>
  \<open>CLIENT/client/client.cpp\<close> without its drawing: the state the window shows, the packets it
  sends, \<open>handle_packet\<close> on the raw bytes, the receiving thread, and the events of the window.
  Enumerations read from the network without a check are kept as the numbers read.
\<close>

section \<open>State\<close>

record objinfo =
  o_id :: int
  o_name :: "byte list"
  o_x :: int
  o_y :: int
  o_hp :: int
  o_max_hp :: int
  o_npc_type :: int
  o_npc_state :: int
  o_dir :: direction

record iteminfo =
  i_id :: int
  i_x :: int
  i_y :: int
  i_item_type :: int

record quest_client =
  q_current :: int
  q_target :: int
  q_state :: int

datatype app_state = LOGIN | PLAYING

datatype effect_type = EFF_NONE | EFF_ATTACK | EFF_SKILL

record proj_effect =
  pj_active :: bool
  pj_sx :: int
  pj_sy :: int
  pj_dir :: direction
  pj_range :: int
  pj_start :: int

text \<open>
  The globals, and four fields that are not: \<open>g_sent\<close> is all that was given to \<open>send\<close>, in
  order, \<open>g_threads\<close> counts the receiving threads started, and \<open>g_clock\<close> is what the successive
  readings of \<open>steady_clock\<close> (nanoseconds) return, the next one being number \<open>g_ticks\<close>.
\<close>

record client =
  g_sock :: "int option"
  g_running :: bool
  g_my_id :: int
  g_my_x :: int
  g_my_y :: int
  g_my_hp :: int
  g_my_max_hp :: int
  g_my_dir :: direction
  g_my_level :: int
  g_my_xp :: int
  g_my_exp_next :: int
  g_move_time :: int
  g_objs :: "int \<rightharpoonup> objinfo"
  g_world_items_cl :: "int \<rightharpoonup> iteminfo"
  g_inventory :: "int list"
  g_msgs :: "byte list list"
  g_chat_mode :: bool
  g_chat_input :: "byte list"
  g_last_skill_time :: int
  g_quests :: "quest_client list"
  g_quest_panel_open :: bool
  g_map_open :: bool
  g_effect :: "effect_type \<times> int"
  g_proj :: proj_effect
  g_last_ranged_time :: int
  g_state :: app_state
  g_input_ip :: "byte list"
  g_input_name :: "byte list"
  g_focus :: int
  s_login_name :: "byte list"
  g_sent :: "byte list"
  g_threads :: nat
  g_clock :: "nat \<Rightarrow> int"
  g_ticks :: nat

abbreviation (input) MAX_MSGS :: nat where "MAX_MSGS \<equiv> 6"
abbreviation (input) SKILL_CD_MS :: int where "SKILL_CD_MS \<equiv> 3000"
abbreviation (input) RANGED_CD_MS :: int where "RANGED_CD_MS \<equiv> 2000"

text \<open>Both skills count as used ten seconds before the start.\<close>

definition start_client :: "(nat \<Rightarrow> int) \<Rightarrow> client" where
  "start_client clk =
    \<lparr> g_sock = None, g_running = False, g_my_id = -1, g_my_x = 0, g_my_y = 0, g_my_hp = 100, g_my_max_hp = 100,
      g_my_dir = DOWN, g_my_level = 1, g_my_xp = 0, g_my_exp_next = 100, g_move_time = 0,
      g_objs = Map.empty, g_world_items_cl = Map.empty, g_inventory = replicate ITEM_SLOT_COUNT 0, g_msgs = [],
      g_chat_mode = False, g_chat_input = [], g_last_skill_time = clk 0 - 10000000000,
      g_quests = [\<lparr> q_current = 0, q_target = 10, q_state = 1 \<rparr>, \<lparr> q_current = 0, q_target = 3, q_state = 1 \<rparr>],
      g_quest_panel_open = False, g_map_open = False, g_effect = (EFF_NONE, 0),
      g_proj = \<lparr> pj_active = False, pj_sx = 0, pj_sy = 0, pj_dir = UP, pj_range = 0, pj_start = 0 \<rparr>,
      g_last_ranged_time = clk 1 - 10000000000, g_state = LOGIN, g_input_ip = bytes_of ''127.0.0.1'',
      g_input_name = [], g_focus = 1, s_login_name = [], g_sent = [], g_threads = 0,
      g_clock = clk, g_ticks = 2 \<rparr>"

definition steady_now :: "client \<Rightarrow> int \<times> client" where
  "steady_now c = (g_clock c (g_ticks c), c\<lparr>g_ticks := Suc (g_ticks c)\<rparr>)"

definition push_msg :: "byte list \<Rightarrow> client \<Rightarrow> client" where
  "push_msg s c =
    (let ms = g_msgs c @ [s] in c\<lparr>g_msgs := (if length ms > MAX_MSGS then tl ms else ms)\<rparr>)"

section \<open>Sending\<close>

definition net_send :: "byte list \<Rightarrow> client \<Rightarrow> client" where
  "net_send data c = (if g_sock c \<noteq> None then c\<lparr>g_sent := g_sent c @ data\<rparr> else c)"

definition c_send_login :: "byte list \<Rightarrow> client \<Rightarrow> client" where
  "c_send_login name = net_send (enc_c2s (C2S_Login (strncpy_s name (MAX_NAME_LEN - 1))))"

definition c_send_move :: "direction \<Rightarrow> client \<Rightarrow> client" where
  "c_send_move dir c = net_send (enc_c2s (C2S_Move dir (g_move_time c))) c"

definition c_send_attack :: "client \<Rightarrow> client" where
  "c_send_attack = net_send (enc_c2s C2S_Attack)"

definition c_send_skill :: "client \<Rightarrow> client" where
  "c_send_skill = net_send (enc_c2s C2S_Skill)"

definition c_send_ranged_attack :: "client \<Rightarrow> client" where
  "c_send_ranged_attack = net_send (enc_c2s C2S_RangedAttack)"

definition c_send_use_item :: "item_type \<Rightarrow> client \<Rightarrow> client" where
  "c_send_use_item t = net_send (enc_c2s (C2S_UseItem t))"

definition c_send_chat :: "byte list \<Rightarrow> client \<Rightarrow> client" where
  "c_send_chat msg c =
    (if msg = [] then c else net_send (enc_c2s (C2S_Chat (strncpy_s msg (MAX_CHAT_LEN - 1)))) c)"

section \<open>handle_packet\<close>

definition on_login_result :: "bool \<Rightarrow> byte list \<Rightarrow> client \<Rightarrow> client" where
  "on_login_result success message c =
    (if success then (push_msg (bytes_of ''Login OK.'') c)\<lparr>g_state := PLAYING\<rparr>
     else (push_msg (bytes_of ''Login failed: '' @ message) c)\<lparr>g_running := False, g_sock := None, g_state := LOGIN\<rparr>)"

definition on_avatar_info :: "int \<Rightarrow> int \<Rightarrow> int \<Rightarrow> int \<Rightarrow> int \<Rightarrow> int \<Rightarrow> int \<Rightarrow> int \<Rightarrow> direction \<Rightarrow> client \<Rightarrow> client" where
  "on_avatar_info pid x y hp max_hp level xp exp_next dir c =
    c\<lparr>g_my_id := pid, g_my_x := x, g_my_y := y, g_my_hp := hp, g_my_max_hp := max_hp, g_my_level := level,
      g_my_xp := xp, g_my_exp_next := exp_next, g_my_dir := dir\<rparr>"

definition on_add_player :: "objinfo \<Rightarrow> client \<Rightarrow> client" where
  "on_add_player o1 c = c\<lparr>g_objs := (g_objs c)(o_id o1 \<mapsto> o1)\<rparr>"

definition on_remove_player :: "int \<Rightarrow> client \<Rightarrow> client" where
  "on_remove_player pid c = c\<lparr>g_objs := (g_objs c)(pid := None)\<rparr>"

definition upd_obj :: "int \<Rightarrow> (objinfo \<Rightarrow> objinfo) \<Rightarrow> client \<Rightarrow> client" where
  "upd_obj k f c = (case g_objs c k of None \<Rightarrow> c | Some o1 \<Rightarrow> c\<lparr>g_objs := (g_objs c)(k \<mapsto> f o1)\<rparr>)"

definition on_move_player :: "int \<Rightarrow> int \<Rightarrow> int \<Rightarrow> direction \<Rightarrow> client \<Rightarrow> client" where
  "on_move_player pid x y dir c =
    (if pid = g_my_id c then c\<lparr>g_my_x := x, g_my_y := y, g_my_dir := dir\<rparr>
     else upd_obj pid (\<lambda>o1. o1\<lparr>o_x := x, o_y := y, o_dir := dir\<rparr>) c)"

definition on_projectile :: "int \<Rightarrow> int \<Rightarrow> direction \<Rightarrow> int \<Rightarrow> client \<Rightarrow> client" where
  "on_projectile sx sy dir rng c =
    (let (now, c1) = steady_now c in
     c1\<lparr>g_proj := \<lparr> pj_active = True, pj_sx = sx, pj_sy = sy, pj_dir = dir, pj_range = rng, pj_start = now \<rparr>\<rparr>)"

definition on_chat :: "byte list \<Rightarrow> byte list \<Rightarrow> client \<Rightarrow> client" where
  "on_chat sender msg = push_msg (bytes_of ''['' @ sender @ bytes_of ''] '' @ msg)"

definition on_stat_info :: "int \<Rightarrow> int \<Rightarrow> int \<Rightarrow> int \<Rightarrow> int \<Rightarrow> int \<Rightarrow> int \<Rightarrow> client \<Rightarrow> client" where
  "on_stat_info oid hp max_hp level xp exp_next st c =
    (if oid = g_my_id c
     then let c1 = c\<lparr>g_my_hp := hp, g_my_max_hp := max_hp\<rparr> in
       if level > 0 then c1\<lparr>g_my_level := level, g_my_xp := xp, g_my_exp_next := exp_next\<rparr> else c1
     else upd_obj oid (\<lambda>o1. o1\<lparr>o_hp := hp, o_max_hp := max_hp, o_npc_state := st\<rparr>) c)"

definition on_item_appear :: "iteminfo \<Rightarrow> client \<Rightarrow> client" where
  "on_item_appear it c = c\<lparr>g_world_items_cl := (g_world_items_cl c)(i_id it \<mapsto> it)\<rparr>"

definition on_item_remove :: "int \<Rightarrow> client \<Rightarrow> client" where
  "on_item_remove k c = c\<lparr>g_world_items_cl := (g_world_items_cl c)(k := None)\<rparr>"

definition on_item_add :: "int \<Rightarrow> int \<Rightarrow> client \<Rightarrow> client" where
  "on_item_add t n c =
    (let idx = t - 1 in
     if idx \<ge> 0 \<and> idx < int ITEM_SLOT_COUNT then c\<lparr>g_inventory := (g_inventory c)[nat idx := n]\<rparr> else c)"

definition on_quest_update :: "int \<Rightarrow> int \<Rightarrow> int \<Rightarrow> int \<Rightarrow> client \<Rightarrow> client" where
  "on_quest_update q st cur tgt c =
    (if q < 2 then c\<lparr>g_quests := (g_quests c)[nat q := \<lparr> q_current = cur, q_target = tgt, q_state = st \<rparr>]\<rparr> else c)"

definition damage_text :: "int \<Rightarrow> int \<Rightarrow> int \<Rightarrow> int \<Rightarrow> client \<Rightarrow> byte list" where
  "damage_text attacker target damage target_hp c =
    (let npc = (\<lambda>k. dec_int (s32 (k - NPC_ID_START))) in
     if attacker = g_my_id c
     then bytes_of ''You hit NPC('' @ npc target @ bytes_of '') for '' @ dec_int damage @ bytes_of ''! HP:'' @ dec_int target_hp
     else if target = g_my_id c
     then bytes_of ''NPC('' @ npc attacker @ bytes_of '') hit You for '' @ dec_int damage @ bytes_of ''! HP:''
       @ dec_int target_hp @ bytes_of ''/'' @ dec_int (g_my_max_hp c)
     else if attacker \<ge> NPC_ID_START \<and> \<not> target \<ge> NPC_ID_START
     then bytes_of ''NPC hit PC#'' @ dec_int target @ bytes_of '' for '' @ dec_int damage @ bytes_of '' (HP:''
       @ dec_int target_hp @ bytes_of '')''
     else bytes_of ''PC#'' @ dec_int attacker @ bytes_of '' hit NPC('' @ npc target @ bytes_of '') for '' @ dec_int damage
       @ bytes_of '' (HP:'' @ dec_int target_hp @ bytes_of '')'')"

definition on_damage_info :: "int \<Rightarrow> int \<Rightarrow> int \<Rightarrow> int \<Rightarrow> client \<Rightarrow> client" where
  "on_damage_info attacker target damage target_hp c =
    (let c1 = upd_obj target (\<lambda>o1. o1\<lparr>o_hp := target_hp\<rparr>) c
     in push_msg (damage_text attacker target damage target_hp c1) c1)"

text \<open>
  The dispatch on the type, with the fields read at their offsets from \<open>p\<close>, which holds the
  receive buffer from the packet on.
\<close>

definition handle_packet :: "byte list \<Rightarrow> client \<Rightarrow> client" where
  "handle_packet p c =
    (let ty = rd32 (drop 1 p); r = drop 5 p; i8 = (\<lambda>k. rd8 (drop k r)); i16 = (\<lambda>k. rd16 (drop k r));
       i32 = (\<lambda>k. rd32 (drop k r)); dir = (\<lambda>k. dir_of_int (rd32 (drop k r))) in
     if ty = 7 then on_login_result (i8 0 \<noteq> 0) (cstr (drop 1 r)) c
     else if ty = 8 then on_avatar_info (i32 0) (i16 4) (i16 6) (i16 8) (i16 10) (i32 12) (i32 16) (i32 20) (dir 24) c
     else if ty = 9 then on_add_player \<lparr> o_id = i32 0, o_name = strncpy_s (drop 4 r) (MAX_NAME_LEN - 1),
         o_x = i16 24, o_y = i16 26, o_hp = i16 28, o_max_hp = i16 30, o_npc_type = i8 32, o_npc_state = i8 33,
         o_dir = dir 34 \<rparr> c
     else if ty = 10 then on_remove_player (i32 0) c
     else if ty = 11 then on_move_player (i32 0) (i16 4) (i16 6) (dir 12) c
     else if ty = 19 then on_projectile (i16 4) (i16 6) (dir 8) (i16 12) c
     else if ty = 12 then on_chat (cstr (take (MAX_NAME_LEN - 1) (drop 4 r))) (cstr (take (MAX_CHAT_LEN - 1) (drop 24 r))) c
     else if ty = 13 then on_stat_info (i32 0) (i16 4) (i16 6) (i32 8) (i32 12) (i32 16) (i8 20) c
     else if ty = 15 then on_item_appear \<lparr> i_id = i32 0, i_x = i16 4, i_y = i16 6, i_item_type = i8 8 \<rparr> c
     else if ty = 16 then on_item_remove (i32 0) c
     else if ty = 17 then on_item_add (i8 0) (i32 1) c
     else if ty = 18 then on_quest_update (i8 0) (i8 1) (i32 2) (i32 6) c
     else if ty = 14 then on_damage_info (i32 0) (i32 4) (i16 8) (i16 10) c
     else c)"

section \<open>The receiving thread\<close>

text \<open>
  The loop over the complete packets at the front of the bytes stored; a size of 0 stops it. The
  thread keeps the rest for the next receive. Of the 4096 bytes of its buffer only the stored ones
  are in the model: a packet at least as long as its type says reads and writes nothing else.
\<close>

function drain :: "byte list \<Rightarrow> client \<Rightarrow> byte list \<times> client" where
  "drain buf c =
    (let pkt_sz = nat (rd8 buf) in
     if pkt_sz = 0 \<or> length buf < pkt_sz then (buf, c)
     else drain (drop pkt_sz buf) (handle_packet buf c))"
  by pat_completeness auto
termination by (relation "measure (\<lambda>(buf, _). length buf)") auto

declare drain.simps [simp del]

abbreviation (input) RECV_BUFFER :: nat where "RECV_BUFFER \<equiv> 4096"

text \<open>
  One turn of \<open>recv_thread_fn\<close>: the bytes \<open>recv\<close> returned, none when the connection is over.
\<close>

definition client_recv :: "byte list \<Rightarrow> byte list \<times> client \<Rightarrow> byte list \<times> client" where
  "client_recv bs sc =
    (let (stored, c) = sc in
     if \<not> g_running c then (stored, c)
     else if bs = [] then (stored, (push_msg (bytes_of ''Disconnected from server.'') c)\<lparr>g_running := False\<rparr>)
     else drain (stored @ bs) c)"

text \<open>
  \<open>do_connect\<close>, with the socket when creating it, reading the address and connecting all worked.
  The new thread sends the login first.
\<close>

definition do_connect :: "int option \<Rightarrow> byte list \<Rightarrow> client \<Rightarrow> bool \<times> client" where
  "do_connect answer name c =
    (case answer of
       None \<Rightarrow> (False, c\<lparr>g_sock := None\<rparr>)
     | Some sock \<Rightarrow>
         let c1 = c\<lparr>g_sock := Some sock, s_login_name := strncpy_s name (MAX_NAME_LEN - 1), g_running := True,
           g_threads := Suc (g_threads c)\<rparr>
         in (True, c_send_login (s_login_name c1) c1))"

section \<open>Events of the window\<close>

datatype key = K_Up | K_Down | K_Left | K_Right | K_A | K_D | K_S | K_Num nat | K_Q | K_M | K_T
  | K_Enter | K_Escape | K_Other

text \<open>\<open>Enter\<close> on the login form also gets what connecting would return.\<close>

datatype ui_event = Closed | TextEntered int | KeyPressed key "int option"

text \<open>\<open>(char)\<close> of a code point: its lowest byte. A signed byte at least 32 and below 127 is ASCII.\<close>

definition printable :: "byte \<Rightarrow> bool" where
  "printable b \<longleftrightarrow> 32 \<le> uint b \<and> uint b < 127"

definition type_into :: "nat \<Rightarrow> byte \<Rightarrow> byte list \<Rightarrow> byte list" where
  "type_into limit ch field =
    (if ch = 8 then (if field \<noteq> [] then butlast field else field)
     else if printable ch \<and> length field < limit then field @ [ch] else field)"

text \<open>\<open>steady_clock\<close> durations in milliseconds, cast to \<open>int\<close>.\<close>

definition elapsed_ms :: "int \<Rightarrow> int \<Rightarrow> int" where
  "elapsed_ms now start = s32 (cdiv (now - start) 1000000)"

definition login_event :: "ui_event \<Rightarrow> client \<Rightarrow> client" where
  "login_event ev c =
    (case ev of
       TextEntered u \<Rightarrow>
         let ch = word_of_int u in
         if ch = 9 then c\<lparr>g_focus := 1 - g_focus c\<rparr>
         else if g_focus c = 0 then c\<lparr>g_input_ip := type_into (MAX_NAME_LEN - 1) ch (g_input_ip c)\<rparr>
         else c\<lparr>g_input_name := type_into (MAX_NAME_LEN - 1) ch (g_input_name c)\<rparr>
     | KeyPressed K_Enter answer \<Rightarrow>
         if g_input_name c = [] then c
         else (case do_connect answer (g_input_name c) c of
             (True, c1) \<Rightarrow> c1
           | (False, c1) \<Rightarrow> push_msg (bytes_of ''Connection failed.'') c1)
     | _ \<Rightarrow> c)"

definition chat_event :: "ui_event \<Rightarrow> client \<Rightarrow> client" where
  "chat_event ev c =
    (case ev of
       TextEntered u \<Rightarrow> c\<lparr>g_chat_input := type_into (MAX_CHAT_LEN - 1) (word_of_int u) (g_chat_input c)\<rparr>
     | KeyPressed K_Enter _ \<Rightarrow> (c_send_chat (g_chat_input c) c)\<lparr>g_chat_input := [], g_chat_mode := False\<rparr>
     | KeyPressed K_Escape _ \<Rightarrow> c\<lparr>g_chat_input := [], g_chat_mode := False\<rparr>
     | _ \<Rightarrow> c)"

definition press_move :: "direction \<Rightarrow> client \<Rightarrow> client" where
  "press_move d c =
    (let c1 = c_send_move d (c\<lparr>g_my_dir := d\<rparr>) in c1\<lparr>g_move_time := s32 (g_move_time c1 + 500)\<rparr>)"

definition press_item :: "nat \<Rightarrow> item_type \<Rightarrow> client \<Rightarrow> client" where
  "press_item slot t c = (if g_inventory c ! slot > 0 then c_send_use_item t c else c)"

definition game_event :: "ui_event \<Rightarrow> client \<Rightarrow> client" where
  "game_event ev c =
    (case ev of
       KeyPressed k _ \<Rightarrow>
         (case k of
            K_Up \<Rightarrow> press_move UP c
          | K_Down \<Rightarrow> press_move DOWN c
          | K_Left \<Rightarrow> press_move LEFT c
          | K_Right \<Rightarrow> press_move RIGHT c
          | K_A \<Rightarrow> let (now, c1) = steady_now (c_send_attack c) in c1\<lparr>g_effect := (EFF_ATTACK, now)\<rparr>
          | K_D \<Rightarrow>
              let (now, c1) = steady_now c in
              if elapsed_ms now (g_last_ranged_time c1) \<ge> RANGED_CD_MS
              then c_send_ranged_attack (c1\<lparr>g_last_ranged_time := now\<rparr>) else c1
          | K_S \<Rightarrow>
              let (now, c1) = steady_now c in
              if elapsed_ms now (g_last_skill_time c1) \<ge> SKILL_CD_MS
              then (c_send_skill c1)\<lparr>g_last_skill_time := now, g_effect := (EFF_SKILL, now)\<rparr> else c1
          | K_Num n \<Rightarrow>
              if n = 1 then press_item 0 ITEM_HP_POTION c
              else if n = 2 then press_item 1 ITEM_HI_POTION c
              else if n = 3 then press_item 2 ITEM_ELIXIR c
              else if n = 4 then press_item 3 ITEM_ATK_BOOST c
              else if n = 5 then press_item 4 ITEM_DEF_BOOST c
              else if n = 6 then press_item 5 ITEM_SPD_BOOST c
              else c
          | K_Q \<Rightarrow> c\<lparr>g_quest_panel_open := \<not> g_quest_panel_open c\<rparr>
          | K_M \<Rightarrow> c\<lparr>g_map_open := \<not> g_map_open c\<rparr>
          | K_T \<Rightarrow> c\<lparr>g_chat_mode := True, g_chat_input := []\<rparr>
          | _ \<Rightarrow> c)
     | _ \<Rightarrow> c)"

definition on_event :: "ui_event \<Rightarrow> client \<Rightarrow> client" where
  "on_event ev c =
    (if ev = Closed then c\<lparr>g_running := False\<rparr>
     else if g_state c = LOGIN then login_event ev c
     else if g_chat_mode c then chat_event ev c
     else game_event ev c)"

section \<open>Drawing decisions\<close>

text \<open>
  The three tiles the flash of a normal attack covers, as offsets. A direction without a name
  leaves the array at zeros.
\<close>

definition arc_tiles :: "direction \<Rightarrow> (int \<times> int) list" where
  "arc_tiles dir =
    (case dir of
       UP \<Rightarrow> [(-1, -1), (0, -1), (1, -1)]
     | DOWN \<Rightarrow> [(-1, 1), (0, 1), (1, 1)]
     | LEFT \<Rightarrow> [(-1, -1), (-1, 0), (-1, 1)]
     | RIGHT \<Rightarrow> [(1, -1), (1, 0), (1, 1)]
     | DIR_RAW _ \<Rightarrow> [(0, 0), (0, 0), (0, 0)])"

text \<open>
  Which obstacles and items of the map are drawn. The view is
  15 tiles wide around the middle of the player's tile; the float comparisons of the source are
  exact on these numbers and doubled here.
\<close>

abbreviation (input) VSIZE :: int where "VSIZE \<equiv> 15"

definition item_drawn :: "client \<Rightarrow> iteminfo \<Rightarrow> bool" where
  "item_drawn c it =
    (let vx0 = 2 * g_my_x c - VSIZE; vy0 = 2 * g_my_y c - VSIZE; vx1 = vx0 + 2 * VSIZE; vy1 = vy0 + 2 * VSIZE in
     \<not> (2 * i_x it < vx0 \<or> 2 * i_x it > vx1 \<or> 2 * i_y it < vy0 \<or> 2 * i_y it > vy1))"

definition obstacle_drawn :: "client \<Rightarrow> int \<Rightarrow> int \<Rightarrow> int \<Rightarrow> int \<Rightarrow> bool" where
  "obstacle_drawn c x y w h =
    (let vx0 = 2 * g_my_x c - VSIZE; vy0 = 2 * g_my_y c - VSIZE; vx1 = vx0 + 2 * VSIZE; vy1 = vy0 + 2 * VSIZE in
     \<not> (2 * (x + w) < vx0 \<or> 2 * x > vx1) \<and> \<not> (2 * (y + h) < vy0 \<or> 2 * y > vy1))"

section \<open>Texts of the display\<close>

text \<open>\<open>sprintf_s\<close> into \<open>char[n]\<close>: a text that does not fit ends the program.\<close>

definition c_sprintf_s :: "nat \<Rightarrow> byte list \<Rightarrow> byte list option" where
  "c_sprintf_s n text = (if length text < n then Some text else None)"

definition pad4 :: "byte list \<Rightarrow> byte list" where
  "pad4 s = s @ replicate (4 - length s) 32"

definition slot_label :: "nat \<Rightarrow> byte list" where
  "slot_label s = [bytes_of ''HP'', bytes_of ''Hi'', bytes_of ''Elx'', bytes_of ''ATK'', bytes_of ''DEF'', bytes_of ''SPD''] ! s"

definition slot_text :: "nat \<Rightarrow> byte list option" where
  "slot_text s = c_sprintf_s 12 (bytes_of ''['' @ dec_int (int s + 1) @ bytes_of '']'' @ slot_label s)"

definition count_text :: "int \<Rightarrow> byte list option" where
  "count_text cnt = c_sprintf_s 8 (bytes_of ''x'' @ dec_int cnt)"

definition quest_text :: "quest_client \<Rightarrow> byte list option" where
  "quest_text q = c_sprintf_s 16 (dec_int (q_current q) @ bytes_of ''/'' @ dec_int (q_target q))"

definition hp_text :: "client \<Rightarrow> byte list option" where
  "hp_text c = c_sprintf_s 32 (bytes_of ''HP '' @ dec_int (g_my_hp c) @ bytes_of ''/'' @ dec_int (g_my_max_hp c))"

definition exp_text :: "client \<Rightarrow> byte list option" where
  "exp_text c = c_sprintf_s 48 (bytes_of ''Lv.'' @ dec_int (g_my_level c) @ bytes_of ''  XP '' @ dec_int (g_my_xp c)
     @ bytes_of ''/'' @ dec_int (g_my_exp_next c))"

definition hint_text :: "client \<Rightarrow> byte list option" where
  "hint_text c =
    (let dir_str = (case g_my_dir c of UP \<Rightarrow> ''Up'' | DOWN \<Rightarrow> ''Dn'' | LEFT \<Rightarrow> ''Lt'' | _ \<Rightarrow> ''Rt'')
     in c_sprintf_s 128 (bytes_of ''ID:'' @ pad4 (dec_int (g_my_id c)) @ bytes_of '' X:'' @ pad4 (dec_int (g_my_x c))
       @ bytes_of '' Y:'' @ pad4 (dec_int (g_my_y c)) @ bytes_of '' Dir:'' @ bytes_of dir_str
       @ bytes_of ''  [Arrow]Move [A]Atk [D]Ranged [S]Skill [Q]Quest [M]Map [T]Chat''))"

end
