(* ===== verification/Screen.thy ===== *)
theory Screen
  imports Complex_Main Client ObstacleMap "HOL-Library.Log_Nat" "HOL-Library.Sublist" "HOL-Library.Monad_Syntax"
begin

text \<open>
  What a frame of the client shows: \<open>draw_login\<close> and \<open>draw_game\<close> of \<open>CLIENT/client/client.cpp\<close> with
  the functions they use, as the list of the shapes given to the window, each with its place, its
  measures and its colours, and the state afterwards (a frame ends effects whose time is over). What
  SFML answers - whether the textures loaded, how wide a text is, the pixel of a point - is the
  argument \<open>gfx\<close>. Places and measures are exact here; the source rounds them to single precision.
  A colour or a text computed from such a number is rounded as the source does, by \<open>fl\<close>. A
  comparison that decides something compares the quotient of two integers below 2^15 with a constant
  of at most two decimals, and both are far enough apart for the rounded quotient to compare as the
  exact one does. No packet is handled in the middle of a frame here.
\<close>

section \<open>Single precision\<close>

text \<open>The nearest number of 24 binary digits, the even one of two; \<open>%.1f\<close> of such a number.\<close>

definition round_even :: "rat \<Rightarrow> int" where
  "round_even x = (let k = \<lfloor>x\<rfloor>; f = x - of_int k in if f < 1 / 2 \<or> f = 1 / 2 \<and> even k then k else k + 1)"

definition exponent2 :: "rat \<Rightarrow> int" where
  "exponent2 x = (let (n, d) = quotient_of x; k = bitlen n - bitlen d in if x < 2 powi k then k - 1 else k)"

definition fl :: "rat \<Rightarrow> rat" where
  "fl x = (if x = 0 then 0 else let u = 2 powi (exponent2 \<bar>x\<bar> - 23) in of_int (round_even (x / u)) * u)"

definition one_decimal :: "rat \<Rightarrow> byte list" where
  "one_decimal x = (let k = round_even (10 * x) in dec_int (k div 10) @ bytes_of ''.'' @ dec_int (k mod 10))"

section \<open>Shapes\<close>

type_synonym colour = "int \<times> int \<times> int \<times> int"

definition rgb :: "int \<Rightarrow> int \<Rightarrow> int \<Rightarrow> colour" where
  "rgb r g b = (r, g, b, 255)"

abbreviation (input) WHITE :: colour where "WHITE \<equiv> rgb 255 255 255"
abbreviation (input) TRANSPARENT :: colour where "TRANSPARENT \<equiv> (0, 0, 0, 0)"

datatype texture = TEX_FLOOR | TEX_WALL | TEX_CASTLE_WALL | TEX_PILLAR | TEX_PLAYER_ME | TEX_PLAYER_OTHER
  | TEX_NPC_PEACE | TEX_NPC_AGRO | TEX_NPC_BOSS | TEX_NPC_BOSS_P3 | TEX_ITEM_POTION

text \<open>
  A rectangle, a circle as a polygon of so many corners, a sprite with its scale, a text with the
  height of its letters, bold or not.
\<close>

datatype shape = Box rat rat | Disc rat nat | Sprite texture rat | Words "byte list" nat bool

record drawn =
  d_shape :: shape
  d_at :: "rat \<times> rat"
  d_fill :: colour
  d_line :: "(colour \<times> rat) option"
  d_origin :: "rat \<times> rat"
  d_turn :: rat
  d_skin :: "(texture \<times> int \<times> int) option"

definition shape_at :: "shape \<Rightarrow> rat \<Rightarrow> rat \<Rightarrow> colour \<Rightarrow> drawn" where
  "shape_at sh x y fill = \<lparr> d_shape = sh, d_at = (x, y), d_fill = fill, d_line = None, d_origin = (0, 0),
     d_turn = 0, d_skin = None \<rparr>"

definition outlined :: "colour \<Rightarrow> rat \<Rightarrow> drawn \<Rightarrow> drawn" where
  "outlined col thick d = d\<lparr>d_line := Some (col, thick)\<rparr>"

record gfx =
  tex_ok :: bool
  text_width :: "byte list \<Rightarrow> nat \<Rightarrow> bool \<Rightarrow> rat"
  to_pixel :: "rat \<times> rat \<times> rat \<times> rat \<Rightarrow> rat \<times> rat \<Rightarrow> int \<times> int"

abbreviation (input) WIN_W :: "'a::numeral" where "WIN_W \<equiv> 540"
abbreviation (input) UI_H :: "'a::numeral" where "UI_H \<equiv> 170"
abbreviation (input) WIN_H :: "'a::numeral" where "WIN_H \<equiv> 710"
abbreviation (input) MSG_LINE_H :: "'a::numeral" where "MSG_LINE_H \<equiv> 15"
abbreviation (input) SPR_S :: rat where "SPR_S \<equiv> 1 / 16"

text \<open>The share \<open>t\<close> of the colour \<open>k\<close>, cut to a whole number.\<close>

definition fade :: "rat \<Rightarrow> rat \<Rightarrow> int" where
  "fade k t = \<lfloor>fl (k * t)\<rfloor>"

definition draw_text_shadowed :: "byte list \<Rightarrow> nat \<Rightarrow> rat \<Rightarrow> rat \<Rightarrow> colour \<Rightarrow> drawn list" where
  "draw_text_shadowed s pt x y col =
    [shape_at (Words s pt False) (x + 1) (y + 1) (0, 0, 0, 180), shape_at (Words s pt False) x y col]"

text \<open>A bar: the whole in one colour, and the share \<open>ratio\<close> of it in another, if there is any.\<close>

definition bar :: "rat \<Rightarrow> rat \<Rightarrow> rat \<Rightarrow> rat \<Rightarrow> colour \<Rightarrow> rat \<Rightarrow> colour \<Rightarrow> drawn list" where
  "bar x y w h back ratio front =
    shape_at (Box w h) x y back # (if ratio > 0 then [shape_at (Box (w * ratio) h) x y front] else [])"

definition hp_colour :: "rat \<Rightarrow> colour" where
  "hp_colour ratio = (if ratio > 1 / 2 then rgb 0 200 50 else if ratio > 1 / 4 then rgb 220 180 0 else rgb 220 40 40)"

definition hp_ratio :: "int \<Rightarrow> int \<Rightarrow> rat" where
  "hp_ratio hp max_hp = (if max_hp > 0 then max 0 (of_int hp / of_int max_hp) else 0)"

definition draw_hp_bar :: "rat \<Rightarrow> rat \<Rightarrow> int \<Rightarrow> int \<Rightarrow> drawn list" where
  "draw_hp_bar wx wy hp max_hp =
    (if max_hp \<le> 0 then []
     else let ratio = hp_ratio hp max_hp in
       bar (wx + 10 / 100) (wy - 18 / 100) (80 / 100) (8 / 100) (rgb 80 0 0) ratio (hp_colour ratio))"

section \<open>The login form\<close>

definition centred_text :: "gfx \<Rightarrow> byte list \<Rightarrow> nat \<Rightarrow> bool \<Rightarrow> rat \<Rightarrow> colour \<Rightarrow> drawn" where
  "centred_text g s pt bold y col = shape_at (Words s pt bold) (WIN_W / 2 - text_width g s pt bold / 2) y col"

definition draw_field :: "byte list \<Rightarrow> byte list \<Rightarrow> rat \<Rightarrow> bool \<Rightarrow> drawn list" where
  "draw_field label value y focused =
    [shape_at (Words label 15 False) 115 (y + 4) (rgb 150 150 160),
     outlined (if focused then rgb 100 140 255 else rgb 70 70 90) (3 / 2) (shape_at (Box 220 28) 225 y (rgb 35 35 50)),
     shape_at (Words (value @ (if focused then bytes_of ''|'' else [])) 15 False) 231 (y + 4) (rgb 220 220 230)]"

definition draw_login :: "gfx \<Rightarrow> client \<Rightarrow> drawn list" where
  "draw_login g c =
    [centred_text g (bytes_of ''SIMPLEST MMORPG'') 30 True 150 (rgb 180 200 255)]
    @ draw_field (bytes_of ''Server IP :'') (g_input_ip c) 240 (g_focus c = 0)
    @ draw_field (bytes_of ''Username  :'') (g_input_name c) 285 (g_focus c = 1)
    @ [centred_text g (bytes_of ''[Tab] switch field    [Enter] connect'') 13 False 340 (rgb 90 90 100)]
    @ map (\<lambda>(i, m). centred_text g m 13 False (390 + 18 * of_nat i) (rgb 210 90 90)) (enumerate 0 (g_msgs c))"

section \<open>The ground\<close>

definition game_view :: "client \<Rightarrow> rat \<times> rat \<times> rat \<times> rat" where
  "game_view c = (of_int (g_my_x c) - of_int VSIZE / 2, of_int (g_my_y c) - of_int VSIZE / 2, of_int VSIZE, of_int VSIZE)"

definition draw_floor :: "gfx \<Rightarrow> client \<Rightarrow> drawn list" where
  "draw_floor g c =
    (let fx0 = max 0 (g_my_x c - cdiv VSIZE 2 - 1); fy0 = max 0 (g_my_y c - cdiv VSIZE 2 - 1);
       fx1 = min WORLD_WIDTH (g_my_x c + cdiv VSIZE 2 + VSIZE); fy1 = min WORLD_HEIGHT (g_my_y c + cdiv VSIZE 2 + VSIZE);
       fw = fx1 - fx0; fh = fy1 - fy0
     in if fw > 0 \<and> fh > 0
        then [if tex_ok g
          then (shape_at (Box (of_int fw) (of_int fh)) (of_int fx0) (of_int fy0) WHITE)\<lparr>d_skin := Some (TEX_FLOOR, fw * 16, fh * 16)\<rparr>
          else shape_at (Box (of_int fw) (of_int fh)) (of_int fx0) (of_int fy0) (rgb 28 28 36)]
        else [])"

definition draw_tree :: "rat \<Rightarrow> rat \<Rightarrow> drawn list" where
  "draw_tree x y =
    [(outlined (rgb 18 65 18) (5 / 100) (shape_at (Disc (43 / 100) 6) (x + 50 / 100) (y + 36 / 100) (rgb 34 110 30)))
       \<lparr>d_origin := (43 / 100, 43 / 100)\<rparr>,
     (shape_at (Box (14 / 100) (22 / 100)) (x + 50 / 100) (y + 72 / 100) (rgb 110 68 22))\<lparr>d_origin := (7 / 100, 0)\<rparr>]"

definition draw_water :: "rat \<Rightarrow> rat \<Rightarrow> int \<Rightarrow> int \<Rightarrow> drawn list" where
  "draw_water x y w h =
    outlined (rgb 20 55 155) (6 / 100) (shape_at (Box (of_int w) (of_int h)) x y (30, 90, 200, 210))
    # map (\<lambda>row. shape_at (Box (of_int w * (55 / 100)) (7 / 100)) (x + of_int w * (22 / 100)) (y + of_int row + 32 / 100)
         (100, 170, 255, 90)) [0..h - 1]"

definition draw_wall :: "gfx \<Rightarrow> rat \<Rightarrow> rat \<Rightarrow> int \<Rightarrow> int \<Rightarrow> drawn list" where
  "draw_wall g x y w h =
    (let is_pillar = (w = 1 \<and> h = 1); is_rock = (\<not> is_pillar \<and> max w h \<le> 2);
       wall = shape_at (Box (of_int w) (of_int h)) x y in
     [if tex_ok g
      then (wall WHITE)\<lparr>d_skin := Some (if is_pillar then TEX_PILLAR else if is_rock then TEX_WALL else TEX_CASTLE_WALL, w * 16, h * 16)\<rparr>
      else outlined (rgb 50 40 30) (4 / 100) (wall (if is_rock then rgb 80 65 50 else rgb 90 85 110))])"

definition draw_obstacle :: "gfx \<Rightarrow> obstacle_rect \<Rightarrow> drawn list" where
  "draw_obstacle g r =
    (let x = of_int (ob_x r); y = of_int (ob_y r) in
     if ob_type r = 1 then draw_tree x y
     else if ob_type r = 2 then draw_water x y (ob_w r) (ob_h r)
     else draw_wall g x y (ob_w r) (ob_h r))"

definition draw_obstacles :: "gfx \<Rightarrow> obstacle_rect list \<Rightarrow> client \<Rightarrow> drawn list" where
  "draw_obstacles g obs c =
    concat (map (draw_obstacle g) (filter (\<lambda>r. obstacle_drawn c (ob_x r) (ob_y r) (ob_w r) (ob_h r)) obs))"

text \<open>Items: \<open>item_tints\<close> and the glow behind the bottle.\<close>

definition item_tint :: "int \<Rightarrow> int \<times> int \<times> int" where
  "item_tint ci =
    (let tints = [(255, 220, 30), (255, 80, 80), (255, 150, 40), (255, 220, 0), (80, 200, 255), (120, 255, 120), (100, 180, 255)]
     in if ci \<ge> 1 \<and> ci \<le> int ITEM_SLOT_COUNT then tints ! nat ci else tints ! 0)"

definition draw_item :: "gfx \<Rightarrow> iteminfo \<Rightarrow> drawn list" where
  "draw_item g it =
    (let (r, gr, b) = item_tint (i_item_type it); x = of_int (i_x it); y = of_int (i_y it) in
     if tex_ok g
     then [shape_at (Disc (45 / 100) 30) (x + 5 / 100) (y + 5 / 100) (r div 3, gr div 3, b div 3, 140),
       shape_at (Sprite TEX_ITEM_POTION SPR_S) x y (rgb r gr b)]
     else [outlined (rgb (r div 2) (gr div 2) (b div 2)) (6 / 100)
       (shape_at (Disc (24 / 100) 30) (x + 26 / 100) (y + 26 / 100) (rgb r gr b))])"

definition draw_items :: "gfx \<Rightarrow> iteminfo list \<Rightarrow> client \<Rightarrow> drawn list" where
  "draw_items g items c = concat (map (draw_item g) (filter (item_drawn c) items))"

section \<open>Characters\<close>

definition draw_dir_arrow :: "rat \<Rightarrow> rat \<Rightarrow> direction \<Rightarrow> colour \<Rightarrow> drawn" where
  "draw_dir_arrow wx wy dir col =
    (let ax = wx + 1 / 2; ay = wy + 1 / 2; sz = 16 / 100;
       (x, y) = (case dir of UP \<Rightarrow> (ax, ay - 55 / 100) | DOWN \<Rightarrow> (ax, ay + 55 / 100)
         | LEFT \<Rightarrow> (ax - 55 / 100, ay) | RIGHT \<Rightarrow> (ax + 55 / 100, ay) | DIR_RAW _ \<Rightarrow> (ax, ay))
     in (shape_at (Disc sz 3) x y col)\<lparr>d_origin := (sz, sz),
       d_turn := (if dir = UP then 0 else if dir = RIGHT then 90 else if dir = DOWN then 180 else 270)\<rparr>)"

definition draw_spr :: "texture \<Rightarrow> rat \<Rightarrow> rat \<Rightarrow> colour \<Rightarrow> drawn" where
  "draw_spr tex wx wy tint = shape_at (Sprite tex SPR_S) wx wy tint"

definition draw_rect :: "rat \<Rightarrow> rat \<Rightarrow> colour \<Rightarrow> drawn" where
  "draw_rect wx wy col = shape_at (Box (84 / 100) (84 / 100)) (wx + 8 / 100) (wy + 8 / 100) col"

text \<open>A character is its sprite, or a square of its own where the textures are missing.\<close>

definition draw_body :: "gfx \<Rightarrow> texture \<Rightarrow> colour \<Rightarrow> colour \<Rightarrow> rat \<Rightarrow> rat \<Rightarrow> drawn" where
  "draw_body g tex tint plain wx wy = (if tex_ok g then draw_spr tex wx wy tint else draw_rect wx wy plain)"

definition boss_tint :: "rat \<Rightarrow> int \<times> int \<times> int" where
  "boss_tint ratio =
    (if ratio > 66 / 100 then (255, 255, 180) else if ratio > 33 / 100 then (255, 160, 60) else (255, 80, 80))"

definition boss_tex :: "rat \<Rightarrow> texture" where
  "boss_tex ratio = (if ratio \<le> 33 / 100 then TEX_NPC_BOSS_P3 else TEX_NPC_BOSS)"

definition draw_boss :: "gfx \<Rightarrow> objinfo \<Rightarrow> drawn list" where
  "draw_boss g ob =
    (let wx = of_int (o_x ob); wy = of_int (o_y ob); ratio = hp_ratio (o_hp ob) (o_max_hp ob);
       (r, gr, b) = boss_tint ratio; glow_r = 12 / 10
     in outlined (r, gr, b, 200) (8 / 100)
          (shape_at (Disc glow_r 30) (wx + 1 / 2 - glow_r) (wy + 1 / 2 - glow_r) (r div 4, gr div 4, b div 4, 140))
        # (if tex_ok g
           then shape_at (Sprite (boss_tex ratio) (SPR_S * 2)) (wx - 1 / 2) (wy - 1 / 2) (rgb r gr b)
           else outlined (rgb 255 230 80) (10 / 100) (shape_at (Disc (9 / 10) 30) (wx - 4 / 10) (wy - 4 / 10) (rgb r gr b)))
        # bar (wx - 1 / 2 + 1 / 10) (wy - 1 / 2 - 18 / 100) (18 / 10) (10 / 100) (rgb 80 0 0) ratio (hp_colour ratio))"

abbreviation (input) IS_PC :: int where "IS_PC \<equiv> 0"
abbreviation (input) IS_AGRO :: int where "IS_AGRO \<equiv> 2"
abbreviation (input) IS_BOSS :: int where "IS_BOSS \<equiv> 3"
abbreviation (input) IS_CHASE :: int where "IS_CHASE \<equiv> 2"

definition draw_object :: "gfx \<Rightarrow> objinfo \<Rightarrow> drawn list" where
  "draw_object g ob =
    (let wx = of_int (o_x ob); wy = of_int (o_y ob); chase = (o_npc_state ob = IS_CHASE);
       hp = draw_hp_bar wx wy (o_hp ob) (o_max_hp ob)
     in if o_npc_type ob = IS_BOSS then draw_boss g ob
     else if o_npc_type ob = IS_PC
     then draw_body g TEX_PLAYER_OTHER WHITE (rgb 55 185 80) wx wy
       # draw_dir_arrow wx wy (o_dir ob) (100, 220, 100, 200) # hp
     else if o_npc_type ob = IS_AGRO
     then draw_body g TEX_NPC_AGRO (if chase then rgb 255 120 120 else WHITE)
         (if chase then rgb 255 40 40 else rgb 200 100 30) wx wy
       # draw_dir_arrow wx wy (o_dir ob) (255, 100, 100, 180) # hp
     else draw_body g TEX_NPC_PEACE WHITE (rgb 120 140 90) wx wy
       # draw_dir_arrow wx wy (o_dir ob) (140, 200, 120, 160) # hp)"

text \<open>The player's own character, with the ring around it.\<close>

definition draw_me :: "gfx \<Rightarrow> client \<Rightarrow> drawn list" where
  "draw_me g c =
    (let x = of_int (g_my_x c); y = of_int (g_my_y c) in
     outlined (100, 160, 255, 200) (6 / 100)
       (shape_at (Disc (52 / 100) 30) (x + 1 / 2 - 52 / 100) (y + 1 / 2 - 52 / 100) TRANSPARENT)
     # draw_body g TEX_PLAYER_ME WHITE (rgb 70 115 255) x y
     # draw_dir_arrow x y (g_my_dir c) (160, 200, 255, 220)
     # draw_hp_bar x y (g_my_hp c) (g_my_max_hp c))"

section \<open>Effects\<close>

text \<open>
  An effect fades over its time, which the clock measures; the first frame after it ends it.
\<close>

definition faded :: "int \<Rightarrow> int \<Rightarrow> rat" where
  "faded eff_ms dur = fl (1 - fl (of_int eff_ms / of_int dur))"

definition attack_flash :: "client \<Rightarrow> rat \<Rightarrow> drawn list" where
  "attack_flash c t =
    (let x = of_int (g_my_x c); y = of_int (g_my_y c); a = fade 255 t;
       is_horiz = (g_my_dir c = LEFT \<or> g_my_dir c = RIGHT)
     in map (\<lambda>(dx, dy). outlined (255, 120, 0, a) (5 / 100) (shape_at (Box (92 / 100) (92 / 100))
            (x + of_int dx + 4 / 100) (y + of_int dy + 4 / 100) (255, 220, 60, fade 160 t))) (arc_tiles (g_my_dir c))
        @ [(shape_at (if is_horiz then Box (10 / 100) (31 / 10) else Box (31 / 10) (10 / 100)) (x + 1 / 2) (y + 1 / 2)
             (255, 255, 220, a))\<lparr>d_origin := (if is_horiz then (5 / 100, 155 / 100) else (155 / 100, 5 / 100))\<rparr>])"

definition ring :: "client \<Rightarrow> rat \<Rightarrow> colour \<Rightarrow> rat \<Rightarrow> drawn" where
  "ring c r col thick = outlined col thick
     (shape_at (Disc r 30) (of_int (g_my_x c) + 1 / 2 - r) (of_int (g_my_y c) + 1 / 2 - r) TRANSPARENT)"

definition skill_flash :: "client \<Rightarrow> rat \<Rightarrow> rat \<Rightarrow> drawn list" where
  "skill_flash c t expand =
    (let x = of_int (g_my_x c); y = of_int (g_my_y c); a = fade 255 t in
     [shape_at (Box 3 3) (x - 1) (y - 1) (120, 30, 220, fade 80 t),
      ring c (4 / 10 + expand * (22 / 10)) (200, 80, 255, a) (12 / 100),
      ring c (2 / 10 + expand * (14 / 10)) (240, 160, 255, fade (of_int a) (fl (7 / 10))) (8 / 100),
      shape_at (Disc (3 / 10 * t) 30) (x + 1 / 2 - 3 / 10 * t) (y + 1 / 2 - 3 / 10 * t) (220, 160, 255, fade 200 t)])"

definition draw_effect :: "client \<Rightarrow> drawn list \<times> client" where
  "draw_effect c =
    (case g_effect c of
       (EFF_NONE, _) \<Rightarrow> ([], c)
     | (ty, start) \<Rightarrow>
         let (now, c1) = steady_now c; eff_ms = elapsed_ms now start; dur = (if ty = EFF_SKILL then 350 else 220) in
         if eff_ms < dur
         then (if ty = EFF_ATTACK then attack_flash c (faded eff_ms dur)
               else skill_flash c (faded eff_ms dur) (of_int eff_ms / of_int dur), c1)
         else ([], c1\<lparr>g_effect := (EFF_NONE, start)\<rparr>))"

definition beam :: "proj_effect \<Rightarrow> rat \<Rightarrow> drawn list" where
  "beam p t =
    (let ddx = (if pj_dir p = LEFT then -1 else if pj_dir p = RIGHT then 1 else 0);
       ddy = (if pj_dir p = UP then -1 else if pj_dir p = DOWN then 1 else 0);
       src_x = of_int (pj_sx p) + 1 / 2; src_y = of_int (pj_sy p) + 1 / 2; len = of_int (pj_range p);
       a = fade 255 t; line = outlined (200, 240, 255, fade (of_int a) (fl (6 / 10))) (5 / 100); r = 28 / 100 * t
     in [if ddx \<noteq> 0
         then line ((shape_at (Box len (18 / 100)) (if ddx > 0 then src_x else src_x + ddx * len) src_y
             (80, 180, 255, a))\<lparr>d_origin := (0, 9 / 100)\<rparr>)
         else line ((shape_at (Box (18 / 100) len) src_x (if ddy > 0 then src_y else src_y + ddy * len)
             (80, 180, 255, a))\<lparr>d_origin := (9 / 100, 0)\<rparr>),
         (shape_at (Disc r 30) (src_x + ddx * len) (src_y + ddy * len) (180, 230, 255, a))\<lparr>d_origin := (r, r)\<rparr>])"

definition draw_proj :: "client \<Rightarrow> drawn list \<times> client" where
  "draw_proj c =
    (let p = g_proj c in
     if pj_active p
     then let (now, c1) = steady_now c; eff_ms = elapsed_ms now (pj_start p) in
       if eff_ms < 300 then (beam p (faded eff_ms 300), c1) else ([], c1\<lparr>g_proj := p\<lparr>pj_active := False\<rparr>\<rparr>)
     else ([], c))"

section \<open>The inventory and the names\<close>

definition slot_col :: "nat \<Rightarrow> int \<times> int \<times> int" where
  "slot_col s = [(180, 50, 50), (200, 110, 30), (190, 160, 10), (30, 190, 190), (130, 40, 200), (40, 130, 230)] ! s"

definition draw_slot :: "gfx \<Rightarrow> client \<Rightarrow> nat \<Rightarrow> drawn list option" where
  "draw_slot g c s =
    (let row = s div 3; column = s mod 3; sx = 5 + of_nat column * 75; sy = 5 + of_nat row * 25;
       cnt = g_inventory c ! s; (r, gr, b) = slot_col s
     in do {
       label \<leftarrow> slot_text s;
       count \<leftarrow> count_text cnt;
       Some [outlined (140, 140, 170, 160) (8 / 10) (shape_at (Box 72 22) sx sy
           (if cnt > 0 then (r, gr, b, 200) else (r div 5, gr div 5, b div 5, 160))),
         shape_at (Words label 9 False) (sx + 2) (sy + 2) (if cnt > 0 then WHITE else rgb 110 110 110),
         shape_at (Words count 9 False) (sx + 72 - text_width g count 9 False - 3) (sy + 11)
           (if cnt > 0 then rgb 255 240 80 else rgb 70 70 70)]
     })"

definition draw_inventory :: "gfx \<Rightarrow> client \<Rightarrow> drawn list option" where
  "draw_inventory g c = do {
     slots \<leftarrow> those (map (draw_slot g c) [0..<ITEM_SLOT_COUNT]);
     Some (shape_at (Box 226 51) 3 3 (8, 8, 20, 180) # concat slots)
   }"

definition label_colour :: "objinfo \<Rightarrow> colour" where
  "label_colour ob =
    (if o_npc_type ob = IS_BOSS then rgb 255 215 0
     else if o_npc_type ob = IS_PC then rgb 140 230 140
     else if o_npc_state ob = IS_CHASE then rgb 255 80 80
     else if o_npc_type ob = IS_AGRO then rgb 240 170 80
     else rgb 180 200 140)"

definition draw_name :: "gfx \<Rightarrow> client \<Rightarrow> int \<Rightarrow> int \<Rightarrow> byte list \<Rightarrow> colour \<Rightarrow> drawn list" where
  "draw_name g c x y name col =
    (let (px, py) = to_pixel g (game_view c) (of_int x + 1 / 2, of_int y + 1 / 2) in
     draw_text_shadowed name 11 (of_int px - text_width g name 11 False / 2) (of_int py - 14) col)"

text \<open>The name of an object is written when the middle of its tile is in the view.\<close>

definition draw_label :: "gfx \<Rightarrow> client \<Rightarrow> objinfo \<Rightarrow> drawn list" where
  "draw_label g c ob =
    (let (px, py) = to_pixel g (game_view c) (of_int (o_x ob) + 1 / 2, of_int (o_y ob) + 1 / 2) in
     if px < 0 \<or> px > WIN_W \<or> py < 0 \<or> py > WIN_H - UI_H then []
     else draw_name g c (o_x ob) (o_y ob) (o_name ob) (label_colour ob))"

section \<open>The quests\<close>

definition quest_name :: "nat \<Rightarrow> byte list" where
  "quest_name qi = [bytes_of ''Agro Slayer'', bytes_of ''Boss Hunter''] ! qi"

definition quest_desc :: "nat \<Rightarrow> byte list" where
  "quest_desc qi =
    [sprintf [Lit ''Agro NPC'', Han [47484], Lit '' '', Han [52376, 52824, 54616, 46972]],
     sprintf [Han [48372, 49828], Lit '' '', Han [47788, 49828, 53552, 47484], Lit '' '', Han [52376, 52824, 54616, 46972]]] ! qi"

definition quest_reward :: "nat \<Rightarrow> byte list" where
  "quest_reward qi =
    [sprintf [Han [48372, 49345], Lit '': 500XP + '', Han [44277, 44201, 47141], Lit '' '', Han [44053, 54868], Lit ''[4]''],
     sprintf [Han [48372, 49345], Lit '': 3000XP + '', Han [48169, 50612, 47141], Lit '' '', Han [44053, 54868], Lit ''[5]'']] ! qi"

definition quest_ratio :: "quest_client \<Rightarrow> rat" where
  "quest_ratio q = (if q_target q > 0 then min 1 (of_int (q_current q) / of_int (q_target q)) else 0)"

definition quest_colour :: "nat \<Rightarrow> colour" where
  "quest_colour qi = [rgb 240 170 60, rgb 255 215 0] ! qi"

definition quest_bar :: "rat \<Rightarrow> rat \<Rightarrow> rat \<Rightarrow> rat \<Rightarrow> nat \<Rightarrow> quest_client \<Rightarrow> drawn list" where
  "quest_bar x y w h qi q =
    bar x y w h (rgb 25 25 45) (quest_ratio q) (if quest_ratio q \<ge> 1 then rgb 60 220 60 else quest_colour qi)"

definition tracker_row :: "gfx \<Rightarrow> client \<Rightarrow> nat \<Rightarrow> drawn list option" where
  "tracker_row g c qi =
    (let q = g_quests c ! qi; row_y = 24 + of_nat qi * 40 in do {
       count \<leftarrow> quest_text q;
       Some (shape_at (Words (quest_name qi) 10 False) 387 row_y (quest_colour qi)
         # quest_bar 387 (row_y + 13) 142 9 qi q
         @ [shape_at (Words count 9 False) (529 - text_width g count 9 False) (row_y + 13) (rgb 190 190 190)])
     })"

definition draw_tracker :: "gfx \<Rightarrow> client \<Rightarrow> drawn list option" where
  "draw_tracker g c = do {
     rows \<leftarrow> those (map (tracker_row g c) [0..<2]);
     Some (outlined (rgb 70 70 110) 1 (shape_at (Box 152 98) 382 6 (8, 8, 20, 210))
       # shape_at (Words (bytes_of ''[Q] Quest Tracker'') 10 True) 387 9 (rgb 160 160 210)
       # concat rows)
   }"

definition panel_row :: "client \<Rightarrow> nat \<Rightarrow> drawn list option" where
  "panel_row c qi =
    (let q = g_quests c ! qi; py = 60 + of_nat qi * 62 in do {
       count \<leftarrow> c_sprintf_s 128 (dec_int (q_current q) @ bytes_of '' / '' @ dec_int (q_target q) @ bytes_of ''  '');
       Some (shape_at (Words (quest_name qi) 12 True) 160 py (quest_colour qi)
         # shape_at (Words (quest_desc qi) 10 False) 160 (py + 14) (rgb 160 165 180)
         # quest_bar 160 (py + 28) 220 10 qi q
         @ shape_at (Words (count @ quest_reward qi) 10 False) 160 (py + 41) (rgb 180 185 200)
         # (if qi < 1 then [shape_at (Box 224 1) 158 (py + 60) (rgb 50 50 80)] else []))
     })"

definition draw_panel :: "client \<Rightarrow> drawn list option" where
  "draw_panel c =
    (if g_quest_panel_open c
     then do {
       rows \<leftarrow> those (map (panel_row c) [0..<2]);
       Some (outlined (rgb 100 100 160) (3 / 2) (shape_at (Box 240 162) 150 30 (8, 8, 22, 230))
         # shape_at (Words (bytes_of ''  Quest Log'') 13 True) 158 36 (rgb 200 210 255)
         # shape_at (Box 224 1) 158 54 (rgb 70 70 110)
         # concat rows)
     }
     else Some [])"

section \<open>The panel below\<close>

definition exp_ratio :: "client \<Rightarrow> rat" where
  "exp_ratio c = (if g_my_exp_next c > 0 then min 1 (of_int (g_my_xp c) / of_int (g_my_exp_next c)) else 0)"

definition draw_hp_panel :: "client \<Rightarrow> drawn list option" where
  "draw_hp_panel c =
    (let ratio = hp_ratio (g_my_hp c) (g_my_max_hp c) in do {
       text \<leftarrow> hp_text c;
       Some (bar 10 545 160 11 (rgb 80 0 0) ratio (hp_colour ratio)
         @ [shape_at (Words text 11 False) 12 544 (rgb 210 215 225)])
     })"

definition draw_exp_panel :: "client \<Rightarrow> drawn list option" where
  "draw_exp_panel c = do {
     text \<leftarrow> exp_text c;
     Some (bar 180 545 150 11 (rgb 20 20 60) (exp_ratio c) (rgb 80 120 240)
       @ [shape_at (Words text 11 False) 182 544 (rgb 180 190 255)])
   }"

definition draw_hint :: "client \<Rightarrow> drawn list option" where
  "draw_hint c = do { text \<leftarrow> hint_text c; Some [shape_at (Words text 11 False) 10 560 (rgb 100 105 130)] }"

definition skill_text :: "int \<Rightarrow> byte list option" where
  "skill_text elapsed =
    c_sprintf_s 32 (if elapsed \<ge> SKILL_CD_MS then bytes_of ''Skill READY''
      else bytes_of ''Skill '' @ one_decimal (fl (fl (of_int (SKILL_CD_MS - elapsed)) / 1000)) @ bytes_of ''s'')"

definition draw_skill :: "client \<Rightarrow> drawn list option \<times> client" where
  "draw_skill c =
    (let (now, c1) = steady_now c; elapsed = elapsed_ms now (g_last_skill_time c);
       ratio = min 1 (of_int elapsed / of_int SKILL_CD_MS)
     in (do {
          text \<leftarrow> skill_text elapsed;
          Some (bar 346 545 186 11 (rgb 30 20 50) ratio (if ratio \<ge> 1 then rgb 120 60 220 else rgb 70 40 130)
            @ [shape_at (Words text 11 False) 348 544 (if ratio \<ge> 1 then rgb 200 160 255 else rgb 120 100 160)])
        }, c1))"

definition msg_colour :: "byte list \<Rightarrow> colour" where
  "msg_colour m =
    (if m \<noteq> [] \<and> hd m = 91 then rgb 210 210 255
     else if sublist (bytes_of ''hit'') m then rgb 255 165 60
     else rgb 100 195 100)"

text \<open>The log from the top, as far as there is room above the chat box.\<close>

primrec draw_log :: "rat \<Rightarrow> byte list list \<Rightarrow> drawn list" where
  "draw_log my [] = []"
| "draw_log my (m # rest) =
    (if my + MSG_LINE_H > 676 then []
     else shape_at (Words m 12 False) 10 my (msg_colour m) # draw_log (my + MSG_LINE_H) rest)"

definition draw_chat_box :: "client \<Rightarrow> drawn list" where
  "draw_chat_box c =
    [outlined (if g_chat_mode c then rgb 100 140 255 else rgb 50 50 70) 1 (shape_at (Box 520 22) 10 680 (rgb 22 22 38)),
     shape_at (Words (if g_chat_mode c then bytes_of ''>'' @ g_chat_input c @ bytes_of ''|''
         else sprintf [Lit ''[T] '', Han [52292, 54021], Lit '' '', Han [51077, 47141]]) 12 False) 14 684
       (if g_chat_mode c then rgb 220 220 245 else rgb 70 70 90)]"

section \<open>The world map\<close>

abbreviation (input) MM_S :: rat where "MM_S \<equiv> 504 / 2000"

definition obs_color :: "obstacle_rect \<Rightarrow> colour" where
  "obs_color r =
    (if ob_type r = 1 then (34, 130, 34, 220)
     else if ob_type r = 2 then (40, 100, 210, 220)
     else if ob_w r = 1 \<and> ob_h r = 1 then (255, 200, 60, 240)
     else let md = max (ob_w r) (ob_h r) in
       if md \<le> 2 then (190, 140, 80, 230)
       else if md \<le> 40 then (80, 100, 190, 200)
       else if md \<le> 200 then (50, 210, 240, 255)
       else (220, 50, 50, 255))"

definition map_obstacle :: "obstacle_rect \<Rightarrow> drawn" where
  "map_obstacle r =
    shape_at (Box (max (3 / 2) (of_int (ob_w r) * MM_S)) (max (3 / 2) (of_int (ob_h r) * MM_S)))
      (18 + of_int (ob_x r) * MM_S) (18 + of_int (ob_y r) * MM_S) (obs_color r)"

definition map_dot :: "int \<Rightarrow> int \<Rightarrow> rat \<Rightarrow> colour \<Rightarrow> drawn" where
  "map_dot x y r col = shape_at (Disc r 30) (18 + of_int x * MM_S - r) (18 + of_int y * MM_S - r) col"

text \<open>Players and bosses are marked, other NPCs are not.\<close>

definition map_object :: "objinfo \<Rightarrow> drawn list" where
  "map_object ob =
    (if o_npc_type ob = IS_PC then [map_dot (o_x ob) (o_y ob) (7 / 2) (rgb 80 220 80)]
     else if o_npc_type ob = IS_BOSS then [map_dot (o_x ob) (o_y ob) 5 (rgb 255 215 0)]
     else [])"

definition legends :: "(colour \<times> byte list \<times> bool) list" where
  "legends =
    [((220, 50, 50, 255), bytes_of ''Border'', False), ((50, 210, 240, 255), bytes_of ''Zone Wall'', False),
     ((80, 100, 190, 200), bytes_of ''Castle'', False), ((190, 140, 80, 230), bytes_of ''Rock'', False),
     ((255, 200, 60, 240), bytes_of ''Pillar'', False), (rgb 80 140 255, bytes_of ''You'', True),
     (rgb 80 220 80, bytes_of ''Player'', True), (rgb 255 215 0, bytes_of ''Boss'', True)]"

primrec draw_legend :: "gfx \<Rightarrow> rat \<Rightarrow> (colour \<times> byte list \<times> bool) list \<Rightarrow> drawn list" where
  "draw_legend g lx [] = []"
| "draw_legend g lx (l # ls) =
    (let (col, label, circle) = l in
     shape_at (if circle then Disc 4 30 else Box 8 8) lx 526 col
     # shape_at (Words label 10 False) (lx + 10) 525 (rgb 200 205 220)
     # draw_legend g (lx + 12 + text_width g label 10 False + 6) ls)"

definition draw_map :: "gfx \<Rightarrow> obstacle_rect list \<Rightarrow> objinfo list \<Rightarrow> client \<Rightarrow> drawn list" where
  "draw_map g obs snaps c =
    (if g_map_open c
     then shape_at (Box WIN_W (WIN_H - UI_H)) 0 0 (0, 0, 0, 210)
       # outlined (rgb 90 90 140) (3 / 2) (shape_at (Box 506 506) 17 17 (rgb 10 10 18))
       # map map_obstacle obs @ concat (map map_object snaps)
       @ [outlined WHITE (3 / 2) (map_dot (g_my_x c) (g_my_y c) 5 (rgb 80 140 255)),
          shape_at (Words (bytes_of ''  World Map   [M] to close'') 11 False) 18 3 (rgb 170 175 220)]
       @ draw_legend g 18 legends
     else [])"

section \<open>A frame\<close>

text \<open>
  The loops that copy a hash map: its values in the order \<open>ids\<close> in which it lists its keys, which
  the library does not fix.
\<close>

definition snapshot :: "int list \<Rightarrow> (int \<rightharpoonup> 'a) \<Rightarrow> 'a list" where
  "snapshot ids m = map (\<lambda>i. the (m i)) (filter (\<lambda>i. m i \<noteq> None) ids)"

text \<open>
  \<open>oids\<close> and \<open>iids\<close> are the orders of the objects and the items. \<open>None\<close> is a text that does
  not fit its array, which ends the program.
\<close>

definition draw_game ::
  "gfx \<Rightarrow> obstacle_rect list \<Rightarrow> int list \<Rightarrow> int list \<Rightarrow> client \<Rightarrow> (drawn list \<times> client) option" where
  "draw_game g obs oids iids c =
    (let snaps = snapshot oids (g_objs c); items = snapshot iids (g_world_items_cl c);
       (effect, c1) = draw_effect c; (proj, c2) = draw_proj c1 in do {
       inventory \<leftarrow> draw_inventory g c2;
       tracker \<leftarrow> draw_tracker g c2;
       panel \<leftarrow> draw_panel c2;
       hp \<leftarrow> draw_hp_panel c2;
       xp \<leftarrow> draw_exp_panel c2;
       hint \<leftarrow> draw_hint c2;
       let (skill, c3) = draw_skill c2;
       skill \<leftarrow> skill;
       Some (draw_floor g c @ draw_obstacles g obs c @ draw_items g items c
         @ concat (map (draw_object g) snaps) @ draw_me g c @ effect @ proj
         @ inventory @ concat (map (draw_label g c2) snaps) @ tracker @ panel
         @ draw_name g c2 (g_my_x c2) (g_my_y c2) (s_login_name c2) (rgb 180 200 255)
         @ [shape_at (Box WIN_W UI_H) 0 540 (rgb 12 12 22), shape_at (Box WIN_W 1) 0 540 (rgb 60 60 90)]
         @ hp @ xp @ hint @ skill @ draw_log 574 (g_msgs c3) @ draw_chat_box c3 @ draw_map g obs (snapshot oids (g_objs c3)) c3, c3)
     })"

definition draw_frame ::
  "gfx \<Rightarrow> obstacle_rect list \<Rightarrow> int list \<Rightarrow> int list \<Rightarrow> client \<Rightarrow> (drawn list \<times> client) option" where
  "draw_frame g obs oids iids c =
    (if g_state c = LOGIN then Some (draw_login g c, c) else draw_game g obs oids iids c)"

end
