(* ===== verification/Boot.thy ===== *)
theory Boot
  imports ServerSafe Screen
begin

text \<open>
  The start of the server: \<open>init_lua\<close> of \<open>SERVER/lua_manager.cpp\<close>, \<open>main\<close> of
  \<open>SERVER/GameServer.cpp\<close> up to the threads, and the connection of the database thread in
  \<open>SERVER/db.cpp\<close>. What the script defines is an argument: \<open>None\<close> when it does not run, otherwise
  the tables \<open>obstacles\<close> and \<open>npc_groups\<close>.
\<close>

section \<open>Starting\<close>

type_synonym lua_tables = "lua_obstacle option list option \<times> lua_group option list option"

text \<open>Without a script the map stays the empty vector it was.\<close>

definition init_lua :: "lua_tables option \<Rightarrow> (obstacle_rect list \<times> npc_spawn_group list) \<times> obstacle_map option" where
  "init_lua script =
    (case script of
       None \<Rightarrow> (([], []), None)
     | Some (obstacles, npc_groups) \<Rightarrow>
         let (rects, m) = load_obstacles obstacles in ((rects, load_npc_groups npc_groups), Some m))"

text \<open>
  What \<open>main\<close> does before it starts the threads: it goes on whether or not the script ran. The
  file is written if it can be opened. Placing the first NPC looks at the map; where that is
  empty, this is an access outside of it and there is no state (\<open>None\<close>).
\<close>

definition boot :: "bool \<Rightarrow> lua_tables option \<Rightarrow> (nat \<Rightarrow> int) \<Rightarrow> (nat \<Rightarrow> int) \<Rightarrow> (nat \<Rightarrow> bool) \<Rightarrow> byte list option \<times> world option" where
  "boot file_opens script clk rnd ack =
    (let ((rects, groups), m) = init_lua script in
     (if file_opens then Some (write_obstacle_bin rects) else None,
      case m of None \<Rightarrow> None | Some m \<Rightarrow> InitializeNPC groups (init_world (is_obstacle m) clk rnd ack)))"

definition worker_count :: "nat \<Rightarrow> nat" where
  "worker_count hw_threads = (if hw_threads > 1 then hw_threads - 1 else 1)"

text \<open>\<open>SQL_SUCCESS\<close> and \<open>SQL_SUCCESS_WITH_INFO\<close>; the results of the three calls that can fail.\<close>

definition sql_ok :: "int \<Rightarrow> bool" where
  "sql_ok r \<longleftrightarrow> r = 0 \<or> r = 1"

definition connect_db :: "int \<Rightarrow> int \<Rightarrow> int \<Rightarrow> bool" where
  "connect_db env dbc con = (if \<not> sql_ok env then False else if \<not> sql_ok dbc then False else sql_ok con)"

section \<open>The map\<close>

lemma boss_tile_obstacle: "boss_tile k i x y w = (p, w') \<Longrightarrow> w_obstacle w' = w_obstacle w"
  by (induction k i x y w rule: boss_tile.induct) (auto simp: rand_next_def Let_def split: if_splits)

lemma group_tile_obstacle: "group_tile k g w = (p, w') \<Longrightarrow> w_obstacle w' = w_obstacle w"
proof (induction k arbitrary: w)
  case 0
  then show ?case by (auto simp: group_draw_def rand_next_def Let_def)
next
  case (Suc k)
  obtain q w1 where q: "group_draw g w = (q, w1)" by (cases "group_draw g w")
  then have "w_obstacle w1 = w_obstacle w" by (auto simp: group_draw_def rand_next_def Let_def)
  then show ?case using Suc q by (cases q) (auto simp: Let_def split: if_splits)
qed

lemma place_npc_obstacle [simp]: "w_obstacle (place_npc c w) = w_obstacle w"
  by (simp add: place_npc_def)

lemma spawn_boss_obstacle: "spawn_boss i tot w = Some w' \<Longrightarrow> w_obstacle w' = w_obstacle w"
  by (auto simp: spawn_boss_def clock_now_def Let_def split: prod.splits option.splits dest!: boss_tile_obstacle)

lemma spawn_of_group_obstacle: "spawn_of_group g tot w = Some w' \<Longrightarrow> w_obstacle w' = w_obstacle w"
  by (auto simp: spawn_of_group_def clock_now_def Let_def split: prod.splits option.splits dest!: group_tile_obstacle)

lemma spawn_random_obstacle: "spawn_random tot w = Some w' \<Longrightarrow> w_obstacle w' = w_obstacle w"
  by (auto simp: spawn_random_def clock_now_def rand_next_def Let_def split: option.splits)

lemma spawn_loop_obstacle:
  assumes "\<And>i tot w w'. spawn i tot w = Some w' \<Longrightarrow> w_obstacle w' = w_obstacle w"
  shows "spawn_loop spawn i n (tot, w) = Some (tot', w') \<Longrightarrow> w_obstacle w' = w_obstacle w"
proof (induction n arbitrary: i tot w)
  case (Suc n)
  show ?case
  proof (cases "tot < MAX_NPCS")
    case True
    with Suc.prems obtain w1 where w1: "spawn i tot w = Some w1" "spawn_loop spawn (Suc i) n (Suc tot, w1) = Some (tot', w')"
      by (auto split: option.splits)
    then show ?thesis using Suc.IH [OF w1(2)] assms [OF w1(1)] by simp
  qed (use Suc.prems in simp)
qed simp

lemma spawn_groups_obstacle: "spawn_groups gs (tot, w) = Some (tot', w') \<Longrightarrow> w_obstacle w' = w_obstacle w"
proof (induction gs arbitrary: tot w)
  case (Cons g gs)
  then obtain t1 w1 where w1: "spawn_loop (\<lambda>i. spawn_of_group g) 0 (nat (g_count g)) (tot, w) = Some (t1, w1)"
    "spawn_groups gs (t1, w1) = Some (tot', w')"
    by (auto split: option.splits)
  have "w_obstacle w1 = w_obstacle w"
    by (rule spawn_loop_obstacle [OF _ w1(1)]) (rule spawn_of_group_obstacle)
  then show ?case using Cons.IH [OF w1(2)] by simp
qed simp

lemma initialize_obstacle: "InitializeNPC groups w = Some w' \<Longrightarrow> w_obstacle w' = w_obstacle w"
proof -
  assume "InitializeNPC groups w = Some w'"
  then obtain t1 w1 t2 w2 t3 where
    w: "spawn_loop spawn_boss 0 15 (0, w) = Some (t1, w1)" "spawn_groups groups (t1, w1) = Some (t2, w2)"
      "spawn_loop (\<lambda>i. spawn_random) 0 (MAX_NPCS - t2) (t2, w2) = Some (t3, w')"
    by (auto simp: InitializeNPC_def split: option.splits)
  have "w_obstacle w1 = w_obstacle w"
    by (rule spawn_loop_obstacle [OF _ w(1)]) (rule spawn_boss_obstacle)
  moreover have "w_obstacle w2 = w_obstacle w1" by (rule spawn_groups_obstacle [OF w(2)])
  moreover have "w_obstacle w' = w_obstacle w2"
    by (rule spawn_loop_obstacle [OF _ w(3)]) (rule spawn_random_obstacle)
  ultimately show ?thesis by simp
qed

section \<open>Properties\<close>

definition rect_in16 :: "obstacle_rect \<Rightarrow> bool" where
  "rect_in16 r \<longleftrightarrow> in16 (ob_x r) \<and> in16 (ob_y r) \<and> in16 (ob_w r) \<and> in16 (ob_h r) \<and> in16 (ob_type r)"

lemma rect_in16D: "rect_in16 r \<Longrightarrow> rect_fits r" "rect_in16 r \<Longrightarrow> rect16 r = r"
  by (auto simp: rect_in16_def rect_fits_def rect16_def in16_def in32_def s16_id)

lemma load_obstacles_rects: "fst (load_obstacles (Some es)) = map rect_of (List.map_filter id es)"
proof -
  have "fst (fold load_entry es st) = fst st @ map rect_of (List.map_filter id es)" for st
    by (induction es arbitrary: st) (auto simp: load_entry_def Let_def map_filter_simps split: option.split)
  then show ?thesis by (simp add: load_obstacles_def)
qed

lemma covered_drawn:
  assumes "covers r x y" "\<bar>x - g_my_x c\<bar> \<le> 7" "\<bar>y - g_my_y c\<bar> \<le> 7"
  shows "obstacle_drawn c (ob_x r) (ob_y r) (ob_w r) (ob_h r)"
  using assms by (auto simp: covers_def obstacle_drawn_def Let_def)

lemma boot_map:
  assumes "boot True (Some (Some es, groups)) clk rnd ack = (Some bin, Some w)"
    and "\<forall>e. Some e \<in> set es \<longrightarrow> rect_in16 (rect_of e)" "length es < 2 ^ 31"
  shows "\<exists>rs. load_obstacles_bin bin = Inr rs \<and> (\<forall>x y. w_obstacle w x y \<longleftrightarrow> \<not> tile x y \<or> (\<exists>r \<in> set rs. covers r x y))"
proof -
  let ?rs = "fst (load_obstacles (Some es))" and ?m = "snd (load_obstacles (Some es))"
  have f: "bin = write_obstacle_bin ?rs"
    and w: "InitializeNPC (load_npc_groups groups) (init_world (is_obstacle ?m) clk rnd ack) = Some w"
    using assms(1) by (simp_all add: boot_def init_lua_def Let_def split_beta)
  have fits: "rect_in16 r" if "r \<in> set ?rs" for r
    using that assms(2) by (auto simp: load_obstacles_rects List.map_filter_def)
  have "length ?rs \<le> length es"
    by (simp add: load_obstacles_rects List.map_filter_def)
  then have "load_obstacles_bin bin = Inr (map rect16 ?rs)"
    unfolding f using assms(3) by (intro load_written) simp
  also have "map rect16 ?rs = ?rs" using fits rect_in16D(2) by (simp add: map_idI)
  finally have "load_obstacles_bin bin = Inr ?rs" .
  moreover have "w_obstacle w = is_obstacle ?m" using initialize_obstacle [OF w] by (simp add: init_world_def)
  moreover have "is_obstacle ?m x y \<longleftrightarrow> \<not> tile x y \<or> (\<exists>r \<in> set ?rs. covers r x y)" for x y
    by (rule load_obstacles_exact) (use assms(2) rect_in16D(1) in blast)
  ultimately show ?thesis by auto
qed

text \<open>
  C34: The server and its clients agree on the obstacles. Started with any script whose rectangles
  have 16-bit fields, the server blocks exactly the tiles outside the world and those that some
  rectangle covers which the client reads from the file the server wrote; and the frame of a client
  near such a tile (at most 7 tiles away) shows that rectangle.
\<close>

theorem boot_map_shown:
  assumes "boot True (Some (Some es, groups)) clk rnd ack = (Some bin, Some w)"
    and "\<forall>e. Some e \<in> set es \<longrightarrow> rect_in16 (rect_of e)" "length es < 2 ^ 31"
  shows "\<exists>rs. load_obstacles_bin bin = Inr rs
    \<and> (\<forall>x y. w_obstacle w x y \<longleftrightarrow> \<not> tile x y \<or> (\<exists>r \<in> set rs. covers r x y))
    \<and> (\<forall>g c x y. \<forall>r \<in> set rs. covers r x y \<and> \<bar>x - g_my_x c\<bar> \<le> 7 \<and> \<bar>y - g_my_y c\<bar> \<le> 7
        \<longrightarrow> set (draw_obstacle g r) \<subseteq> set (draw_obstacles g rs c))"
proof -
  have "set (draw_obstacle g r) \<subseteq> set (draw_obstacles g rs c)"
    if "r \<in> set rs" "covers r x y \<and> \<bar>x - g_my_x c\<bar> \<le> 7 \<and> \<bar>y - g_my_y c\<bar> \<le> 7" for g c x y r rs
    using covered_drawn [of r x y c] that by (auto simp: draw_obstacles_def)
  then show ?thesis using boot_map [OF assms] by blast
qed

theorem boot_map_shown_witness:
  "\<exists>bin w rs. boot True (Some (Some [Some \<lparr> lo_x = -2, lo_y = 5, lo_w = 4, lo_h = 1, lo_t = None \<rparr>, None], None))
      (\<lambda>_. 0) (\<lambda>_. 0) (\<lambda>_. True) = (Some bin, Some w)
    \<and> load_obstacles_bin bin = Inr rs \<and> (w_obstacle w 1 5 \<longleftrightarrow> (\<exists>r \<in> set rs. covers r 1 5))"
proof -
  let ?es = "[Some \<lparr> lo_x = -2, lo_y = 5, lo_w = 4, lo_h = 1, lo_t = None \<rparr>, None]"
  let ?m = "is_obstacle (snd (load_obstacles (Some ?es)))"
  have "winv {} (init_world ?m (\<lambda>_. 0) (\<lambda>_. 0) (\<lambda>_. True))"
    by (rule winv_init) (auto simp: is_obstacle_def tile_def)
  from initialize_npcs [OF this, of "[]"] obtain w where
    w: "InitializeNPC [] (init_world ?m (\<lambda>_. 0) (\<lambda>_. 0) (\<lambda>_. True)) = Some w"
    by (auto simp: init_world_def empty_sectors_def)
  then obtain bin where b: "boot True (Some (Some ?es, None)) (\<lambda>_. 0) (\<lambda>_. 0) (\<lambda>_. True) = (Some bin, Some w)"
    by (simp add: boot_def init_lua_def Let_def split_beta load_npc_groups_def)
  have "tile 1 5" by (simp add: tile_def)
  moreover have "\<forall>e. Some e \<in> set ?es \<longrightarrow> rect_in16 (rect_of e)" by (simp add: rect_in16_def rect_of_def in16_def)
  ultimately show ?thesis using boot_map_shown [OF b] b by auto
qed

end
