(* ===== verification/Services.thy ===== *)
theory Services
  imports ServerSafe
begin

text \<open>
  The timer thread as a client of the queue interface, the statements of the database thread, and
  what a login that the database answers does to the session.
\<close>

section \<open>The timer thread\<close>

interpretation timers: min_queue ev_wakeup_time "pq_push ev_wakeup_time" pq_pop mset "pq_ok ev_wakeup_time"
  by (rule min_queue_sorted_list)

text \<open>
  One round of the timer thread takes an event with the earliest wake-up time. If it is due,
  it is posted to the workers and leaves the queue, else the queue keeps every event; nothing is
  lost, doubled or posted before its time, and the queue stays in order.
\<close>

theorem timer_round:
  assumes "pq_ok ev_wakeup_time (w_timers w)" "w_timers w \<noteq> []"
  shows "\<exists>ev \<in> set (w_timers w). (\<forall>ev' \<in> set (w_timers w). ev_wakeup_time ev \<le> ev_wakeup_time ev')
    \<and> (if ev_wakeup_time ev \<le> fst (clock_now w)
       then mset (w_timers w) = add_mset ev (mset (w_timers (timer_step w)))
         \<and> w_completions (timer_step w) = w_completions w @ [timer_completion ev]
       else mset (w_timers (timer_step w)) = mset (w_timers w)
         \<and> w_completions (timer_step w) = w_completions w)
    \<and> pq_ok ev_wakeup_time (w_timers (timer_step w))"
proof -
  obtain ev q where p: "pq_pop (w_timers w) = Some (ev, q)"
    using assms(2) timers.pop_None [of "w_timers w"] by auto
  note e = timers.pop_elems [OF p]
  have "ev \<in> set (w_timers w)" using timers.pop_member [OF p] by simp
  moreover have "\<forall>ev' \<in> set (w_timers w). ev_wakeup_time ev \<le> ev_wakeup_time ev'"
    using timers.pop_least [OF assms(1) p] by simp
  ultimately show ?thesis
    using e timers.ok_pop [OF assms(1) p]
    by (intro bexI [of _ ev]) (simp_all add: timer_step_def p clock_now_def timers.ok_push)
qed

theorem timer_round_witness:
  "w_completions (timer_step ((arena 20)\<lparr>w_timers := [\<lparr> ev_obj_id = 7, ev_wakeup_time = 0, ev_event_id = EVENT_HP_REGEN \<rparr>],
      w_clock := \<lambda>_. 5\<rparr>)) = w_completions (arena 20) @ [IO_HP_REGEN 7]"
  using timer_round [of "(arena 20)\<lparr>w_timers := [\<lparr> ev_obj_id = 7, ev_wakeup_time = 0, ev_event_id = EVENT_HP_REGEN \<rparr>],
      w_clock := \<lambda>_. 5\<rparr>"]
  by (simp add: pq_ok_def clock_now_def timer_completion_def)

section \<open>The dead come back\<close>

text \<open>When every event is due, as many rounds as there are events post them all, in their order.\<close>

lemma rounds_post_all:
  assumes "\<forall>i \<ge> w_ticks w. \<forall>ev \<in> set (w_timers w). ev_wakeup_time ev \<le> w_clock w i"
  shows "(timer_step ^^ length (w_timers w)) w = w\<lparr>w_timers := [], w_ticks := w_ticks w + length (w_timers w),
    w_completions := w_completions w @ map timer_completion (w_timers w)\<rparr>"
proof -
  have "(timer_step ^^ length evs) w = w\<lparr>w_timers := [], w_ticks := w_ticks w + length evs,
      w_completions := w_completions w @ map timer_completion evs\<rparr>"
    if "w_timers w = evs" "\<forall>i \<ge> w_ticks w. \<forall>ev \<in> set evs. ev_wakeup_time ev \<le> w_clock w i" for evs and w
    using that
  proof (induction evs arbitrary: w)
    case (Cons ev evs)
    have "timer_step w = w\<lparr>w_timers := evs, w_ticks := Suc (w_ticks w), w_completions := w_completions w @ [timer_completion ev]\<rparr>"
      using Cons.prems by (simp add: timer_step_def clock_now_def)
    then show ?case
      using Cons.IH [of "timer_step w"] Cons.prems(2) by (simp add: funpow_Suc_right del: funpow.simps)
  qed simp
  from this [OF refl assms] show ?thesis .
qed

lemma winv_rounds: "winv {} w \<Longrightarrow> winv {} ((timer_step ^^ k) w)"
  by (induction k) (simp_all add: winv_timer_step)

text \<open>
  C6: A dead NPC comes back. In every state of the server (the invariant) in which an NPC is dead,
  once all timers are due, as many rounds of the timer thread as there are events post its
  respawn, and the worker that takes it brings the NPC back: with full hit points and no target,
  on a tile of the world that is not an obstacle or at its origin, a boss always at its origin.
\<close>

theorem dead_npc_returns:
  assumes w: "winv {} w" and n: "is_npc n" "w_live w n" "m_hp (w_npc w n) \<le> 0"
    and due: "\<forall>i \<ge> w_ticks w. \<forall>ev \<in> set (w_timers w). ev_wakeup_time ev \<le> w_clock w i"
  defines "c \<equiv> w_npc w n"
  shows "\<exists>i w'. serve (Work i) ((timer_step ^^ length (w_timers w)) w) = Some (Inr w') \<and> winv {} w'
    \<and> m_hp (w_npc w' n) = m_max_hp c \<and> 0 < m_hp (w_npc w' n) \<and> m_target_id (w_npc w' n) = -1
    \<and> m_move_state (w_npc w' n) = idle_state (m_npc_type c) \<and> tile (m_x (w_npc w' n)) (m_y (w_npc w' n))
    \<and> (\<not> w_obstacle w (m_x (w_npc w' n)) (m_y (w_npc w' n))
      \<or> (m_x (w_npc w' n), m_y (w_npc w' n)) = (m_origin_x c, m_origin_y c))
    \<and> (m_npc_type c = NPC_BOSS_TYPE \<longrightarrow> (m_x (w_npc w' n), m_y (w_npc w' n)) = (m_origin_x c, m_origin_y c))"
proof -
  define v where "v = (timer_step ^^ length (w_timers w)) w"
  have e: "w_live v = w_live w" "w_npc v = w_npc w" "w_obstacle v = w_obstacle w" "w_timers v = []"
    unfolding v_def rounds_post_all [OF due] by simp_all
  have v: "winv {} v" unfolding v_def by (rule winv_rounds [OF w])
  have "respawns v n = 1" using winvD(10) [OF v] n by (simp add: respawns_ok_def e)
  then have "count (mset (w_completions v)) (IO_NPC_RESPAWN n) = 1" by (simp add: respawns_def e(4))
  then have "IO_NPC_RESPAWN n \<in># mset (w_completions v)" by (intro count_inI) simp
  then have "IO_NPC_RESPAWN n \<in> set (w_completions v)" by simp
  then obtain i where i: "i < length (w_completions v)" "w_completions v ! i = IO_NPC_RESPAWN n"
    by (auto simp: in_set_conv_nth)
  let ?u = "v\<lparr>w_completions := take i (w_completions v) @ drop (Suc i) (w_completions v)\<rparr>"
  have u: "winv2 {} {n} ?u" using winv_pop(2) [OF v i] by blast
  have f: "w_live ?u n" "m_hp (w_npc ?u n) \<le> 0" "w_npc ?u n = c" "w_obstacle ?u = w_obstacle w"
    using n by (simp_all add: e c_def)
  have "serve (Work i) v = Some (Inr (process_npc_respawn n ?u))" by (simp add: serve_def i on_completion_def)
  from conjI [OF this respawn_back [OF u n(1) f(1,2), unfolded f(3,4)]] show ?thesis unfolding v_def by blast
qed

text \<open>The NPC of \<open>grave\<close>, its respawn due at 0.\<close>

lemma grave_timed: "winv {} (push_timer 10000 EVENT_NPC_RESPAWN 0 grave)"
  using winv_push_respawn [OF grave_ok] by (simp add: grave_def arena_def is_npc_def)

theorem dead_npc_returns_witness:
  "\<exists>i w'. serve (Work i) (timer_step (push_timer 10000 EVENT_NPC_RESPAWN 0 grave)) = Some (Inr w') \<and> m_hp (w_npc w' 10000) = 50"
proof -
  let ?w = "push_timer 10000 EVENT_NPC_RESPAWN 0 grave"
  have f: "w_timers ?w = [\<lparr> ev_obj_id = 10000, ev_wakeup_time = 0, ev_event_id = EVENT_NPC_RESPAWN \<rparr>]" "w_npc ?w = w_npc grave"
    "w_live ?w = w_live grave" "w_clock ?w = w_clock grave" "w_ticks ?w = w_ticks grave"
    by (simp_all add: push_timer_def grave_def arena_def init_world_def)
  have "is_npc 10000" "w_live ?w 10000" "m_hp (w_npc ?w 10000) \<le> 0" "m_max_hp (w_npc ?w 10000) = 50"
    unfolding f by (simp_all add: is_npc_def grave_def arena_fields)
  moreover have "\<forall>i \<ge> w_ticks ?w. \<forall>ev \<in> set (w_timers ?w). ev_wakeup_time ev \<le> w_clock ?w i"
    unfolding f by (simp add: grave_def arena_def init_world_def)
  ultimately show ?thesis using dead_npc_returns [OF grave_timed, of 10000] by (simp add: f(1)) metis
qed

section \<open>The statements\<close>

lemma bytes_of_length [simp]: "length (bytes_of s) = length s"
  by (simp add: bytes_of_def)

lemma length_quote [simp]: "length quote = 1"
  by (simp add: quote_def)

text \<open>
  Every statement the database thread builds fits its text array, for login ids as the
  protocol bounds them and 32-bit numbers: the thread never stops on a text.
\<close>

lemma sql_lengths:
  assumes "length login_id \<le> 19"
  shows "sql_login login_id \<noteq> None" "sql_load_extra login_id \<noteq> None"
    and "in32 x \<Longrightarrow> in32 y \<Longrightarrow> in32 hp \<Longrightarrow> in32 level \<Longrightarrow> in32 xp \<Longrightarrow> \<forall>i < 6. in32 (items ! i)
      \<Longrightarrow> sql_save login_id x y hp level xp items \<noteq> None"
    and "\<forall>i < 2. in32 (kills ! i) \<Longrightarrow> sql_save_extra login_id kills \<noteq> None"
proof -
  note l = length_dec_int
  show "sql_login login_id \<noteq> None" "sql_load_extra login_id \<noteq> None"
    using assms by (simp_all add: sql_login_def sql_load_extra_def swprintf_s_def)
  show "sql_save login_id x y hp level xp items \<noteq> None"
    if "in32 x" "in32 y" "in32 hp" "in32 level" "in32 xp" "\<forall>i < 6. in32 (items ! i)"
  proof -
    have "length (dec_int (items ! i)) \<le> 11" if "i < 6" for i using that \<open>\<forall>i < 6. in32 (items ! i)\<close> by (simp add: l)
    from this [of 0] this [of 1] this [of 2] this [of 3] this [of 4] this [of 5] show ?thesis
      using assms l [OF that(1)] l [OF that(2)] l [OF that(3)] l [OF that(4)] l [OF that(5)]
      by (simp add: sql_save_def swprintf_s_def)
  qed
  show "sql_save_extra login_id kills \<noteq> None" if "\<forall>i < 2. in32 (kills ! i)"
    using assms l [of "kills ! 0"] l [of "kills ! 1"] that by (simp add: sql_save_extra_def swprintf_s_def)
qed

theorem statements_fit:
  assumes "length login_id \<le> 19" "\<forall>i \<in> set ([x, y, hp, level, xp] @ items @ kills). in32 i"
    and "length items = ITEM_SLOT_COUNT" "length kills = QUEST_COUNT"
  shows "sql_login login_id \<noteq> None \<and> sql_load_extra login_id \<noteq> None
    \<and> sql_save login_id x y hp level xp items \<noteq> None \<and> sql_save_extra login_id kills \<noteq> None"
  using assms by (intro conjI sql_lengths) auto

theorem statements_fit_witness:
  "sql_save (bytes_of ''DUMMY01'') 1 2 3 4 5 [0, 0, 0, 0, 0, 0] \<noteq> None"
  using statements_fit [of "bytes_of ''DUMMY01''" 1 2 3 4 5 "[0, 0, 0, 0, 0, 0]" "[0, 0]"] by (simp add: in32_def)

section \<open>Logging in\<close>

lemma map_kill_count: "length qs = length ks \<Longrightarrow> map kill_count (map2 (\<lambda>q n. q\<lparr>kill_count := n\<rparr>) qs ks) = ks"
  by (induction qs ks rule: list_induct2) auto

text \<open>The session after a login is the loaded one, up to what sending changes.\<close>

lemma login_calm:
  "\<exists>v. on_db_login k r w = push_timer k EVENT_HP_REGEN (fst (clock_now v) + ms HP_REGEN_TIME) (snd (clock_now v))
    \<and> calm (upd_pl k (load_session r) w
        \<lparr>w_sectors := add_object_to_sector k (dr_x r) (dr_y r) (w_sectors w)\<rparr>) v"
  if "w_live w k" "m_state (w_pl w k) = CS_DB_WAIT" "dr_success r"
proof -
  let ?w = "upd_pl k (load_session r) w\<lparr>w_sectors := add_object_to_sector k (dr_x r) (dr_y r) (w_sectors w)\<rparr>"
  have "calm ?w (update_player_view k (send_all_quest_states k (send_all_world_items k (send_all_inventory_items k
      (send_avatar_info k (send_login_success k ?w))))))"
    by (rule calm_trans [OF calm_trans [OF calm_trans [OF calm_send_packets(1) calm_send_packets(2)]
      calm_trans [OF calm_trans [OF calm_send_all(2) calm_send_all(1)] calm_send_all(3)]] calm_update_player_view])
  moreover have "m_x (load_session r (w_pl w k)) = dr_x r" "m_y (load_session r (w_pl w k)) = dr_y r"
    by (simp_all add: load_session_def Let_def)
  ultimately show ?thesis
    by (intro exI [of _ "update_player_view k (send_all_quest_states k (send_all_world_items k (send_all_inventory_items k
      (send_avatar_info k (send_login_success k ?w)))))"])
      (simp add: on_db_login_def Let_def that clock_now_def upd_pl_def)
qed

text \<open>
  C21: A login the database answers puts the waiting session into play with exactly what was
  loaded: position, level, experience, inventory and quest counts, and no more hp than its level
  allows. An answer for a session that is not waiting changes nothing, and a failed one only
  moves the session to logout: the client is told nothing.
\<close>

theorem login_outcome:
  assumes "winv {} w" "is_pc k" "result_ok r"
  shows "if w_live w k \<and> m_state (w_pl w k) = CS_DB_WAIT
    then if dr_success r
      then \<exists>s. w_pl (on_db_login k r w) k = s \<and> m_x s = dr_x r \<and> m_y s = dr_y r \<and> m_level s = dr_level r
        \<and> m_xp s = dr_exp r \<and> m_inventory s = dr_inventory r \<and> map kill_count (m_quests s) = dr_quest_kill r
        \<and> m_max_hp s = calc_max_hp (dr_level r) \<and> m_hp s = min (dr_hp r) (m_max_hp s)
        \<and> (w_live (on_db_login k r w) k \<longrightarrow> m_state s = CS_PLAYING)
      else on_db_login k r w = upd_pl k (\<lambda>s. s\<lparr>m_state := CS_LOGOUT\<rparr>) w
    else on_db_login k r w = w"
proof (cases "w_live w k \<and> m_state (w_pl w k) = CS_DB_WAIT \<and> dr_success r")
  case True
  then obtain v where v: "on_db_login k r w
      = push_timer k EVENT_HP_REGEN (fst (clock_now v) + ms HP_REGEN_TIME) (snd (clock_now v))"
    "calm (upd_pl k (load_session r) w\<lparr>w_sectors := add_object_to_sector k (dr_x r) (dr_y r) (w_sectors w)\<rparr>) v"
    using login_calm [of w k r] by blast
  have "length (m_quests (w_pl w k)) = length (dr_quest_kill r)"
    using winvD(2) [OF assms(1,2)] True assms(3) by (auto simp: player_ok_def result_ok_def)
  note q = map_kill_count [OF this]
  have e: "w_pl (on_db_login k r w) = w_pl v" "w_live (on_db_login k r w) = w_live v"
    by (simp_all add: v(1) push_timer_def clock_now_def)
  show ?thesis
    using True q calm_pl [OF v(2), of k] calmD(12) [OF v(2), of k]
    by (simp add: e upd_pl_def load_session_def Let_def)
next
  case False
  then show ?thesis by (auto simp: on_db_login_def)
qed

text \<open>A session that waits for the database.\<close>

lemma waiting_lobby: "winv {} (upd_pl 1 (\<lambda>s. s\<lparr>m_state := CS_DB_WAIT\<rparr>) lobby)"
  by (rule winv_state [OF lobby_ok]) (simp_all add: lobby_def is_pc_def new_session_def)

theorem login_outcome_witness:
  "m_x (w_pl (on_db_login 1 (no_result\<lparr>dr_success := True, dr_hp := 70, dr_inventory := [5, 0, 0, 0, 0, 0]\<rparr>)
      (upd_pl 1 (\<lambda>s. s\<lparr>m_state := CS_DB_WAIT\<rparr>) lobby)) 1) = PC_SPAWN_X"
  using login_outcome [OF waiting_lobby, of 1 "no_result\<lparr>dr_success := True, dr_hp := 70, dr_inventory := [5, 0, 0, 0, 0, 0]\<rparr>"]
  by (simp add: result_ok_def no_result_def lobby_def is_pc_def tile_def upd_pl_def)

end
