(* ===== verification/ClientStream.thy ===== *)
theory ClientStream
  imports Client Combat
begin

text \<open>
  What the client makes of the server's stream (through the interface \<open>stream_reader\<close>), what it
  sends whatever is typed, and the texts of its display.
\<close>

section \<open>Packets of the server\<close>

text \<open>The effect of a packet by its fields.\<close>

fun apply_s2c :: "s2c \<Rightarrow> client \<Rightarrow> client" where
  "apply_s2c (S2C_LoginResult ok msg) c = on_login_result ok msg c"
| "apply_s2c (S2C_AvatarInfo pid x y hp mhp lv xp nx d) c = on_avatar_info pid x y hp mhp lv xp nx d c"
| "apply_s2c (S2C_AddPlayer pid nm x y hp mhp k st d) c =
     on_add_player \<lparr> o_id = pid, o_name = nm, o_x = x, o_y = y, o_hp = hp, o_max_hp = mhp,
       o_npc_type = kind_code k, o_npc_state = state_code st, o_dir = d \<rparr> c"
| "apply_s2c (S2C_RemovePlayer pid) c = on_remove_player pid c"
| "apply_s2c (S2C_MovePlayer pid x y t d) c = on_move_player pid x y d c"
| "apply_s2c (S2C_Chat sid nm msg) c = on_chat nm msg c"
| "apply_s2c (S2C_StatInfo oid hp mhp lv xp nx st) c = on_stat_info oid hp mhp lv xp nx (state_code st) c"
| "apply_s2c (S2C_DamageInfo aid tid dmg thp) c = on_damage_info aid tid dmg thp c"
| "apply_s2c (S2C_ItemAppear iid x y t) c =
     on_item_appear \<lparr> i_id = iid, i_x = x, i_y = y, i_item_type = item_code t \<rparr> c"
| "apply_s2c (S2C_ItemRemove iid) c = on_item_remove iid c"
| "apply_s2c (S2C_ItemAdd t n) c = on_item_add (item_code t) n c"
| "apply_s2c (S2C_QuestUpdate q st cur tgt) c = on_quest_update q (quest_code st) cur tgt c"
| "apply_s2c (S2C_Projectile aid sx sy d rng hit) c = on_projectile sx sy d rng c"

lemma cstr_arr_more: "0 \<notin> set s \<Longrightarrow> length s < n \<Longrightarrow> cstr (arr n s @ r) = s"
proof -
  assume a: "0 \<notin> set s" "length s < n"
  then obtain k where k: "n - length s = Suc k" by (metis Suc_diff_Suc)
  then have "arr n s = s @ 0 # replicate k 0" using a(2) by (simp add: arr_def)
  then show ?thesis using a(1) by (simp add: cstr_def) (subst takeWhile_append2; auto)
qed

lemma strncpy_arr: "0 \<notin> set s \<Longrightarrow> length s < n \<Longrightarrow> strncpy_s (arr n s @ r) (n - 1) = s"
  by (simp add: strncpy_s_def cstr_arr_more)

lemma cstr_take_arr_more: "0 \<notin> set s \<Longrightarrow> length s < n \<Longrightarrow> cstr (take (n - 1) (arr n s @ r)) = s"
  using cstr_take_smaller [of s "n - 1" n] by simp

lemmas arr_reads = cstr_arr_more cstr_take_arr_more [of _ 20, simplified] cstr_take_arr_more [of _ 128, simplified]
  strncpy_arr [of _ 20, simplified]

lemma handle_enc: "wf_s2c p \<Longrightarrow> handle_packet (enc_s2c p @ r) c = apply_s2c p c"
  unfolding handle_packet_def Let_def drop_enc_s2c
  by (cases p) (simp_all add: wrap_simps arr_reads dir_ok_def item_ok_def)

text \<open>
  The client handles each packet the server encodes with exactly the fields the server put
  in, whatever follows in the buffer: the two sides agree on every offset, width and string.
\<close>

theorem client_reads:
  assumes "wf_s2c p"
  shows "handle_packet (enc_s2c p @ r) c = apply_s2c p c"
  by (rule handle_enc [OF assms])

theorem client_reads_witness:
  "g_world_items_cl (handle_packet (enc_s2c (S2C_ItemAppear 12 7 (-3) ITEM_ELIXIR) @ [3, 1]) (start_client (\<lambda>_. 0)))
    = [12 \<mapsto> \<lparr> i_id = 12, i_x = 7, i_y = -3, i_item_type = 3 \<rparr>]"
  using client_reads [of "S2C_ItemAppear 12 7 (-3) ITEM_ELIXIR" "[3, 1]" "start_client (\<lambda>_. 0)"]
  by (simp add: in32_def in16_def item_ok_def item_of_int_def on_item_appear_def start_client_def)

section \<open>The stream\<close>

text \<open>
  Any packet the server can encode, fields out of range included (they are cut to their width):
  nothing behind it is read, and only a refused login ends the client.
\<close>

lemma strncpy_more: "n \<le> length a \<Longrightarrow> strncpy_s (a @ r) n = strncpy_s a n"
proof -
  assume n: "n \<le> length a"
  show ?thesis
  proof (cases "\<forall>b \<in> set a. b \<noteq> 0")
    case True
    then have "cstr (a @ r) = a @ cstr r" "cstr a = a"
      by (simp_all add: cstr_def takeWhile_append2 takeWhile_eq_all_conv)
    then show ?thesis using n by (simp add: strncpy_s_def)
  next
    case False
    then show ?thesis by (auto simp: strncpy_s_def cstr_def takeWhile_append1)
  qed
qed

lemmas rd_any = rd32_le rd16_le rd8_le rd32_le [of _ "[]", simplified] rd16_le [of _ "[]", simplified] rd8_le [of _ "[]", simplified]

lemma handle_any: "(\<forall>m. q \<noteq> S2C_LoginResult False m) \<Longrightarrow> handle_packet (enc_s2c q @ r) c = handle_packet (enc_s2c q @ []) c"
  unfolding handle_packet_def Let_def drop_enc_s2c
  by (cases q) (simp_all add: rd_any strncpy_more on_login_result_def)

definition server_packet :: "byte list \<Rightarrow> bool" where
  "server_packet p \<longleftrightarrow> (\<exists>q. p = enc_s2c q \<and> (\<forall>m. q \<noteq> S2C_LoginResult False m))"

lemma handle_server_packet: "server_packet p \<Longrightarrow> handle_packet (p @ r) c = handle_packet p c"
  using handle_any [of _ r c] by (auto simp: server_packet_def)

lemma upd_obj_keeps [simp]: "g_running (upd_obj k f c) = g_running c" "dom (g_objs (upd_obj k f c)) = dom (g_objs c)"
  by (auto simp: upd_obj_def split: option.split)

text \<open>What each packet makes of the objects the client keeps.\<close>

fun keys_step :: "s2c \<Rightarrow> int set \<Rightarrow> int set" where
  "keys_step (S2C_AddPlayer pid _ _ _ _ _ _ _ _) ks = insert (s32 pid) ks"
| "keys_step (S2C_RemovePlayer pid) ks = ks - {s32 pid}"
| "keys_step _ ks = ks"

lemma handle_keys: "(\<forall>m. q \<noteq> S2C_LoginResult False m) \<Longrightarrow>
    g_running (handle_packet (enc_s2c q) c) = g_running c \<and> dom (g_objs (handle_packet (enc_s2c q) c)) = keys_step q (dom (g_objs c))"
  using drop_enc_s2c [of q "[]"] unfolding handle_packet_def Let_def
  by (cases q) (simp_all add: rd_any on_login_result_def on_avatar_info_def on_add_player_def on_remove_player_def
    on_move_player_def on_chat_def on_stat_info_def on_damage_info_def on_item_appear_def on_item_remove_def on_item_add_def
    on_quest_update_def on_projectile_def steady_now_def push_msg_def Let_def)

lemma drain_frames:
  "\<forall>p \<in> set (fst (frames buf)). server_packet p
    \<Longrightarrow> drain buf c = (snd (frames buf), fold (handle_packet) (fst (frames buf)) c)"
proof (induction buf c rule: drain.induct)
  case (1 buf c)
  show ?case
  proof (cases "nat (rd8 buf) = 0 \<or> length buf < nat (rd8 buf)")
    case True
    then have "frames buf = ([], buf)" by (intro frames_stop) (use rd8_range(1) [of buf] in linarith)
    then show ?thesis using True by (subst drain.simps) simp
  next
    case False
    let ?n = "nat (rd8 buf)"
    have f: "frames buf = (take ?n buf # fst (frames (drop ?n buf)), snd (frames (drop ?n buf)))"
      by (intro frames_next) (use False in linarith)+
    then have "handle_packet buf c = handle_packet (take ?n buf) c"
      using 1(2) handle_server_packet [of "take ?n buf" "drop ?n buf" c] by simp
    then show ?thesis using 1(1) [OF refl False] 1(2) f False by (subst drain.simps) (simp add: Let_def)
  qed
qed

interpretation client: stream_reader
  "\<lambda>bs sc. Some (client_recv bs sc)" "\<lambda>p (st, c). (st, handle_packet p c)" fst "\<lambda>r (st, c). (r, c)"
  "\<lambda>(st, c). g_running c \<and> frames st = ([], st)" "\<lambda>bs (st, c). bs \<noteq> [] \<and> length st + length bs \<le> RECV_BUFFER"
  server_packet
proof
  fix s :: "byte list \<times> client" and bs p r r'
  obtain st c where s: "s = (st, c)" by (cases s)
  have fold: "fold (\<lambda>p (st, c). (st, handle_packet p c)) ps (x, y) = (x, fold (handle_packet) ps y)" for ps x y
    by (induction ps arbitrary: y) simp_all
  show "(case s of (st, c) \<Rightarrow> g_running c \<and> frames st = ([], st)) \<Longrightarrow>
      (case s of (st, c) \<Rightarrow> bs \<noteq> [] \<and> length st + length bs \<le> RECV_BUFFER) \<Longrightarrow>
      \<forall>p \<in> set (fst (frames (fst s @ bs))). server_packet p \<Longrightarrow>
      Some (client_recv bs s) = Some ((\<lambda>r (st, c). (r, c)) (snd (frames (fst s @ bs)))
        (fold (\<lambda>p (st, c). (st, handle_packet p c)) (fst (frames (fst s @ bs))) s))"
    by (simp add: s client_recv_def drain_frames fold)
  show "(case s of (st, c) \<Rightarrow> g_running c \<and> frames st = ([], st)) \<Longrightarrow> server_packet p \<Longrightarrow>
      case (case s of (st, c) \<Rightarrow> (st, handle_packet p c)) of (st, c) \<Rightarrow> g_running c \<and> frames st = ([], st)"
    using handle_keys [of _ c] by (auto simp: s server_packet_def)
qed (auto split: prod.splits)

lemma fold_enc: "\<forall>q \<in> set ps. wf_s2c q \<Longrightarrow> fold (handle_packet) (map enc_s2c ps) c = fold (apply_s2c) ps c"
  using handle_enc [of _ "[]"] by (induction ps arbitrary: c) simp_all


text \<open>
  A run of the receiving thread over what \<open>recv\<close> returns, piece by piece. A piece is at most as
  long as the room in the thread's buffer.
\<close>

fun receives :: "byte list list \<Rightarrow> byte list \<times> client \<Rightarrow> (byte list \<times> client) option" where
  "receives [] sc = Some sc"
| "receives (bs # bss) sc =
    (if bs = [] \<or> length (fst sc) + length bs > RECV_BUFFER then None else receives bss (client_recv bs sc))"

lemma receives_reads: "receives bss sc = Some sc' \<Longrightarrow> client.reads sc bss sc'"
proof (induction bss arbitrary: sc)
  case Nil
  then have "sc = sc'" by simp
  then show ?case by (rule ssubst) (rule client.reads_start)
next
  case (Cons bs bss)
  show ?case
    by (rule client.reads_one [OF _ refl Cons.IH]) (use Cons.prems in \<open>auto split: if_splits\<close>)
qed

lemma client_stream_lemma:
  assumes r: "receives bss ([], c) = Some (st, c')" and run: "g_running c"
    and ps: "\<forall>q \<in> set ps. wf_s2c q \<and> (\<forall>m. q \<noteq> S2C_LoginResult False m)"
    and s: "concat bss @ later = concat (map enc_s2c ps)"
  shows "\<exists>qs qs'. ps = qs @ qs' \<and> concat bss = concat (map enc_s2c qs) @ st
    \<and> (case qs' of [] \<Rightarrow> st = [] | q # _ \<Rightarrow> length st < s2c_size q) \<and> c' = fold apply_s2c qs c"
proof -
  obtain qs qs' where q: "ps = qs @ qs'" "frames (concat bss) = (map enc_s2c qs, snd (frames (concat bss)))"
    "concat bss = concat (map enc_s2c qs) @ snd (frames (concat bss))"
    "case qs' of [] \<Rightarrow> snd (frames (concat bss)) = [] | q # _ \<Rightarrow> length (snd (frames (concat bss))) < s2c_size q"
    using enc_prefix [OF s] by blast
  have g: "\<forall>p \<in> set (fst (frames (concat bss))). server_packet p"
    using ps q(1) by (subst q(2)) (auto simp: server_packet_def)
  have z: "rd8 (snd (frames xs)) \<noteq> 0 \<or> snd (frames xs) = []" if "concat bss = xs @ ys" for xs ys
    using enc_prefix [of xs "ys @ later" ps] that s by auto
  have f: "fold (\<lambda>p (st, c). (st, handle_packet p c)) xs (x, y) = (x, fold handle_packet xs y)" for xs y and x :: "byte list"
    by (induction xs arbitrary: y) simp_all
  have "fst (frames (concat bss)) = map enc_s2c qs" by (subst q(2)) simp
  then have "(st, c') = (snd (frames (concat bss)), fold handle_packet (map enc_s2c qs) c)"
    using client.reads_stream [OF receives_reads [OF r]] run g z f [of "map enc_s2c qs"] by simp
  then show ?thesis using q ps fold_enc [of qs c] by - (rule exI [of _ qs], rule exI [of _ qs'], cases qs'; simp)
qed

text \<open>
  C9: However the network cuts the server's stream into receives, and wherever it stands, the
  client has handled exactly the packets that are complete, in order and with the server's
  fields, and keeps less than one packet.
\<close>

theorem client_stream:
  assumes "receives bss ([], c) = Some (st, c')" "g_running c"
    and "\<forall>q \<in> set ps. wf_s2c q \<and> (\<forall>m. q \<noteq> S2C_LoginResult False m)"
    and "concat bss @ later = concat (map enc_s2c ps)"
  shows "\<exists>qs qs'. ps = qs @ qs' \<and> concat bss = concat (map enc_s2c qs) @ st
    \<and> (case qs' of [] \<Rightarrow> st = [] | q # _ \<Rightarrow> length st < s2c_size q) \<and> c' = fold apply_s2c qs c"
  by (rule client_stream_lemma [OF assms])

theorem client_stream_witness:
  "\<exists>sc. receives [take 5 (enc_s2c (S2C_ItemRemove 3)), drop 5 (enc_s2c (S2C_ItemRemove 3)) @ [9, 10]]
      ([], (start_client (\<lambda>_. 0))\<lparr>g_running := True\<rparr>) = Some sc \<and> fst sc = [9, 10]"
proof -
  let ?c = "(start_client (\<lambda>_. 0))\<lparr>g_running := True\<rparr>" and ?p = "enc_s2c (S2C_ItemRemove 3)"
  let ?bss = "[take 5 ?p, drop 5 ?p @ [9, 10]]"
  have l: "length ?p = 9" by simp
  have "enc_s2c (S2C_RemovePlayer 5) = [9, 10] @ drop 2 (enc_s2c (S2C_RemovePlayer 5))"
    by (simp add: enc_s2c_def le1_def le.simps eval_nat_numeral)
  then have s: "concat ?bss @ drop 2 (enc_s2c (S2C_RemovePlayer 5))
      = concat (map enc_s2c [S2C_ItemRemove 3, S2C_RemovePlayer 5])"
    by simp
  have "fst (client_recv (take 5 ?p) ([], ?c)) = take 5 ?p"
    by (simp add: client_recv_def enc_s2c_def le1_def le.simps drain.simps rd8_def)
  then obtain st c' where r: "receives ?bss ([], ?c) = Some (st, c')"
    using l by (cases "client_recv (drop 5 ?p @ [9, 10]) (client_recv (take 5 ?p) ([], ?c))") auto
  from client_stream [OF r _ _ s] obtain qs qs' where q: "[S2C_ItemRemove 3, S2C_RemovePlayer 5] = qs @ qs'"
    "concat ?bss = concat (map enc_s2c qs) @ st" "case qs' of [] \<Rightarrow> st = [] | q # _ \<Rightarrow> length st < s2c_size q"
    by (auto simp: in32_def)
  have "length (concat ?bss) = length (concat (map enc_s2c qs)) + length st" by (simp only: q(2) length_append)
  then have "qs = [S2C_ItemRemove 3]"
    using q(1,3) by (cases qs rule: list.exhaust) (auto simp: Cons_eq_append_conv append_eq_Cons_conv split: list.splits)
  then have e: "concat (map enc_s2c qs) = ?p" by simp
  have "concat ?bss = (take 5 ?p @ drop 5 ?p) @ [9, 10]" by (simp only: concat.simps append_assoc append_Nil2)
  from trans [OF this [symmetric] q(2)] have "?p @ [9, 10] = ?p @ st" unfolding e append_take_drop_id .
  then have "st = [9, 10]" by (rule same_append_eq [THEN iffD1, symmetric])
  then have "fst (st, c') = [9, 10]" by simp
  with r show ?thesis by (intro exI conjI)
qed

end
