(* ===== verification/ClientSafe.thy ===== *)
theory ClientSafe
  imports ClientStream Apart
begin

text \<open>
  What the client sends and shows, whatever is typed and whatever bytes arrive: its state stays
  well-formed, its stream is one of complete packets that the server reads back, the texts of the
  display fit their arrays, and what it draws agrees with what the server decides.
\<close>

section \<open>Well-formed states\<close>

definition typed :: "nat \<Rightarrow> byte list \<Rightarrow> bool" where
  "typed n s \<longleftrightarrow> length s \<le> n \<and> (\<forall>b \<in> set s. printable b)"

definition c2s_stream :: "byte list \<Rightarrow> bool" where
  "c2s_stream bs \<longleftrightarrow> (\<exists>qs. (\<forall>q \<in> set qs. wf_c2s q) \<and> bs = concat (map enc_c2s qs))"

definition client_ok :: "client \<Rightarrow> bool" where
  "client_ok c \<longleftrightarrow> typed 127 (g_chat_input c) \<and> typed 19 (g_input_name c) \<and> typed 19 (g_input_ip c)
    \<and> 0 \<notin> set (s_login_name c) \<and> length (s_login_name c) \<le> 19
    \<and> length (g_msgs c) \<le> MAX_MSGS \<and> length (g_inventory c) = ITEM_SLOT_COUNT \<and> length (g_quests c) = 2
    \<and> in32 (g_move_time c) \<and> c2s_stream (g_sent c)"

lemma c2s_stream_append: "c2s_stream bs \<Longrightarrow> wf_c2s q \<Longrightarrow> c2s_stream (bs @ enc_c2s q)"
proof -
  assume a: "c2s_stream bs" "wf_c2s q"
  then obtain qs where "\<forall>q \<in> set qs. wf_c2s q" "bs = concat (map enc_c2s qs)" by (auto simp: c2s_stream_def)
  with a(2) show ?thesis unfolding c2s_stream_def by (intro exI [of _ "qs @ [q]"]) auto
qed

lemma c2s_stream_Nil [simp]: "c2s_stream []"
  by (simp add: c2s_stream_def)

lemma net_send_ok [simp]: "client_ok c \<Longrightarrow> wf_c2s q \<Longrightarrow> client_ok (net_send (enc_c2s q) c)"
  by (auto simp: client_ok_def net_send_def c2s_stream_append)

lemma push_msg_ok [simp]: "client_ok c \<Longrightarrow> client_ok (push_msg s c)"
  by (auto simp: client_ok_def push_msg_def Let_def)

lemma type_into_typed [simp]: "typed n s \<Longrightarrow> typed n (type_into n ch s)"
  by (auto simp: typed_def type_into_def dest: in_set_butlastD)

lemma typed_Nil [simp]: "typed n []"
  by (simp add: typed_def)

lemma printable_not_0: "\<not> printable 0"
  by (simp add: printable_def)

lemma typed_wf [simp]:
  "0 \<notin> set (strncpy_s s n)" "length (strncpy_s s 19) < 20" "length (strncpy_s s 127) < 128"
  using length_strncpy_s [of s 19] length_strncpy_s [of s 127] by (simp_all add: zero_notin_strncpy_s)

lemma update_ok [simp]:
  "client_ok (c\<lparr>g_state := a\<rparr>) = client_ok c" "client_ok (c\<lparr>g_running := b\<rparr>) = client_ok c"
  "client_ok (c\<lparr>g_sock := so\<rparr>) = client_ok c" "client_ok (c\<lparr>g_my_id := i\<rparr>) = client_ok c"
  "client_ok (c\<lparr>g_my_x := i\<rparr>) = client_ok c" "client_ok (c\<lparr>g_my_y := i\<rparr>) = client_ok c"
  "client_ok (c\<lparr>g_my_hp := i\<rparr>) = client_ok c" "client_ok (c\<lparr>g_my_max_hp := i\<rparr>) = client_ok c"
  "client_ok (c\<lparr>g_my_level := i\<rparr>) = client_ok c" "client_ok (c\<lparr>g_my_xp := i\<rparr>) = client_ok c"
  "client_ok (c\<lparr>g_my_exp_next := i\<rparr>) = client_ok c" "client_ok (c\<lparr>g_my_dir := d\<rparr>) = client_ok c"
  "client_ok (c\<lparr>g_objs := os\<rparr>) = client_ok c" "client_ok (c\<lparr>g_world_items_cl := its\<rparr>) = client_ok c"
  "client_ok (c\<lparr>g_proj := p\<rparr>) = client_ok c" "client_ok (c\<lparr>g_ticks := n\<rparr>) = client_ok c"
  "client_ok (c\<lparr>g_effect := e\<rparr>) = client_ok c" "client_ok (c\<lparr>g_last_skill_time := i\<rparr>) = client_ok c"
  "client_ok (c\<lparr>g_last_ranged_time := i\<rparr>) = client_ok c" "client_ok (c\<lparr>g_quest_panel_open := b\<rparr>) = client_ok c"
  "client_ok (c\<lparr>g_map_open := b\<rparr>) = client_ok c" "client_ok (c\<lparr>g_chat_mode := b\<rparr>) = client_ok c"
  "client_ok (c\<lparr>g_focus := i\<rparr>) = client_ok c" "client_ok (c\<lparr>g_threads := n\<rparr>) = client_ok c"
  by (simp_all add: client_ok_def)

text \<open>Any bytes from the network keep it.\<close>

lemma upd_obj_ok [simp]: "client_ok c \<Longrightarrow> client_ok (upd_obj k f c)"
  by (simp add: upd_obj_def split: option.split)

lemma on_item_add_ok: "client_ok c \<Longrightarrow> client_ok (on_item_add t n c)"
  by (auto simp: client_ok_def on_item_add_def Let_def)

lemma on_quest_update_ok: "client_ok c \<Longrightarrow> client_ok (on_quest_update q st cur tgt c)"
  by (auto simp: client_ok_def on_quest_update_def)

lemma handle_packet_ok: "client_ok c \<Longrightarrow> client_ok (handle_packet p c)"
  by (simp add: handle_packet_def Let_def on_login_result_def on_avatar_info_def on_add_player_def on_remove_player_def
    on_move_player_def on_projectile_def steady_now_def on_chat_def on_stat_info_def on_item_appear_def on_item_remove_def
    on_item_add_ok on_quest_update_ok on_damage_info_def)

lemma drain_ok: "client_ok c \<Longrightarrow> client_ok (snd (drain buf c))"
proof (induction buf c rule: drain.induct)
  case (1 buf c)
  then show ?case by (subst drain.simps) (auto simp: Let_def handle_packet_ok)
qed

lemma client_recv_ok: "client_ok c \<Longrightarrow> client_ok (snd (client_recv bs (st, c)))"
  by (simp add: client_recv_def drain_ok)

text \<open>Any event of the window keeps it.\<close>

lemma do_connect_ok: "client_ok c \<Longrightarrow> client_ok (snd (do_connect answer name c))"
  by (simp add: do_connect_def c_send_login_def split: option.split)
    (auto simp: client_ok_def typed_def net_send_def c2s_stream_append zero_notin_strncpy_s length_strncpy_s)

lemma login_event_ok:
  assumes "client_ok c"
  shows "client_ok (login_event ev c)"
proof (cases ev)
  case (KeyPressed k answer)
  have "client_ok (snd (do_connect answer (g_input_name c) c))" by (rule do_connect_ok [OF assms])
  then show ?thesis
    using assms by (cases "do_connect answer (g_input_name c) c")
      (auto simp: login_event_def KeyPressed split: key.split bool.split)
qed (use assms in \<open>auto simp: login_event_def client_ok_def Let_def\<close>)

lemma chat_event_ok: "client_ok c \<Longrightarrow> client_ok (chat_event ev c)"
  by (auto simp: chat_event_def c_send_chat_def split: ui_event.splits key.splits)
    (auto simp: client_ok_def net_send_def c2s_stream_append)

lemma press_move_ok: "client_ok c \<Longrightarrow> dir_ok d \<Longrightarrow> client_ok (press_move d c)"
  by (auto simp: press_move_def c_send_move_def Let_def client_ok_def net_send_def c2s_stream_append)

lemma item_ok_named [simp]: "item_ok ITEM_HP_POTION" "item_ok ITEM_HI_POTION" "item_ok ITEM_ELIXIR" "item_ok ITEM_ATK_BOOST"
  "item_ok ITEM_DEF_BOOST" "item_ok ITEM_SPD_BOOST"
  by (simp_all add: item_ok_def item_of_int_def)

lemma press_item_ok [simp]: "client_ok c \<Longrightarrow> item_ok t \<Longrightarrow> client_ok (press_item n t c)"
  by (simp add: press_item_def c_send_use_item_def)

lemma game_event_ok: "client_ok c \<Longrightarrow> client_ok (game_event ev c)"
  by (cases ev) (simp_all add: game_event_def steady_now_def press_move_ok c_send_attack_def c_send_skill_def
    c_send_ranged_attack_def split: key.split, simp add: client_ok_def)

lemma on_event_ok: "client_ok c \<Longrightarrow> client_ok (on_event ev c)"
  by (simp add: on_event_def login_event_ok chat_event_ok game_event_ok)

lemma start_client_ok: "client_ok (start_client clk)"
  by (auto simp: client_ok_def start_client_def typed_def bytes_of_def printable_def in32_def uint_word_of_int)

section \<open>Runs\<close>

text \<open>What can happen to the client: an event of its window, or what \<open>recv\<close> returns.\<close>

datatype client_input = Window ui_event | Network "byte list"

fun client_step :: "client_input \<Rightarrow> byte list \<times> client \<Rightarrow> byte list \<times> client" where
  "client_step (Window ev) (st, c) = (st, on_event ev c)"
| "client_step (Network bs) (st, c) = client_recv bs (st, c)"

lemma client_run_ok: "client_ok c \<Longrightarrow> client_ok (snd (fold client_step ins (st, c)))"
proof (induction ins arbitrary: st c)
  case (Cons i ins)
  obtain st' c' where s: "client_step i (st, c) = (st', c')" by (cases "client_step i (st, c)")
  have "client_ok c'"
    using Cons.prems client_recv_ok [of c _ st] on_event_ok [of c] s by (cases i) (auto, metis snd_conv)
  then show ?case using Cons.IH by (simp add: s)
qed simp

text \<open>
  C40: Whatever is typed and whatever bytes the network delivers, hostile ones included, the bytes
  the client has sent are a sequence of complete packets with fields in range, which the server
  decodes to the same packets; names and chat lines are printable and fit their arrays, at most
  six messages are kept, and the arrays of the inventory and the quests keep their sizes.
\<close>

theorem client_well_typed:
  "client_ok (snd (fold client_step ins ([], start_client clk)))"
  by (rule client_run_ok [OF start_client_ok])

section \<open>Client and server\<close>

text \<open>
  Receives of one session, and between them anything else the server's threads do: connections,
  receives of other sessions, sends, timers, NPC turns, database answers, also the closing of this
  session. A receive gets at most the room the last one asked for.
\<close>

inductive hears :: "int \<Rightarrow> world \<Rightarrow> byte list list \<Rightarrow> world \<Rightarrow> bool" for k w0 where
  hears_start: "hears k w0 [] w0"
| hears_other: "hears k w0 bss w \<Longrightarrow> elsewhere k ev \<Longrightarrow> serve ev w = Some (Inr w') \<Longrightarrow> hears k w0 bss w'"
| hears_bytes: "hears k w0 bss w \<Longrightarrow> bs \<noteq> [] \<Longrightarrow> length bs \<le> m_recv_len (w_pl w k)
    \<Longrightarrow> on_recv k bs w = Some (Inr w') \<Longrightarrow> hears k w0 (bss @ [bs]) w'"

text \<open>A prefix of a stream of packets is complete packets and the beginning of one.\<close>

lemma c2s_prefix:
  assumes "xs @ ys = concat (map enc_c2s ps)" "\<forall>q \<in> set ps. wf_c2s q"
  shows "\<exists>qs part. xs = concat (map enc_c2s qs) @ part \<and> (\<forall>q \<in> set qs. wf_c2s q) \<and> incomplete part
    \<and> c2s_stream (part @ ys) \<and> length part < 133"
  using assms
proof (induction ps arbitrary: xs)
  case Nil
  then show ?case by - (rule exI [of _ "[]"], rule exI [of _ "[]"], simp add: incomplete_def)
next
  case (Cons p ps)
  show ?case
  proof (cases "c2s_size p \<le> length xs")
    case True
    then have "take (c2s_size p) xs = take (c2s_size p) (xs @ ys)" by simp
    then have "take (c2s_size p) xs = enc_c2s p" by (simp add: Cons.prems)
    then have xs: "xs = enc_c2s p @ drop (c2s_size p) xs"
      using append_take_drop_id [of "c2s_size p" xs] by simp
    have "drop (c2s_size p) xs @ ys = concat (map enc_c2s ps)"
      using Cons.prems(1) by (subst (asm) xs) simp
    from Cons.IH [OF this] Cons.prems(2) obtain qs part where q: "drop (c2s_size p) xs = concat (map enc_c2s qs) @ part"
      "\<forall>q \<in> set qs. wf_c2s q" "incomplete part"
      "c2s_stream (part @ ys)" "length part < 133"
      by auto
    show ?thesis
      by (rule exI [of _ "p # qs"], rule exI [of _ part]) (use q xs Cons.prems(2) in auto)
  next
    case False
    have "incomplete xs"
    proof (cases "xs = []")
      case f: False
      have "rd8 xs = int (c2s_size p)"
        using rd8_append [OF f, of ys] Cons.prems(1) rd8_enc_c2s [of p] by simp
      then show ?thesis using False by (simp add: incomplete_def)
    qed (simp add: incomplete_def)
    moreover have "c2s_stream (xs @ ys)" unfolding c2s_stream_def by (rule exI [of _ "p # ps"]) (use Cons.prems in simp)
    ultimately show ?thesis using False c2s_size_bounds [of p] by - (rule exI [of _ "[]"], rule exI [of _ xs], simp)
  qed
qed

text \<open>
  What the server's buffer holds after \<open>xs\<close>, when \<open>ys\<close> is to come, as long as the session lives.
\<close>

definition heard :: "int \<Rightarrow> byte list \<Rightarrow> byte list \<Rightarrow> world \<Rightarrow> bool" where
  "heard k xs ys w \<longleftrightarrow> (\<exists>qs part. xs = concat (map enc_c2s qs) @ part \<and> incomplete part \<and> c2s_stream (part @ ys)
    \<and> take (m_prev_recv (w_pl w k)) (m_buff (w_pl w k)) = part \<and> m_prev_recv (w_pl w k) = length part
    \<and> m_recv_len (w_pl w k) = BUF_SIZE - length part \<and> length part < 133)"

lemma heard_apart: "apart k w w' \<Longrightarrow> heard k xs ys w' = heard k xs ys w"
  by (simp add: heard_def apart_def)

lemma heard_more:
  assumes h: "heard k xs (bs @ ys) w" and l: "w_live w k" and bs: "bs \<noteq> []"
  shows "\<exists>w'. on_recv k bs w = Some (Inr w') \<and> heard k (xs @ bs) ys w'"
proof -
  obtain qs part where q: "xs = concat (map enc_c2s qs) @ part" "incomplete part" "c2s_stream (part @ bs @ ys)"
    "take (m_prev_recv (w_pl w k)) (m_buff (w_pl w k)) = part" "m_prev_recv (w_pl w k) = length part"
    using h by (auto simp: heard_def)
  have n: "m_prev_recv (w_pl w k) \<le> length (m_buff (w_pl w k))"
    using arg_cong [OF q(4), of length] q(5) by simp
  obtain ps1 where ps1: "(part @ bs) @ ys = concat (map enc_c2s ps1)" "\<forall>q \<in> set ps1. wf_c2s q"
    using q(3) by (auto simp: c2s_stream_def)
  obtain qs2 part2 where q2: "part @ bs = concat (map enc_c2s qs2) @ part2" "\<forall>q \<in> set qs2. wf_c2s q"
    "incomplete part2" "c2s_stream (part2 @ ys)" "length part2 < 133"
    using c2s_prefix [OF ps1] by blast
  obtain b where b: "on_recv k bs w = Some (Inr (upd_pl k (\<lambda>s. s\<lparr>m_buff := b, m_prev_recv := length part2,
      m_recv_len := BUF_SIZE - length part2\<rparr>) (fold (packet_effect k) qs2 w)))" "take (length part2) b = part2"
    using recv_frames_kept [OF q2(2,3) bs l _ n, unfolded q(4), OF q2(1)] by blast
  have "xs @ bs = concat (map enc_c2s (qs @ qs2)) @ part2" using q(1) q2(1) by simp
  then have "heard k (xs @ bs) ys (upd_pl k (\<lambda>s. s\<lparr>m_buff := b, m_prev_recv := length part2,
      m_recv_len := BUF_SIZE - length part2\<rparr>) (fold (packet_effect k) qs2 w))"
    unfolding heard_def by - (rule exI [of _ "qs @ qs2"], rule exI [of _ part2], simp add: q2(3-5) b(2) upd_pl_def)
  with b(1) show ?thesis by blast
qed

lemma recv_dead: "\<not> w_live w k \<Longrightarrow> bs \<noteq> [] \<Longrightarrow> on_recv k bs w = Some (Inr w)"
  by (simp add: on_recv_def recv_with_def)

lemma hears_heard:
  assumes "hears k w0 bss w" "0 \<le> k" "k < w_player_index w0" "heard k [] (concat bss @ ys) w0"
  shows "k < w_player_index w \<and> (w_live w k \<longrightarrow> heard k (concat bss) ys w)"
  using assms
proof (induction arbitrary: ys rule: hears.induct)
  case (hears_other bss w ev w')
  note i = hears_other.IH [OF hears_other.prems]
  have "apart k w w'" by (rule apart_serve [OF hears_other.hyps(3,2)]) (use i hears_other.prems in auto)
  then show ?case using i heard_apart [of k w w'] by (auto simp: apart_def)
next
  case (hears_bytes bss w bs w')
  have i: "k < w_player_index w" "w_live w k \<longrightarrow> heard k (concat bss) (bs @ ys) w"
    using hears_bytes.IH [of "bs @ ys"] hears_bytes.prems by simp_all
  have "k < w_player_index w'" using i(1) recv_index [OF hears_bytes.hyps(4)] by simp
  moreover have "heard k (concat (bss @ [bs])) ys w'" if "w_live w' k"
  proof (cases "w_live w k")
    case True
    from heard_more [OF i(2) [rule_format, OF True] True hears_bytes.hyps(2)] hears_bytes.hyps(4) show ?thesis by auto
  next
    case False
    then show ?thesis using recv_dead [OF False hears_bytes.hyps(2)] hears_bytes.hyps(4) that by simp
  qed
  ultimately show ?case by blast
qed simp

lemma hears_again:
  assumes "hears k w0 bss w" "0 \<le> k" "k < w_player_index w0" "heard k [] (concat bss @ bs @ ys) w0" "bs \<noteq> []"
  shows "\<exists>w'. on_recv k bs w = Some (Inr w')"
  using hears_heard [OF assms(1-4)] heard_more [of k "concat bss" bs ys w] recv_dead [of w k bs] assms(5)
  by (cases "w_live w k") auto

lemma heard_start:
  assumes "m_prev_recv (w_pl w k) = 0" "m_recv_len (w_pl w k) = BUF_SIZE" "c2s_stream xs"
  shows "heard k [] xs w"
  unfolding heard_def by (rule exI [of _ "[]"], rule exI [of _ "[]"]) (use assms in \<open>simp add: incomplete_def\<close>)

text \<open>
  C5: The bytes this client sends never break the server. However TCP cuts them into receives,
  whatever the client's user did, whatever the server sent it, and whatever the server's threads do
  in between, for other sessions and for this one, each receive is handled to its end: the loop does
  not hang and reads nothing past the buffer. The session is one that was accepted: its id is handed
  out, its buffer empty.
\<close>

theorem client_never_breaks_server:
  assumes "0 \<le> k" "k < w_player_index w0"
    and "m_prev_recv (w_pl w0 k) = 0" "m_recv_len (w_pl w0 k) = BUF_SIZE"
    and "hears k w0 bss w" "bs \<noteq> []"
    and "concat bss @ bs @ ys = g_sent (snd (fold client_step ins ([], start_client clk)))"
  shows "\<exists>w'. on_recv k bs w = Some (Inr w')"
proof -
  have "c2s_stream (g_sent (snd (fold client_step ins ([], start_client clk))))"
    using client_run_ok [OF start_client_ok] by (simp add: client_ok_def)
  then show ?thesis
    using hears_again [OF assms(5,1,2) heard_start [OF assms(3,4)] assms(6), of ys] by (simp add: assms(7))
qed

theorem client_never_breaks_server_witness:
  "\<exists>w'. on_recv 1 (take 7 (enc_c2s (C2S_Login [120]))) (snd (do_accept 9 (upd_pl 1 do_recv lobby))) = Some (Inr w')"
proof (rule client_never_breaks_server)
  let ?ins = "[Window (TextEntered 120), Window (KeyPressed K_Enter (Some 4))]"
  let ?w = "upd_pl 1 do_recv lobby"
  show "concat [] @ take 7 (enc_c2s (C2S_Login [120])) @ drop 7 (enc_c2s (C2S_Login [120]))
      = g_sent (snd (fold client_step ?ins ([], start_client (\<lambda>_. 0))))"
    by (simp add: on_event_def start_client_def login_event_def type_into_def printable_def do_connect_def c_send_login_def
      net_send_def strncpy_s_def cstr_def)
  show "m_prev_recv (w_pl ?w 1) = 0" "m_recv_len (w_pl ?w 1) = BUF_SIZE"
    by (simp_all add: lobby_def new_session_def upd_pl_def do_recv_def)
  show "(1 :: int) < w_player_index ?w" by (simp add: upd_pl_def lobby_def)
  show "hears 1 ?w [] (snd (do_accept 9 ?w))"
    by (rule hears_other [OF hears_start, where ev = "Accept 9"]) (simp_all add: elsewhere_def serve_def)
qed simp_all

section \<open>The display\<close>

text \<open>
  What the client draws agrees with what the server decides: the flash of a normal attack
  covers exactly the tiles the server's attack hits, and every object the server shows (within
  the view range of 5 tiles) lies in the part of the world that is drawn.
\<close>

lemma arc_tiles_arc: "\<forall>n. d \<noteq> DIR_RAW n \<Longrightarrow> (dx, dy) \<in> set (arc_tiles d) \<longleftrightarrow> in_arc d dx dy"
  by (cases d) (auto simp: arc_tiles_def in_arc_def)

lemma in_view_drawn:
  assumes "\<bar>i_x it - g_my_x c\<bar> \<le> VIEW_RANGE" "\<bar>i_y it - g_my_y c\<bar> \<le> VIEW_RANGE"
  shows "item_drawn c it" "obstacle_drawn c (i_x it) (i_y it) 1 1"
  using assms by (auto simp: item_drawn_def obstacle_drawn_def Let_def)

lemma digits_nonempty: "digits n \<noteq> []"
  by (subst digits.simps) simp

lemma digits_length: "length (digits n) \<le> Suc k \<longleftrightarrow> n < 10 ^ Suc k"
proof (induction k arbitrary: n)
  case 0
  show ?case by (subst digits.simps) (simp add: digits_nonempty)
next
  case (Suc k)
  have "length (digits n) \<le> Suc (Suc k) \<longleftrightarrow> n < 10 \<or> length (digits (n div 10)) \<le> Suc k"
    by (subst digits.simps) simp
  also have "\<dots> \<longleftrightarrow> n < 10 \<or> n div 10 < 10 ^ Suc k" by (simp only: Suc.IH)
  also have "\<dots> \<longleftrightarrow> n < 10 ^ Suc (Suc k)"
  proof -
    have "n < 10 \<Longrightarrow> n div 10 < 10 ^ Suc k" by simp
    moreover have "n div 10 < 10 ^ Suc k \<longleftrightarrow> n < 10 ^ Suc (Suc k)"
      by (simp add: div_less_iff_less_mult mult.commute)
    ultimately show ?thesis by blast
  qed
  finally show ?case .
qed

lemma dec_int_length: "length (dec_int i) \<le> Suc (Suc k) \<longleftrightarrow> - (10 ^ Suc k) < i \<and> i < 10 ^ Suc (Suc k)"
  using digits_length [of "nat (- i)" k] digits_length [of "nat i" "Suc k"]
  by (auto simp: dec_int_def nat_less_iff)

lemma fits_simps: "c_sprintf_s n t \<noteq> None \<longleftrightarrow> length t < n" "(\<exists>y. c_sprintf_s n t = Some y) \<longleftrightarrow> length t < n"
  by (simp_all add: c_sprintf_s_def)

lemma count_text_fits: "count_text cnt \<noteq> None \<longleftrightarrow> -100000 < cnt \<and> cnt < 1000000"
proof -
  have "count_text cnt \<noteq> None \<longleftrightarrow> length (dec_int cnt) \<le> Suc (Suc 4)"
    by (simp add: count_text_def fits_simps bytes_of_def del: not_None_eq) linarith
  then show ?thesis using dec_int_length [of cnt 4] by simp
qed

lemma slot_text_fits: "s < 6 \<Longrightarrow> slot_text s \<noteq> None"
proof -
  assume "s < 6"
  then have "length (dec_int (int s + 1)) \<le> Suc (Suc 0)" by (subst dec_int_length) simp
  moreover have "length (slot_label s) \<le> 3" using \<open>s < 6\<close> by (auto simp: slot_label_def less_Suc_eq numeral_eq_Suc bytes_of_def)
  ultimately show ?thesis by (simp add: slot_text_def fits_simps bytes_of_def)
qed

lemma quest_text_fits: "0 \<le> q_current q \<Longrightarrow> q_current q < 10000000 \<Longrightarrow> 0 \<le> q_target q \<Longrightarrow> q_target q < 10000000
    \<Longrightarrow> quest_text q \<noteq> None"
  using dec_int_length [of "q_current q" 5] dec_int_length [of "q_target q" 5]
  by (simp add: quest_text_def fits_simps bytes_of_def)

lemma hp_text_fits: "in16 (g_my_hp c) \<Longrightarrow> in16 (g_my_max_hp c) \<Longrightarrow> hp_text c \<noteq> None"
  using dec_int_length [of "g_my_hp c" 4] dec_int_length [of "g_my_max_hp c" 4]
  by (simp add: hp_text_def fits_simps bytes_of_def in16_def)

lemma exp_text_fits: "in32 (g_my_level c) \<Longrightarrow> in32 (g_my_xp c) \<Longrightarrow> in32 (g_my_exp_next c) \<Longrightarrow> exp_text c \<noteq> None"
  using length_dec_int [of "g_my_level c"] length_dec_int [of "g_my_xp c"] length_dec_int [of "g_my_exp_next c"]
  by (simp add: exp_text_def fits_simps bytes_of_def)

lemma hint_text_fits: "in32 (g_my_id c) \<Longrightarrow> in16 (g_my_x c) \<Longrightarrow> in16 (g_my_y c) \<Longrightarrow> hint_text c \<noteq> None"
  using length_dec_int [of "g_my_id c"] dec_int_length [of "g_my_x c" 4] dec_int_length [of "g_my_y c" 4]
  by (auto simp: hint_text_def fits_simps bytes_of_def in16_def pad4_def split: direction.split)

section \<open>Two events that do more than meant\<close>

text \<open>
  The key that opens the chat also types its letter into it: the window delivers the key and
  then its character.
\<close>

theorem chat_opens_with_t:
  assumes "g_state c = PLAYING" "\<not> g_chat_mode c"
  shows "g_chat_mode (fold on_event [KeyPressed K_T None, TextEntered 116] c)
    \<and> g_chat_input (fold on_event [KeyPressed K_T None, TextEntered 116] c) = bytes_of ''t''"
  using assms by (simp add: on_event_def game_event_def chat_event_def type_into_def printable_def bytes_of_def)

theorem chat_opens_with_t_witness:
  "g_chat_input (fold on_event [KeyPressed K_T None, TextEntered 116] ((start_client (\<lambda>_. 0))\<lparr>g_state := PLAYING\<rparr>)) = bytes_of ''t''"
  using chat_opens_with_t [of "(start_client (\<lambda>_. 0))\<lparr>g_state := PLAYING\<rparr>"] by (simp add: start_client_def)

text \<open>
  Until the answer to a login arrives, Enter connects again: the first socket is forgotten
  without being closed, a second thread reads the new one, and both log in.
\<close>

theorem second_enter_reconnects:
  assumes "g_state c = LOGIN" "g_input_name c \<noteq> []" "c' = fold on_event [KeyPressed K_Enter (Some s1), KeyPressed K_Enter (Some s2)] c"
  shows "g_sock c' = Some s2 \<and> g_threads c' = g_threads c + 2
    \<and> g_sent c' = g_sent c @ concat (replicate 2 (enc_c2s (C2S_Login (strncpy_s (strncpy_s (g_input_name c) 19) 19))))"
  using assms by (simp add: on_event_def login_event_def do_connect_def c_send_login_def net_send_def numeral_2_eq_2)

theorem second_enter_reconnects_witness:
  "g_threads (fold on_event [KeyPressed K_Enter (Some 4), KeyPressed K_Enter (Some 5)]
    ((start_client (\<lambda>_. 0))\<lparr>g_input_name := [120]\<rparr>)) = 2"
  using second_enter_reconnects [OF _ _ refl, of "(start_client (\<lambda>_. 0))\<lparr>g_input_name := [120]\<rparr>" 4 5]
  by (simp add: start_client_def)

end
