(* ===== verification/Display.thy ===== *)
theory Display
  imports ClientSafe Screen
begin

text \<open>
  What a frame shows and what drawing it does to the client: which states can be drawn at all,
  what of the state is always visible, and that a frame only reads the clock and ends effects.
\<close>

section \<open>Rounding\<close>

lemma powi_split: "(2::rat) powi (a - b) = 2 powi a / 2 powi b"
  by (simp add: power_int_diff)

lemma bitlen_pow: "n > 0 \<Longrightarrow> (2::rat) powi (bitlen n - 1) \<le> of_int n" "n > 0 \<Longrightarrow> (of_int n :: rat) < 2 powi bitlen n"
proof -
  assume n: "n > 0"
  have b: "2 ^ nat (bitlen n - 1) \<le> n \<and> n < 2 ^ nat (bitlen n)" using bitlen_bounds [OF n] .
  have pos: "bitlen n > 0" using n bitlen_eq_zero_iff [of n] bitlen_nonneg [of n] by linarith
  have p: "(2::rat) powi k = of_int (2 ^ nat k)" if "k \<ge> 0" for k using that by (simp add: power_int_def)
  have "(2::rat) powi (bitlen n - 1) = of_int (2 ^ nat (bitlen n - 1))" "(2::rat) powi bitlen n = of_int (2 ^ nat (bitlen n))"
    using p [of "bitlen n - 1"] p [of "bitlen n"] pos by simp_all
  then show "(2::rat) powi (bitlen n - 1) \<le> of_int n" "(of_int n :: rat) < 2 powi bitlen n"
    using b by (simp_all only: of_int_le_iff of_int_less_iff)
qed

lemma exponent2_le:
  assumes "x > 0"
  shows "2 powi exponent2 x \<le> x"
proof -
  obtain n d where q: "quotient_of x = (n, d)" by (cases "quotient_of x")
  have d: "d > 0" and x: "x = of_int n / of_int d" using quotient_of_denom_pos [OF q] quotient_of_div [OF q] by auto
  have n: "n > 0" using assms d by (simp add: x zero_less_divide_iff)
  have "2 powi (bitlen n - 1) / 2 powi bitlen d \<le> x"
    unfolding x using bitlen_pow(1) [OF n] bitlen_pow(2) [OF d] d n by (intro frac_le) auto
  then have "2 powi (bitlen n - bitlen d - 1) \<le> x" by (simp add: powi_split [symmetric] algebra_simps)
  then show ?thesis by (simp add: exponent2_def q Let_def)
qed

lemma round_even_bounds: "of_int (round_even x) \<le> x + 1" "0 \<le> x \<Longrightarrow> 0 \<le> round_even x"
proof -
  have "round_even x \<le> \<lfloor>x\<rfloor> + 1" "\<lfloor>x\<rfloor> \<le> round_even x" by (simp_all add: round_even_def Let_def)
  then show "of_int (round_even x) \<le> x + 1" "0 \<le> x \<Longrightarrow> 0 \<le> round_even x" by linarith+
qed

lemma fl_bounds: "0 \<le> x \<Longrightarrow> 0 \<le> fl x \<and> fl x \<le> 2 * x"
proof (cases "x = 0")
  case False
  assume "0 \<le> x"
  with False have x: "x > 0" by simp
  define u :: rat where "u = 2 powi (exponent2 x - 23)"
  have u: "u > 0" by (simp add: u_def)
  have "u = 2 powi exponent2 x / 2 ^ 23" by (simp add: u_def powi_split)
  also have "\<dots> \<le> x" using exponent2_le [OF x] x by (simp add: divide_le_eq)
  finally have "u \<le> x" .
  have "of_int (round_even (x / u)) * u \<le> (x / u + 1) * u"
    using round_even_bounds(1) u by (intro mult_right_mono) auto
  also have "\<dots> \<le> 2 * x" using u \<open>u \<le> x\<close> by (simp add: field_simps)
  finally show ?thesis using u x round_even_bounds(2) [of "x / u"] by (simp add: fl_def Let_def u_def [symmetric])
qed (simp add: fl_def)

section \<open>What drawing leaves alone\<close>

lemma draw_effect_keeps:
  "snd (draw_effect c) = c\<lparr>g_ticks := g_ticks (snd (draw_effect c)),
     g_effect := (fst (g_effect (snd (draw_effect c))), snd (g_effect c))\<rparr>"
proof (cases "g_effect c")
  case (Pair ty start)
  then show ?thesis
    by (cases ty; simp add: draw_effect_def steady_now_def Let_def; intro impI conjI client.equality; simp)
qed

lemma draw_proj_keeps:
  "snd (draw_proj c) = c\<lparr>g_ticks := g_ticks (snd (draw_proj c)),
     g_proj := (g_proj c)\<lparr>pj_active := pj_active (g_proj (snd (draw_proj c)))\<rparr>\<rparr>"
  by (simp add: draw_proj_def steady_now_def Let_def; intro impI conjI client.equality; simp)

lemma draw_skill_keeps: "snd (draw_skill c) = c\<lparr>g_ticks := Suc (g_ticks c)\<rparr>"
  by (simp add: draw_skill_def steady_now_def Let_def)

text \<open>The state a frame reads after its effects.\<close>

lemma effects_state:
  obtains t e p where "snd (draw_proj (snd (draw_effect c))) = c\<lparr>g_ticks := t, g_effect := e, g_proj := p\<rparr>"
proof -
  let ?c1 = "snd (draw_effect c)"
  have "snd (draw_proj ?c1) = c\<lparr>g_ticks := g_ticks (snd (draw_proj ?c1)), g_effect := (fst (g_effect ?c1), snd (g_effect c)),
      g_proj := (g_proj ?c1)\<lparr>pj_active := pj_active (g_proj (snd (draw_proj ?c1)))\<rparr>\<rparr>"
    by (subst draw_proj_keeps, subst (1) draw_effect_keeps) simp
  then show ?thesis by (rule that)
qed

section \<open>Which states can be drawn\<close>

lemma skill_text_fits: "in32 elapsed \<Longrightarrow> skill_text elapsed \<noteq> None"
proof (cases "elapsed \<ge> SKILL_CD_MS")
  case False
  assume e: "in32 elapsed"
  define n where "n = rat_of_int (SKILL_CD_MS - elapsed)"
  define x where "x = fl (fl n / 1000)"
  have "0 \<le> n" "n \<le> 2147486648" using False e by (simp_all add: n_def in32_def)
  then have "0 \<le> fl n" "fl n \<le> 2 * 2147486648" using fl_bounds [of n] by linarith+
  then have "0 \<le> x" "x \<le> 10000000" using fl_bounds [of "fl n / 1000"] unfolding x_def by linarith+
  moreover define k where "k = round_even (10 * x)"
  ultimately have "0 \<le> k" "rat_of_int k \<le> 10 * x + 1" using round_even_bounds [of "10 * x"] by simp_all
  then have k: "0 \<le> k" "k \<le> 100000001" using \<open>x \<le> 10000000\<close> by linarith+
  then have "0 \<le> k div 10" "k div 10 < 1000000000" "0 \<le> k mod 10" "k mod 10 < 100" by presburger+
  then have "length (dec_int (k div 10)) \<le> Suc (Suc 7)" "length (dec_int (k mod 10)) \<le> Suc (Suc 0)"
    unfolding dec_int_length by simp_all
  then have "length (one_decimal x) \<le> 12"
    by (simp add: one_decimal_def Let_def k_def [symmetric] bytes_of_def)
  moreover have "fl (fl (rat_of_int (SKILL_CD_MS - elapsed)) / 1000) = x" by (simp only: x_def n_def)
  ultimately show ?thesis using False unfolding skill_text_def by (simp add: c_sprintf_s_def bytes_of_def del: of_int_diff)
qed (simp add: skill_text_def c_sprintf_s_def bytes_of_def)

lemma elapsed_ms_in32: "in32 (elapsed_ms a b)"
  by (simp add: elapsed_ms_def)

lemma draw_skill_some: "fst (draw_skill c) \<noteq> None"
  using skill_text_fits [OF elapsed_ms_in32]
  by (auto simp: draw_skill_def steady_now_def Let_def Option.bind_eq_Some_conv)

lemma panel_row_some [simp]:
  assumes "in32 (q_current (g_quests c ! qi))" "in32 (q_target (g_quests c ! qi))"
  shows "panel_row c qi \<noteq> None"
  using length_dec_int [OF assms(1)] length_dec_int [OF assms(2)]
  by (simp add: panel_row_def Let_def Option.bind_eq_Some_conv c_sprintf_s_def bytes_of_def)

lemma those_some_iff: "those xs \<noteq> None \<longleftrightarrow> None \<notin> set xs"
  by (induction xs) (auto split: option.split)

lemma draw_inventory_some:
  "draw_inventory g c \<noteq> None \<longleftrightarrow> (\<forall>s < ITEM_SLOT_COUNT. -100000 < g_inventory c ! s \<and> g_inventory c ! s < 1000000)"
proof -
  have "draw_slot g c s = None \<longleftrightarrow> \<not> (-100000 < g_inventory c ! s \<and> g_inventory c ! s < 1000000)" if "s < 6" for s
    using slot_text_fits [OF that] count_text_fits [of "g_inventory c ! s"]
    by (auto simp: draw_slot_def Let_def split_beta)
  then have "None \<in> set (map (draw_slot g c) [0..<ITEM_SLOT_COUNT])
      \<longleftrightarrow> (\<exists>s < ITEM_SLOT_COUNT. \<not> (-100000 < g_inventory c ! s \<and> g_inventory c ! s < 1000000))"
    by (auto simp: image_iff eq_commute [of None])
  then show ?thesis
    unfolding draw_inventory_def using those_some_iff [of "map (draw_slot g c) [0..<ITEM_SLOT_COUNT]"] by auto
qed

lemma draw_tracker_some:
  assumes "length (g_quests c) = 2"
    and "\<forall>q \<in> set (g_quests c). 0 \<le> q_current q \<and> q_current q < 10000000 \<and> 0 \<le> q_target q \<and> q_target q < 10000000"
  shows "draw_tracker g c \<noteq> None" "draw_panel c \<noteq> None"
proof -
  have q: "tracker_row g c qi \<noteq> None" "panel_row c qi \<noteq> None" if "qi < 2" for qi
  proof -
    have "g_quests c ! qi \<in> set (g_quests c)" using assms(1) that by simp
    with assms(2) have "0 \<le> q_current (g_quests c ! qi)" "q_current (g_quests c ! qi) < 10000000"
      "0 \<le> q_target (g_quests c ! qi)" "q_target (g_quests c ! qi) < 10000000" by blast+
    then show "tracker_row g c qi \<noteq> None" "panel_row c qi \<noteq> None"
      using quest_text_fits [of "g_quests c ! qi"] panel_row_some [of c qi]
      by (auto simp: tracker_row_def Let_def Option.bind_eq_Some_conv in32_def)
  qed
  have "None \<notin> set (map (tracker_row g c) [0..<2])" "None \<notin> set (map (panel_row c) [0..<2])"
    by (auto simp: eq_commute [of None] q)
  then show "draw_tracker g c \<noteq> None" "draw_panel c \<noteq> None"
    unfolding draw_tracker_def draw_panel_def
    using those_some_iff [of "map (tracker_row g c) [0..<2]"] those_some_iff [of "map (panel_row c) [0..<2]"]
    by (auto simp: Option.bind_eq_Some_conv)
qed

lemma draw_game_some:
  "draw_game g obs oids iids c \<noteq> None \<longleftrightarrow> (let c2 = snd (draw_proj (snd (draw_effect c))) in
     draw_inventory g c2 \<noteq> None \<and> draw_tracker g c2 \<noteq> None \<and> draw_panel c2 \<noteq> None
     \<and> hp_text c2 \<noteq> None \<and> exp_text c2 \<noteq> None \<and> hint_text c2 \<noteq> None)"
  using draw_skill_some [of "snd (draw_proj (snd (draw_effect c)))"]
  by (auto simp: draw_game_def draw_hp_panel_def draw_exp_panel_def draw_hint_def Let_def split_beta Option.bind_eq_Some_conv)

lemma draw_game_fits:
  assumes "in16 (g_my_hp c)" "in16 (g_my_max_hp c)" "in16 (g_my_x c)" "in16 (g_my_y c)"
    and "in32 (g_my_level c)" "in32 (g_my_xp c)" "in32 (g_my_exp_next c)" "in32 (g_my_id c)" "length (g_quests c) = 2"
    and "\<forall>q \<in> set (g_quests c). 0 \<le> q_current q \<and> q_current q < 10000000 \<and> 0 \<le> q_target q \<and> q_target q < 10000000"
  shows "draw_game g obs oids iids c \<noteq> None
    \<longleftrightarrow> (\<forall>s < ITEM_SLOT_COUNT. -100000 < g_inventory c ! s \<and> g_inventory c ! s < 1000000)"
proof -
  obtain t e p where c2: "snd (draw_proj (snd (draw_effect c))) = c\<lparr>g_ticks := t, g_effect := e, g_proj := p\<rparr>" (is "_ = ?c2")
    by (rule effects_state)
  have "draw_tracker g ?c2 \<noteq> None" "draw_panel ?c2 \<noteq> None" using draw_tracker_some(1) [of ?c2 g] draw_tracker_some(2) [of ?c2] assms(9,10) by simp_all
  moreover have "hp_text ?c2 \<noteq> None" "exp_text ?c2 \<noteq> None" "hint_text ?c2 \<noteq> None"
    using hp_text_fits [of ?c2] exp_text_fits [of ?c2] hint_text_fits [of ?c2] assms(1-8) by simp_all
  ultimately show ?thesis
    using draw_inventory_some [of g ?c2] by (simp add: draw_game_some c2 Let_def del: not_None_eq)
qed

text \<open>
  C36: A frame of the game can be drawn exactly as long as every item count has at most six
  digits: a count of a million or more ends the client while it writes the inventory. (Quest
  counts below ten million and fields in the range of their types given.)
\<close>

theorem frame_drawn:
  assumes "in16 (g_my_hp c)" "in16 (g_my_max_hp c)" "in16 (g_my_x c)" "in16 (g_my_y c)"
    and "in32 (g_my_level c)" "in32 (g_my_xp c)" "in32 (g_my_exp_next c)" "in32 (g_my_id c)" "length (g_quests c) = 2"
    and "\<forall>q \<in> set (g_quests c). 0 \<le> q_current q \<and> q_current q < 10000000 \<and> 0 \<le> q_target q \<and> q_target q < 10000000"
  shows "draw_game g obs oids iids c \<noteq> None
    \<longleftrightarrow> (\<forall>s < ITEM_SLOT_COUNT. -100000 < g_inventory c ! s \<and> g_inventory c ! s < 1000000)"
  using draw_game_fits [OF assms] .

theorem frame_drawn_witness:
  "draw_game \<lparr> tex_ok = True, text_width = \<lambda>_ _ _. 0, to_pixel = \<lambda>_ _. (0, 0) \<rparr> [] [] []
     ((start_client (\<lambda>_. 0))\<lparr>g_inventory := [1000000, 0, 0, 0, 0, 0]\<rparr>) = None"
proof -
  let ?c = "(start_client (\<lambda>_. 0))\<lparr>g_inventory := [1000000, 0, 0, 0, 0, 0]\<rparr>"
  have "\<not> (\<forall>s < ITEM_SLOT_COUNT. -100000 < g_inventory ?c ! s \<and> g_inventory ?c ! s < 1000000)"
    by (auto intro!: exI [of _ 0])
  moreover have "in16 (g_my_hp ?c)" "in16 (g_my_max_hp ?c)" "in16 (g_my_x ?c)" "in16 (g_my_y ?c)" "in32 (g_my_level ?c)"
    "in32 (g_my_xp ?c)" "in32 (g_my_exp_next ?c)" "in32 (g_my_id ?c)" "length (g_quests ?c) = 2"
    "\<forall>q \<in> set (g_quests ?c). 0 \<le> q_current q \<and> q_current q < 10000000 \<and> 0 \<le> q_target q \<and> q_target q < 10000000"
    by (simp_all add: start_client_def in16_def in32_def)
  ultimately show ?thesis using frame_drawn [of ?c] by blast
qed

section \<open>What is shown\<close>

lemma draw_log_all: "my + 15 * of_nat (length ls) \<le> 676 \<Longrightarrow> m \<in> set ls
    \<Longrightarrow> \<exists>d \<in> set (draw_log my ls). d_shape d = Words m 12 False"
  by (induction ls arbitrary: my) (auto simp: shape_at_def algebra_simps)

lemma draw_gameD:
  assumes "draw_game g obs oids iids c = Some (fr, c')"
  defines "c2 \<equiv> snd (draw_proj (snd (draw_effect c)))"
  shows "c' = snd (draw_skill c2)" "\<forall>ob \<in> set (snapshot oids (g_objs c)). set (draw_object g ob) \<subseteq> set fr"
    "set (draw_items g (snapshot iids (g_world_items_cl c)) c) \<subseteq> set fr" "set (fst (draw_effect c)) \<subseteq> set fr" "set (draw_log 574 (g_msgs c')) \<subseteq> set fr"
    "set (the (fst (draw_skill c2))) \<subseteq> set fr"
  using assms(1) unfolding c2_def
  by (auto simp: draw_game_def Let_def split_beta Option.bind_eq_Some_conv)

lemma draw_game_keeps:
  assumes "draw_game g obs oids iids c = Some (fr, c')"
  shows "c' = c\<lparr>g_ticks := g_ticks c', g_effect := g_effect c', g_proj := g_proj c'\<rparr>"
proof -
  obtain t e p where c2: "snd (draw_proj (snd (draw_effect c))) = c\<lparr>g_ticks := t, g_effect := e, g_proj := p\<rparr>"
    by (rule effects_state)
  then show ?thesis using draw_gameD(1) [OF assms] by (simp add: draw_skill_keeps)
qed

lemma arc_flashed:
  assumes "\<forall>n. g_my_dir c \<noteq> DIR_RAW n" "in_arc (g_my_dir c) dx dy"
  shows "\<exists>d \<in> set (attack_flash c t). d_shape d = Box (92 / 100) (92 / 100)
    \<and> d_at d = (of_int (g_my_x c + dx) + 4 / 100, of_int (g_my_y c + dy) + 4 / 100)"
proof -
  have "(dx, dy) \<in> set (arc_tiles (g_my_dir c))" using arc_tiles_arc assms by blast
  then show ?thesis unfolding attack_flash_def Let_def
    by (intro bexI [of _ "(\<lambda>(dx, dy). outlined (255, 120, 0, fade 255 t) (5 / 100) (shape_at (Box (92 / 100) (92 / 100))
      (of_int (g_my_x c) + of_int dx + 4 / 100) (of_int (g_my_y c) + of_int dy + 4 / 100) (255, 220, 60, fade 160 t))) (dx, dy)"])
      (auto simp: outlined_def shape_at_def)
qed

text \<open>
  A frame holds every message kept, every object known, every item the server can have shown
  (those at most 5 tiles away), and, while the effect of a normal attack lasts, a mark on every tile
  the server's attack hits. Drawing changes nothing of the client but the clock readings used up and
  the effects, and keeps it well-formed.
\<close>

lemma in_snapshot: "i \<in> set ids \<Longrightarrow> m i = Some v \<Longrightarrow> v \<in> set (snapshot ids m)"
  by (force simp: snapshot_def)

lemma frame_shows:
  assumes "draw_game g obs oids iids c = Some (fr, c')" "client_ok c"
    and "dom (g_objs c) \<subseteq> set oids" "dom (g_world_items_cl c) \<subseteq> set iids"
  shows "(\<forall>m \<in> set (g_msgs c). \<exists>d \<in> set fr. d_shape d = Words m 12 False)
    \<and> (\<forall>i ob. g_objs c i = Some ob \<longrightarrow> set (draw_object g ob) \<subseteq> set fr)
    \<and> (\<forall>i it. g_world_items_cl c i = Some it \<and> \<bar>i_x it - g_my_x c\<bar> \<le> VIEW_RANGE \<and> \<bar>i_y it - g_my_y c\<bar> \<le> VIEW_RANGE
        \<longrightarrow> set (draw_item g it) \<subseteq> set fr)
    \<and> (fst (g_effect c) = EFF_ATTACK \<and> elapsed_ms (g_clock c (g_ticks c)) (snd (g_effect c)) < 220
        \<and> (\<forall>n. g_my_dir c \<noteq> DIR_RAW n)
        \<longrightarrow> (\<forall>dx dy. in_arc (g_my_dir c) dx dy \<longrightarrow> (\<exists>d \<in> set fr. d_shape d = Box (92 / 100) (92 / 100)
            \<and> d_at d = (of_int (g_my_x c + dx) + 4 / 100, of_int (g_my_y c + dy) + 4 / 100))))
    \<and> c' = c\<lparr>g_ticks := g_ticks c', g_effect := g_effect c', g_proj := g_proj c'\<rparr> \<and> client_ok c'"
proof (intro conjI)
  note D = draw_gameD [OF assms(1)]
  show k: "c' = c\<lparr>g_ticks := g_ticks c', g_effect := g_effect c', g_proj := g_proj c'\<rparr>"
    by (rule draw_game_keeps [OF assms(1)])
  show "client_ok c'" by (subst k) (simp add: assms(2))
  have "g_msgs c' = g_msgs c" by (subst k) simp
  then show "\<forall>m \<in> set (g_msgs c). \<exists>d \<in> set fr. d_shape d = Words m 12 False"
    using draw_log_all [of 574 "g_msgs c"] D(5) assms(2) by (fastforce simp: client_ok_def)
  show "\<forall>i ob. g_objs c i = Some ob \<longrightarrow> set (draw_object g ob) \<subseteq> set fr"
    using D(2) in_snapshot [of _ oids "g_objs c"] assms(3) by (meson domI subsetD)
  show "\<forall>i it. g_world_items_cl c i = Some it \<and> \<bar>i_x it - g_my_x c\<bar> \<le> VIEW_RANGE \<and> \<bar>i_y it - g_my_y c\<bar> \<le> VIEW_RANGE
      \<longrightarrow> set (draw_item g it) \<subseteq> set fr"
  proof (intro allI impI)
    fix i it assume "g_world_items_cl c i = Some it \<and> \<bar>i_x it - g_my_x c\<bar> \<le> VIEW_RANGE \<and> \<bar>i_y it - g_my_y c\<bar> \<le> VIEW_RANGE"
    then have "item_drawn c it" "it \<in> set (snapshot iids (g_world_items_cl c))"
      using in_view_drawn(1) [of it c] in_snapshot [of i iids "g_world_items_cl c" it] assms(4) by auto
    then show "set (draw_item g it) \<subseteq> set fr" using D(3) by (auto simp: draw_items_def)
  qed
  show "fst (g_effect c) = EFF_ATTACK \<and> elapsed_ms (g_clock c (g_ticks c)) (snd (g_effect c)) < 220
      \<and> (\<forall>n. g_my_dir c \<noteq> DIR_RAW n)
      \<longrightarrow> (\<forall>dx dy. in_arc (g_my_dir c) dx dy \<longrightarrow> (\<exists>d \<in> set fr. d_shape d = Box (92 / 100) (92 / 100)
          \<and> d_at d = (of_int (g_my_x c + dx) + 4 / 100, of_int (g_my_y c + dy) + 4 / 100)))"
  proof (intro impI allI)
    fix dx dy
    assume e: "fst (g_effect c) = EFF_ATTACK \<and> elapsed_ms (g_clock c (g_ticks c)) (snd (g_effect c)) < 220
      \<and> (\<forall>n. g_my_dir c \<noteq> DIR_RAW n)" and a: "in_arc (g_my_dir c) dx dy"
    then obtain t where "fst (draw_effect c) = attack_flash c t"
      by (cases "g_effect c") (auto simp: draw_effect_def steady_now_def Let_def)
    then show "\<exists>d \<in> set fr. d_shape d = Box (92 / 100) (92 / 100)
        \<and> d_at d = (of_int (g_my_x c + dx) + 4 / 100, of_int (g_my_y c + dy) + 4 / 100)"
      using D(4) arc_flashed [of c dx dy t] e a by fastforce
  qed
qed

text \<open>
  C37: The skill bar tells the truth. The text drawn over it is the one of readiness, and its
  filling has the bright colour and the full width, exactly when the key S, pressed at the same
  reading of the clock while the chat is closed, sends the skill; otherwise the key sends nothing.
\<close>

theorem skill_ready_works:
  fixes c :: client and answer :: "int option"
  assumes "g_state c = PLAYING" "\<not> g_chat_mode c" "g_sock c \<noteq> None" "fst (draw_skill c) = Some sh"
  defines "sent \<equiv> g_sent (on_event (KeyPressed K_S answer) c)"
  shows "(d_shape (last sh) = Words (bytes_of ''Skill READY'') 11 False \<longleftrightarrow> sent = g_sent c @ enc_c2s C2S_Skill)
    \<and> ((\<exists>d \<in> set sh. d_shape d = Box 186 11 \<and> d_fill d = rgb 120 60 220) \<longleftrightarrow> sent = g_sent c @ enc_c2s C2S_Skill)
    \<and> (sent = g_sent c @ enc_c2s C2S_Skill \<or> sent = g_sent c)"
proof (cases "elapsed_ms (g_clock c (g_ticks c)) (g_last_skill_time c) \<ge> SKILL_CD_MS")
  case True
  then have "d_shape (last sh) = Words (bytes_of ''Skill READY'') 11 False"
    "\<exists>d \<in> set sh. d_shape d = Box 186 11 \<and> d_fill d = rgb 120 60 220"
    using assms(4) by (auto simp: draw_skill_def steady_now_def Let_def skill_text_def c_sprintf_s_def bytes_of_def shape_at_def bar_def)
  moreover have "sent = g_sent c @ enc_c2s C2S_Skill"
    using assms(1-3) True by (auto simp: sent_def on_event_def game_event_def steady_now_def Let_def c_send_skill_def net_send_def)
  ultimately show ?thesis by blast
next
  case False
  let ?e = "elapsed_ms (g_clock c (g_ticks c)) (g_last_skill_time c)"
  define x where "x = fl (fl (rat_of_int (SKILL_CD_MS - ?e)) / 1000)"
  have "bytes_of ''Skill '' @ one_decimal x @ bytes_of ''s'' \<noteq> bytes_of ''Skill READY''"
  proof
    assume "bytes_of ''Skill '' @ one_decimal x @ bytes_of ''s'' = bytes_of ''Skill READY''"
    then have "last (bytes_of ''Skill '' @ one_decimal x @ bytes_of ''s'') = last (bytes_of ''Skill READY'')" by (rule arg_cong)
    then show False by (simp add: bytes_of_def)
  qed
  then have "d_shape (last sh) \<noteq> Words (bytes_of ''Skill READY'') 11 False"
    "\<not> (\<exists>d \<in> set sh. d_shape d = Box 186 11 \<and> d_fill d = rgb 120 60 220)"
    using assms(4) False
    by (auto simp: draw_skill_def steady_now_def Let_def skill_text_def c_sprintf_s_def shape_at_def bar_def x_def rgb_def
        Option.bind_eq_Some_conv split: if_splits)
  moreover have "sent = g_sent c"
    using assms(1-3) False by (auto simp: sent_def on_event_def game_event_def steady_now_def Let_def)
  moreover have "enc_c2s C2S_Skill \<noteq> []" by simp
  ultimately show ?thesis by simp
qed

text \<open>
  C38: The colour of a boss on the client is that of the phase it fights in on the server, exactly
  outside of two bands: the server compares a percentage cut to a whole number, so between 66 and 67
  percent of its hit points, and between 33 and 34, it is one phase further than the colour.
\<close>

theorem boss_tint_phase:
  assumes "0 < m_hp n" "0 < m_max_hp n"
  shows "boss_tint (hp_ratio (m_hp n) (m_max_hp n))
      = (if get_boss_phase n = 1 then (255, 255, 180) else if get_boss_phase n = 2 then (255, 160, 60) else (255, 80, 80))
    \<longleftrightarrow> \<not> (66 * m_max_hp n < 100 * m_hp n \<and> 100 * m_hp n < 67 * m_max_hp n)
      \<and> \<not> (33 * m_max_hp n < 100 * m_hp n \<and> 100 * m_hp n < 34 * m_max_hp n)"
proof -
  let ?h = "m_hp n" and ?m = "m_max_hp n"
  have r: "hp_ratio ?h ?m > of_int k / 100 \<longleftrightarrow> k * ?m < 100 * ?h" for k
  proof -
    have eq: "hp_ratio ?h ?m = rat_of_int ?h / rat_of_int ?m" using assms by (simp add: hp_ratio_def)
    have "hp_ratio ?h ?m > of_int k / 100 \<longleftrightarrow> rat_of_int (k * ?m) < rat_of_int (100 * ?h)"
      unfolding eq using assms by (simp add: field_simps)
    then show ?thesis by (simp only: of_int_less_iff)
  qed
  have p: "k < cdiv (?h * 100) ?m \<longleftrightarrow> (k + 1) * ?m \<le> 100 * ?h" for k
  proof -
    have "cdiv (?h * 100) ?m = ?h * 100 div ?m" using assms by (simp add: cdiv_def)
    moreover have "(k + 1) * ?m \<le> ?h * 100" if "k < ?h * 100 div ?m"
    proof -
      have "(k + 1) * ?m \<le> ?h * 100 div ?m * ?m" using that assms(2) by (intro mult_right_mono) auto
      then show ?thesis using div_mult_mod_eq [of "?h * 100" ?m] pos_mod_sign [OF assms(2), of "?h * 100"] by linarith
    qed
    moreover have "k < ?h * 100 div ?m" if "(k + 1) * ?m \<le> ?h * 100"
      using zdiv_mono1 [OF that assms(2)] assms(2) by simp
    ultimately show ?thesis by (auto simp: mult.commute)
  qed
  show ?thesis
    using assms r [of 66] r [of 33] p [of 66] p [of 33] by (auto simp: boss_tint_def get_boss_phase_def Let_def)
qed

theorem boss_tint_phase_witness:
  "boss_tint (hp_ratio 333 500) = (255, 255, 180) \<and> get_boss_phase ((new_npc 10000 0)\<lparr>m_hp := 333, m_max_hp := 500\<rparr>) = 2
    \<and> boss_tint (hp_ratio 300 500) = (255, 160, 60)"
proof -
  let ?n = "\<lambda>h. (new_npc 10000 0)\<lparr>m_hp := h, m_max_hp := 500\<rparr>"
  have p: "get_boss_phase (?n 333) = 2" "get_boss_phase (?n 300) = 2" by (simp_all add: get_boss_phase_def cdiv_def)
  have "boss_tint (hp_ratio 333 500) \<noteq> (255, 160, 60)" "boss_tint (hp_ratio 300 500) = (255, 160, 60)"
    using boss_tint_phase [of "?n 333"] boss_tint_phase [of "?n 300"] by (simp_all add: p)
  then show ?thesis using p(1) by (simp add: boss_tint_def hp_ratio_def)
qed

theorem skill_ready_works_witness:
  "\<exists>sh. fst (draw_skill ((start_client (\<lambda>_. 0))\<lparr>g_state := PLAYING, g_sock := Some 4\<rparr>)) = Some sh
    \<and> d_shape (last sh) = Words (bytes_of ''Skill READY'') 11 False"
proof -
  let ?c = "(start_client (\<lambda>_. 0))\<lparr>g_state := PLAYING, g_sock := Some 4\<rparr>"
  obtain sh where sh: "fst (draw_skill ?c) = Some sh" using draw_skill_some [of ?c] by blast
  have "g_sent (on_event (KeyPressed K_S None) ?c) = g_sent ?c @ enc_c2s C2S_Skill"
    by (simp add: on_event_def game_event_def steady_now_def Let_def c_send_skill_def net_send_def start_client_def elapsed_ms_def cdiv_def s32_def)
  then show ?thesis using skill_ready_works [of ?c sh None] sh by (simp add: start_client_def)
qed

end
