(* ===== verification/Mirror.thy ===== *)
theory Mirror
  imports ServerSafe ClientStream Handlers
begin

text \<open>
  What a session is told and what the server believes it shows: the list \<open>m_visible_objects\<close> of an
  open session is always the adds and removes in the stream of the session, applied one after the
  other. Through every handler and every run of the threads; and so the objects the client keeps
  are those of the server's list.
\<close>

section \<open>The stream of a session\<close>

text \<open>What was handed to \<open>WSASend\<close> for a session, and what is queued behind it.\<close>

definition sent_to :: "int \<Rightarrow> world \<Rightarrow> byte list" where
  "sent_to k w = concat (map snd (filter (\<lambda>m. fst m = k) (w_posted w)))"

definition stream :: "int \<Rightarrow> world \<Rightarrow> byte list" where
  "stream k w = sent_to k w @ wire_bytes (m_send_queue (w_pl w k))"

text \<open>The packets \<open>do_send\<close> accepted for it, as the send functions filled them.\<close>

definition given_to :: "int \<Rightarrow> world \<Rightarrow> s2c list" where
  "given_to k w = map snd (filter (\<lambda>m. fst m = k) (w_given w))"

fun view_step :: "s2c \<Rightarrow> uset \<Rightarrow> uset" where
  "view_step (S2C_AddPlayer pid _ _ _ _ _ _ _ _) v = us_insert pid v"
| "view_step (S2C_RemovePlayer pid) v = us_erase pid v"
| "view_step _ v = v"

text \<open>Ids fit their field; a refused login is never queued.\<close>

fun fine :: "s2c \<Rightarrow> bool" where
  "fine (S2C_AddPlayer pid _ _ _ _ _ _ _ _) \<longleftrightarrow> in32 pid"
| "fine (S2C_RemovePlayer pid) \<longleftrightarrow> in32 pid"
| "fine (S2C_LoginResult ok _) \<longleftrightarrow> ok"
| "fine _ \<longleftrightarrow> True"

lemma neutral_view: "neutral p \<Longrightarrow> view_step p v = v \<and> fine p"
  by (cases p) simp_all

definition told :: "int \<Rightarrow> world \<Rightarrow> world \<Rightarrow> bool" where
  "told k w w' \<longleftrightarrow> (\<exists>ps. given_to k w' = given_to k w @ ps \<and> stream k w' = stream k w @ wire_bytes ps \<and> vis w' k = fold view_step ps (vis w k)
    \<and> (\<forall>q \<in> set ps. fine q))"

text \<open>
  Sessions that can be sent to are players' and live under their own ids; all ids in play or in a
  view fit 32 bits.
\<close>

definition open_ok :: "world \<Rightarrow> bool" where
  "open_ok w \<longleftrightarrow> (\<forall>j. can_send (w_pl w j) \<longrightarrow> 0 \<le> j \<and> is_pc j \<and> m_id (w_pl w j) = j \<and> w_live w j)
    \<and> (\<forall>j. vis w j \<noteq> [] \<longrightarrow> 0 \<le> j \<and> is_pc j) \<and> (\<forall>j. \<forall>i \<in> set (vis w j). in32 i) \<and> (\<forall>i. w_live w i \<longrightarrow> in32 i)"

text \<open>
  A session that is open afterwards was open before and was told what became of its view. The
  bound on the sessions with something in view is that of the recursion through refused sends.
\<close>

definition tells :: "nat \<Rightarrow> int \<Rightarrow> world \<Rightarrow> world \<Rightarrow> bool" where
  "tells n k w w' \<longleftrightarrow> (open_ok w \<and> few n w \<longrightarrow> open_ok w' \<and> few n w'
    \<and> (can_send (w_pl w' k) \<longrightarrow> can_send (w_pl w k) \<and> told k w w'))"

lemma told_refl [simp]: "told k w w"
  by (auto simp: told_def intro: exI [of _ "[]"])

lemma told_trans: "told k a b \<Longrightarrow> told k b c \<Longrightarrow> told k a c"
  by (auto simp: told_def)

lemma tells_refl [simp]: "tells n k w w"
  by (simp add: tells_def)

lemma tells_trans: "tells n k a b \<Longrightarrow> tells n k b c \<Longrightarrow> tells n k a c"
  by (auto simp: tells_def intro: told_trans)

lemma told_same: "w_posted w' = w_posted w \<Longrightarrow> w_given w' = w_given w \<Longrightarrow> m_send_queue (w_pl w' k) = m_send_queue (w_pl w k)
    \<Longrightarrow> vis w' k = vis w k \<Longrightarrow> told k w w'"
  by (auto simp: told_def stream_def sent_to_def given_to_def intro: exI [of _ "[]"])

lemma told_cong:
  assumes "w_posted v' = w_posted w'" "w_given v' = w_given w'" "m_send_queue (w_pl v' k) = m_send_queue (w_pl w' k)" "vis v' k = vis w' k"
  shows "told k w v' = told k w w'"
  using assms by (simp add: told_def stream_def sent_to_def given_to_def)

lemma open_ok_cong:
  assumes "w_live w' = w_live w" "vis w' = vis w"
    and "\<And>j. m_id (w_pl w' j) = m_id (w_pl w j)" "\<And>j. m_client (w_pl w' j) = m_client (w_pl w j)"
  shows "open_ok w' = open_ok w"
  using assms by (simp add: open_ok_def can_send_def)

lemma few_cong: "vis w' = vis w \<Longrightarrow> few n w' = few n w"
  by (simp add: few_def viewers_def)

lemma open_id: "open_ok w \<Longrightarrow> can_send (w_pl w k) \<Longrightarrow> m_id (w_pl w k) = k"
  by (simp add: open_ok_def)

text \<open>Changes of a queue leave the sessions open and the views as they are.\<close>

lemma upd_queue_ok:
  "open_ok (upd_pl k (\<lambda>s. s\<lparr>m_send_queue := q s\<rparr>) w) = open_ok w"
  "open_ok (upd_pl k (\<lambda>s. s\<lparr>m_send_pending := p\<rparr>) w) = open_ok w"
  "open_ok (upd_pl k (\<lambda>s. s\<lparr>m_send_queue := q s, m_send_pending := p\<rparr>) w) = open_ok w"
  "few n (upd_pl k (\<lambda>s. s\<lparr>m_send_queue := q s\<rparr>) w) = few n w"
  "few n (upd_pl k (\<lambda>s. s\<lparr>m_send_pending := p\<rparr>) w) = few n w"
  "few n (upd_pl k (\<lambda>s. s\<lparr>m_send_queue := q s, m_send_pending := p\<rparr>) w) = few n w"
  by (rule open_ok_cong few_cong; auto simp: upd_pl_def vis_def)+

lemma can_send_upd [simp]:
  "(\<And>s. m_id (f s) = m_id s \<and> m_client (f s) = m_client s)
    \<Longrightarrow> can_send (w_pl (upd_pl i f w) k) = can_send (w_pl w k)"
  by (auto simp: upd_pl_def can_send_def)

lemma post_fields: "post_send k bs w = (ok, w') \<Longrightarrow> w_pl w' = w_pl w \<and> w_live w' = w_live w \<and> vis w' = vis w
    \<and> w_given w' = w_given w \<and> w_posted w' = w_posted w @ (if ok then [(k, bs)] else [])"
  by (auto simp: post_send_def Let_def vis_def)

lemma post_ok:
  assumes "post_send k bs w = (ok, w')"
  shows "open_ok w' = open_ok w" "few n w' = few n w" "can_send (w_pl w' j) = can_send (w_pl w j)"
  using post_fields [OF assms] by (simp_all add: open_ok_def few_def viewers_def)

section \<open>Sending\<close>

text \<open>What a packet says about the view, noted before it is sent.\<close>

definition note_view :: "s2c \<Rightarrow> int \<Rightarrow> world \<Rightarrow> world" where
  "note_view p k w = upd_pl k (\<lambda>s. s\<lparr>m_visible_objects := view_step p (m_visible_objects s)\<rparr>) w"

text \<open>What the send functions need of \<open>disconnect\<close>: it tells, and it closes.\<close>

locale telling_disconnect =
  fixes disc :: "int \<Rightarrow> world \<Rightarrow> world" and n :: nat
  assumes disc_tells: "tells n j w (disc k w)"
    and disc_closes: "open_ok w \<Longrightarrow> few n w \<Longrightarrow> can_send (w_pl w k) \<Longrightarrow> \<not> can_send (w_pl (disc k w) k)"
begin

lemma fail_closes:
  assumes "open_ok w" "few n w" "can_send (w_pl w k)"
  shows "\<not> can_send (w_pl (fail_send_with disc k w) k)"
  using disc_closes [of "upd_pl k (\<lambda>s. s\<lparr>m_send_queue := [], m_send_pending := False\<rparr>) w" k]
    assms open_id [OF assms(1,3)] upd_queue_ok
  by (simp add: fail_send_with_def)

text \<open>Failing on a session whose stream has lost something: it ends closed.\<close>

lemma fail_tells:
  assumes "\<And>j. j \<noteq> k \<Longrightarrow> told j w v" "open_ok w \<Longrightarrow> few n w \<Longrightarrow> open_ok v \<and> few n v"
    and "\<And>j. can_send (w_pl v j) = can_send (w_pl w j)"
  shows "tells n j w (fail_send_with disc k v)"
proof -
  let ?v1 = "upd_pl k (\<lambda>s. s\<lparr>m_send_queue := [], m_send_pending := False\<rparr>) v"
  have t: "tells n i ?v1 (fail_send_with disc k v)" for i by (simp add: fail_send_with_def disc_tells)
  have cs: "can_send (w_pl ?v1 i) = can_send (w_pl v i)" for i by simp
  have "told j v ?v1" if "j \<noteq> k" by (rule told_same) (use that in \<open>auto simp: upd_pl_def vis_def\<close>)
  then have j: "told j w ?v1" if "j \<noteq> k" using told_trans [OF assms(1)] that by blast
  show ?thesis
    unfolding tells_def
  proof (intro impI)
    assume w: "open_ok w \<and> few n w"
    then have v: "open_ok v" "few n v" using assms(2) by blast+
    then have u: "open_ok ?v1 \<and> few n ?v1" by (simp add: upd_queue_ok)
    have "\<not> can_send (w_pl (fail_send_with disc k v) k)"
    proof (cases "can_send (w_pl v k)")
      case True
      then show ?thesis by (rule fail_closes [OF v])
    next
      case False
      then show ?thesis using t [of k] u cs [of k] by (auto simp: tells_def)
    qed
    then show "open_ok (fail_send_with disc k v) \<and> few n (fail_send_with disc k v)
      \<and> (can_send (w_pl (fail_send_with disc k v) j) \<longrightarrow> can_send (w_pl w j) \<and> told j w (fail_send_with disc k v))"
      using t [of j] u cs [of j] assms(3) [of j] j told_trans [of j w ?v1] by (cases "j = k") (auto simp: tells_def)
  qed
qed

lemma start_tells: "tells n j w (start_next_send_with disc k w)"
proof (cases "\<not> can_send (w_pl w k) \<or> m_send_queue (w_pl w k) = []")
  case True
  have "told j w (upd_pl k (\<lambda>s. s\<lparr>m_send_pending := False\<rparr>) w)" by (rule told_same) (auto simp: upd_pl_def vis_def)
  then show ?thesis using True by (auto simp: start_next_send_with_def Let_def tells_def upd_queue_ok)
next
  case False
  obtain b r where b: "take_batch 0 (m_send_queue (w_pl w k)) = (b, r)"
    by (cases "take_batch 0 (m_send_queue (w_pl w k))")
  let ?w1 = "upd_pl k (\<lambda>s. s\<lparr>m_send_queue := r\<rparr>) w"
  obtain ok w2 where p: "post_send k (wire_bytes b) ?w1 = (ok, w2)"
    by (cases "post_send k (wire_bytes b) ?w1")
  note f = post_fields [OF p] post_ok [OF p]
  have o: "open_ok w2 = open_ok w" "few n w2 = few n w" using f(2,3) by (simp_all add: upd_queue_ok)
  have c: "can_send (w_pl w2 i) = can_send (w_pl w i)" for i using f(4) by simp
  have v: "vis w2 = vis w" using f(1) by (auto simp: vis_def upd_pl_def)
  have other: "told i w w2" if "i \<noteq> k" for i
    using f(1) that v by (simp add: told_def stream_def sent_to_def given_to_def upd_pl_def)
  show ?thesis
  proof (cases ok)
    case True
    have "m_send_queue (w_pl w k) = b @ r" using take_batch_append [OF b] by simp
    then have "stream k w2 = stream k w" using f(1) True by (simp add: stream_def sent_to_def upd_pl_def)
    moreover have "given_to k w2 = given_to k w" using f(1) by (simp add: given_to_def upd_pl_def)
    ultimately have "told k w w2" using v by (auto simp: told_def intro: exI [of _ "[]"])
    then have "told j w w2" using other by (cases "j = k") simp_all
    then show ?thesis using False b p True o c by (simp add: start_next_send_with_def Let_def tells_def)
  next
    case f: False
    then show ?thesis
      using fail_tells [OF other, of k] o c False b p by (simp add: start_next_send_with_def Let_def)
  qed
qed

text \<open>A packet with what it does to the view.\<close>

lemma do_send_tells:
  assumes s: "can_send (w_pl w k)" and few: "open_ok w \<Longrightarrow> few n w \<Longrightarrow> few n (note_view p k w) \<and> fine p"
  shows "tells n j w (do_send_with disc k p (note_view p k w))"
proof -
  let ?w0 = "upd_pl k (\<lambda>s. s\<lparr>m_send_queue := m_send_queue s @ [p]\<rparr>) (note_view p k w)"
  let ?w1 = "?w0\<lparr>w_given := w_given (note_view p k w) @ [(k, p)]\<rparr>"
  have c: "can_send (w_pl ?w1 i) = can_send (w_pl w i)" for i by (simp add: note_view_def)
  have o: "open_ok ?w1 \<and> few n ?w1" if w: "open_ok w" "few n w"
  proof -
    have "\<forall>i \<in> set (view_step p (vis w k)). in32 i" if "fine p" "\<forall>i \<in> set (vis w k). in32 i"
      using that by (cases p) auto
    then have "open_ok (note_view p k w)"
      using w few s by (auto simp: note_view_def open_ok_def upd_pl_def vis_def can_send_def)
    moreover have "open_ok ?w1 = open_ok ?w0" "few n ?w1 = few n ?w0"
      by (rule open_ok_cong few_cong; simp add: vis_def fun_eq_iff)+
    ultimately show ?thesis using few w by (simp add: upd_queue_ok)
  qed
  have "told j w ?w1" if "fine p"
  proof (cases "j = k")
    case True
    then show ?thesis
      using that by (auto simp: told_def stream_def sent_to_def given_to_def note_view_def upd_pl_def vis_def intro!: exI [of _ "[p]"])
  qed (auto simp: told_def stream_def sent_to_def given_to_def note_view_def upd_pl_def vis_def intro!: exI [of _ "[]"])
  then have t: "tells n j w ?w1" using o c few by (simp add: tells_def)
  have "told j ?w1 (upd_pl k (\<lambda>s. s\<lparr>m_send_pending := True\<rparr>) ?w1)" by (rule told_same) (auto simp: upd_pl_def vis_def)
  then have u: "tells n j ?w1 (upd_pl k (\<lambda>s. s\<lparr>m_send_pending := True\<rparr>) ?w1)" by (simp add: tells_def upd_queue_ok)
  have "can_send (w_pl (note_view p k w) k)" "s2c_size p \<noteq> 0" "s2c_size p \<le> BUF_SIZE"
    using s s2c_size_bounds [of p] by (auto simp: note_view_def)
  then show ?thesis
    using t tells_trans [OF t tells_trans [OF u start_tells]] by (simp add: do_send_with_def Let_def)
qed

lemma neutral_tells:
  assumes "neutral p"
  shows "tells n j w (do_send_with disc k p w)"
proof (cases "can_send (w_pl w k)")
  case True
  have "note_view p k w = w" by (simp add: note_view_def neutral_view [OF assms] upd_pl_def)
  then show ?thesis using do_send_tells [OF True, of p j] neutral_view [OF assms] by simp
qed (simp add: do_send_with_def)

lemma remove_tells: "tells n j w (send_remove_object_with disc k i w)"
proof (cases "can_send (w_pl w k) \<and> i \<in> set (vis w k)")
  case True
  have "few n (note_view (S2C_RemovePlayer i) k w)" if "few n w"
    by (rule few_shrink [OF that]) (simp add: note_view_def upd_pl_def vis_def)
  moreover have "in32 i" if "open_ok w" using that True by (auto simp: open_ok_def)
  ultimately show ?thesis
    using do_send_tells [of w k "S2C_RemovePlayer i" j] True
    by (simp add: send_remove_object_with_def note_view_def vis_def)
qed (auto simp: send_remove_object_with_def vis_def)

lemma notify_tells: "tells n j w (for_players ids (\<lambda>i. send_remove_object_with disc i key) w)"
  unfolding for_players_def by (rule fold_preorder [of "tells n j"]) (auto intro: tells_trans remove_tells)

end

section \<open>Disconnecting\<close>

text \<open>
  The body of \<open>disconnect\<close>, with one more session in view than the calls in it can meet, or with
  none.
\<close>

lemma disconnect_with_tells:
  assumes rec: "n = Suc m \<and> telling_disconnect disc m \<or> n = 0"
  shows "tells n j w (disconnect_with disc key w)"
    "open_ok w \<Longrightarrow> few n w \<Longrightarrow> can_send (w_pl w key) \<Longrightarrow> \<not> can_send (w_pl (disconnect_with disc key w) key)"
proof -
  let ?w4 = "close_begin key w"
  define w5 where "w5 = for_players (vis w key) (\<lambda>i. send_remove_object_with disc i key) ?w4"
  have v4: "vis ?w4 = (vis w)(key := [])" by (auto simp: vis_def close_begin_fields)
  have o4: "open_ok ?w4" if "open_ok w"
    using that by (auto simp: open_ok_def v4 close_begin_fields can_send_def split: if_splits)
  have t5: "open_ok w5 \<and> few n w5 \<and> (\<forall>j. can_send (w_pl w5 j) \<longrightarrow> can_send (w_pl ?w4 j) \<and> told j ?w4 w5)"
    if w: "open_ok w" "few n w"
  proof (cases "vis w key = []")
    case True
    have "few n ?w4" by (rule few_shrink [OF w(2)]) (simp add: v4)
    then show ?thesis using True o4 [OF w(1)] by (simp add: w5_def for_players_def)
  next
    case False
    have vw: "viewers ?w4 = viewers w - {key}" "key \<in> viewers w" using False by (auto simp: viewers_def v4)
    have "n \<noteq> 0" using w(2) vw(2) card_gt_0_iff [of "viewers w"] by (auto simp: few_def)
    with rec have m: "n = Suc m" "telling_disconnect disc m" by auto
    have few: "few m ?w4" using vw w(2) m(1) card_Suc_Diff1 [of "viewers w" key] by (simp add: few_def)
    have "tells m i ?w4 w5" for i unfolding w5_def by (rule telling_disconnect.notify_tells [OF m(2)])
    from this [unfolded tells_def, rule_format, OF conjI, OF o4 [OF w(1)] few] show ?thesis
      by (auto simp: few_def m(1) intro: le_SucI)
  qed
  have d: "disconnect_with disc key w = (if \<not> w_live w key \<or> obj_id w key \<ge> NPC_ID_START then w else close_end key w5)"
    by (simp add: disconnect_split w5_def)
  have e: "open_ok (close_end key w5)" if "open_ok w5"
    using that by (auto simp: open_ok_def close_end_fields can_send_def split: if_splits)
  have f: "few n (close_end key w5) = few n w5" by (rule few_cong) (simp add: close_end_fields)
  have post: "w_posted ?w4 = w_posted w" "w_posted (close_end key w5) = w_posted w5"
    "w_given ?w4 = w_given w" "w_given (close_end key w5) = w_given w5"
    by (simp_all add: close_begin_def close_end_def Let_def upd_pl_def db_push_save_def)
  have "told j w (close_end key w5)" if "j \<noteq> key" "told j ?w4 w5"
  proof -
    have "told j w ?w4" "told j w5 (close_end key w5)"
      by (rule told_same; use that(1) in \<open>simp add: post close_begin_fields close_end_fields vis_def\<close>)+
    then show ?thesis using that(2) by (blast intro: told_trans)
  qed
  moreover have "can_send (w_pl ?w4 i) = can_send (w_pl w i)" for i by (simp add: close_begin_fields can_send_def)
  moreover have "can_send (w_pl (close_end key w5) i) = (i \<noteq> key \<and> can_send (w_pl w5 i))" for i
    by (auto simp: close_end_fields can_send_def)
  ultimately show "tells n j w (disconnect_with disc key w)"
    using t5 e f unfolding d tells_def by (cases "j = key") auto
  show "\<not> can_send (w_pl (disconnect_with disc key w) key)"
    if "open_ok w" "few n w" "can_send (w_pl w key)"
    using that by (auto simp: d open_ok_def obj_id_def is_pc_def close_end_fields can_send_def)
qed

lemma disconnect_fuel_tells: "telling_disconnect (disconnect_fuel (Suc m)) m"
proof (induction m)
  case 0
  have "(0 :: nat) = Suc m \<and> telling_disconnect (disconnect_fuel 0) m \<or> (0 :: nat) = 0" for m by simp
  note d = disconnect_with_tells [OF this]
  show ?case by (rule telling_disconnect.intro; unfold disconnect_fuel.simps(2); blast intro: d dest: d(2))
next
  case (Suc m)
  then have "Suc m = Suc m \<and> telling_disconnect (disconnect_fuel (Suc m)) m \<or> Suc m = 0" by blast
  note d = disconnect_with_tells [OF this]
  show ?case by (rule telling_disconnect.intro; unfold disconnect_fuel.simps(2) [of "Suc m"]; blast intro: d dest: d(2))
qed

lemma disconnect_tells: "telling_disconnect disconnect 10000"
proof -
  have "disconnect = disconnect_fuel (Suc 10000)" unfolding disconnect_def DISC_DEPTH_def by (rule arg_cong) simp
  then show ?thesis using disconnect_fuel_tells [of 10000] by (simp only:)
qed

interpretation telling: telling_disconnect disconnect 10000
  by (rule disconnect_tells)

section \<open>Every handler tells\<close>

definition mirrors :: "int \<Rightarrow> world \<Rightarrow> world \<Rightarrow> bool" where
  "mirrors k w w' \<longleftrightarrow> (open_ok w \<longrightarrow> open_ok w' \<and> (can_send (w_pl w' k) \<longrightarrow> can_send (w_pl w k) \<and> told k w w'))"

lemma open_few: "open_ok w \<Longrightarrow> few 10000 w"
proof -
  assume "open_ok w"
  then have "viewers w \<subseteq> {0..<10000}" by (auto simp: open_ok_def viewers_def is_pc_def)
  then show ?thesis using card_mono [of "{0..<10000 :: int}" "viewers w"] finite_subset [of "viewers w"] by (auto simp: few_def)
qed

lemma mirrors_tells: "mirrors k = tells 10000 k"
  using open_few by (fastforce simp: mirrors_def tells_def fun_eq_iff)

lemma mirrors_refl [simp]: "mirrors k w w"
  by (simp add: mirrors_tells)

lemma mirrors_trans: "mirrors k a b \<Longrightarrow> mirrors k b c \<Longrightarrow> mirrors k a c"
  unfolding mirrors_tells by (rule tells_trans)

lemma mirrors_fields [simp]:
  "mirrors j w (w'\<lparr>w_ticks := a\<rparr>) = mirrors j w w'" "mirrors j w (w'\<lparr>w_rands := b\<rparr>) = mirrors j w w'"
  "mirrors j w (w'\<lparr>w_items := its\<rparr>) = mirrors j w w'" "mirrors j w (w'\<lparr>w_sectors := ss\<rparr>) = mirrors j w w'"
  "mirrors j w (w'\<lparr>w_db_queue := q\<rparr>) = mirrors j w w'" "mirrors j w (w'\<lparr>w_next_item_id := i\<rparr>) = mirrors j w w'"
  "mirrors j w (w'\<lparr>w_timers := t\<rparr>) = mirrors j w w'" "mirrors j w (w'\<lparr>w_completions := c\<rparr>) = mirrors j w w'"
  "mirrors j w (w'\<lparr>w_next_item_id := i, w_items := its\<rparr>) = mirrors j w w'"
  "mirrors j w (upd_npc n g w') = mirrors j w w'" "mirrors j w (push_timer i' e t' w') = mirrors j w w'"
  by (auto simp: mirrors_def open_ok_def told_def stream_def sent_to_def given_to_def vis_def upd_npc_def push_timer_def)

lemma mirrors_upd_pl [simp]:
  assumes "\<And>s. m_id (f s) = m_id s \<and> m_client (f s) = m_client s \<and> m_send_queue (f s) = m_send_queue s
    \<and> m_visible_objects (f s) = m_visible_objects s"
  shows "mirrors j w (upd_pl k f w') = mirrors j w w'"
proof -
  have "open_ok (upd_pl k f w') = open_ok w'" by (rule open_ok_cong) (use assms in \<open>auto simp: upd_pl_def vis_def\<close>)
  moreover have "told j w (upd_pl k f w') = told j w w'" by (rule told_cong) (use assms in \<open>auto simp: upd_pl_def vis_def\<close>)
  moreover have "can_send (w_pl (upd_pl k f w') j) = can_send (w_pl w' j)" using assms by (simp add: can_send_def upd_pl_def)
  ultimately show ?thesis by (simp add: mirrors_def)
qed

lemma mirrors_disconnect: "mirrors j w (disconnect k w)"
  using telling.disc_tells unfolding mirrors_tells by blast

lemma mirrors_fail_send: "mirrors j w (fail_send k w)"
  using telling.fail_tells [of k w w j] unfolding mirrors_tells fail_send_def by simp

lemma mirrors_start_next_send: "mirrors j w (start_next_send k w)"
  using telling.start_tells unfolding mirrors_tells start_next_send_def by blast

lemma mirrors_do_send: "neutral p \<Longrightarrow> mirrors j w (do_send k p w)"
  using telling.neutral_tells unfolding mirrors_tells do_send_def by blast

lemma mirrors_remove: "mirrors j w (send_remove_object k i w)"
  using telling.remove_tells unfolding mirrors_tells send_remove_object_def by blast

lemma mirrors_shown:
  assumes "can_send (w_pl w k)" "open_ok w \<Longrightarrow> fine p"
  shows "mirrors j w (do_send k p (note_view p k w))"
proof -
  have "few 10000 (note_view p k w) \<and> fine p" if w: "open_ok w"
  proof -
    have "open_ok (note_view p k w)"
    proof -
      have "\<forall>i \<in> set (view_step p (vis w k)). in32 i"
        using assms(2) w by (cases p) (auto simp: open_ok_def)
      then show ?thesis
        using w assms(1) by (auto simp: note_view_def open_ok_def upd_pl_def vis_def can_send_def)
    qed
    then show ?thesis using open_few assms(2) w by blast
  qed
  then show ?thesis using telling.do_send_tells [OF assms(1)] by (simp add: mirrors_tells do_send_def)
qed

lemma mirrors_add: "mirrors j w (send_add_object k i w)"
proof -
  have "in32 i" if "open_ok w" "get_object w i = Some ob" for ob
    using that by (auto simp: open_ok_def get_object_def split: if_splits)
  then show ?thesis
    using mirrors_shown [of w k "S2C_AddPlayer i _ _ _ _ _ _ _ _" j]
    by (auto simp: send_add_object_def note_view_def Let_def split: option.split prod.split)
qed

text \<open>The relation is one of those all handlers keep.\<close>

interpretation mirror: handler_relation "mirrors j" for j
proof (unfold_locales, goal_cases)
  case (12 f w k w')
  then show ?case by (intro mirrors_upd_pl) (simp add: keeps_link_def)
qed (auto intro: mirrors_trans mirrors_do_send mirrors_add mirrors_remove mirrors_disconnect)

lemma mirrors_recv:
  assumes "on_recv k bs w = Some (Inr w')"
  shows "mirrors j w w'"
  using mirror.R_recv [OF assms, of j] by (auto simp: recv_rest_def do_recv_def)

section \<open>Runs\<close>

lemma mirrors_accept:
  assumes "0 \<le> j" "j < w_player_index w"
  shows "mirrors j w (snd (do_accept sock w))"
proof -
  obtain i w1 where i: "get_new_player_id w = (i, w1)" by (cases "get_new_player_id w")
  then obtain x where x: "w1 = w\<lparr>w_player_index := x\<rparr>" "i = -1 \<or> w_player_index w \<le> i \<and> i < MAX_PLAYERS"
    using new_id_any by blast
  have p: "mirrors j v (w\<lparr>w_player_index := x\<rparr>) = mirrors j v w" for v
    by (simp add: mirrors_def open_ok_def told_def stream_def sent_to_def given_to_def vis_def)
  show ?thesis
  proof (cases "i = -1")
    case True
    then show ?thesis using p [of w] by (simp add: do_accept_def i x(1))
  next
    case False
    then have "i \<noteq> j" "0 \<le> i" "i < MAX_PLAYERS" using x(2) assms by auto
    then show ?thesis
      using False by (auto simp: do_accept_def i x(1) clock_now_def Let_def mirrors_def open_ok_def told_def stream_def sent_to_def given_to_def
        vis_def do_recv_def new_session_def can_send_def in32_def is_pc_def intro!: exI [of _ "[]"])
  qed
qed

text \<open>
  Events that do not open the session anew, its own sends completing as a whole or failing (a send
  that completes in part is posted again from where it stopped, which \<open>sent_to\<close> does not tell).
\<close>

definition quiet :: "int \<Rightarrow> event \<Rightarrow> world \<Rightarrow> bool" where
  "quiet k ev w \<longleftrightarrow>
    (case ev of Accept _ \<Rightarrow> k < w_player_index w | Sent i bs n \<Rightarrow> i = k \<longrightarrow> n = 0 \<or> n \<ge> length bs | _ \<Rightarrow> True)"

lemma mirrors_post:
  assumes "post_send i bs w = (ok, w')" "i \<noteq> k"
  shows "mirrors k w w'"
proof -
  note f = post_fields [OF assms(1)] post_ok [OF assms(1)]
  have "told k w w'" using f(1) assms(2) by (auto simp: told_def stream_def sent_to_def given_to_def intro: exI [of _ "[]"])
  then show ?thesis using f by (simp add: mirrors_def)
qed

lemma mirrors_serve:
  assumes "serve ev w = Some (Inr w')" "quiet k ev w" "0 \<le> k"
  shows "mirrors k w w'"
proof (cases ev)
  case (Accept sock)
  then show ?thesis using assms mirrors_accept [of k w sock] by (simp add: serve_def quiet_def)
next
  case (Recv i bs)
  then obtain r where "on_recv i bs w = Some r" "map_sum (\<lambda>_. OVERREAD) id r = Inr w'" using assms(1) by (auto simp: serve_def)
  then show ?thesis using mirrors_recv [of i bs w w' k] by (cases r) simp_all
next
  case (Sent i bs n)
  obtain ok w1 where p: "post_send i (drop n bs) w = (ok, w1)" by (cases "post_send i (drop n bs) w")
  have "mirrors k w (on_send_complete i bs n w)"
  proof (cases "i = k")
    case True
    then show ?thesis using assms(2) Sent mirrors_fail_send mirrors_start_next_send by (auto simp: quiet_def on_send_complete_def)
  next
    case False
    then show ?thesis
      using mirrors_post [OF p] mirrors_trans [of k w w1] mirrors_fail_send mirrors_start_next_send
      by (simp add: on_send_complete_def p)
  qed
  then show ?thesis using assms(1) Sent by (auto simp: serve_def on_sent_def)
next
  case (Gone i)
  then show ?thesis using assms by (auto simp: serve_def on_error_def intro!: mirrors_disconnect)
next
  case (Work i)
  have "mirrors k w v = mirrors k (w\<lparr>w_completions := cs\<rparr>) v" for v cs
    by (simp add: mirrors_def open_ok_def told_def stream_def sent_to_def given_to_def vis_def)
  then have "mirrors k w (on_completion c (w\<lparr>w_completions := cs\<rparr>))" for c cs
    using mirror.R_completion [of k "w\<lparr>w_completions := cs\<rparr>"] by blast
  then show ?thesis using assms by (simp add: serve_def Work split: if_splits) blast
next
  case Tick
  then show ?thesis using assms mirror.R_timer by (auto simp: serve_def)
next
  case (Db c l q)
  then show ?thesis using assms mirror.R_db_step by (auto simp: serve_def split: option.splits)
qed

inductive serves :: "int \<Rightarrow> world \<Rightarrow> world \<Rightarrow> bool" for k w0 where
  serves_start: "serves k w0 w0"
| serves_step: "serves k w0 w \<Longrightarrow> quiet k ev w \<Longrightarrow> serve ev w = Some (Inr w') \<Longrightarrow> serves k w0 w'"

lemma mirrors_serves: "serves k w0 w \<Longrightarrow> 0 \<le> k \<Longrightarrow> mirrors k w0 w"
  by (induction rule: serves.induct) (auto intro: mirrors_trans mirrors_serve)

section \<open>The client's side\<close>

lemma fold_keys: "\<forall>q \<in> set ps. fine q \<Longrightarrow> set (fold view_step ps v) = fold keys_step ps (set v)"
proof (induction ps arbitrary: v)
  case (Cons p ps)
  have "set (view_step p v) = keys_step p (set v)" using Cons.prems by (cases p) (auto simp: s32_in32)
  then show ?case using Cons by simp
qed simp

lemma fine_login: "fine q \<Longrightarrow> \<forall>m. q \<noteq> S2C_LoginResult False m"
  by auto

lemma fold_handle_keys: "\<forall>q \<in> set ps. fine q \<Longrightarrow> dom (g_objs (fold handle_packet (map enc_s2c ps) c)) = fold keys_step ps (dom (g_objs c))"
  by (induction ps arbitrary: c) (simp_all add: handle_keys [OF fine_login])

lemma client_reads_all:
  assumes "receives bss ([], c) = Some (st, c')" "g_running c" "concat bss = wire_bytes ps" "\<forall>q \<in> set ps. fine q"
  shows "st = [] \<and> c' = fold handle_packet (map enc_s2c ps) c"
proof -
  have f: "frames (concat bss) = (map enc_s2c ps, [])" using frames_enc [of ps "[]"] assms(3) by (simp add: wire_bytes_def)
  have g: "\<forall>p \<in> set (fst (frames (concat bss))). server_packet p"
  proof -
    have "server_packet (enc_s2c p)" if "fine p" for p unfolding server_packet_def using fine_login [OF that] by blast
    then show ?thesis using assms(4) by (simp add: f)
  qed
  have z: "rd8 (snd (frames xs)) \<noteq> 0 \<or> snd (frames xs) = []" if "concat bss = xs @ ys" for xs ys
    using enc_prefix [of xs ys ps] that assms(3) by (auto simp: wire_bytes_def)
  have h: "fold (\<lambda>p (st, c). (st, handle_packet p c)) xs (x, y) = (x, fold handle_packet xs y)" for xs y and x :: "byte list"
    by (induction xs arbitrary: y) simp_all
  show ?thesis
    using client.reads_stream [OF receives_reads [OF assms(1)]] assms(2) g z by (simp add: f h)
qed

text \<open>
  C3: What the client shows is what the server believes it shows. Take a session that stays open
  while the server's threads do anything in any order, and a client that has received, cut in any
  way, all that was sent to the session since: the ids of the objects it keeps are exactly those
  in the session's list \<open>m_visible_objects\<close>, if they were so at the beginning (as they are, both
  empty, when a connection is accepted).
\<close>

theorem client_mirrors_view:
  assumes "serves k w0 w" "open_ok w0" "0 \<le> k" "can_send (w_pl w k)"
    and "stream k w = stream k w0 @ concat bss"
    and "receives bss ([], c0) = Some (st, c)" "g_running c0" "dom (g_objs c0) = set (vis w0 k)"
  shows "dom (g_objs c) = set (vis w k) \<and> st = []"
proof -
  have "told k w0 w" using mirrors_serves [OF assms(1,3)] assms(2,4) by (simp add: mirrors_def)
  then obtain ps where ps: "stream k w = stream k w0 @ wire_bytes ps" "vis w k = fold view_step ps (vis w0 k)" "\<forall>q \<in> set ps. fine q"
    by (auto simp: told_def)
  from ps(1) assms(5) have "concat bss = wire_bytes ps" by simp
  from client_reads_all [OF assms(6,7) this ps(3)] show ?thesis
    using fold_handle_keys [OF ps(3), of c0] fold_keys [OF ps(3), of "vis w0 k"] by (simp add: ps(2) assms(8))
qed

text \<open>Two players in view of each other, the second of whom is lost.\<close>

lemma neighbours_open: "open_ok neighbours"
  by (auto simp: open_ok_def neighbours_def two_players_def can_send_def new_session_def no_session_def is_pc_def vis_def in32_def
    split: if_splits)

lemma neighbour_lost:
  "can_send (w_pl (disconnect 2 neighbours) 1) \<and> stream 1 (disconnect 2 neighbours) = stream 1 neighbours @ enc_s2c (S2C_RemovePlayer 2)"
proof -
  have d: "disconnect = disconnect_with (disconnect_fuel 10000)"
    using disconnect_fuel.simps(2) [of 10000] by (simp add: disconnect_def DISC_DEPTH_def)
  show ?thesis
    unfolding d
    by (simp add: disconnect_split for_players_def send_remove_object_with_def do_send_with_def start_next_send_with_def
      post_send_def close_begin_def close_end_def Let_def upd_pl_def vis_def neighbours_def two_players_def init_world_def
      new_session_def no_session_def can_send_def is_pc_def obj_id_def db_push_save_def stream_def sent_to_def)
qed

definition shown_two :: objinfo where
  "shown_two = \<lparr> o_id = 2, o_name = [], o_x = 1002, o_y = 0, o_hp = 100, o_max_hp = 100, o_npc_type = 3, o_npc_state = 0, o_dir = DOWN \<rparr>"

theorem client_mirrors_view_witness:
  "dom (g_objs (snd (client_recv (enc_s2c (S2C_RemovePlayer 2)) ([], (start_client (\<lambda>_. 0))
      \<lparr>g_running := True, g_objs := [2 \<mapsto> shown_two]\<rparr>)))) = set (vis (disconnect 2 neighbours) 1)"
proof -
  let ?c = "(start_client (\<lambda>_. 0))\<lparr>g_running := True, g_objs := [2 \<mapsto> shown_two]\<rparr>"
  have r: "receives [enc_s2c (S2C_RemovePlayer 2)] ([], ?c)
      = Some (fst (client_recv (enc_s2c (S2C_RemovePlayer 2)) ([], ?c)), snd (client_recv (enc_s2c (S2C_RemovePlayer 2)) ([], ?c)))"
    by simp
  have "serve (Gone 2) neighbours = Some (Inr (disconnect 2 neighbours))" by (simp add: serve_def on_error_def)
  then have "serves 1 neighbours (disconnect 2 neighbours)"
    by (rule serves_step [OF serves_start, rotated]) (simp add: quiet_def)
  from client_mirrors_view [OF this neighbours_open _ _ _ r] neighbour_lost show ?thesis
    by (simp add: vis_def neighbours_def)
qed

end
