(* ===== verification/Fit.thy ===== *)
theory Fit
  imports Mirror
begin

text \<open>
  The values of the server's packets fit their fields. The invariant \<open>fit\<close> says that the values
  the packets are filled from are in range, that every packet \<open>do_send\<close> ever accepted is well
  formed, and that what is queued or was handed to \<open>WSASend\<close> is of such packets; each handler of a thread keeps it. The runs are the theory \<open>Follow\<close>.
\<close>

section \<open>The invariant\<close>

definition name_fit :: "byte list \<Rightarrow> bool" where
  "name_fit nm \<longleftrightarrow> 0 \<notin> set nm \<and> length nm < MAX_NAME_LEN"

definition sess_fit :: "session \<Rightarrow> bool" where
  "sess_fit s \<longleftrightarrow> in32 (m_id s) \<and> name_fit (m_username s) \<and> tile (m_x s) (m_y s) \<and> in32 (m_move_time s)
    \<and> in16 (m_hp s) \<and> in16 (m_max_hp s) \<and> in32 (m_level s) \<and> in32 (m_xp s) \<and> dir_ok (m_dir s)
    \<and> length (m_inventory s) = ITEM_SLOT_COUNT \<and> (\<forall>n \<in> set (m_inventory s). in32 n)
    \<and> length (m_quests s) = QUEST_COUNT \<and> (\<forall>q \<in> set (m_quests s). in32 (kill_count q))"

definition npc_fit :: "cnpc \<Rightarrow> bool" where
  "npc_fit c \<longleftrightarrow> in32 (m_id c) \<and> name_fit (m_username c) \<and> tile (m_x c) (m_y c) \<and> tile (m_origin_x c) (m_origin_y c)
    \<and> in32 (m_move_time c) \<and> in16 (m_hp c) \<and> in16 (m_max_hp c) \<and> in32 (m_level c) \<and> dir_ok (m_dir c)
    \<and> in32 (m_target_id c)"

definition item_fit :: "world_item \<Rightarrow> bool" where
  "item_fit it \<longleftrightarrow> in32 (wi_id it) \<and> tile (wi_x it) (wi_y it) \<and> item_dropped it"

definition result_fit :: "db_result \<Rightarrow> bool" where
  "result_fit r \<longleftrightarrow> result_ok r \<and> in16 (dr_hp r) \<and> in32 (dr_level r) \<and> in32 (dr_exp r)
    \<and> (\<forall>n \<in> set (dr_inventory r). in32 n) \<and> (\<forall>n \<in> set (dr_quest_kill r). in32 n)"

text \<open>Bytes of packets given to the session, whole or what is left of them after a partial send.\<close>

definition given_bytes :: "world \<Rightarrow> int \<times> byte list \<Rightarrow> bool" where
  "given_bytes w m \<longleftrightarrow> (\<exists>n qs. (\<forall>q \<in> set qs. (fst m, q) \<in> set (w_given w)) \<and> snd m = drop n (wire_bytes qs))"

lemma given_bytes_mono: "set (w_given w) \<subseteq> set (w_given w') \<Longrightarrow> given_bytes w m \<Longrightarrow> given_bytes w' m"
  unfolding given_bytes_def by (meson subsetD)

lemma given_bytes_drop: "given_bytes w (k, bs) \<Longrightarrow> given_bytes w (k, drop n bs)"
  unfolding given_bytes_def fst_conv snd_conv by (metis drop_drop)

lemma given_bytes_cong: "w_given w' = w_given w \<Longrightarrow> given_bytes w' = given_bytes w"
  by (simp add: given_bytes_def fun_eq_iff)

definition sent_fit :: "world \<Rightarrow> bool" where
  "sent_fit w \<longleftrightarrow> (\<forall>m \<in> set (w_given w). wf_s2c (snd m))
    \<and> (\<forall>k. \<forall>p \<in> set (m_send_queue (w_pl w k)). (k, p) \<in> set (w_given w))
    \<and> (\<forall>m \<in> set (w_posted w). given_bytes w m)
    \<and> (\<forall>k. \<forall>i \<in> set (m_visible_objects (w_pl w k)). in32 i)"

definition fit :: "world \<Rightarrow> bool" where
  "fit w \<longleftrightarrow> (\<forall>k. in32 k \<longrightarrow> sess_fit (w_pl w k) \<and> npc_fit (w_npc w k)) \<and> (\<forall>i. w_live w i \<longrightarrow> in32 i)
    \<and> (\<forall>it \<in> set (w_items w). item_fit it) \<and> in32 (w_next_item_id w) \<and> 0 \<le> w_player_index w
    \<and> (\<forall>k r. IO_DB_LOGIN k r \<in> set (w_completions w) \<longrightarrow> result_fit r)
    \<and> (\<forall>i. 0 \<le> w_rand w i) \<and> (\<forall>x y. \<not> tile x y \<longrightarrow> w_obstacle w x y) \<and> sent_fit w"

lemma fitD:
  assumes "fit w"
  shows "in32 k \<Longrightarrow> sess_fit (w_pl w k)" "in32 k \<Longrightarrow> npc_fit (w_npc w k)" "w_live w i \<Longrightarrow> in32 i"
    "it \<in> set (w_items w) \<Longrightarrow> item_fit it" "in32 (w_next_item_id w)" "0 \<le> w_player_index w"
    "IO_DB_LOGIN k r \<in> set (w_completions w) \<Longrightarrow> result_fit r" "0 \<le> w_rand w j"
    "\<not> tile x y \<Longrightarrow> w_obstacle w x y" "sent_fit w"
  using assms by (auto simp: fit_def)

lemma tile_in16: "tile x y \<Longrightarrow> in16 x" "tile x y \<Longrightarrow> in16 y"
  by (auto simp: tile_def in16_def)

lemma in_range [simp]: "in16 (s16 x)" "in32 (s32 x)"
proof -
  have "0 \<le> (x + 32768) mod 65536" "(x + 32768) mod 65536 < 65536"
    "0 \<le> (x + 2147483648) mod 4294967296" "(x + 2147483648) mod 4294967296 < 4294967296" by simp_all
  then show "in16 (s16 x)" "in32 (s32 x)" unfolding in16_def in32_def s16_def s32_def by linarith+
qed

lemma sess_fitD:
  assumes "sess_fit s"
  shows "in32 (m_id s)" "0 \<notin> set (m_username s)" "length (m_username s) < MAX_NAME_LEN" "tile (m_x s) (m_y s)"
    "in16 (m_x s)" "in16 (m_y s)" "in32 (m_move_time s)" "in16 (m_hp s)" "in16 (m_max_hp s)" "in32 (m_level s)" "in32 (m_xp s)"
    "dir_ok (m_dir s)" "i < ITEM_SLOT_COUNT \<Longrightarrow> in32 (m_inventory s ! i)"
    "j < QUEST_COUNT \<Longrightarrow> in32 (kill_count (m_quests s ! j))"
  using assms tile_in16 [of "m_x s" "m_y s"] by (auto simp: sess_fit_def name_fit_def)

lemma npc_fitD:
  assumes "npc_fit c"
  shows "in32 (m_id c)" "0 \<notin> set (m_username c)" "length (m_username c) < MAX_NAME_LEN" "tile (m_x c) (m_y c)"
    "tile (m_origin_x c) (m_origin_y c)"
    "in16 (m_x c)" "in16 (m_y c)" "in32 (m_move_time c)" "in16 (m_hp c)" "in16 (m_max_hp c)" "in32 (m_level c)"
    "dir_ok (m_dir c)" "in32 (m_target_id c)"
  using assms tile_in16 [of "m_x c" "m_y c"] by (auto simp: npc_fit_def name_fit_def)

lemma in32_exp_next [simp]: "in32 (exp_next lv)" "in32 (exp_for_next_level s)"
  by (simp_all add: exp_next_def exp_for_next_level_def)

text \<open>The steps of the handlers, taken off from the right as before.\<close>

named_theorems fit_steps

lemma fit_fields [simp]:
  "fit (w\<lparr>w_ticks := a\<rparr>) = fit w" "fit (w\<lparr>w_rands := b\<rparr>) = fit w" "fit (w\<lparr>w_sectors := ss\<rparr>) = fit w"
  "fit (w\<lparr>w_db_queue := q\<rparr>) = fit w" "fit (w\<lparr>w_timers := t\<rparr>) = fit w" "fit (w\<lparr>w_sends := m\<rparr>) = fit w"
  "fit (push_timer i e t' w) = fit w"
  by (auto simp: fit_def sent_fit_def given_bytes_def push_timer_def)

lemma fit_upd_pl [fit_steps]:
  assumes "fit w" "\<And>s. m_send_queue (f s) = m_send_queue s \<and> m_visible_objects (f s) = m_visible_objects s" "in32 k \<Longrightarrow> sess_fit (w_pl w k) \<Longrightarrow> sess_fit (f (w_pl w k))"
  shows "fit (upd_pl k f w)"
  using assms by (auto simp: fit_def sent_fit_def given_bytes_def upd_pl_def)

lemma fit_upd_npc [fit_steps]:
  assumes "fit w" "in32 n \<Longrightarrow> npc_fit (w_npc w n) \<Longrightarrow> npc_fit (f (w_npc w n))"
  shows "fit (upd_npc n f w)"
  using assms by (auto simp: fit_def sent_fit_def given_bytes_def upd_npc_def)

lemma fit_queue:
  assumes "fit w" "\<forall>p \<in> set q. (k, p) \<in> set (w_given w)"
  shows "fit (upd_pl k (\<lambda>s. s\<lparr>m_send_queue := q, m_send_pending := b\<rparr>) w)" "fit (upd_pl k (\<lambda>s. s\<lparr>m_send_queue := q\<rparr>) w)"
  using assms by (auto simp: fit_def sent_fit_def given_bytes_def upd_pl_def sess_fit_def)

lemma fit_visible: "fit w \<Longrightarrow> (\<forall>i \<in> set (v (m_visible_objects (w_pl w k))). in32 i)
    \<Longrightarrow> fit (upd_pl k (\<lambda>s. s\<lparr>m_visible_objects := v (m_visible_objects s)\<rparr>) w)"
  by (auto simp: fit_def sent_fit_def given_bytes_def upd_pl_def sess_fit_def)

lemma fit_fold: "fit w \<Longrightarrow> (\<And>x s. x \<in> set xs \<Longrightarrow> fit s \<Longrightarrow> fit (f x s)) \<Longrightarrow> fit (fold f xs w)"
  by (induction xs arbitrary: w) auto

lemma fit_for_players:
  "fit w \<Longrightarrow> (\<And>i s. fit s \<Longrightarrow> in32 i \<Longrightarrow> fit (f i s)) \<Longrightarrow> fit (for_players ids f w)"
  unfolding for_players_def by (rule fit_fold) (auto dest: fitD(3))

section \<open>Sending\<close>

text \<open>What the send functions need of \<open>disconnect\<close>.\<close>

locale fitting_disconnect =
  fixes disc :: "int \<Rightarrow> world \<Rightarrow> world"
  assumes fit_disc: "fit w \<Longrightarrow> fit (disc k w)"
begin

lemma fit_fail: "fit w \<Longrightarrow> fit (fail_send_with disc k w)"
  by (simp add: fail_send_with_def fit_disc fit_queue(1))

lemma fit_start: "fit w \<Longrightarrow> fit (start_next_send_with disc k w)"
proof -
  assume w: "fit w"
  obtain b r where b: "take_batch 0 (m_send_queue (w_pl w k)) = (b, r)"
    by (cases "take_batch 0 (m_send_queue (w_pl w k))")
  let ?w1 = "upd_pl k (\<lambda>s. s\<lparr>m_send_queue := r\<rparr>) w"
  obtain ok w2 where p: "post_send k (wire_bytes b) ?w1 = (ok, w2)"
    by (cases "post_send k (wire_bytes b) ?w1")
  have q: "\<forall>p \<in> set (b @ r). (k, p) \<in> set (w_given w)"
    using fitD(10) [OF w] unfolding take_batch_append [OF b] sent_fit_def by blast
  have w1: "fit ?w1" by (rule fit_queue(2) [OF w]) (use q in auto)
  have g: "w_given w2 = w_given w" "w_given ?w1 = w_given w" using post_fields [OF p] by (simp_all add: upd_pl_def)
  have "given_bytes w (k, wire_bytes b)" unfolding given_bytes_def by (intro exI [of _ 0] exI [of _ b]) (use q in simp)
  then have "sent_fit w2"
    using fitD(10) [OF w1] post_fields [OF p] g unfolding sent_fit_def given_bytes_cong [OF g(1)] given_bytes_cong [OF g(2)]
    by auto
  then have w2: "fit w2" using w1 p by (auto simp: fit_def post_send_def Let_def split: if_splits)
  have "fit (upd_pl k (\<lambda>s. s\<lparr>m_send_pending := False\<rparr>) w)"
    by (rule fit_upd_pl [OF w]) (simp_all add: sess_fit_def)
  then show ?thesis using b p w2 fit_fail by (simp add: start_next_send_with_def Let_def)
qed

lemma fit_do_send_with: "fit w \<Longrightarrow> wf_s2c p \<Longrightarrow> fit (do_send_with disc k p w)"
proof -
  assume w: "fit w" "wf_s2c p"
  let ?w1 = "(upd_pl k (\<lambda>s. s\<lparr>m_send_queue := m_send_queue s @ [p]\<rparr>) w)\<lparr>w_given := w_given w @ [(k, p)]\<rparr>"
  have "sent_fit ?w1"
    using fitD(10) [OF w(1)] w(2) given_bytes_mono [of w ?w1, OF subsetI] by (auto simp: sent_fit_def upd_pl_def)
  then have w1: "fit ?w1" using w(1) by (auto simp: fit_def upd_pl_def sess_fit_def)
  have "fit (upd_pl k (\<lambda>s. s\<lparr>m_send_pending := True\<rparr>) ?w1)"
    by (rule fit_upd_pl [OF w1]) (simp_all add: sess_fit_def)
  then show ?thesis using w(1) w1 fit_start by (simp add: do_send_with_def Let_def)
qed

lemma fit_remove_with: "fit w \<Longrightarrow> fit (send_remove_object_with disc k i w)"
proof -
  assume w: "fit w"
  have "fit (upd_pl k (\<lambda>s. s\<lparr>m_visible_objects := us_erase i (m_visible_objects s)\<rparr>) w)"
    by (rule fit_visible [OF w]) (use fitD(10) [OF w] in \<open>auto simp: sent_fit_def us_erase_def\<close>)
  then show ?thesis using w fitD(10) [OF w]
    by (auto simp: send_remove_object_with_def sent_fit_def intro!: fit_do_send_with)
qed

lemma fit_disconnect_with: "fit w \<Longrightarrow> fit (disconnect_with disc key w)"
proof -
  assume w: "fit w"
  show ?thesis
  proof (cases "\<not> w_live w key \<or> obj_id w key \<ge> NPC_ID_START")
    case True
    then show ?thesis using w by (auto simp: disconnect_split)
  next
    case False
    then have k: "in32 key" using fitD(3) [OF w] by blast
    have "w_posted (close_begin key w) = w_posted w" "w_given (close_begin key w) = w_given w" "w_items (close_begin key w) = w_items w"
      "w_next_item_id (close_begin key w) = w_next_item_id w" "w_player_index (close_begin key w) = w_player_index w"
      "w_completions (close_begin key w) = w_completions w" "w_rand (close_begin key w) = w_rand w"
      "w_obstacle (close_begin key w) = w_obstacle w"
      by (simp_all add: close_begin_def Let_def upd_pl_def db_push_save_def)
    then have "fit (close_begin key w)"
      using w by (auto simp: fit_def sent_fit_def given_bytes_def close_begin_fields sess_fit_def)
    then have "fit (for_players (vis w key) (\<lambda>i. send_remove_object_with disc i key) (close_begin key w))"
      by (rule fit_for_players) (use fit_remove_with in blast)
    then have "fit (close_end key (for_players (vis w key) (\<lambda>i. send_remove_object_with disc i key) (close_begin key w)))"
      by (auto simp: fit_def sent_fit_def given_bytes_def close_end_def upd_pl_def sess_fit_def)
    then show ?thesis using False by (auto simp: disconnect_split)
  qed
qed

end

lemma fit_disconnect_fuel: "fit w \<Longrightarrow> fit (disconnect_fuel m k w)"
proof (induction m arbitrary: w k)
  case (Suc m)
  have "fitting_disconnect (disconnect_fuel m)" by unfold_locales (rule Suc.IH)
  then show ?case using Suc.prems by (simp add: fitting_disconnect.fit_disconnect_with)
qed simp

interpretation fitting: fitting_disconnect disconnect
  by unfold_locales (simp add: disconnect_def fit_disconnect_fuel)

section \<open>The send functions\<close>

lemma fit_disconnect [fit_steps]: "fit w \<Longrightarrow> fit (disconnect k w)"
  by (rule fitting.fit_disc)

lemma fit_fail_send [fit_steps]: "fit w \<Longrightarrow> fit (fail_send k w)"
  by (simp add: fail_send_def fitting.fit_fail)

lemma fit_start_next_send [fit_steps]: "fit w \<Longrightarrow> fit (start_next_send k w)"
  by (simp add: start_next_send_def fitting.fit_start)

lemma fit_do_send [fit_steps]: "fit w \<Longrightarrow> wf_s2c p \<Longrightarrow> fit (do_send k p w)"
  by (simp add: do_send_def fitting.fit_do_send_with)

lemma fit_remove [fit_steps]: "fit w \<Longrightarrow> fit (send_remove_object k i w)"
  by (simp add: send_remove_object_def fitting.fit_remove_with)

text \<open>An object, whichever of the two it is.\<close>

lemma fit_object:
  assumes "fit w" "get_object w i = Some ob"
  shows "in32 i" "0 \<notin> set (m_username ob)" "length (m_username ob) < MAX_NAME_LEN" "in16 (m_x ob)" "in16 (m_y ob)"
    "tile (m_x ob) (m_y ob)" "in16 (m_hp ob)" "in16 (m_max_hp ob)" "in32 (m_move_time ob)" "dir_ok (m_dir ob)"
proof -
  have i: "in32 i" using assms fitD(3) by (auto simp: get_object_def split: if_splits)
  note s = sess_fitD [OF fitD(1) [OF assms(1) i]] npc_fitD [OF fitD(2) [OF assms(1) i]]
  show "in32 i" by fact
  show "0 \<notin> set (m_username ob)" "length (m_username ob) < MAX_NAME_LEN" "in16 (m_x ob)" "in16 (m_y ob)"
    "tile (m_x ob) (m_y ob)" "in16 (m_hp ob)" "in16 (m_max_hp ob)" "in32 (m_move_time ob)" "dir_ok (m_dir ob)"
    using assms(2) s by (auto simp: get_object_def cobject.defs split: if_splits)
qed

lemma fit_add [fit_steps]:
  assumes "fit w"
  shows "fit (send_add_object k i w)"
proof (cases "get_object w i")
  case (Some ob)
  have v: "fit (upd_pl k (\<lambda>s. s\<lparr>m_visible_objects := us_insert i (m_visible_objects s)\<rparr>) w)"
    by (rule fit_visible [OF assms])
      (use fitD(10) [OF assms] fit_object(1) [OF assms Some] in \<open>auto simp: sent_fit_def us_insert_def split: if_splits\<close>)
  show ?thesis
    using assms fit_object [OF assms Some] by (auto simp: send_add_object_def Let_def Some intro!: fit_do_send v split: prod.split)
qed (use assms in \<open>simp add: send_add_object_def\<close>)

lemma fit_move [fit_steps]: "fit w \<Longrightarrow> fit (send_move_object k i w)"
  using fit_object [of w i] by (auto simp: send_move_object_def intro!: fit_do_send split: option.split)

lemma strncpy_wf: "n < m \<Longrightarrow> 0 \<notin> set (strncpy_s bs n) \<and> length (strncpy_s bs n) < m"
  using length_strncpy_s [of bs n] by (auto simp: strncpy_s_def cstr_def dest: in_set_takeD set_takeWhileD)

lemma fit_sends [fit_steps]:
  assumes "fit w"
  shows "fit (send_login_success k w)" "in32 k \<Longrightarrow> fit (send_avatar_info k w)" "in32 i \<Longrightarrow> fit (send_chat k i nm msg w)"
    "in32 i \<Longrightarrow> in16 hp \<Longrightarrow> in16 mhp \<Longrightarrow> in32 lv \<Longrightarrow> in32 xp \<Longrightarrow> in32 nx \<Longrightarrow> fit (send_stat_info k i hp mhp lv xp nx st w)"
    "in32 a \<Longrightarrow> in32 t \<Longrightarrow> in16 d \<Longrightarrow> in16 hp \<Longrightarrow> fit (send_damage_info k a t d hp w)"
    "in32 iid \<Longrightarrow> in16 x \<Longrightarrow> in16 y \<Longrightarrow> item_ok it \<Longrightarrow> fit (send_item_appear k iid x y it w)"
    "in32 iid \<Longrightarrow> fit (send_item_remove k iid w)" "item_ok it \<Longrightarrow> in32 m \<Longrightarrow> fit (send_item_add k it m w)"
    "in32 k \<Longrightarrow> fit (send_quest_update k q w)"
proof -
  have l: "0 \<notin> set (bytes_of ''Login successful.'') \<and> length (bytes_of ''Login successful.'') < 50" by code_simp
  show "fit (send_login_success k w)" using assms l by (auto simp: send_login_success_def intro!: fit_do_send)
  show "fit (send_avatar_info k w)" if "in32 k"
    using assms sess_fitD [OF fitD(1) [OF assms that]] by (auto simp: send_avatar_info_def Let_def intro!: fit_do_send)
  show "fit (send_chat k i nm msg w)" if "in32 i"
    using assms that strncpy_wf [of 19 MAX_NAME_LEN nm] strncpy_wf [of 127 MAX_CHAT_LEN msg]
    by (auto simp: send_chat_def intro!: fit_do_send)
  show "fit (send_quest_update k q w)" if "in32 k"
  proof -
    have "in32 (quest_target q)" by (simp add: quest_target_def in32_def)
    then show ?thesis
      using assms sess_fitD(14) [OF fitD(1) [OF assms that]] by (auto simp: send_quest_update_def Let_def intro!: fit_do_send)
  qed
qed (use assms in \<open>auto simp: send_stat_info_def send_damage_info_def send_item_appear_def send_item_remove_def
    send_item_add_def intro!: fit_do_send\<close>)

lemma dropped_ok: "item_dropped it \<Longrightarrow> item_ok (wi_type it)"
  by (auto simp: item_dropped_def item_ok_def item_of_int_def)

lemma fit_items:
  assumes "fit w" "it \<in> set (w_items w)"
  shows "in32 (wi_id it)" "in16 (wi_x it)" "in16 (wi_y it)" "item_ok (wi_type it)"
  using fitD(4) [OF assms] tile_in16 [of "wi_x it" "wi_y it"] dropped_ok [of it] by (auto simp: item_fit_def)

lemma slot_item_ok: "i < ITEM_SLOT_COUNT \<Longrightarrow> item_ok (item_of_int (int i + 1))"
  by (simp add: item_ok_def)

lemma fit_send_all [fit_steps]:
  assumes "fit w"
  shows "fit (send_all_world_items k w)" "in32 k \<Longrightarrow> fit (send_all_inventory_items k w)" "in32 k \<Longrightarrow> fit (send_all_quest_states k w)"
proof -
  show "fit (send_all_world_items k w)"
    unfolding send_all_world_items_def
    by (rule fit_fold [OF assms]) (use fit_items [OF assms] in \<open>auto intro: fit_sends(6)\<close>)
  show "fit (send_all_inventory_items k w)" if "in32 k"
    unfolding send_all_inventory_items_def
    by (rule fit_fold [OF assms]) (use sess_fitD(13) [OF fitD(1)] that slot_item_ok in \<open>auto intro!: fit_sends(8)\<close>)
  show "fit (send_all_quest_states k w)" if "in32 k"
    unfolding send_all_quest_states_def by (rule fit_fold [OF assms]) (auto intro: fit_sends(9) that)
qed

lemma fit_wake_up [fit_steps]: "fit w \<Longrightarrow> fit (wake_up n w)"
  by (simp add: wake_up_def clock_now_def Let_def) (auto intro!: fit_upd_npc simp: npc_fit_def)

lemma fit_view [fit_steps]:
  assumes "fit w"
  shows "fit (update_player_view k w)"
proof -
  have e: "fit s \<Longrightarrow> fit (enter_view k ov i s)" for ov i s by (auto simp: enter_view_def Let_def intro!: fit_steps)
  have l: "fit s \<Longrightarrow> fit (leave_view k nv i s)" for nv i s by (auto simp: leave_view_def Let_def intro!: fit_steps)
  show ?thesis using assms by (auto simp: update_player_view_def Let_def intro!: fit_fold fit_steps e l)
qed

section \<open>The packet handlers\<close>

lemma level_loop_in32:
  assumes "in32 lv" "in32 xp" "level_loop lv xp = (lv', xp')"
  shows "in32 lv' \<and> in32 xp'"
proof -
  have "in32 lv'"
    using assms
  proof (induction lv xp rule: level_loop.induct)
    case (1 lv xp)
    then show ?case
      by (cases "exp_next lv \<le> xp") (auto simp: level_loop.simps [of lv xp])
  qed
  then show ?thesis using level_loop_exit(2) [OF assms(2,3)] by simp
qed

lemma calc_in16 [simp]: "in16 (calc_max_hp lv)" "in16 (calc_atk_dmg lv)" "in16 (calc_skill_dmg lv)"
  by (simp_all add: calc_max_hp_def calc_atk_dmg_def calc_skill_dmg_def)

lemma cdiv_in32: "in32 x \<Longrightarrow> in32 (cdiv x 2)"
  by (cases "x < 0") (auto simp: cdiv_def in32_def sgn_if)

lemma in16_min [simp]: "in16 a \<Longrightarrow> in16 b \<Longrightarrow> in16 (min a b)"
  by (simp add: min_def)

lemma sess_fit_steps [simp]:
  assumes "sess_fit s"
  shows "sess_fit (gain_xp xp s)" "sess_fit (add_item i s)" "in32 m \<Longrightarrow> sess_fit (set_kills q m s)"
    "sess_fit (heal m s)" "sess_fit (s\<lparr>m_hp := m_max_hp s\<rparr>)"
    "sess_fit (s\<lparr>m_atk_boost_until := t\<rparr>)" "sess_fit (s\<lparr>m_def_boost_until := t\<rparr>)" "sess_fit (s\<lparr>m_spd_boost_until := t\<rparr>)"
proof -
  obtain lv xp' where l: "level_loop (m_level s) (s32 (m_xp s + xp)) = (lv, xp')" by (cases "level_loop (m_level s) (s32 (m_xp s + xp))")
  show "sess_fit (gain_xp xp s)"
    using assms level_loop_in32 [OF _ _ l] by (simp add: gain_xp_def l sess_fit_def)
  show "sess_fit (add_item i s)"
    using assms by (auto simp: add_item_def sess_fit_def dest!: set_update_subset_insert [THEN subsetD])
  show "sess_fit (set_kills q m s)" if "in32 m"
    using assms that by (auto simp: set_kills_def sess_fit_def dest!: set_update_subset_insert [THEN subsetD])
  show "sess_fit (heal m s)" using assms by (simp add: heal_def sess_fit_def)
qed (use assms in \<open>simp_all add: sess_fit_def\<close>)

lemma fit_broadcasts [fit_steps]:
  assumes "fit w"
  shows "in32 a \<Longrightarrow> in32 t \<Longrightarrow> in16 d \<Longrightarrow> in16 hp \<Longrightarrow> fit (broadcast_damage ax ay a t d hp w)"
    "in32 iid \<Longrightarrow> fit (broadcast_item_remove iid x y w)" "in32 n \<Longrightarrow> fit (broadcast_npc_state n w)"
    "fit (sys_chat k msg w)" "in32 k \<Longrightarrow> fit (send_own_stat k w)"
proof -
  show "fit (broadcast_damage ax ay a t d hp w)" if "in32 a" "in32 t" "in16 d" "in16 hp"
    unfolding broadcast_damage_def by (rule fit_for_players [OF assms]) (simp add: fit_sends that)
  show "fit (broadcast_item_remove iid x y w)" if "in32 iid"
    unfolding broadcast_item_remove_def by (rule fit_for_players [OF assms]) (simp add: fit_sends that)
  show "fit (broadcast_npc_state n w)" if n: "in32 n"
    unfolding broadcast_npc_state_def Let_def
  proof (rule fit_for_players [OF assms])
    fix i s assume s: "fit s" "in32 i"
    have "in32 0" by (simp add: in32_def)
    then show "fit (send_stat_info i n (m_hp (w_npc s n)) (m_max_hp (w_npc s n)) 0 0 0 (m_move_state (w_npc s n)) s)"
      using npc_fitD [OF fitD(2) [OF s(1) n]] s n by (intro fit_sends(4)) auto
  qed
  show "fit (sys_chat k msg w)" unfolding sys_chat_def by (rule fit_sends(3) [OF assms]) (simp add: in32_def)
  show "fit (send_own_stat k w)" if "in32 k"
    unfolding send_own_stat_def Let_def by (rule fit_sends(4) [OF assms]) (use sess_fitD [OF fitD(1) [OF assms that]] in auto)
qed

lemma fit_spawn_item [fit_steps]:
  assumes "fit w" "tile x y" "it \<in> {ITEM_HP_POTION, ITEM_HI_POTION, ITEM_ELIXIR}"
  shows "fit (spawn_item x y it w)"
proof -
  let ?id = "w_next_item_id w"
  let ?w1 = "w\<lparr>w_next_item_id := s32 (?id + 1),
    w_items := filter (\<lambda>i. wi_id i \<noteq> ?id) (w_items w) @ [\<lparr> wi_id = ?id, wi_x = x, wi_y = y, wi_type = it, wi_active = True \<rparr>]\<rparr>"
  have "item_ok it" using assms(3) by (auto simp: item_ok_def item_of_int_def)
  moreover have "fit ?w1"
    using assms by (auto simp: fit_def sent_fit_def given_bytes_def item_fit_def item_dropped_def)
  ultimately show ?thesis
    unfolding spawn_item_def Let_def
    by (intro fit_for_players fit_sends(6)) (use assms(2) fitD(5) [OF assms(1)] tile_in16 in auto)
qed

lemma fit_npc_die [fit_steps]:
  assumes "fit w" "in32 n"
  shows "fit (npc_die n w)"
proof -
  let ?x = "m_x (w_npc w n)" and ?y = "m_y (w_npc w n)"
  have t: "tile ?x ?y" using npc_fitD(4) [OF fitD(2) [OF assms]] .
  have "fit (for_players (nearby w ?x ?y) (\<lambda>i. send_remove_object i n) w)"
    by (rule fit_for_players [OF assms(1)]) (rule fit_remove)
  then have d: "fit (upd_npc n (\<lambda>n. n\<lparr>m_active_npc := False, m_target_id := -1\<rparr>)
      ((for_players (nearby w ?x ?y) (\<lambda>i. send_remove_object i n) w)\<lparr>w_sectors := ss\<rparr>))" for ss
    by (intro fit_upd_npc) (auto simp: npc_fit_def in32_def)
  show ?thesis
    using d t by (auto simp: npc_die_def Let_def rand_next_def clock_now_def intro!: fit_spawn_item drop_of_dropped split: option.split)
qed

lemma fit_gain [fit_steps]:
  assumes "fit w" "sess_fit (w_pl w k) \<Longrightarrow> sess_fit (f (w_pl w k))"
    "\<And>s. m_send_queue (f s) = m_send_queue s \<and> m_visible_objects (f s) = m_visible_objects s"
  shows "fit (upd_pl k f w)"
  by (rule fit_upd_pl) (use assms in auto)

lemma quest_ok: "item_ok (quest_reward_item q)"
  by (simp add: quest_reward_item_def item_ok_def item_of_int_def)

lemma fit_inventory: "fit w \<Longrightarrow> in32 k \<Longrightarrow> i < ITEM_SLOT_COUNT \<Longrightarrow> in32 (m_inventory (w_pl w k) ! i)"
  using sess_fitD(13) fitD(1) by blast

lemma quest_slot: "nat (item_code (quest_reward_item q) - 1) < ITEM_SLOT_COUNT"
  by (simp add: quest_reward_item_def)

lemma fit_quest [fit_steps]:
  assumes "fit w" "in32 k"
  shows "fit (process_quest_kill k t w)"
proof -
  have z: "in32 0" by (simp add: in32_def)
  show ?thesis
    unfolding process_quest_kill_def Let_def
    using assms z quest_slot quest_ok
    by (auto intro!: fit_sends fit_broadcasts fit_gain fit_inventory)
qed

lemma xp_in32 [simp]: "in16 (boosted (calc_atk_dmg lv) t u)" "in16 (boosted (calc_skill_dmg lv) t u)"
  by (simp_all add: boosted_def)

lemma fit_strike [fit_steps]:
  assumes w: "fit w" and k: "in32 k" and n: "in32 n" and d: "in16 d"
  shows "fit (strike k p n d w)"
proof -
  let ?w1 = "upd_npc n (\<lambda>c. c\<lparr>m_hp := s16 (m_hp c - d)\<rparr>) w"
  let ?me = "w_pl ?w1 k" and ?rem = "m_hp (w_npc ?w1 n)"
  let ?w2 = "broadcast_damage (m_x ?me) (m_y ?me) (m_id ?me) n d ?rem ?w1"
  have w1: "fit ?w1" by (rule fit_upd_npc [OF w]) (simp add: npc_fit_def)
  have "in32 (m_id ?me)" "in16 ?rem" using sess_fitD(1) [OF fitD(1) [OF w1 k]] npc_fitD(9) [OF fitD(2) [OF w1 n]] by auto
  then have w2: "fit ?w2" by (intro fit_broadcasts w1 n d) auto
  have "in32 (m_id (w_pl ?w2 k))" using sess_fitD(1) [OF fitD(1) [OF w2 k]] .
  then have "fit (upd_npc n (\<lambda>c. c\<lparr>m_target_id := m_id (w_pl ?w2 k), m_move_state := NPC_STATE_CHASE\<rparr>) ?w2)"
    by (intro fit_upd_npc w2) (simp add: npc_fit_def)
  then show ?thesis
    unfolding strike_def Let_def using w2 k n by (auto intro!: fit_steps)
qed

lemma fit_attacks [fit_steps]:
  assumes "fit w" "in32 k"
  shows "fit (attack k w)" "fit (skill k w)" "fit (ranged_attack k w)"
proof -
  have i: "in32 i" if "npc_target s i" "fit s" for s i using that fitD(3) by (auto simp: npc_target_def)
  have "fit s \<Longrightarrow> fit (attack_one k i s)" "fit s \<Longrightarrow> fit (skill_one k i s)" for i s
    using i [of s i] assms(2) by (auto simp: attack_one_def skill_one_def clock_now_def Let_def intro!: fit_strike)
  then show "fit (attack k w)" "fit (skill k w)"
    using assms unfolding attack_def skill_def
    by (auto simp: clock_now_def Let_def sess_fit_def intro!: fit_fold fit_gain)
  have scan: "in32 h \<and> in16 tr'" if "ranged_scan s x y a b is tr = (h, tr')" "fit s" "in16 tr" "\<forall>i \<in> set is. in16 i"
    for s x y a b "is" tr h tr'
    using that
  proof (induction s x y a b "is" tr rule: ranged_scan.induct)
    case (2 s x y a b i "is" tr)
    have "in32 v" if "hit_at s u v' = Some v" for u v' v
      using that i [of s v] 2(3) by (auto simp: hit_at_def find_Some_iff)
    then show ?case using 2 by (auto simp: Let_def in32_def split: if_splits option.splits)
  qed (auto simp: in32_def)
  let ?t = "w_clock w (w_ticks w)"
  let ?w2 = "upd_pl k (\<lambda>s. s\<lparr>m_last_ranged_atk_time := ?t\<rparr>) (w\<lparr>w_ticks := Suc (w_ticks w)\<rparr>)"
  let ?me = "w_pl ?w2 k"
  have w2: "fit ?w2" by (rule fit_gain) (use assms in \<open>simp_all add: sess_fit_def\<close>)
  obtain a b where ab: "step_of (m_dir ?me) = (a, b)" by (cases "step_of (m_dir ?me)")
  obtain h tr where h: "ranged_scan ?w2 (m_x ?me) (m_y ?me) a b [1, 2, 3, 4, 5, 6] 0 = (h, tr)"
    by (cases "ranged_scan ?w2 (m_x ?me) (m_y ?me) a b [1, 2, 3, 4, 5, 6] 0")
  have ht: "in32 h" "in16 tr" using scan [OF h w2] by (auto simp: in16_def)
  have "fit (for_players (nearby ?w2 (m_x ?me) (m_y ?me))
      (\<lambda>i. do_send i (S2C_Projectile (m_id ?me) (m_x ?me) (m_y ?me) (m_dir ?me) tr h)) ?w2)"
    by (intro fit_for_players fit_do_send w2) (use ht sess_fitD [OF fitD(1) [OF w2 assms(2)]] in auto)
  then show "fit (ranged_attack k w)"
    using assms ab h ht(1) by (auto simp: ranged_attack_def clock_now_def Let_def intro!: fit_strike)
qed

lemma fit_use_item [fit_steps]:
  assumes "fit w" "in32 k" "item_ok it"
  shows "fit (use_item k it w)"
proof (cases "use_effect it (w_pl w k) w")
  case (Some r)
  obtain f msg w1 where r: "r = (f, msg, w1)" by (cases r)
  have f: "sess_fit s \<Longrightarrow> sess_fit (f s)" for s
    using Some by (auto simp: r use_effect_def clock_now_def Let_def split: if_splits)
  have g: "m_send_queue (f s) = m_send_queue s" "m_visible_objects (f s) = m_visible_objects s"
    "m_inventory (f s) = m_inventory s" "fit w1" "w_pl w1 = w_pl w" for s
    using Some assms by (auto simp: r use_effect_def clock_now_def Let_def heal_def split: if_splits)
  have t: "sess_fit (take_item i s)" if "sess_fit s" "0 < m_inventory s ! i" "i < ITEM_SLOT_COUNT" for i s
  proof -
    have "in32 (m_inventory s ! i)" using sess_fitD(13) [OF that(1,3)] .
    then have "in32 (m_inventory s ! i - 1)" using that(2) by (simp add: in32_def)
    then show ?thesis using that by (auto simp: take_item_def sess_fit_def dest!: set_update_subset_insert [THEN subsetD])
  qed
  let ?i = "nat (item_code it - 1)"
  show ?thesis
  proof (cases "item_code it - 1 < 0 \<or> item_code it - 1 \<ge> int ITEM_SLOT_COUNT \<or> m_inventory (w_pl w k) ! ?i \<le> 0")
    case False
    then have i: "?i < ITEM_SLOT_COUNT" "0 < m_inventory (w_pl w k) ! ?i" by auto
    have "sess_fit (take_item ?i (f (w_pl w k)))" if "sess_fit (w_pl w k)"
      by (rule t [OF f [OF that] _ i(1)]) (use i(2) g(3) in simp)
    then have "fit (upd_pl k (\<lambda>s. take_item ?i (f s)) w1)"
      using g by (intro fit_gain) (simp_all add: take_item_def)
    then show ?thesis
      using False assms(2,3) i(1) by (simp add: use_item_def Let_def Some r fit_broadcasts fit_sends fit_inventory)
  qed (use assms in \<open>simp add: use_item_def Let_def\<close>)
qed (use assms in \<open>simp add: use_item_def Let_def\<close>)

lemma fit_pick_up:
  assumes "fit w" "in32 k" "item_fit it"
  shows "fit (pick_up k it w)"
proof -
  let ?f = "map (\<lambda>i. if wi_id i = wi_id it then i\<lparr>wi_active := False\<rparr> else i)"
  let ?i = "item_code (wi_type it) - 1"
  have w1: "fit (w\<lparr>w_items := ?f (w_items w)\<rparr>)"
    using assms(1) by (auto simp: fit_def sent_fit_def given_bytes_def item_fit_def item_dropped_def)
  have w2: "fit (upd_pl k (add_item ?i) (w\<lparr>w_items := ?f (w_items w)\<rparr>))"
    by (rule fit_gain [OF w1]) simp_all
  have "nat ?i < ITEM_SLOT_COUNT" "in32 (wi_id it)" "item_ok (wi_type it)"
    using assms(3) dropped_ok [of it] by (auto simp: item_fit_def item_dropped_def)
  then show ?thesis
    using assms(1,2) w2 by (auto simp: pick_up_def Let_def intro!: fit_broadcasts fit_sends fit_inventory)
qed

lemma fit_do_move [fit_steps]:
  assumes "fit w" "in32 k"
  shows "fit (do_move k d w)"
proof -
  let ?s = "w_pl w k"
  obtain nx ny where n: "move_target d (m_x ?s) (m_y ?s) = (nx, ny)" by (cases "move_target d (m_x ?s) (m_y ?s)")
  have t: "tile nx ny" using move_target_tile [OF sess_fitD(4) [OF fitD(1) [OF assms]] n] .
  let ?w1 = "if \<not> w_obstacle w nx ny then upd_pl k (\<lambda>s. s\<lparr>m_x := nx, m_y := ny\<rparr>) w else w"
  have "fit ?w1" using assms(1) t by (auto simp: sess_fit_def intro!: fit_gain)
  then have w3: "fit (update_player_view i (?w1\<lparr>w_sectors := ss\<rparr>))" for i ss by (simp add: fit_view)
  show ?thesis
    unfolding do_move_def Let_def n prod.case
    by (rule fit_fold [OF w3]) (use fitD(4) [OF w3] fit_pick_up assms(2) in blast)
qed

lemma fit_move_packet [fit_steps]:
  assumes "fit w" "in32 k" "dir_ok d" "in32 t"
  shows "fit (move_packet k d t w)"
proof -
  have "fit (upd_pl k (\<lambda>s. s\<lparr>m_move_time := t, m_dir := d\<rparr>) w)"
    by (rule fit_gain) (use assms in \<open>simp_all add: sess_fit_def\<close>)
  then show ?thesis using assms(2) by (simp add: move_packet_def clock_now_def Let_def fit_do_move)
qed

lemma fit_rand: "fit w \<Longrightarrow> 0 < b \<Longrightarrow> 0 \<le> cmod (w_rand w i) b \<and> cmod (w_rand w i) b < b"
  using fitD(8) [of w i] by (simp add: cmod_nonneg)

lemma fit_login_packet [fit_steps]:
  assumes "fit w" "in32 k" "name_fit name"
  shows "fit (login_packet k name w)"
proof -
  let ?w1 = "upd_pl k (\<lambda>s. s\<lparr>m_username := name\<rparr>) w"
  have w1: "fit ?w1" by (rule fit_gain) (use assms in \<open>simp_all add: sess_fit_def\<close>)
  have b: "fit (bot_login k v)" if v: "fit v" for v
  proof -
    let ?x = "s16 (cmod (w_rand v (w_rands v)) WORLD_WIDTH)" and ?y = "s16 (cmod (w_rand v (Suc (w_rands v))) WORLD_HEIGHT)"
    have "tile ?x ?y"
      using fit_rand [OF v, of WORLD_WIDTH "w_rands v"] fit_rand [OF v, of WORLD_HEIGHT "Suc (w_rands v)"]
      by (simp add: tile_def wrap_simps)
    then have "fit (upd_pl k (\<lambda>s. s\<lparr>m_x := ?x, m_y := ?y, m_state := CS_PLAYING\<rparr>) (v\<lparr>w_rands := j\<rparr>))" for j
      using v by (intro fit_gain) (simp_all add: sess_fit_def)
    then show ?thesis
      using assms(2) by (simp add: bot_login_def rand_next_def clock_now_def Let_def fit_view fit_send_all fit_sends)
  qed
  have "fit (upd_pl k (\<lambda>s. s\<lparr>m_state := CS_DB_WAIT\<rparr>) ?w1)" by (rule fit_gain) (use w1 in \<open>simp_all add: sess_fit_def\<close>)
  then show ?thesis using w1 by (simp add: login_packet_def Let_def b)
qed

lemma fit_chat_packet [fit_steps]:
  assumes "fit w" "in32 k"
  shows "fit (chat_packet k msg w)"
  unfolding chat_packet_def Let_def
  by (rule fit_for_players [OF assms(1)]) (use sess_fitD(1) [OF fitD(1) [OF assms]] in \<open>auto intro: fit_sends\<close>)

lemma rd_range [simp]: "in32 (rd32 bs)" "in16 (rd16 bs)"
  by (simp_all add: rd32_def rd16_def)

lemma fit_process:
  assumes "process_packet k p w = Some (ok, p', w')" "fit w" "in32 k"
  shows "fit w'"
proof -
  have n: "name_fit (strncpy_s bs 19)" for bs using strncpy_wf [of 19 MAX_NAME_LEN bs] by (simp add: name_fit_def)
  have i: "item_ok (item_of_int (rd8 bs))" for bs using rd8_range [of bs] by (simp add: item_ok_def)
  show ?thesis
    using assms dir_ok_of_int n i
    by (auto simp: process_packet_def dec_c2s_def Let_def intro!: fit_steps split: if_splits sum.splits option.splits c2s.splits)
qed

section \<open>Receiving\<close>

lemma fit_recv_loop:
  assumes "recv_loop pr k off ds buff w = Some r"
  shows "pr = process_packet k \<longrightarrow> fit w \<longrightarrow> in32 k \<longrightarrow> (\<forall>o' d' b' w'. r = LEFT_AT o' d' b' w' \<longrightarrow> fit w')"
  using assms
proof (induction rule: recv_loop.raw_induct [rotated, consumes 1])
  case (1 loop pr k off ds buff w r)
  show ?case
  proof (cases "ds = 0 \<or> nat (rd8 (drop off buff)) > ds \<or> pr (drop off buff) w = None")
    case True
    then show ?thesis using 1(2) by (auto simp: Let_def split: if_splits)
  next
    case False
    then obtain ok p' w1 where p: "pr (drop off buff) w = Some (ok, p', w1)" by auto
    show ?thesis
    proof (intro impI allI)
      fix o' d' b' w' assume pr: "pr = process_packet k" and w: "fit w" "in32 k" and r: "r = LEFT_AT o' d' b' w'"
      have m: "fit w1" using fit_process p pr w by blast
      show "fit w'"
      proof (cases ok)
        case True
        then have "loop pr k (off + nat (rd8 (drop off buff))) (ds - nat (rd8 (drop off buff))) (take off buff @ p') w1 = Some r"
          using 1(2) False p by (simp add: Let_def)
        from 1(1) [OF this] pr r m w(2) show ?thesis by blast
      next
        case False
        then have "w' = disconnect k w1" using 1(2) \<open>\<not> (ds = 0 \<or> _)\<close> p r by (auto simp: Let_def)
        then show ?thesis using fit_disconnect [OF m] by simp
      qed
    qed
  qed
qed

lemma fit_recv:
  assumes "on_recv k bs w = Some (Inr w')" "fit w"
  shows "fit w'"
proof (cases "bs = [] \<or> \<not> w_live w k")
  case True
  then show ?thesis using assms by (auto simp: on_recv_def recv_with_def intro: fit_disconnect split: if_splits)
next
  case False
  then have k: "in32 k" using fitD(3) [OF assms(2)] by blast
  let ?n = "m_prev_recv (w_pl w k)"
  let ?b = "take ?n (m_buff (w_pl w k)) @ bs @ drop (?n + length bs) (m_buff (w_pl w k))"
  obtain o' d' b' v where v: "recv_loop (process_packet k) k 0 (length bs + ?n) ?b w = Some (LEFT_AT o' d' b' v)"
    "w' = upd_pl k (recv_rest o' d' b') v"
  proof -
    from assms False obtain r where "recv_loop (process_packet k) k 0 (length bs + ?n) ?b w = Some r"
      "(case r of READS_PAST \<Rightarrow> Inl () | LEFT_AT o' d' b' v \<Rightarrow> Inr (upd_pl k (recv_rest o' d' b') v)) = Inr w'"
      by (auto simp: on_recv_def recv_with_def Let_def)
    with that show ?thesis by (cases r) auto
  qed
  have "fit v" using fit_recv_loop [OF v(1)] assms(2) k by simp
  then show ?thesis
    unfolding v(2) by (rule fit_gain) (simp_all add: recv_rest_def do_recv_def sess_fit_def)
qed

section \<open>The turns of the NPCs\<close>

lemma fit_viewers [fit_steps]:
  assumes "fit w"
  shows "fit (update_viewers n x y w)"
proof -
  have one: "fit (snd a) \<Longrightarrow> fit (snd (show_move n i a))" for i a
    by (cases a) (auto simp: show_move_def Let_def intro!: fit_steps)
  have f: "fit u" if "fit v" "fold (show_move n) ids (nv0, v) = (nv, u)" for v ids nv0 nv u
  proof -
    have "fit (snd (fold (show_move n) ids a))" if "fit (snd a)" for ids a
      using that by (induction ids arbitrary: a) (simp_all add: one)
    from this [of "(nv0, v)" ids] that show ?thesis by simp
  qed
  have "fit (upd_npc n (\<lambda>c. c\<lparr>m_last_npc_move_time := t\<rparr>) (w\<lparr>w_sectors := ss, w_ticks := a\<rparr>))" for t ss a
    by (rule fit_upd_npc) (use assms in \<open>simp_all add: npc_fit_def\<close>)
  note f = f [OF this]
  show ?thesis
    unfolding update_viewers_def Let_def
    by (auto simp: clock_now_def intro!: fit_for_players fit_remove split: prod.split dest: f)
qed

lemma fit_roam_walk [fit_steps]:
  assumes "fit w"
  shows "fit (roam_walk n w)"
proof -
  have "npc_fit (roam_step obs r c)" if f: "npc_fit c" for obs r c
  proof -
    obtain d x y where e: "roam_step obs r c = c\<lparr>m_dir := d, m_x := x, m_y := y\<rparr>" and d: "dir_ok d"
    proof -
      have "roam_step obs r c = c\<lparr>m_dir := m_dir (roam_step obs r c), m_x := m_x (roam_step obs r c), m_y := m_y (roam_step obs r c)\<rparr>"
        by (simp add: roam_step_def Let_def split: prod.split)
      moreover have "dir_ok (m_dir (roam_step obs r c))"
        using npc_fitD(12) [OF f] by (auto simp: roam_step_def face_def Let_def split: prod.split)
      ultimately show thesis using that by blast
    qed
    with f roam_step_hop [OF npc_fitD(4,5) [OF f], of obs r] show ?thesis by (simp add: npc_fit_def)
  qed
  then have "fit (upd_npc n (roam_step obs r) (w\<lparr>w_rands := i\<rparr>))" for obs r i
    using assms by (intro fit_upd_npc) auto
  then show ?thesis by (simp add: roam_walk_def rand_next_def Let_def fit_viewers)
qed

lemma fit_target [fit_steps]: "fit w \<Longrightarrow> in32 t \<Longrightarrow> fit (set_target n t w)" "fit w \<Longrightarrow> fit (set_move_state n st w)"
  unfolding set_target_def set_move_state_def by (rule fit_upd_npc; simp add: npc_fit_def)+

lemma scan_in32:
  assumes "fit w" "in32 n"
  shows "in32 (scan_target w n)"
proof -
  let ?c = "w_npc w n"
  have "in32 (snd (fold (scan_one w ?c) ids md))" if "in32 (snd md)" for ids md
    using that by (induction ids arbitrary: md) (auto simp: scan_one_def eligible_def fitD(3) [OF assms(1)])
  then show ?thesis using npc_fitD(13) [OF fitD(2) [OF assms]] by (simp add: scan_target_def Let_def)
qed

lemma fit_hurt:
  assumes "fit w" "in32 n" "in32 k" "base \<in> {8, 20, 30, 45}"
  shows "in16 (fst (hurt n k base w)) \<and> fit (snd (hurt n k base w))"
proof -
  let ?d = "guarded base (w_clock w (w_ticks w)) (m_def_boost_until (w_pl w k))"
  let ?w2 = "upd_pl k (\<lambda>s. s\<lparr>m_hp := s16 (m_hp s - ?d)\<rparr>) (w\<lparr>w_ticks := Suc (w_ticks w)\<rparr>)"
  have w2: "fit ?w2" by (rule fit_gain) (use assms(1) in \<open>simp_all add: sess_fit_def\<close>)
  have d: "in16 ?d" using assms(4) by (auto simp: guarded_def cdiv_def in16_def)
  have r: "in16 (m_hp (w_pl ?w2 k))" using sess_fitD(8) [OF fitD(1) [OF w2 assms(3)]] .
  have "fit (for_players ids (\<lambda>i. send_damage_info i (m_id (w_npc ?w2 n)) k ?d (m_hp (w_pl ?w2 k))) ?w2)" for ids
    by (rule fit_for_players [OF w2], rule fit_sends(5)) (use assms(3) d r npc_fitD(1) [OF fitD(2) [OF w2 assms(2)]] in auto)
  then show ?thesis using r by (simp add: hurt_def clock_now_def Let_def)
qed

lemma fit_die [fit_steps]:
  assumes "fit w" "in32 k"
  shows "fit (player_die k w)"
proof -
  let ?w1 = "upd_pl k (\<lambda>s. s\<lparr>m_xp := cdiv (m_xp s) 2, m_hp := m_max_hp s, m_x := PC_SPAWN_X, m_y := PC_SPAWN_Y\<rparr>) w"
  have "fit ?w1" by (rule fit_gain) (use assms in \<open>simp_all add: sess_fit_def cdiv_in32 tile_def\<close>)
  then have w3: "fit (send_avatar_info k (?w1\<lparr>w_sectors := ss\<rparr>))" for ss using assms(2) by (simp add: fit_sends)
  show ?thesis
    unfolding player_die_def Let_def
    by (intro fit_view fit_sends(4) w3 assms(2)) (use sess_fitD [OF fitD(1) [OF w3 assms(2)]] in auto)
qed

lemma fit_send_hp [fit_steps]: "fit w \<Longrightarrow> in32 k \<Longrightarrow> in16 r \<Longrightarrow> fit (send_hp k r w)"
  unfolding send_hp_def Let_def by (rule fit_sends(4)) (use sess_fitD [OF fitD(1)] in auto)

lemma fit_npc_attacks [fit_steps]:
  assumes "fit w" "in32 n"
  shows "fit (area_attack n w)" "base \<in> {20, 30} \<Longrightarrow> fit (boss_attack n base w)" "fit (npc_attack n w)"
proof -
  have m1: "in32 (-1)" by (simp add: in32_def)
  have k: "in32 (m_target_id (w_npc w n))" using npc_fitD(13) [OF fitD(2) [OF assms]] .
  have "fit s \<Longrightarrow> fit (area_one n i s)" for i s
    using fit_hurt [of s n i 45] fitD(3) [of s i] assms(2) m1
    by (auto simp: area_one_def Let_def split_beta intro!: fit_steps)
  then show "fit (area_attack n w)" unfolding area_attack_def by (rule fit_fold [OF assms(1)])
  show "fit (boss_attack n base w)" if "base \<in> {20, 30}"
    using fit_hurt [OF assms k, of base] that assms(1) k m1 by (auto simp: boss_attack_def Let_def split_beta intro!: fit_steps)
  show "fit (npc_attack n w)"
    using fit_hurt [OF assms k, of 8] assms k m1 by (auto simp: npc_attack_def Let_def split_beta intro!: fit_steps)
qed

lemma fit_retarget [fit_steps]: "fit w \<Longrightarrow> in32 n \<Longrightarrow> fit (retarget n w)"
proof -
  assume w: "fit w" "in32 n"
  have m1: "in32 (-1)" by (simp add: in32_def)
  have s: "fit v \<Longrightarrow> fit (set_target n (scan_target v n) v)" for v using scan_in32 w(2) by (blast intro: fit_target)
  show ?thesis using w(1) m1 by (auto simp: retarget_def Let_def intro!: s fit_target)
qed

lemma chase_tile:
  assumes "fit w" "tile x y" "tile tx ty" "astar_next_step (w_obstacle w) x y tx ty = (nx, ny)"
  shows "tile nx ny"
proof (cases "(x, y) = (tx, ty)")
  case True
  then show ?thesis using assms by (simp add: astar_next_step_def)
next
  case False
  from astar_answer_world [OF _ _ False, of "w_obstacle w"] assms(2-4)
  have "(nx, ny) = (x, y) \<or> \<not> w_obstacle w nx ny" by (auto simp: in_world_def tile_def box_free_def Let_def)
  then show ?thesis using fitD(9) [OF assms(1)] assms(2) by blast
qed

lemma fit_chase_walk:
  assumes "fit w" "in32 n" "tile tx ty"
  shows "fit (chase_walk n tx ty w)"
proof -
  let ?c = "w_npc w n"
  obtain nx ny where a: "astar_next_step (w_obstacle w) (m_x ?c) (m_y ?c) tx ty = (nx, ny)"
    by (cases "astar_next_step (w_obstacle w) (m_x ?c) (m_y ?c) tx ty")
  have "tile nx ny" by (rule chase_tile [OF assms(1) npc_fitD(4) [OF fitD(2) [OF assms(1,2)]] assms(3) a])
  then have "fit (upd_npc n (\<lambda>c. c\<lparr>m_dir := face (m_x c) (m_y c) nx ny, m_x := nx, m_y := ny\<rparr>) w)"
    by (intro fit_upd_npc assms(1)) (simp add: npc_fit_def face_def)
  then show ?thesis using assms(1) by (simp add: chase_walk_def a Let_def fit_viewers)
qed

lemma fit_chase:
  assumes "fit w" "in32 n" "\<And>v. fit v \<Longrightarrow> fit (roam n v)"
  shows "fit (chase_with roam n w)"
proof -
  let ?w1 = "retarget n w"
  have w1: "fit ?w1" by (rule fit_retarget [OF assms(1,2)])
  have m1: "in32 (-1)" by (simp add: in32_def)
  have ob: "tile (m_x ob) (m_y ob)" if "get_object ?w1 i = Some ob" for i ob by (rule fit_object(6) [OF w1 that])
  show ?thesis
    unfolding chase_with_def Let_def
    using w1 assms(2,3) m1 ob
    by (auto intro!: assms(3) fit_npc_attacks fit_broadcasts fit_target fit_chase_walk split: option.split)
qed

lemma fit_roaming:
  assumes "fit w" "in32 n" "\<And>v. fit v \<Longrightarrow> fit (chase n v)"
  shows "fit (roaming_with chase n w)"
  unfolding roaming_with_def Let_def
  using assms scan_in32 [OF assms(1,2)] by (auto intro!: assms(3) fit_broadcasts fit_target fit_roam_walk)

lemma fit_roam_fuel: "fit w \<Longrightarrow> in32 n \<Longrightarrow> fit (roam_fuel m n w)"
  by (induction m arbitrary: w) (auto intro: fit_roaming fit_chase)

lemma fit_npc_move:
  assumes "fit w"
  shows "fit (process_npc_move n w)"
proof (cases "get_object w n")
  case (Some ob)
  have n: "in32 n" by (rule fit_object(1) [OF assms Some])
  have nx: "fit v \<Longrightarrow> fit (next_move n v)" for v
    by (auto simp: next_move_def Let_def clock_now_def npc_fit_def in32_def intro!: fit_upd_npc split: prod.split)
  have "fit (do_roaming_move n w)" "fit (do_chase_move n w)"
    unfolding do_roaming_move_def do_chase_move_def by (intro fit_roam_fuel fit_chase assms n; assumption)+
  moreover have "fit (upd_npc n (\<lambda>c. c\<lparr>m_active_npc := False\<rparr>) w)" by (rule fit_upd_npc [OF assms]) (simp add: npc_fit_def)
  ultimately show ?thesis
    using assms nx by (auto simp: process_npc_move_def Some split: npc_state.split)
qed (use assms in \<open>simp add: process_npc_move_def\<close>)

lemma fit_respawn_tile:
  "fit w \<Longrightarrow> tile (m_origin_x c) (m_origin_y c) \<Longrightarrow> respawn_tile m c w = ((x, y), w') \<Longrightarrow> fit w' \<and> tile x y"
proof -
  assume a: "fit w" "tile (m_origin_x c) (m_origin_y c)" "respawn_tile m c w = ((x, y), w')"
  have "fit w'"
    using a(1,3)
  proof (induction m arbitrary: w)
    case (Suc m)
    then show ?case
      using Suc.IH [of "w\<lparr>w_rands := Suc (Suc (w_rands w))\<rparr>"] by (auto simp: Let_def rand_next_def split: if_splits)
  qed simp
  then show ?thesis using respawn_tile_range [OF a(2,3)] by simp
qed

lemma fit_npc_respawn:
  assumes "fit w"
  shows "fit (process_npc_respawn n w)"
proof (cases "w_live w n \<and> is_npc n")
  case True
  have n: "in32 n" using True fitD(3) [OF assms] by blast
  let ?c = "w_npc w n"
  have o: "tile (m_origin_x ?c) (m_origin_y ?c)" by (rule npc_fitD(5) [OF fitD(2) [OF assms n]])
  obtain x y w1 where r: "(if m_npc_type ?c = NPC_BOSS_TYPE then ((m_origin_x ?c, m_origin_y ?c), w)
      else respawn_tile 100 ?c w) = ((x, y), w1)" by (metis surj_pair)
  have w1: "fit w1 \<and> tile x y"
    using r fit_respawn_tile [OF assms o, of 100 x y w1] assms o by (auto split: if_splits)
  then have "fit (upd_npc n (respawn_npc x y) w1)"
    by (intro fit_upd_npc) (auto simp: npc_fit_def respawn_npc_def in32_def)
  then show ?thesis
    using True r by (auto simp: process_npc_respawn_def Let_def intro!: fit_fold fit_wake_up fit_add)
qed (use assms in \<open>auto simp: process_npc_respawn_def\<close>)

section \<open>Timers, the database and new sessions\<close>

lemma fit_regen:
  assumes "fit w"
  shows "fit (process_hp_regen k w)"
proof (cases "w_live w k")
  case True
  let ?s = "w_pl w k"
  let ?hp = "min (m_max_hp ?s) (s16 (m_hp ?s + max 1 (cdiv (m_max_hp ?s) 10)))"
  have k: "in32 k" using True fitD(3) [OF assms] by blast
  note s = sess_fitD [OF fitD(1) [OF assms k]]
  have "fit (upd_pl k (\<lambda>s. s\<lparr>m_hp := ?hp\<rparr>) w)" by (rule fit_gain [OF assms]) (use s in \<open>simp_all add: sess_fit_def\<close>)
  then have "fit (send_stat_info k k ?hp (m_max_hp ?s) (m_level ?s) (m_xp ?s) (exp_for_next_level ?s) NPC_STATE_IDLE
      (upd_pl k (\<lambda>s. s\<lparr>m_hp := ?hp\<rparr>) w))"
    by (rule fit_sends(4)) (use s k in simp_all)
  then show ?thesis using assms True by (simp add: process_hp_regen_def Let_def clock_now_def)
qed (use assms in \<open>simp add: process_hp_regen_def\<close>)

lemma sess_fit_load:
  assumes "sess_fit s" "result_fit r"
  shows "sess_fit (load_session r s)"
proof -
  have "\<forall>q \<in> set (map2 (\<lambda>q n. q\<lparr>kill_count := n\<rparr>) (m_quests s) (dr_quest_kill r)). in32 (kill_count q)"
    using assms(2) by (auto simp: result_fit_def dest: set_zip_rightD)
  then show ?thesis using assms by (simp add: load_session_def Let_def sess_fit_def result_fit_def result_ok_def)
qed

lemma fit_db_login:
  assumes "fit w" "result_fit r"
  shows "fit (on_db_login k r w)"
proof -
  have st: "fit (upd_pl k (\<lambda>s. s\<lparr>m_state := CS_LOGOUT\<rparr>) w)" by (rule fit_gain [OF assms(1)]) (simp_all add: sess_fit_def)
  have ld: "fit (upd_pl k (load_session r) w)"
    by (rule fit_gain [OF assms(1)]) (use sess_fit_load assms(2) in \<open>simp_all add: load_session_def Let_def\<close>)
  show ?thesis
  proof (cases "w_live w k")
    case True
    then have "in32 k" using fitD(3) [OF assms(1)] by blast
    then show ?thesis
      using st ld assms(1) by (auto simp: on_db_login_def Let_def clock_now_def intro!: fit_view fit_send_all fit_sends)
  qed (use assms(1) in \<open>simp add: on_db_login_def\<close>)
qed

lemma fit_completions: "fit w \<Longrightarrow> (\<forall>k r. IO_DB_LOGIN k r \<in> set cs \<longrightarrow> result_fit r) \<Longrightarrow> fit (w\<lparr>w_completions := cs\<rparr>)"
  by (auto simp: fit_def sent_fit_def given_bytes_def)

lemma fit_work:
  assumes "fit w" "i < length (w_completions w)"
  shows "fit (on_completion (w_completions w ! i) (w\<lparr>w_completions := take i (w_completions w) @ drop (Suc i) (w_completions w)\<rparr>))"
proof -
  have "fit (w\<lparr>w_completions := take i (w_completions w) @ drop (Suc i) (w_completions w)\<rparr>)"
    by (rule fit_completions [OF assms(1)]) (use fitD(7) [OF assms(1)] in \<open>auto dest: in_set_takeD in_set_dropD\<close>)
  moreover have "result_fit r" if "w_completions w ! i = IO_DB_LOGIN k r" for k r
    using fitD(7) [OF assms(1)] nth_mem [OF assms(2)] that by metis
  ultimately show ?thesis
    by (auto simp: on_completion_def fit_npc_move fit_npc_respawn fit_regen fit_db_login split: completion.split)
qed

lemma fit_timer: "fit w \<Longrightarrow> fit (timer_step w)"
proof -
  assume w: "fit w"
  have "fit (w\<lparr>w_timers := rest, w_ticks := a, w_completions := w_completions w @ [timer_completion ev]\<rparr>)" for rest a ev
    using w by (auto simp: fit_def sent_fit_def given_bytes_def timer_completion_def split: event_id.splits)
  then show ?thesis using w by (auto simp: timer_step_def Let_def clock_now_def split: option.split)
qed

lemma sess_fit_new:
  assumes "in32 i"
  shows "sess_fit (do_recv ((new_session sock i t)\<lparr>m_last_ranged_atk_time := u\<rparr>))"
  using assms by (simp add: do_recv_def new_session_def sess_fit_def name_fit_def tile_def in32_def in16_def)

lemma fit_accept: "fit w \<Longrightarrow> fit (snd (do_accept sock w))"
proof -
  assume w: "fit w"
  obtain i w1 where i: "get_new_player_id w = (i, w1)" by (cases "get_new_player_id w")
  then obtain x where x: "w1 = w\<lparr>w_player_index := x\<rparr>" "i = -1 \<or> w_player_index w \<le> i \<and> i < MAX_PLAYERS"
    using new_id_any by blast
  have p: "0 \<le> x" using new_id_index [OF i] fitD(6) [OF w] by (simp add: x(1))
  then have w1: "fit w1" using w by (auto simp: x(1) fit_def sent_fit_def given_bytes_def)
  show ?thesis
  proof (cases "i = -1")
    case False
    then have i32: "in32 i" using x(2) fitD(6) [OF w] by (simp add: in32_def)
    have new: "m_send_queue (do_recv ((new_session sock i t)\<lparr>m_last_ranged_atk_time := u\<rparr>)) = []"
      "m_visible_objects (do_recv ((new_session sock i t)\<lparr>m_last_ranged_atk_time := u\<rparr>)) = []" for t u
      by (simp_all add: do_recv_def new_session_def)
    show ?thesis
      using w1 False i32 sess_fit_new [OF i32]
      by (auto simp: do_accept_def i clock_now_def Let_def fit_def sent_fit_def given_bytes_def new)
  qed (use w1 in \<open>simp add: do_accept_def i\<close>)
qed

end
