(* ===== verification/Follow.thy ===== *)
theory Follow
  imports Fit
begin

text \<open>
  From the server's state to the client's: through every run of the threads from the start on, what
  is sent is the bytes of packets whose values fit their fields, so a client that receives them
  reads exactly the fields the server meant.
\<close>

section \<open>Every run\<close>

text \<open>
  What the database answers fits the columns the server binds, and its players stand on tiles; and
  completions report sends that were posted.
\<close>

definition row_fit :: "login_row \<Rightarrow> bool" where
  "row_fit = (\<lambda>(x, y, hp, level, xp, items). tile x y \<and> in16 hp \<and> in32 level \<and> in32 xp
    \<and> length items = ITEM_SLOT_COUNT \<and> (\<forall>n \<in> set items. in32 n))"

definition answers_fit :: "event \<Rightarrow> world \<Rightarrow> bool" where
  "answers_fit ev w =
    (case ev of
       Db c logins quests \<Rightarrow> (case logins of None \<Rightarrow> True | Some rows \<Rightarrow> \<forall>r \<in> set rows. row_fit r)
         \<and> (case quests of None \<Rightarrow> True | Some rows \<Rightarrow> \<forall>r \<in> set rows. in32 (snd r))
     | Sent k bs n \<Rightarrow> (k, bs) \<in> set (w_posted w)
     | _ \<Rightarrow> True)"

lemma result_fit_none: "result_fit no_result"
  by (simp add: result_fit_def result_ok_def no_result_def tile_def in16_def in32_def)

lemma result_fit_quests:
  assumes "result_fit r" "\<forall>q \<in> set rows. in32 (snd q)"
  shows "result_fit (r\<lparr>dr_quest_kill := fold load_quest rows (dr_quest_kill r)\<rparr>)"
proof -
  have one: "length (load_quest q ks) = length ks \<and> (in32 (snd q) \<longrightarrow> (\<forall>n \<in> set ks. in32 n) \<longrightarrow> (\<forall>n \<in> set (load_quest q ks). in32 n))"
    for q ks
    using set_update_subset_insert [of ks "nat (fst q)" "snd q"] by (cases q) (auto simp: load_quest_def)
  have "length (fold load_quest rows ks) = length ks \<and> (\<forall>n \<in> set (fold load_quest rows ks). in32 n)"
    if "\<forall>n \<in> set ks. in32 n" for ks
    using assms(2) that
  proof (induction rows arbitrary: ks)
    case (Cons q rows)
    then have "in32 (snd q)" "\<forall>r \<in> set rows. in32 (snd r)" by simp_all
    moreover from this(1) have "\<forall>n \<in> set (load_quest q ks). in32 n" using one [of q ks] Cons.prems(2) by blast
    ultimately show ?case using Cons.IH [of "load_quest q ks"] one [of q ks] unfolding fold_simps by metis
  qed simp
  from this [of "dr_quest_kill r"] assms(1) show ?thesis by (simp add: result_fit_def result_ok_def)
qed

lemma result_fit_answer:
  assumes "answers_fit (Db c logins quests) w"
  shows "result_fit (db_login_or_create logins no_result)" "result_fit (db_load_quests quests (db_login_or_create logins no_result))"
proof -
  show "result_fit (db_login_or_create logins no_result)"
    using assms result_fit_none
    by (auto simp: db_login_or_create_def answers_fit_def row_fit_def result_fit_def result_ok_def split: option.splits list.splits)
  then show "result_fit (db_load_quests quests (db_login_or_create logins no_result))"
    using assms result_fit_quests by (simp add: db_load_quests_def answers_fit_def split: option.splits)
qed

lemma fit_db_step:
  assumes "fit w" "answers_fit (Db c l q) w" "db_step c l q w = Some (qs, w')"
  shows "fit w'"
proof -
  have "fit (w\<lparr>w_db_queue := rest, w_completions := w_completions w @ [IO_DB_LOGIN k r]\<rparr>)" if "result_fit r" for rest k r
    using assms(1) that by (auto simp: fit_def sent_fit_def given_bytes_def)
  then show ?thesis
    using assms(1,3) result_fit_none result_fit_answer [OF assms(2)]
    by (auto simp: db_step_def Let_def split: list.splits db_event.splits if_splits option.splits)
qed

text \<open>What is left of a posted buffer may be posted again.\<close>

lemma fit_repost:
  assumes "fit w" "(k, bs) \<in> set (w_posted w)"
  shows "fit (on_send_complete k bs n w)"
proof -
  obtain ok w1 where p: "post_send k (drop n bs) w = (ok, w1)" by (cases "post_send k (drop n bs) w")
  note f = post_fields [OF p]
  have g: "w_given w1 = w_given w" using f by simp
  have "given_bytes w (k, drop n bs)" using fitD(10) [OF assms(1)] assms(2) given_bytes_drop unfolding sent_fit_def by blast
  then have "sent_fit w1" using fitD(10) [OF assms(1)] f unfolding sent_fit_def given_bytes_cong [OF g] by auto
  then have "fit w1" using assms(1) p by (auto simp: fit_def post_send_def Let_def split: if_splits)
  then show ?thesis using assms(1) p by (simp add: on_send_complete_def fit_fail_send fit_start_next_send)
qed

lemma fit_serve:
  assumes "fit w" "answers_fit ev w" "serve ev w = Some (Inr w')"
  shows "fit w'"
proof (cases ev)
  case (Recv i bs)
  then obtain r where "on_recv i bs w = Some r" "map_sum (\<lambda>_. OVERREAD) id r = Inr w'" using assms(3) by (auto simp: serve_def)
  then show ?thesis using fit_recv [of i bs w w'] assms(1) by (cases r) simp_all
next
  case (Sent i bs n)
  then show ?thesis
    using assms fit_repost [of w i bs n] by (auto simp: serve_def answers_fit_def on_sent_def)
next
  case (Work i)
  then show ?thesis using assms fit_work [of w i] by (auto simp: serve_def)
next
  case (Db c l q)
  then show ?thesis using assms fit_db_step by (auto simp: serve_def split: option.splits)
qed (use assms in \<open>auto simp: serve_def on_error_def fit_accept fit_disconnect fit_timer\<close>)

inductive fit_runs :: "world \<Rightarrow> world \<Rightarrow> bool" for w0 where
  fit_runs_start: "fit_runs w0 w0"
| fit_runs_step: "fit_runs w0 w \<Longrightarrow> answers_fit ev w \<Longrightarrow> serve ev w = Some (Inr w') \<Longrightarrow> fit_runs w0 w'"

lemma fit_runs_fit: "fit_runs w0 w \<Longrightarrow> fit w0 \<Longrightarrow> fit w"
  by (induction rule: fit_runs.induct) (auto intro: fit_serve)

section \<open>The start\<close>

lemma digits_nonzero: "0 \<notin> set (digits n)"
proof (induction n rule: digits.induct)
  case (1 n)
  have "of_nat (48 + d) \<noteq> (0 :: byte)" if "d < 10" for d :: nat
    using that by (subst word_of_nat_eq_0_iff) (auto dest: dvd_imp_le)
  then show ?case using 1 by (subst digits.simps) (auto simp del: of_nat_add)
qed

lemma dec_nonzero [simp]: "0 \<notin> set (dec_int i)"
  using digits_nonzero by (auto simp: dec_int_def)

lemma fit_place:
  assumes "fit w" "npc_fit c"
  shows "fit (place_npc c w)"
  using assms npc_fitD(1) [OF assms(2)] by (auto simp: place_npc_def fit_def sent_fit_def given_bytes_def)

lemma npc_fit_born:
  assumes "tile x y" "tot < MAX_NPCS" "in32 lv" "in16 hp" "0 \<notin> set name" "length name < MAX_NAME_LEN"
  shows "npc_fit (born tot x y t st lv hp name now)"
  using assms by (simp add: born_def new_npc_def npc_fit_def name_fit_def in32_def)

lemma sprintf_name_Some [simp]: "sprintf_name bs = Some name \<longleftrightarrow> name = bs \<and> length bs < MAX_NAME_LEN"
  by (auto simp: sprintf_name_def)

text \<open>What a placement draws changes the clock and the dice only.\<close>

lemma fit_group_draw: "group_draw g w = (p, w') \<Longrightarrow> fit w' = fit w"
  by (auto simp: group_draw_def rand_next_def Let_def)

lemma draws_fit:
  "boss_tile m i x y w = (p, w') \<Longrightarrow> fit w' = fit w" "group_tile m g w = (p, w') \<Longrightarrow> fit w' = fit w"
proof -
  show "boss_tile m i x y w = (p, w') \<Longrightarrow> fit w' = fit w"
    by (induction m i x y w rule: boss_tile.induct) (auto simp: rand_next_def Let_def split: if_splits)
  show "group_tile m g w = (p, w') \<Longrightarrow> fit w' = fit w"
  proof (induction m arbitrary: w)
    case (Suc m)
    obtain q w1 where d: "group_draw g w = (q, w1)" by (cases "group_draw g w")
    then show ?case using Suc fit_group_draw [OF d] by (cases q) (auto split: if_splits)
  qed (simp add: fit_group_draw)
qed

definition staffed_fit :: "nat \<Rightarrow> world \<Rightarrow> bool" where
  "staffed_fit tot w \<longleftrightarrow> staffed tot w \<and> fit w"

definition group_fit :: "npc_spawn_group \<Rightarrow> bool" where
  "group_fit g \<longleftrightarrow> in32 (g_level g) \<and> 0 \<notin> set (g_name g) \<and> length (g_name g) \<le> 12"

lemma staffed_fit_place:
  assumes "staffed_fit tot w" "staffed (Suc tot) (place_npc c w)" "npc_fit c"
  shows "staffed_fit (Suc tot) (place_npc c w)"
  using assms fit_place by (simp add: staffed_fit_def)

lemma boss_fit: "places staffed_fit 15 0 spawn_boss"
  unfolding places_def
proof (intro allI impI)
  fix i tot :: nat and w assume a: "i < 15" "tot < MAX_NPCS" "staffed_fit tot w"
  then obtain w' where w': "spawn_boss i tot w = Some w'" "staffed (Suc tot) w'"
    using spawn_boss_ok [of tot w i] by (auto simp: staffed_fit_def)
  obtain now w1 where c: "clock_now w = (now, w1)" by (cases "clock_now w")
  obtain x y w2 where b: "boss_tile 50 i (BOSS_SPAWN_X ! i) (BOSS_SPAWN_Y ! i) w1 = ((x, y), w2)" by (metis surj_pair)
  have "tile (BOSS_SPAWN_X ! i) (BOSS_SPAWN_Y ! i)" using boss_spawn_range [OF a(1)] by (simp add: tile_def)
  from boss_tile_ok [OF staffed_clock [of tot, OF _ c] a(1) this b] a(3) have t: "tile x y" "staffed tot w2" by (simp_all add: staffed_fit_def)
  have "fit w2" using draws_fit(1) [OF b] a(3) c by (auto simp: clock_now_def staffed_fit_def)
  then show "\<exists>w'. spawn_boss i tot w = Some w' \<and> staffed_fit (Suc tot) w'"
    using w' t a(2) by (auto simp: spawn_boss_def c b staffed_fit_def bytes_of_def in32_def in16_def intro!: fit_place npc_fit_born
      split: option.splits)
qed

lemma group_fit_places: "group_fit g \<Longrightarrow> places staffed_fit hi 15 (\<lambda>i. spawn_of_group g)"
  unfolding places_def
proof (intro allI impI)
  fix i tot :: nat and w assume g: "group_fit g" and a: "15 \<le> tot" "tot < MAX_NPCS" "staffed_fit tot w"
  then obtain w' where w': "spawn_of_group g tot w = Some w'" "staffed (Suc tot) w'"
    using spawn_of_group_ok [of tot w g] by (auto simp: staffed_fit_def group_fit_def)
  obtain now w1 where c: "clock_now w = (now, w1)" by (cases "clock_now w")
  obtain x y w2 where b: "group_tile 99 g w1 = ((x, y), w2)" by (metis surj_pair)
  from group_tile_ok [OF staffed_clock [of tot, OF _ c] b] a(3) have t: "tile x y" "staffed tot w2" by (simp_all add: staffed_fit_def)
  have "fit w2" using draws_fit(2) [OF b] a(3) c by (auto simp: clock_now_def staffed_fit_def)
  then show "\<exists>w'. spawn_of_group g tot w = Some w' \<and> staffed_fit (Suc tot) w'"
    using w' t a(2) g by (auto simp: spawn_of_group_def c b staffed_fit_def group_fit_def bytes_of_def in32_def in16_def
      intro!: fit_place npc_fit_born split: option.splits)
qed

lemma random_fit: "places staffed_fit hi 15 (\<lambda>i. spawn_random)"
  unfolding places_def
proof (intro allI impI)
  fix i tot :: nat and w assume a: "15 \<le> tot" "tot < MAX_NPCS" "staffed_fit tot w"
  then obtain w' where w': "spawn_random tot w = Some w'" "staffed (Suc tot) w'"
    using spawn_random_ok [of tot w] by (auto simp: staffed_fit_def)
  have f: "fit w" using a(3) by (simp add: staffed_fit_def)
  have "tile (s16 (cmod (w_rand w m) 2000)) (s16 (cmod (w_rand w k) 2000))" for m k
    using fit_rand [OF f, of 2000 m] fit_rand [OF f, of 2000 k] by (simp add: tile_def wrap_simps)
  then show "\<exists>w'. spawn_random tot w = Some w' \<and> staffed_fit (Suc tot) w'"
    using w' a(2) f by (auto simp: spawn_random_def clock_now_def rand_next_def Let_def staffed_fit_def bytes_of_def in32_def in16_def
      intro!: fit_place npc_fit_born split: option.splits)
qed

lemma fit_init:
  assumes "\<And>x y. \<not> tile x y \<Longrightarrow> obs x y" "\<And>i. 0 \<le> rnd i"
  shows "fit (init_world obs clk rnd ack)"
proof -
  have n: "npc_fit (new_npc k 0)" if "in32 k" for k
    using that by (simp add: new_npc_def npc_fit_def name_fit_def tile_def in32_def in16_def)
  have s: "sess_fit (no_session k)" if "in32 k" for k
    using that by (simp add: no_session_def new_session_def sess_fit_def name_fit_def tile_def in32_def in16_def)
  have e: "m_send_queue (no_session k) = []" "m_visible_objects (no_session k) = []" for k
    by (simp_all add: no_session_def new_session_def)
  show ?thesis using assms n s by (auto simp: fit_def sent_fit_def given_bytes_def init_world_def e in32_def)
qed

lemma fit_start_world:
  assumes "\<And>x y. \<not> tile x y \<Longrightarrow> obs x y" "\<And>i. 0 \<le> rnd i" "\<forall>g \<in> set groups. group_fit g"
    and "InitializeNPC groups (init_world obs clk rnd ack) = Some w0"
  shows "fit w0"
proof -
  have "winv {} (init_world obs clk rnd ack)" by (rule winv_init) (use assms in auto)
  then have "staffed_fit 0 (init_world obs clk rnd ack)"
    using fit_init [of obs rnd clk ack] assms(1,2) by (auto simp: staffed_fit_def staffed_def init_world_def empty_sectors_def is_pc_def is_npc_def)
  then have "\<exists>w'. InitializeNPC groups (init_world obs clk rnd ack) = Some w' \<and> staffed_fit MAX_NPCS w'"
    by (rule initialize_with [of staffed_fit]) (use assms(3) boss_fit group_fit_places random_fit in auto)
  then show ?thesis using assms(4) by (auto simp: staffed_fit_def)
qed

section \<open>Properties\<close>

text \<open>
  C4: Started by \<open>InitializeNPC\<close>, through every run of its threads in which the database's rows fit
  the columns the server binds, every packet \<open>do_send\<close> ever accepted for a session was filled with
  values within the widths of its fields: ids, coordinates, hit points, levels, experience, item
  counts, names and messages that end inside their arrays. What waits in a session's queue are
  packets given to this session, and every buffer \<open>WSASend\<close> got for it is the bytes of such packets,
  or what a partial completion left of them.
\<close>

theorem server_packets_fit:
  assumes "\<And>x y. \<not> tile x y \<Longrightarrow> obs x y" "\<And>i. 0 \<le> rnd i" "\<forall>g \<in> set groups. group_fit g"
    and "InitializeNPC groups (init_world obs clk rnd ack) = Some w0" "fit_runs w0 w"
  shows "(\<forall>k. \<forall>p \<in> set (given_to k w). wf_s2c p)
    \<and> (\<forall>k. set (m_send_queue (w_pl w k)) \<subseteq> set (given_to k w))
    \<and> (\<forall>(k, bs) \<in> set (w_posted w). \<exists>n qs. set qs \<subseteq> set (given_to k w) \<and> bs = drop n (wire_bytes qs))"
proof -
  have f: "sent_fit w" by (rule fitD(10) [OF fit_runs_fit [OF assms(5) fit_start_world [OF assms(1-4)]]])
  have g: "p \<in> set (given_to k w) \<longleftrightarrow> (k, p) \<in> set (w_given w)" for k p by (force simp: given_to_def)
  have "\<exists>n qs. set qs \<subseteq> set (given_to k w) \<and> bs = drop n (wire_bytes qs)" if m: "(k, bs) \<in> set (w_posted w)" for k bs
  proof -
    have "given_bytes w (k, bs)" using f m by (simp add: sent_fit_def)
    then obtain n qs where "\<forall>q \<in> set qs. (k, q) \<in> set (w_given w)" "bs = drop n (wire_bytes qs)" by (auto simp: given_bytes_def)
    then show ?thesis by (intro exI [of _ n] exI [of _ qs]) (auto simp: g)
  qed
  moreover have "wf_s2c p" if "(k, p) \<in> set (w_given w)" for k p
    using f that unfolding sent_fit_def by (metis snd_conv)
  ultimately show ?thesis using f by (auto simp: sent_fit_def g)
qed

theorem server_packets_fit_witness:
  "\<exists>w0 w. InitializeNPC [] (init_world (\<lambda>x y. \<not> tile x y) (\<lambda>_. 0) (\<lambda>_. 0) (\<lambda>_. True)) = Some w0 \<and> fit_runs w0 w \<and> w \<noteq> w0
    \<and> (\<forall>p \<in> set (given_to 1 w). wf_s2c p)"
proof -
  let ?i = "init_world (\<lambda>x y. \<not> tile x y) (\<lambda>_. 0) (\<lambda>_. 0) (\<lambda>_. True)"
  have "winv {} ?i" by (rule winv_init) auto
  from initialize_npcs [OF this, of "[]"] obtain w0 where w0: "InitializeNPC [] ?i = Some w0" "winv {} w0"
    by (auto simp: init_world_def empty_sectors_def)
  let ?w = "snd (do_accept 9 w0)"
  have r: "fit_runs w0 ?w"
    by (rule fit_runs_step [OF fit_runs_start, of "Accept 9"]) (simp_all add: answers_fit_def serve_def)
  have "w_player_index ?w \<noteq> w_player_index w0"
    using accept_alt [OF w0(2), of 9] by (cases "w_player_index w0 < NPC_ID_START") auto
  then have "?w \<noteq> w0" by metis
  then show ?thesis using w0(1) r server_packets_fit [OF _ _ _ w0(1) r] by auto
qed

text \<open>The runs a session stays open in, with answers that fit.\<close>

inductive followed :: "int \<Rightarrow> world \<Rightarrow> world \<Rightarrow> bool" for k w0 where
  followed_start: "followed k w0 w0"
| followed_step: "followed k w0 w \<Longrightarrow> quiet k ev w \<Longrightarrow> answers_fit ev w \<Longrightarrow> serve ev w = Some (Inr w') \<Longrightarrow> followed k w0 w'"

lemma followed_both: "followed k w0 w \<Longrightarrow> serves k w0 w \<and> fit_runs w0 w"
  by (induction rule: followed.induct) (auto intro: serves.intros fit_runs.intros)

text \<open>
  C2: The client follows the server. Take a session that stays open, and whose sends complete as a
  whole, while the server's threads do anything in any order, and a client that has received, cut in
  any way, all that was sent to the session since: what the client shows is the effect of the
  packets \<open>do_send\<close> accepted for the session since, one after the other, each with the very values the
  server's functions filled in (all of them within the widths of their fields, so none is cut), and
  nothing is left over.
\<close>

theorem client_follows_server:
  assumes "followed k w0 w" "fit w0" "open_ok w0" "0 \<le> k" "can_send (w_pl w k)"
    and "stream k w = stream k w0 @ concat bss"
    and "receives bss ([], c0) = Some (st, c)" "g_running c0"
  defines "ps \<equiv> drop (length (given_to k w0)) (given_to k w)"
  shows "given_to k w = given_to k w0 @ ps \<and> (\<forall>p \<in> set ps. wf_s2c p)
    \<and> concat bss = wire_bytes ps \<and> c = fold apply_s2c ps c0 \<and> st = []"
proof -
  have "serves k w0 w" "fit w" using followed_both [OF assms(1)] fit_runs_fit assms(2) by blast+
  then have "told k w0 w" using mirrors_serves [of k w0 w] assms(3-5) by (simp add: mirrors_def)
  then obtain qs where qs: "given_to k w = given_to k w0 @ qs" "stream k w = stream k w0 @ wire_bytes qs" "\<forall>q \<in> set qs. fine q"
    by (auto simp: told_def)
  have ps: "ps = qs" by (simp add: ps_def qs(1))
  have wf: "\<forall>p \<in> set qs. wf_s2c p"
  proof
    fix p assume "p \<in> set qs"
    then have "p \<in> set (given_to k w)" by (simp add: qs(1))
    then show "wf_s2c p" using fitD(10) [OF \<open>fit w\<close>] by (auto simp: given_to_def sent_fit_def)
  qed
  have "concat bss = wire_bytes qs" using assms(6) qs(2) by simp
  from client_reads_all [OF assms(7,8) this qs(3)] this show ?thesis
    using fold_enc [OF wf, of c0] wf by (simp add: ps qs(1))
qed

lemma neighbours_fit: "fit neighbours"
proof -
  have n: "npc_fit (new_npc k 0)" if "in32 k" for k
    using that by (simp add: new_npc_def npc_fit_def name_fit_def tile_def in32_def in16_def)
  have s: "sess_fit ((new_session 5 k 0)\<lparr>m_state := CS_PLAYING, m_x := 1000 + k, m_visible_objects := v\<rparr>)" if "k = 1 \<or> k = 2" for k v
    using that by (auto simp: new_session_def sess_fit_def name_fit_def tile_def in32_def in16_def)
  have s': "sess_fit ((no_session k)\<lparr>m_visible_objects := v\<rparr>)" if "in32 k" for k v
    using that by (simp add: no_session_def new_session_def sess_fit_def name_fit_def tile_def in32_def in16_def)
  have e: "m_send_queue (no_session k) = []" "m_send_queue (new_session 5 k 0) = []" for k
    by (simp_all add: no_session_def new_session_def)
  show ?thesis
    using n s s' by (auto simp: fit_def sent_fit_def given_bytes_def neighbours_def two_players_def init_world_def e in32_def)
qed

theorem client_follows_server_witness:
  "snd (client_recv (enc_s2c (S2C_RemovePlayer 2)) ([], (start_client (\<lambda>_. 0))\<lparr>g_running := True\<rparr>))
      = fold apply_s2c (given_to 1 (disconnect 2 neighbours)) ((start_client (\<lambda>_. 0))\<lparr>g_running := True\<rparr>)"
proof -
  let ?c = "(start_client (\<lambda>_. 0))\<lparr>g_running := True\<rparr>"
  have r: "receives [enc_s2c (S2C_RemovePlayer 2)] ([], ?c)
      = Some (fst (client_recv (enc_s2c (S2C_RemovePlayer 2)) ([], ?c)), snd (client_recv (enc_s2c (S2C_RemovePlayer 2)) ([], ?c)))"
    by simp
  have "serve (Gone 2) neighbours = Some (Inr (disconnect 2 neighbours))" by (simp add: serve_def on_error_def)
  then have "followed 1 neighbours (disconnect 2 neighbours)"
    by (rule followed_step [OF followed_start, rotated 2]) (simp_all add: quiet_def answers_fit_def)
  moreover have "given_to 1 neighbours = []" by (simp add: given_to_def neighbours_def two_players_def init_world_def)
  ultimately show ?thesis
    using client_follows_server [OF _ neighbours_fit neighbours_open _ _ _ r] neighbour_lost by auto
qed

end
