(* ===== verification/Stress.thy ===== *)
theory Stress
  imports Framing Messages
begin

text \<open>
  \<open>STRESS_TEST/NetworkModule.cpp\<close>: thousands of bots on one completion port. The state of the
  bots, the reassembly of packets in \<open>Worker_Thread\<close>, \<open>ProcessPacket\<close>, the control of the number
  of connections and the pass of \<open>Test_Thread\<close>. An access outside the arrays (undefined in the
  code) is \<open>None\<close>, or \<open>Inl ()\<close> where the loop may also not return.
\<close>

section \<open>State\<close>

record bot =
  bot_id :: int
  bot_x :: int
  bot_y :: int
  bot_dir :: direction
  bot_connected :: bool
  bot_socket :: bool
  packet_buf :: "byte list"
  curr_packet_size :: nat
  last_move_time :: int
  last_atk_time :: int
  last_ranged_time :: int

text \<open>
  \<open>bot_socket\<close>: open. \<open>packet_buf\<close> holds the \<open>prev_packet_data\<close> bytes kept. The last four
  fields of the state are what was given to \<open>WSASend\<close>, the readings of \<open>high_resolution_clock\<close>
  (nanoseconds) and those of \<open>rand\<close>.
\<close>

record stress =
  client_map :: "int \<Rightarrow> int"
  g_clients :: "int \<Rightarrow> bot"
  num_connections :: int
  client_to_close :: int
  active_clients :: int
  global_delay :: int
  last_connect_time :: int
  delay_multiplier :: int
  max_limit :: int
  increasing :: bool
  t_sent :: "(int \<times> byte list) list"
  t_clock :: "nat \<Rightarrow> int"
  t_ticks :: nat
  t_rand :: "nat \<Rightarrow> int"
  t_rands :: nat

abbreviation (input) MAX_TEST :: int where "MAX_TEST \<equiv> 10000"
abbreviation (input) MAX_CLIENTS :: int where "MAX_CLIENTS \<equiv> 20000"
abbreviation (input) DELAY_LIMIT :: int where "DELAY_LIMIT \<equiv> 100"
abbreviation (input) DELAY_LIMIT2 :: int where "DELAY_LIMIT2 \<equiv> 150"
abbreviation (input) ACCEPT_DELY :: int where "ACCEPT_DELY \<equiv> 10"

definition hr_now :: "stress \<Rightarrow> int \<times> stress" where
  "hr_now st = (t_clock st (t_ticks st), st\<lparr>t_ticks := Suc (t_ticks st)\<rparr>)"

text \<open>\<open>duration_cast<milliseconds>(d).count()\<close>, and \<open>seconds\<close> and \<open>milliseconds\<close> in nanoseconds.\<close>

definition ns_ms :: "int \<Rightarrow> int" where
  "ns_ms d = cdiv d 1000000"

definition ms_ns :: "int \<Rightarrow> int" where
  "ms_ns n = n * 1000000"

definition upd_bot :: "int \<Rightarrow> (bot \<Rightarrow> bot) \<Rightarrow> stress \<Rightarrow> stress" where
  "upd_bot i f st = st\<lparr>g_clients := (g_clients st)(i := f (g_clients st i))\<rparr>"

definition in_clients :: "int \<Rightarrow> bool" where
  "in_clients i \<longleftrightarrow> 0 \<le> i \<and> i < MAX_CLIENTS"

definition InitializeNetwork :: "(nat \<Rightarrow> int) \<Rightarrow> (nat \<Rightarrow> int) \<Rightarrow> stress" where
  "InitializeNetwork clk rnd =
    (let epoch = clk 0 - ms_ns 10000 in
     \<lparr> client_map = (\<lambda>_. -1),
       g_clients = (\<lambda>_. \<lparr> bot_id = -1, bot_x = 0, bot_y = 0, bot_dir = DOWN, bot_connected = False, bot_socket = False,
         packet_buf = [], curr_packet_size = 0, last_move_time = epoch, last_atk_time = epoch, last_ranged_time = epoch \<rparr>),
       num_connections = 0, client_to_close = 0, active_clients = 0, global_delay = 0, last_connect_time = clk 1,
       delay_multiplier = 1, max_limit = 2147483647, increasing = True,
       t_sent = [], t_clock = clk, t_ticks = 2, t_rand = rnd, t_rands = 0 \<rparr>)"

section \<open>Packets\<close>

definition DisconnectClient :: "int \<Rightarrow> stress \<Rightarrow> stress option" where
  "DisconnectClient ci st =
    (if \<not> in_clients ci then None
     else if bot_connected (g_clients st ci)
     then Some ((upd_bot ci (\<lambda>b. b\<lparr>bot_connected := False, bot_socket := False\<rparr>) st)
       \<lparr>active_clients := active_clients st - 1\<rparr>)
     else Some st)"

definition SendPacket :: "int \<Rightarrow> byte list \<Rightarrow> stress \<Rightarrow> stress" where
  "SendPacket cl packet st =
    (let psize = nat (rd8 packet) in st\<lparr>t_sent := t_sent st @ [(cl, take psize packet)]\<rparr>)"

definition on_avatar :: "int \<Rightarrow> int \<Rightarrow> int \<Rightarrow> int \<Rightarrow> direction \<Rightarrow> stress \<Rightarrow> stress option" where
  "on_avatar ci pid x y dir st =
    (if \<not> in_clients pid then None
     else Some ((upd_bot ci (\<lambda>b. b\<lparr>bot_connected := True, bot_id := pid, bot_x := x, bot_y := y, bot_dir := dir\<rparr>) st)
       \<lparr>active_clients := active_clients st + 1, client_map := (client_map st)(pid := ci)\<rparr>))"

definition on_delay :: "int \<Rightarrow> stress \<Rightarrow> stress" where
  "on_delay move_time st =
    (let (now, st1) = hr_now st; d_ms = ns_ms now - move_time in
     if global_delay st1 < d_ms then st1\<lparr>global_delay := s32 (global_delay st1 + 1)\<rparr>
     else if global_delay st1 > d_ms then st1\<lparr>global_delay := s32 (global_delay st1 - 1)\<rparr>
     else st1)"

definition on_move :: "int \<Rightarrow> int \<Rightarrow> int \<Rightarrow> int \<Rightarrow> int \<Rightarrow> direction \<Rightarrow> stress \<Rightarrow> stress option" where
  "on_move ci pid x y move_time dir st =
    (if \<not> pid < MAX_CLIENTS then Some st
     else if pid < 0 then None
     else let my_id = client_map st pid in
       if my_id \<noteq> -1 \<and> \<not> in_clients my_id then None
       else let st1 = (if my_id \<noteq> -1 then upd_bot my_id (\<lambda>b. b\<lparr>bot_x := x, bot_y := y, bot_dir := dir\<rparr>) st else st)
         in Some (if ci = my_id \<and> move_time \<noteq> 0 then on_delay move_time st1 else st1))"

definition ProcessPacket :: "int \<Rightarrow> byte list \<Rightarrow> stress \<Rightarrow> stress option" where
  "ProcessPacket ci packet st =
    (let ty = rd32 (drop 1 packet); r = drop 5 packet in
     if ty = 7 then (if rd8 r = 0 then DisconnectClient ci st else Some st)
     else if ty = 11 then on_move ci (rd32 r) (rd16 (drop 4 r)) (rd16 (drop 6 r)) (rd32 (drop 8 r)) (dir_of_int (rd32 (drop 12 r))) st
     else if ty = 8 then on_avatar ci (rd32 r) (rd16 (drop 4 r)) (rd16 (drop 6 r)) (dir_of_int (rd32 (drop 24 r))) st
     else Some st)"

section \<open>Worker_Thread\<close>

text \<open>
  The loop over a receive: \<open>buf\<close> the bytes not looked at, \<open>psize\<close> the size of the packet begun
  (0: not known), \<open>pr\<close> the bytes of it kept. The array a packet is put together in is not
  initialised: behind the packet it holds \<open>stale\<close> bytes.
\<close>

partial_function (option) bot_loop ::
  "(byte list \<Rightarrow> byte list) \<Rightarrow> int \<Rightarrow> byte list \<Rightarrow> nat \<Rightarrow> byte list \<Rightarrow> stress \<Rightarrow> (unit + nat \<times> byte list \<times> stress) option" where
  "bot_loop stale ci buf psize pr st =
    (if buf = [] then Some (Inr (psize, pr, st))
     else let psize = (if psize = 0 then nat (rd8 buf) else psize) in
       if length buf + length pr \<ge> psize
       then let packet = pr @ take (psize - length pr) buf in
         (case ProcessPacket ci (packet @ stale packet) st of
            None \<Rightarrow> Some (Inl ())
          | Some st' \<Rightarrow> bot_loop stale ci (drop (psize - length pr) buf) 0 [] st')
       else Some (Inr (psize, pr @ buf, st)))"

text \<open>A receive that completed, and whether the next one could be started.\<close>

definition bot_recv :: "(byte list \<Rightarrow> byte list) \<Rightarrow> bool \<Rightarrow> int \<Rightarrow> byte list \<Rightarrow> stress \<Rightarrow> (unit + stress) option" where
  "bot_recv stale recv_ok ci bs st =
    (let ret = (\<lambda>r. case r of None \<Rightarrow> Inl () | Some st' \<Rightarrow> Inr st') in
     if bs = [] then Some (ret (DisconnectClient ci st))
     else map_option (\<lambda>r. case r of
         Inl u \<Rightarrow> Inl u
       | Inr (psize, pr, st') \<Rightarrow>
           let st2 = upd_bot ci (\<lambda>b. b\<lparr>curr_packet_size := psize, packet_buf := pr\<rparr>) st'
           in if recv_ok then Inr st2 else ret (DisconnectClient ci st2))
       (bot_loop stale ci bs (curr_packet_size (g_clients st ci)) (packet_buf (g_clients st ci)) st))"

definition bot_sent :: "int \<Rightarrow> nat \<Rightarrow> nat \<Rightarrow> stress \<Rightarrow> stress option" where
  "bot_sent ci io_size len st = (if io_size = 0 \<or> io_size \<noteq> len then DisconnectClient ci st else Some st)"

section \<open>Adjust_Number_Of_Client\<close>

text \<open>\<open>connect_ok\<close> and \<open>recv_ok\<close>: whether \<open>WSAConnect\<close> and the first \<open>WSARecv\<close> succeed.\<close>

definition connect_bot :: "bool \<Rightarrow> bool \<Rightarrow> stress \<Rightarrow> stress" where
  "connect_bot connect_ok recv_ok st =
    (let idx = num_connections st; st1 = upd_bot idx (\<lambda>b. b\<lparr>bot_socket := True\<rparr>) st in
     if \<not> connect_ok then st1
     else let st2 = upd_bot idx (\<lambda>b. b\<lparr>curr_packet_size := 0, packet_buf := []\<rparr>) st1 in
       if \<not> recv_ok then st2
       else let st3 = SendPacket idx (enc_c2s (C2S_Login (bytes_of ''bot_'' @ dec_int idx))) st2
         in st3\<lparr>num_connections := num_connections st3 + 1\<rparr>)"

definition close_one :: "stress \<Rightarrow> stress option" where
  "close_one st =
    (let (now, st1) = hr_now st in
     case DisconnectClient (client_to_close st1) (st1\<lparr>last_connect_time := now\<rparr>) of
       None \<Rightarrow> None
     | Some st2 \<Rightarrow> Some (st2\<lparr>client_to_close := client_to_close st2 + 1\<rparr>))"

definition Adjust_Number_Of_Client :: "bool \<Rightarrow> bool \<Rightarrow> stress \<Rightarrow> stress option" where
  "Adjust_Number_Of_Client connect_ok recv_ok st =
    (if active_clients st \<ge> MAX_TEST then Some st
     else if num_connections st \<ge> MAX_CLIENTS then Some st
     else let (now, st1) = hr_now st; waited = ns_ms (now - last_connect_time st1) in
       if ACCEPT_DELY * delay_multiplier st1 > waited then Some st1
       else if DELAY_LIMIT2 < global_delay st1
       then let st2 = (if increasing st1 then st1\<lparr>max_limit := active_clients st1, increasing := False\<rparr> else st1) in
         if 100 > active_clients st2 then Some st2
         else if ACCEPT_DELY * 10 > waited then Some st2
         else close_one st2
       else if DELAY_LIMIT < global_delay st1 then Some (st1\<lparr>delay_multiplier := 10\<rparr>)
       else if max_limit st1 - cdiv (max_limit st1) 20 < active_clients st1 then Some st1
       else let (now2, st2) = hr_now (st1\<lparr>increasing := True\<rparr>)
         in Some (connect_bot connect_ok recv_ok (st2\<lparr>last_connect_time := now2\<rparr>)))"

section \<open>Test_Thread\<close>

definition rand_dir :: "stress \<Rightarrow> direction \<times> stress" where
  "rand_dir st = (dir_of_int (cmod (t_rand st (t_rands st)) 4), st\<lparr>t_rands := Suc (t_rands st)\<rparr>)"

definition bot_move :: "int \<Rightarrow> int \<Rightarrow> stress \<Rightarrow> stress" where
  "bot_move now i st =
    (if last_move_time (g_clients st i) + ms_ns 1000 \<le> now
     then let (d, st1) = rand_dir (upd_bot i (\<lambda>b. b\<lparr>last_move_time := now\<rparr>) st)
       in SendPacket i (enc_c2s (C2S_Move d (s32 (ns_ms now)))) (upd_bot i (\<lambda>b. b\<lparr>bot_dir := d\<rparr>) st1)
     else st)"

definition bot_attack :: "int \<Rightarrow> int \<Rightarrow> stress \<Rightarrow> stress" where
  "bot_attack now i st =
    (if last_atk_time (g_clients st i) + ms_ns 1500 \<le> now
     then SendPacket i (enc_c2s C2S_Attack) (upd_bot i (\<lambda>b. b\<lparr>last_atk_time := now\<rparr>) st)
     else st)"

definition bot_ranged :: "int \<Rightarrow> int \<Rightarrow> stress \<Rightarrow> stress" where
  "bot_ranged now i st =
    (if last_ranged_time (g_clients st i) + ms_ns 2500 \<le> now
     then SendPacket i (enc_c2s C2S_RangedAttack) (upd_bot i (\<lambda>b. b\<lparr>last_ranged_time := now\<rparr>) st)
     else st)"

definition bot_turn :: "int \<Rightarrow> int \<Rightarrow> stress \<Rightarrow> stress" where
  "bot_turn now i st =
    (if \<not> bot_connected (g_clients st i) then st else bot_ranged now i (bot_attack now i (bot_move now i st)))"

text \<open>One round of the loop.\<close>

definition test_round :: "bool \<Rightarrow> bool \<Rightarrow> stress \<Rightarrow> stress option" where
  "test_round connect_ok recv_ok st =
    (case Adjust_Number_Of_Client connect_ok recv_ok st of
       None \<Rightarrow> None
     | Some st1 \<Rightarrow> let (now, st2) = hr_now st1 in Some (fold (bot_turn now) [0..num_connections st2 - 1] st2))"

text \<open>The points to draw; the array has room for \<open>MAX_TEST\<close> of them.\<close>

definition GetPointCloud :: "stress \<Rightarrow> (int \<times> int) list option" where
  "GetPointCloud st =
    (let ps = map (\<lambda>i. (bot_x (g_clients st i), bot_y (g_clients st i)))
       (filter (\<lambda>i. bot_connected (g_clients st i)) [0..num_connections st - 1])
     in if int (length ps) \<le> MAX_TEST then Some ps else None)"

text \<open>What can happen: a completed receive or send, a failed operation, or a round of \<open>Test_Thread\<close>.\<close>

datatype stress_event = BotRecv "byte list \<Rightarrow> byte list" bool int "byte list" | BotSent int nat nat | BotFail int | Round bool bool

definition stress_step :: "stress_event \<Rightarrow> stress \<Rightarrow> (unit + stress) option" where
  "stress_step ev st =
    (let ret = (\<lambda>r. case r of None \<Rightarrow> Inl () | Some st' \<Rightarrow> Inr st') in
     case ev of
       BotRecv stale ok ci bs \<Rightarrow> bot_recv stale ok ci bs st
     | BotSent ci n len \<Rightarrow> Some (ret (bot_sent ci n len st))
     | BotFail ci \<Rightarrow> Some (ret (DisconnectClient ci st))
     | Round c r \<Rightarrow> Some (ret (test_round c r st)))"

end
