(* ===== verification/StressSafe.thy ===== *)
theory StressSafe
  imports Stress
begin

text \<open>
  The stress tester: its reassembly of packets as a reader of the server's stream, the packets of
  size 0 that hang it, its count of active clients, its measure of the delay, and its limits.
\<close>

section \<open>Packets by their fields\<close>

definition or_same :: "stress \<Rightarrow> stress option \<Rightarrow> stress" where
  "or_same st r = (case r of None \<Rightarrow> st | Some st' \<Rightarrow> st')"

fun bot_effect :: "int \<Rightarrow> s2c \<Rightarrow> stress \<Rightarrow> stress option" where
  "bot_effect ci (S2C_LoginResult ok _) st = (if ok then Some st else DisconnectClient ci st)"
| "bot_effect ci (S2C_MovePlayer pid x y t d) st = on_move ci pid x y t d st"
| "bot_effect ci (S2C_AvatarInfo pid x y _ _ _ _ _ d) st = on_avatar ci pid x y d st"
| "bot_effect ci _ st = Some st"

lemma process_enc: "wf_s2c q \<Longrightarrow> ProcessPacket ci (enc_s2c q @ r) st = bot_effect ci q st"
  unfolding ProcessPacket_def Let_def drop_enc_s2c
  by (cases q) (simp_all add: wrap_simps dir_ok_def)

text \<open>The ids the server gives out: of players in range, of objects not negative.\<close>

fun ids_in_range :: "s2c \<Rightarrow> bool" where
  "ids_in_range (S2C_MovePlayer pid _ _ _ _) \<longleftrightarrow> 0 \<le> pid"
| "ids_in_range (S2C_AvatarInfo pid _ _ _ _ _ _ _ _) \<longleftrightarrow> in_clients pid"
| "ids_in_range _ \<longleftrightarrow> True"

definition map_ok :: "stress \<Rightarrow> bool" where
  "map_ok st \<longleftrightarrow> (\<forall>k. client_map st k = -1 \<or> in_clients (client_map st k))"

lemma delay_fields [simp]: "client_map (on_delay t st) = client_map st" "g_clients (on_delay t st) = g_clients st"
  "active_clients (on_delay t st) = active_clients st"
  by (simp_all add: on_delay_def hr_now_def Let_def)

lemma bot_effect_some: "ids_in_range q \<Longrightarrow> in_clients ci \<Longrightarrow> map_ok st \<Longrightarrow> \<exists>st'. bot_effect ci q st = Some st' \<and> map_ok st'"
  by (cases q) (auto simp: DisconnectClient_def on_move_def on_avatar_def map_ok_def upd_bot_def Let_def)

lemma bot_effect_buffer:
  "bot_effect ci q st = Some st' \<Longrightarrow> packet_buf (g_clients st' k) = packet_buf (g_clients st k)
    \<and> curr_packet_size (g_clients st' k) = curr_packet_size (g_clients st k)"
  by (cases q) (auto simp: DisconnectClient_def on_move_def on_avatar_def upd_bot_def Let_def split: if_splits)

section \<open>The stream\<close>

definition kept_size :: "byte list \<Rightarrow> nat" where
  "kept_size pr = (if pr = [] then 0 else nat (rd8 pr))"

definition keep_part :: "int \<Rightarrow> byte list \<Rightarrow> stress \<Rightarrow> stress" where
  "keep_part ci pr st = upd_bot ci (\<lambda>b. b\<lparr>curr_packet_size := kept_size pr, packet_buf := pr\<rparr>) st"

lemma keep_part_fields [simp]: "client_map (keep_part ci r st) = client_map st" "active_clients (keep_part ci r st) = active_clients st"
  "bot_connected (g_clients (keep_part ci r st) k) = bot_connected (g_clients st k)"
  by (simp_all add: keep_part_def upd_bot_def)

lemma upd_keep:
  assumes "\<And>b. f (b\<lparr>curr_packet_size := kept_size r, packet_buf := r\<rparr>) = (f b)\<lparr>curr_packet_size := kept_size r, packet_buf := r\<rparr>"
  shows "upd_bot k f (keep_part ci r st) = keep_part ci r (upd_bot k f st)"
  by (cases "k = ci") (simp_all add: keep_part_def upd_bot_def assms fun_upd_twist)

lemma update_keep [simp]:
  "(keep_part ci r st)\<lparr>active_clients := a\<rparr> = keep_part ci r (st\<lparr>active_clients := a\<rparr>)"
  "(keep_part ci r st)\<lparr>client_map := m\<rparr> = keep_part ci r (st\<lparr>client_map := m\<rparr>)"
  by (simp_all add: keep_part_def upd_bot_def)

lemma disconnect_keep: "DisconnectClient k (keep_part ci r st) = map_option (keep_part ci r) (DisconnectClient k st)"
  by (simp add: DisconnectClient_def upd_keep)

lemma avatar_keep: "on_avatar k pid x y d (keep_part ci r st) = map_option (keep_part ci r) (on_avatar k pid x y d st)"
  by (simp add: on_avatar_def upd_keep)

lemma delay_keep: "on_delay t (keep_part ci r st) = keep_part ci r (on_delay t st)"
  by (simp add: on_delay_def hr_now_def keep_part_def upd_bot_def Let_def)

lemma move_keep: "on_move k pid x y t d (keep_part ci r st) = map_option (keep_part ci r) (on_move k pid x y t d st)"
  by (simp add: on_move_def Let_def upd_keep delay_keep)

lemma process_keep: "ProcessPacket k p (keep_part ci r st) = map_option (keep_part ci r) (ProcessPacket k p st)"
  by (simp add: ProcessPacket_def Let_def disconnect_keep avatar_keep move_keep)

definition bot_packet :: "byte list \<Rightarrow> bool" where
  "bot_packet p \<longleftrightarrow> (\<exists>q. wf_s2c q \<and> ids_in_range q \<and> p = enc_s2c q)"

definition bot_handle :: "(byte list \<Rightarrow> byte list) \<Rightarrow> int \<Rightarrow> byte list \<Rightarrow> stress \<Rightarrow> stress" where
  "bot_handle stale ci p st = or_same st (ProcessPacket ci (p @ stale p) st)"

definition bot_live :: "int \<Rightarrow> stress \<Rightarrow> bool" where
  "bot_live ci st \<longleftrightarrow> in_clients ci \<and> map_ok st \<and> frames (packet_buf (g_clients st ci)) = ([], packet_buf (g_clients st ci))
    \<and> curr_packet_size (g_clients st ci) = kept_size (packet_buf (g_clients st ci))
    \<and> (rd8 (packet_buf (g_clients st ci)) \<noteq> 0 \<or> packet_buf (g_clients st ci) = [])"

lemma bot_handle_good: "bot_packet p \<Longrightarrow> in_clients ci \<Longrightarrow> map_ok st \<Longrightarrow>
    ProcessPacket ci (p @ stale p) st = Some (bot_handle stale ci p st) \<and> map_ok (bot_handle stale ci p st)"
  using bot_effect_some [of _ ci st] process_enc [of _ ci _ st] by (fastforce simp: bot_packet_def bot_handle_def or_same_def)

lemma bot_loop_frames:
  assumes "map_ok st" "in_clients ci" "frames pr = ([], pr)" "rd8 pr \<noteq> 0 \<or> pr = []"
    and "\<forall>p \<in> set (fst (frames (pr @ buf))). bot_packet p"
    and "rd8 (snd (frames (pr @ buf))) \<noteq> 0 \<or> snd (frames (pr @ buf)) = []"
  shows "bot_loop stale ci buf (kept_size pr) pr st = Some (Inr (kept_size (snd (frames (pr @ buf))), snd (frames (pr @ buf)),
    fold (bot_handle stale ci) (fst (frames (pr @ buf))) st))"
  using assms
proof (induction "length buf" arbitrary: buf pr st rule: less_induct)
  case less
  show ?case
  proof (cases "buf = []")
    case True
    then show ?thesis using less.prems(3) by (subst bot_loop.simps) simp
  next
    case b: False
    let ?n = "nat (rd8 (pr @ buf))"
    have n: "(if kept_size pr = 0 then nat (rd8 buf) else kept_size pr) = ?n"
      using less.prems(4) rd8_append [of pr buf] rd8_range(1) [of pr] by (cases "pr = []") (auto simp: kept_size_def)
    have pos: "?n \<noteq> 0"
    proof
      assume "?n = 0"
      then have "rd8 (pr @ buf) = 0" using rd8_range(1) [of "pr @ buf"] by simp
      with frames_stop [of "pr @ buf"] less.prems(6) b show False by simp
    qed
    have pr: "length pr < ?n"
    proof (cases "pr = []")
      case False
      then have "rd8 pr \<noteq> 0" using less.prems(4) by simp
      moreover have "\<not> rd8 pr \<le> int (length pr)"
        using frames_next [of pr] less.prems(3) rd8_range(1) [of pr] \<open>rd8 pr \<noteq> 0\<close> by auto
      ultimately show ?thesis using rd8_append [OF False, of buf] by simp
    qed (use pos in simp)
    show ?thesis
    proof (cases "length buf + length pr \<ge> ?n")
      case True
      let ?p = "pr @ take (?n - length pr) buf" and ?d = "drop (?n - length pr) buf"
      have f: "frames (pr @ buf) = (?p # fst (frames ?d), snd (frames ?d))"
        using frames_next [of "pr @ buf"] pos True pr by simp
      have p: "bot_packet ?p" using less.prems(5) f by simp
      note h = bot_handle_good [OF p less.prems(2,1), of stale]
      have "bot_loop stale ci ?d (kept_size []) [] (bot_handle stale ci ?p st)
          = Some (Inr (kept_size (snd (frames ([] @ ?d))), snd (frames ([] @ ?d)),
            fold (bot_handle stale ci) (fst (frames ([] @ ?d))) (bot_handle stale ci ?p st)))"
      proof (rule less.hyps)
        have "0 < length buf" using b by simp
        then show "length ?d < length buf" using pr unfolding length_drop by linarith
      qed (use h less.prems f in simp_all)
      then show ?thesis
        using b n True h by (subst bot_loop.simps) (simp add: Let_def f kept_size_def)
    next
      case False
      then have "frames (pr @ buf) = ([], pr @ buf)" by (intro frames_stop) (simp, linarith)
      then show ?thesis using b n False by (subst bot_loop.simps) (simp add: Let_def kept_size_def)
    qed
  qed
qed

interpretation bots: stream_reader
  "\<lambda>bs st. case bot_recv stale True ci bs st of Some (Inr st') \<Rightarrow> Some st' | _ \<Rightarrow> None"
  "bot_handle stale ci" "\<lambda>st. packet_buf (g_clients st ci)" "keep_part ci" "bot_live ci"
  "\<lambda>bs st. bs \<noteq> [] \<and> length bs \<le> 255" bot_packet for stale ci
proof
  fix s :: stress and bs p r r'
  let ?x = "packet_buf (g_clients s ci) @ bs"
  show "bot_live ci s \<Longrightarrow> bs \<noteq> [] \<and> length bs \<le> 255 \<Longrightarrow> rd8 (snd (frames ?x)) \<noteq> 0 \<or> snd (frames ?x) = []
      \<Longrightarrow> \<forall>p \<in> set (fst (frames ?x)). bot_packet p
      \<Longrightarrow> (case bot_recv stale True ci bs s of Some (Inr st') \<Rightarrow> Some st' | _ \<Rightarrow> None)
        = Some (keep_part ci (snd (frames ?x)) (fold (bot_handle stale ci) (fst (frames ?x)) s))"
    using bot_loop_frames [of s ci "packet_buf (g_clients s ci)" bs stale]
    by (simp add: bot_live_def bot_recv_def keep_part_def)
  have same: "b\<lparr>curr_packet_size := curr_packet_size b, packet_buf := packet_buf b\<rparr> = b" for b :: bot
    by (cases b) simp
  show "keep_part ci (packet_buf (g_clients s ci)) s = s" if l: "bot_live ci s"
  proof -
    from l have "kept_size (packet_buf (g_clients s ci)) = curr_packet_size (g_clients s ci)" by (simp add: bot_live_def)
    then show ?thesis unfolding keep_part_def upd_bot_def by (simp only: same fun_upd_triv) simp
  qed
  show "keep_part ci r (keep_part ci r' s) = keep_part ci r s" by (simp add: keep_part_def upd_bot_def)
  show "bot_handle stale ci p (keep_part ci r s) = keep_part ci r (bot_handle stale ci p s)"
    by (simp add: bot_handle_def or_same_def process_keep split: option.split)
  show "bot_live ci s \<Longrightarrow> bot_packet p \<Longrightarrow> bot_live ci (bot_handle stale ci p s)"
    using bot_handle_good [of p ci s stale] process_enc [of _ ci "stale p" s] bot_effect_buffer [of ci _ s]
    by (auto simp: bot_live_def bot_packet_def)
  show "bot_live ci s \<Longrightarrow> frames r = ([], r) \<Longrightarrow> rd8 r \<noteq> 0 \<or> r = [] \<Longrightarrow> bot_live ci (keep_part ci r s)"
    by (auto simp: bot_live_def keep_part_def upd_bot_def map_ok_def)
qed (simp_all add: bot_live_def keep_part_def upd_bot_def)

text \<open>The receives of one bot; a piece is at most as long as its buffer of 255 bytes.\<close>

fun bot_receives :: "(byte list \<Rightarrow> byte list) \<Rightarrow> int \<Rightarrow> byte list list \<Rightarrow> stress \<Rightarrow> stress option" where
  "bot_receives stale ci [] st = Some st"
| "bot_receives stale ci (bs # bss) st =
    (case bot_recv stale True ci bs st of Some (Inr st') \<Rightarrow> bot_receives stale ci bss st' | _ \<Rightarrow> None)"

lemma bot_receives_append:
  "bot_receives stale ci (xs @ ys) st = Option.bind (bot_receives stale ci xs st) (bot_receives stale ci ys)"
  by (induction xs arbitrary: st) (auto split: option.split sum.split)

lemma receives_bots:
  assumes "bot_live ci st" "\<forall>bs \<in> set bss. bs \<noteq> [] \<and> length bs \<le> 255"
    and "\<forall>p \<in> set (fst (frames (packet_buf (g_clients st ci) @ concat bss))). bot_packet p"
    and "\<And>xs ys. packet_buf (g_clients st ci) @ concat bss = xs @ ys \<Longrightarrow> rd8 (snd (frames xs)) \<noteq> 0 \<or> snd (frames xs) = []"
  shows "\<exists>st'. bot_receives stale ci bss st = Some st' \<and> bots.reads stale ci st bss st'"
  using assms(2-4)
proof (induction bss rule: rev_induct)
  case Nil
  show ?case by (rule exI [of _ st]) (simp add: bots.reads_start)
next
  case (snoc bs bss)
  let ?x = "packet_buf (g_clients st ci)"
  have "\<exists>st'. bot_receives stale ci bss st = Some st' \<and> bots.reads stale ci st bss st'"
  proof (rule snoc.IH)
    show "\<forall>p \<in> set (fst (frames (?x @ concat bss))). bot_packet p"
      using snoc.prems(2) frames_append [of "?x @ concat bss" bs] by simp
    show "rd8 (snd (frames xs)) \<noteq> 0 \<or> snd (frames xs) = []" if "?x @ concat bss = xs @ ys" for xs ys
      by (rule snoc.prems(3) [of xs "ys @ bs"]) (use that in simp)
  qed (use snoc.prems(1) in simp)
  then obtain st' where st': "bot_receives stale ci bss st = Some st'" "bots.reads stale ci st bss st'" by blast
  have f: "bs \<noteq> [] \<and> length bs \<le> 255" using snoc.prems(1) by simp
  obtain st'' where s: "(case bot_recv stale True ci bs st' of Some (Inr st') \<Rightarrow> Some st' | _ \<Rightarrow> None) = Some st''"
    using bots.reads_on [OF st'(2) assms(1) f] snoc.prems by auto
  then have "bot_recv stale True ci bs st' = Some (Inr st'')" by (auto split: option.splits sum.splits)
  then have "bot_receives stale ci (bss @ [bs]) st = Some st''" by (simp add: bot_receives_append st'(1))
  with bots.reads_more [OF st'(2) f s] show ?case by blast
qed

lemma fold_bot_handle:
  "\<forall>q \<in> set qs. wf_s2c q \<Longrightarrow> fold (bot_handle stale ci) (map enc_s2c qs) st = fold (\<lambda>q s. or_same s (bot_effect ci q s)) qs st"
  by (induction qs arbitrary: st) (simp_all add: bot_handle_def process_enc)

text \<open>
  C30: However the network cuts the server's stream, the stress tester puts the same packets
  together that the server sent, acts on each complete one once and in order, and keeps less
  than one packet. It always comes back, and never leaves its arrays of 255 bytes.
\<close>

theorem stress_stream:
  assumes "in_clients ci" "map_ok st" "packet_buf (g_clients st ci) = []" "curr_packet_size (g_clients st ci) = 0"
    and "\<forall>bs \<in> set bss. bs \<noteq> [] \<and> length bs \<le> 255" "\<forall>q \<in> set ps. wf_s2c q \<and> ids_in_range q"
    and "concat bss @ later = concat (map enc_s2c ps)"
  shows "\<exists>qs qs' part. ps = qs @ qs' \<and> concat bss = concat (map enc_s2c qs) @ part
    \<and> (case qs' of [] \<Rightarrow> part = [] | q # _ \<Rightarrow> length part < s2c_size q)
    \<and> bot_receives stale ci bss st = Some (keep_part ci part (fold (\<lambda>q s. or_same s (bot_effect ci q s)) qs st))"
proof -
  let ?r = "snd (frames (concat bss))"
  obtain qs qs' where q: "ps = qs @ qs'" "frames (concat bss) = (map enc_s2c qs, ?r)"
    "concat bss = concat (map enc_s2c qs) @ ?r" "case qs' of [] \<Rightarrow> ?r = [] | q # _ \<Rightarrow> length ?r < s2c_size q"
    using enc_prefix [OF assms(7)] by blast
  have l: "bot_live ci st" using assms by (simp add: bot_live_def kept_size_def)
  have g: "\<forall>p \<in> set (fst (frames (concat bss))). bot_packet p"
    using assms(6) q(1) by (subst q(2)) (auto simp: bot_packet_def)
  have z: "rd8 (snd (frames xs)) \<noteq> 0 \<or> snd (frames xs) = []" if "concat bss = xs @ ys" for xs ys
    using enc_prefix [of xs "ys @ later" ps] that assms(7) by auto
  obtain st' where r: "bot_receives stale ci bss st = Some st'" "bots.reads stale ci st bss st'"
    using receives_bots [OF l assms(5), where stale = stale] g z assms(3) by auto
  have "fst (frames (concat bss)) = map enc_s2c qs" by (subst q(2)) simp
  then have "st' = keep_part ci ?r (fold (bot_handle stale ci) (map enc_s2c qs) st)"
    using bots.reads_stream [OF r(2) l] g z assms(3) by simp
  then have "bot_receives stale ci bss st = Some (keep_part ci ?r (fold (\<lambda>q s. or_same s (bot_effect ci q s)) qs st))"
    using r(1) fold_bot_handle [of qs stale ci st] assms(6) q(1) by simp
  then show ?thesis using q(1,3,4) by blast
qed

theorem stress_stream_witness:
  "\<exists>part st. bot_receives (\<lambda>_. []) 5 [take 9 (enc_s2c (S2C_RemovePlayer 7))] (InitializeNetwork (\<lambda>_. 0) (\<lambda>_. 0)) = Some (keep_part 5 part st)"
proof -
  have "concat [take 9 (enc_s2c (S2C_RemovePlayer 7))] @ [] = concat (map enc_s2c [S2C_RemovePlayer 7])" by simp
  from stress_stream [OF _ _ _ _ _ _ this, of 5 "InitializeNetwork (\<lambda>_. 0) (\<lambda>_. 0)" "\<lambda>_. []"] show ?thesis
    by (auto simp: in_clients_def map_ok_def InitializeNetwork_def Let_def in32_def)
qed

section \<open>Packets of size zero\<close>

lemmas bot_loop_induct = bot_loop.raw_induct [rotated]

lemma loop_at_zero:
  assumes "bot_loop stale ci buf psize pr st = Some res"
  shows "psize = 0 \<longrightarrow> pr = [] \<longrightarrow> rd8 buf = 0 \<longrightarrow> buf \<noteq> [] \<longrightarrow> res = Inl ()"
  using assms
proof (induction rule: bot_loop_induct [consumes 1])
  case (1 loop stale ci buf psize pr st res)
  then show ?case by (auto simp: Let_def split: option.splits)
qed

text \<open>
  A packet that starts with a size of 0 ends the worker: it handles the uninitialised array
  again and again, and comes back only by leaving the arrays of the program.
\<close>

theorem stress_zero_hangs:
  assumes "packet_buf (g_clients st ci) = []" "curr_packet_size (g_clients st ci) = 0"
  shows "bot_recv stale ok ci (0 # bs) st \<noteq> Some (Inr st')"
proof -
  have "res = Inl ()" if "bot_loop stale ci (0 # bs) 0 [] st = Some res" for res
    using loop_at_zero [OF that] by (simp add: rd8_def)
  then show ?thesis
    using assms by (cases "bot_loop stale ci (0 # bs) 0 [] st") (simp_all add: bot_recv_def)
qed

theorem stress_zero_hangs_witness:
  "bot_recv (\<lambda>_. []) True 5 [0, 0] (InitializeNetwork (\<lambda>_. 0) (\<lambda>_. 0)) \<noteq> Some (Inr (InitializeNetwork (\<lambda>_. 0) (\<lambda>_. 0)))"
  by (rule stress_zero_hangs) (simp_all add: InitializeNetwork_def Let_def)

end
