(* ===== verification/StressCount.thy ===== *)
theory StressCount
  imports StressSafe
begin

text \<open>
  The stress tester's control: its count of active clients against the bots that are connected,
  its measure of the delay, the limits of its arrays, and the packets its bots send.
\<close>

section \<open>The count of active clients\<close>

definition connected_bots :: "stress \<Rightarrow> int set" where
  "connected_bots st = {i. in_clients i \<and> bot_connected (g_clients st i)}"

definition surplus :: "stress \<Rightarrow> int" where
  "surplus st = active_clients st - int (card (connected_bots st))"

lemma finite_connected [simp]: "finite (connected_bots st)"
  by (rule finite_subset [of _ "{0..<20000}"]) (auto simp: connected_bots_def in_clients_def)

lemma surplus_cong:
  assumes "active_clients st' = active_clients st" "\<And>k. bot_connected (g_clients st' k) = bot_connected (g_clients st k)"
  shows "surplus st' = surplus st"
  using assms by (simp add: surplus_def connected_bots_def)

lemma surplus_upd_bot [simp]:
  "(\<And>b. bot_connected (f b) = bot_connected b) \<Longrightarrow> surplus (upd_bot k f st) = surplus st"
  by (rule surplus_cong) (simp_all add: upd_bot_def)

lemma surplus_fields [simp]:
  "surplus (st\<lparr>client_map := m\<rparr>) = surplus st" "surplus (st\<lparr>global_delay := d\<rparr>) = surplus st"
  "surplus (st\<lparr>t_ticks := t\<rparr>) = surplus st" "surplus (st\<lparr>t_rands := r\<rparr>) = surplus st"
  "surplus (st\<lparr>t_sent := s\<rparr>) = surplus st" "surplus (st\<lparr>last_connect_time := l\<rparr>) = surplus st"
  "surplus (st\<lparr>delay_multiplier := dm\<rparr>) = surplus st" "surplus (st\<lparr>max_limit := ml\<rparr>) = surplus st"
  "surplus (st\<lparr>increasing := i\<rparr>) = surplus st" "surplus (st\<lparr>num_connections := n\<rparr>) = surplus st"
  "surplus (st\<lparr>client_to_close := cc\<rparr>) = surplus st"
  by (rule surplus_cong; simp)+

lemma surplus_send [simp]: "surplus (SendPacket k p st) = surplus st"
  by (simp add: SendPacket_def)

lemma surplus_disconnect: "DisconnectClient k st = Some st' \<Longrightarrow> surplus st' = surplus st"
proof -
  assume d: "DisconnectClient k st = Some st'"
  show ?thesis
  proof (cases "bot_connected (g_clients st k)")
    case True
    then have st': "st' = (upd_bot k (\<lambda>b. b\<lparr>bot_connected := False, bot_socket := False\<rparr>) st)\<lparr>active_clients := active_clients st - 1\<rparr>"
      and k: "k \<in> connected_bots st" using d by (auto simp: DisconnectClient_def connected_bots_def split: if_splits)
    have "connected_bots st' = connected_bots st - {k}" by (auto simp: st' connected_bots_def upd_bot_def)
    moreover have "int (card (connected_bots st - {k})) = int (card (connected_bots st)) - 1"
      using card_Suc_Diff1 [OF finite_connected k] by linarith
    ultimately show ?thesis by (simp add: surplus_def) (simp add: st')
  next
    case False
    then show ?thesis using d by (simp add: DisconnectClient_def split: if_splits)
  qed
qed

lemma surplus_avatar:
  assumes "on_avatar ci pid x y d st = Some st'" "in_clients ci"
  shows "surplus st' = surplus st + (if bot_connected (g_clients st ci) then 1 else 0)"
proof -
  have st': "st' = (upd_bot ci (\<lambda>b. b\<lparr>bot_connected := True, bot_id := pid, bot_x := x, bot_y := y, bot_dir := d\<rparr>) st)
       \<lparr>active_clients := active_clients st + 1, client_map := (client_map st)(pid := ci)\<rparr>"
    using assms by (simp add: on_avatar_def split: if_splits)
  have "connected_bots st' = insert ci (connected_bots st)"
    using assms(2) by (auto simp: st' connected_bots_def upd_bot_def)
  moreover have "ci \<in> connected_bots st \<longleftrightarrow> bot_connected (g_clients st ci)"
    using assms(2) by (simp add: connected_bots_def)
  ultimately show ?thesis by (simp add: surplus_def st' card_insert_if)
qed

lemma surplus_delay [simp]: "surplus (on_delay t st) = surplus st"
  by (rule surplus_cong) simp_all

lemma surplus_move: "on_move ci pid x y t d st = Some st' \<Longrightarrow> surplus st' = surplus st"
  by (auto simp: on_move_def Let_def split: if_splits)

lemma surplus_process:
  "ProcessPacket ci p st = Some st' \<Longrightarrow> in_clients ci \<Longrightarrow> surplus st \<le> surplus st'"
  using surplus_disconnect [of ci st st'] surplus_avatar [of ci _ _ _ _ st st'] surplus_move [of ci _ _ _ _ _ st st']
  by (fastforce simp: ProcessPacket_def Let_def split: if_splits)

lemma surplus_loop:
  assumes "bot_loop stale ci buf psize pr st = Some res"
  shows "in_clients ci \<longrightarrow> (\<forall>psize' pr' st'. res = Inr (psize', pr', st') \<longrightarrow> surplus st \<le> surplus st')"
  using assms
proof (induction rule: bot_loop_induct [consumes 1])
  case (1 loop stale ci buf psize pr st res)
  let ?n = "if psize = 0 then nat (rd8 buf) else psize"
  let ?p = "pr @ take (?n - length pr) buf"
  show ?case
  proof (cases "buf = [] \<or> length buf + length pr < ?n \<or> ProcessPacket ci (?p @ stale ?p) st = None")
    case True
    then show ?thesis using 1(2) by (auto simp: Let_def split: if_splits)
  next
    case False
    then obtain st2 where st2: "ProcessPacket ci (?p @ stale ?p) st = Some st2" by auto
    then have "loop stale ci (drop (?n - length pr) buf) 0 [] st2 = Some res"
      using 1(2) False by (simp add: Let_def)
    from 1(1) [OF this] surplus_process [OF st2] show ?thesis by fastforce
  qed
qed

lemma surplus_recv:
  assumes "bot_recv stale ok ci bs st = Some (Inr st')" "in_clients ci"
  shows "surplus st \<le> surplus st'"
proof (cases "bs = []")
  case True
  then show ?thesis using assms surplus_disconnect [of ci st st'] by (auto simp: bot_recv_def split: option.splits)
next
  case False
  then obtain psize pr st1 where l: "bot_loop stale ci bs (curr_packet_size (g_clients st ci)) (packet_buf (g_clients st ci)) st
      = Some (Inr (psize, pr, st1))"
    using assms(1) by (cases "bot_loop stale ci bs (curr_packet_size (g_clients st ci)) (packet_buf (g_clients st ci)) st")
      (auto simp: bot_recv_def split: sum.splits)
  let ?st2 = "upd_bot ci (\<lambda>b. b\<lparr>curr_packet_size := psize, packet_buf := pr\<rparr>) st1"
  have "surplus st \<le> surplus ?st2" using surplus_loop [OF l] assms(2) by simp
  moreover have "surplus st' = surplus ?st2"
    using assms(1) l False surplus_disconnect [of ci ?st2 st']
    by (auto simp: bot_recv_def Let_def split: if_splits option.splits)
  ultimately show ?thesis by simp
qed

lemma surplus_turn [simp]: "surplus (bot_turn now i st) = surplus st"
  by (simp add: bot_turn_def bot_move_def bot_attack_def bot_ranged_def rand_dir_def Let_def)

lemma surplus_connect [simp]: "surplus (connect_bot c r st) = surplus st"
  by (simp add: connect_bot_def Let_def)

lemma surplus_adjust: "Adjust_Number_Of_Client c r st = Some st' \<Longrightarrow> surplus st' = surplus st"
  by (auto simp: Adjust_Number_Of_Client_def close_one_def hr_now_def Let_def split: if_splits option.splits
    dest: surplus_disconnect)

lemma surplus_round: "test_round c r st = Some st' \<Longrightarrow> surplus st' = surplus st"
  using surplus_adjust [of c r st] fold_unchanged [where g = surplus and f = "bot_turn _"]
  by (auto simp: test_round_def hr_now_def split: option.splits)

fun event_bot :: "stress_event \<Rightarrow> bool" where
  "event_bot (BotRecv _ _ ci _) \<longleftrightarrow> in_clients ci"
| "event_bot _ \<longleftrightarrow> True"

lemma surplus_step: "stress_step ev st = Some (Inr st') \<Longrightarrow> event_bot ev \<Longrightarrow> surplus st \<le> surplus st'"
  using surplus_recv [of _ _ _ _ st st'] surplus_disconnect [of _ st st'] surplus_round [of _ _ st st']
  by (cases ev) (fastforce simp: stress_step_def bot_sent_def Let_def split: option.splits if_splits)+

text \<open>
  C39: The count of active clients never comes down again to the bots that are connected: whatever
  happens, its surplus over them only grows, and it grows by one with each avatar packet for a bot
  that is connected already (the server sends one at every respawn of a player).
\<close>

theorem active_count_drifts:
  assumes "event_bot ev" "stress_step ev st = Some (Inr st')"
    and "wf_s2c (S2C_AvatarInfo pid x y hp mhp lv xp nx d)" "in_clients pid" "in_clients ci" "bot_connected (g_clients st ci)"
  shows "surplus st \<le> surplus st'
    \<and> (\<exists>st2. ProcessPacket ci (enc_s2c (S2C_AvatarInfo pid x y hp mhp lv xp nx d) @ r) st = Some st2
        \<and> surplus st2 = surplus st + 1)"
proof -
  obtain st2 where "on_avatar ci pid x y d st = Some st2" using assms(4) by (simp add: on_avatar_def)
  then show ?thesis
    using surplus_step [OF assms(2,1)] surplus_avatar [of ci pid x y d st st2] assms(5,6) process_enc [OF assms(3)] by simp
qed

theorem active_count_drifts_witness:
  "surplus ((upd_bot 3 (\<lambda>b. b\<lparr>bot_connected := True\<rparr>) (InitializeNetwork (\<lambda>_. 0) (\<lambda>_. 0)))\<lparr>active_clients := 1\<rparr>) = 0
    \<and> (\<exists>st2. ProcessPacket 3 (enc_s2c (S2C_AvatarInfo 4 0 0 0 0 1 0 100 UP) @ [])
      ((upd_bot 3 (\<lambda>b. b\<lparr>bot_connected := True\<rparr>) (InitializeNetwork (\<lambda>_. 0) (\<lambda>_. 0)))\<lparr>active_clients := 1\<rparr>) = Some st2 \<and> surplus st2 = 1)"
proof -
  let ?st = "(upd_bot 3 (\<lambda>b. b\<lparr>bot_connected := True\<rparr>) (InitializeNetwork (\<lambda>_. 0) (\<lambda>_. 0)))\<lparr>active_clients := 1\<rparr>"
  have "connected_bots ?st = {3}"
    by (auto simp: connected_bots_def upd_bot_def InitializeNetwork_def Let_def in_clients_def)
  then have s: "surplus ?st = 0" by (simp add: surplus_def)
  have "stress_step (BotSent 3 5 5) ?st = Some (Inr ?st)" by (simp add: stress_step_def bot_sent_def)
  from active_count_drifts [OF _ this, of 4 0 0 0 0 1 0 100 UP 3 "[]"] s show ?thesis
    by (simp add: in_clients_def in32_def in16_def upd_bot_def)
qed

section \<open>The delay\<close>

lemma s32_wraps: "s32 x = x - 4294967296 * ((x + 2147483648) div 4294967296)"
proof -
  have "4294967296 * ((x + 2147483648) div 4294967296) + (x + 2147483648) mod 4294967296 = x + 2147483648"
    by (rule mult_div_mod_eq)
  then show ?thesis unfolding s32_def by linarith
qed

text \<open>
  The echo of a bot's own move, sent when the clock read \<open>sent\<close> milliseconds, moves the
  measured delay one step towards the true one, plus \<open>2 ^ 32\<close> for each time the 32-bit
  move time has wrapped: right for the first 24 days of the machine, far off afterwards.
\<close>

theorem delay_measured:
  assumes "wf_s2c (S2C_MovePlayer pid x y (s32 sent) d)" "0 \<le> pid" "pid < MAX_CLIENTS" "in_clients ci"
    and "client_map st pid = ci" "s32 sent \<noteq> 0" "\<bar>global_delay st\<bar> < 2147483647"
    and "wrong = 4294967296 * ((sent + 2147483648) div 4294967296)"
  shows "\<exists>st'. ProcessPacket ci (enc_s2c (S2C_MovePlayer pid x y (s32 sent) d) @ r) st = Some st'
    \<and> global_delay st' = global_delay st + sgn (ns_ms (t_clock st (t_ticks st)) - sent + wrong - global_delay st)"
proof -
  have "\<exists>st'. on_move ci pid x y (s32 sent) d st = Some st'
      \<and> global_delay st' = global_delay st + sgn (ns_ms (t_clock st (t_ticks st)) - s32 sent - global_delay st)"
    using assms by (auto simp: on_move_def on_delay_def hr_now_def upd_bot_def in_clients_def sgn_if s32_id Let_def)
  then show ?thesis using process_enc [OF assms(1), of ci r st] by (simp add: s32_wraps [of sent] assms(8) algebra_simps)
qed

theorem delay_measured_witness:
  "\<exists>st'. ProcessPacket 3 (enc_s2c (S2C_MovePlayer 4 0 0 (s32 2147483708) UP) @ [])
      ((InitializeNetwork (\<lambda>_. 2147483718000000) (\<lambda>_. 0))\<lparr>client_map := (\<lambda>_. 3), global_delay := 10\<rparr>) = Some st'
    \<and> global_delay st' = 11"
proof -
  let ?st = "(InitializeNetwork (\<lambda>_. 2147483718000000) (\<lambda>_. 0))\<lparr>client_map := (\<lambda>_. 3), global_delay := 10\<rparr>"
  have "s32 2147483708 = -2147483588" by (simp add: s32_def)
  then show ?thesis
    using delay_measured [OF _ _ _ _ _ _ _ refl, of 4 0 0 2147483708 UP 3 ?st "[]"]
    by (simp add: in32_def in16_def in_clients_def InitializeNetwork_def Let_def ns_ms_def cdiv_def)
qed

section \<open>What the bots send\<close>

text \<open>One send of a bot: its login, or a packet of a bot that is connected.\<close>

definition bot_sends :: "stress \<Rightarrow> int \<times> byte list \<Rightarrow> bool" where
  "bot_sends st m \<longleftrightarrow> in_clients (fst m) \<and> (\<exists>q. wf_c2s q \<and> snd m = enc_c2s q
    \<and> (q = C2S_Login (bytes_of ''bot_'' @ dec_int (fst m)) \<or> bot_connected (g_clients st (fst m))))"

definition sends :: "stress \<Rightarrow> stress \<Rightarrow> bool" where
  "sends st st' \<longleftrightarrow> (\<forall>k. bot_connected (g_clients st' k) \<longrightarrow> bot_connected (g_clients st k))
    \<and> (\<exists>ms. t_sent st' = t_sent st @ ms \<and> (\<forall>m \<in> set ms. bot_sends st m))"

lemma sends_refl: "t_sent st' = t_sent st \<Longrightarrow> (\<And>k. bot_connected (g_clients st' k) \<Longrightarrow> bot_connected (g_clients st k)) \<Longrightarrow> sends st st'"
  by (simp add: sends_def)

lemma sends_trans: "sends a b \<Longrightarrow> sends b c \<Longrightarrow> sends a c"
  by (fastforce simp: sends_def bot_sends_def)

lemma sends_packet:
  assumes "t_sent a = t_sent st" "\<And>j. bot_connected (g_clients a j) = bot_connected (g_clients st j)" "in_clients k" "wf_c2s q"
    and "q = C2S_Login (bytes_of ''bot_'' @ dec_int k) \<or> bot_connected (g_clients st k)"
  shows "sends st (SendPacket k (enc_c2s q) a)"
proof -
  have "take (nat (rd8 (enc_c2s q))) (enc_c2s q) = enc_c2s q" using rd8_enc_c2s [of q "[]"] by simp
  then show ?thesis using assms by (auto simp: sends_def SendPacket_def bot_sends_def)
qed

lemma t_sent_upd [simp]: "t_sent (upd_bot i f st) = t_sent st"
  by (simp add: upd_bot_def)

lemma cmod_4: "\<bar>cmod x 4\<bar> < 4"
proof (cases "0 < x")
  case True
  then have "cmod x 4 = x mod 4" by (simp add: cmod_def cdiv_def minus_div_mult_eq_mod)
  then show ?thesis by simp
next
  case False
  then have "x = 0 \<or> sgn x = -1 \<and> \<bar>x\<bar> = - x" by (simp add: sgn_if)
  then show ?thesis
  proof
    assume "sgn x = -1 \<and> \<bar>x\<bar> = - x"
    then have "cmod x 4 = x - - ((- x) div 4) * 4" by (simp only: cmod_def cdiv_def) simp
    moreover have "(- x) div 4 * 4 + (- x) mod 4 = - x" by (rule div_mult_mod_eq)
    moreover have "0 \<le> (- x) mod 4" "(- x) mod 4 < 4" by simp_all
    ultimately show ?thesis by linarith
  qed (simp add: cmod_def cdiv_def)
qed

lemma sends_move: "in_clients i \<Longrightarrow> bot_connected (g_clients st i) \<Longrightarrow> sends st (bot_move now i st)"
proof (cases "last_move_time (g_clients st i) + ms_ns 1000 \<le> now")
  case True
  assume a: "in_clients i" "bot_connected (g_clients st i)"
  let ?d = "dir_of_int (cmod (t_rand st (t_rands st)) 4)"
  let ?a = "upd_bot i (\<lambda>b. b\<lparr>bot_dir := ?d\<rparr>)
    ((upd_bot i (\<lambda>b. b\<lparr>last_move_time := now\<rparr>) st)\<lparr>t_rands := Suc (t_rands st)\<rparr>)"
  have "in32 (cmod (t_rand st (t_rands st)) 4)" using cmod_4 [of "t_rand st (t_rands st)"] unfolding in32_def by linarith
  then have w: "wf_c2s (C2S_Move ?d (s32 (ns_ms now)))" by (simp add: dir_ok_of_int)
  have "bot_move now i st = SendPacket i (enc_c2s (C2S_Move ?d (s32 (ns_ms now)))) ?a"
    using True by (simp add: bot_move_def rand_dir_def upd_bot_def Let_def)
  with sends_packet [of ?a st, OF _ _ a(1) w] a(2) show ?thesis by (simp add: upd_bot_def)
next
  case False
  then show ?thesis by (simp add: bot_move_def sends_refl)
qed

lemma sends_strikes:
  assumes "in_clients i" "bot_connected (g_clients st i)"
  shows "sends st (bot_attack now i st)" "sends st (bot_ranged now i st)"
  using sends_packet [of "upd_bot i (\<lambda>b. b\<lparr>last_atk_time := now\<rparr>) st" st i C2S_Attack]
    sends_packet [of "upd_bot i (\<lambda>b. b\<lparr>last_ranged_time := now\<rparr>) st" st i C2S_RangedAttack] assms
  by (auto simp: bot_attack_def bot_ranged_def sends_refl upd_bot_def)

lemma still_connected:
  "bot_connected (g_clients (bot_move now i st) k) = bot_connected (g_clients st k)"
  "bot_connected (g_clients (bot_attack now i st) k) = bot_connected (g_clients st k)"
  by (simp_all add: bot_move_def bot_attack_def SendPacket_def rand_dir_def upd_bot_def Let_def)

lemma sends_turn: "in_clients i \<Longrightarrow> sends st (bot_turn now i st)"
  using sends_trans [OF sends_move [of i st now] sends_trans [OF sends_strikes(1) sends_strikes(2)]]
  by (simp add: bot_turn_def still_connected sends_refl)

lemma sends_turns: "\<forall>i \<in> set is. in_clients i \<Longrightarrow> sends st (fold (bot_turn now) is st)"
  by (induction "is" arbitrary: st) (auto intro: sends_refl sends_trans sends_turn)

lemma digit_nonzero: "d < 10 \<Longrightarrow> (of_nat (48 + d) :: byte) \<noteq> 0"
  unfolding word_of_nat_eq_0_iff by (auto dest: dvd_imp_le)

lemma digits_no_zero: "0 \<notin> set (digits n)"
proof (induction n rule: digits.induct)
  case (1 n)
  then show ?case using digit_nonzero [of n] digit_nonzero [of "n mod 10"] by (subst digits.simps) auto
qed

lemma bot_name_wf: "in_clients i \<Longrightarrow> wf_c2s (C2S_Login (bytes_of ''bot_'' @ dec_int i))"
  using length_digits [of "nat i" 4] by (auto simp: in_clients_def bytes_of_def dec_int_def digits_no_zero nat_less_iff)

lemma sends_connect: "in_clients (num_connections st) \<Longrightarrow> sends st (connect_bot c r st)"
proof -
  assume i: "in_clients (num_connections st)"
  let ?a = "upd_bot (num_connections st) (\<lambda>b. b\<lparr>curr_packet_size := 0, packet_buf := []\<rparr>)
    (upd_bot (num_connections st) (\<lambda>b. b\<lparr>bot_socket := True\<rparr>) st)"
  have "sends st (SendPacket (num_connections st) (enc_c2s (C2S_Login (bytes_of ''bot_'' @ dec_int (num_connections st)))) ?a)"
    by (rule sends_packet) (use i bot_name_wf in \<open>auto simp: upd_bot_def\<close>)
  then show ?thesis by (auto simp: connect_bot_def Let_def sends_def upd_bot_def)
qed

section \<open>A round\<close>

lemma disconnect_none: "DisconnectClient k s = None \<longleftrightarrow> \<not> in_clients k"
  by (simp add: DisconnectClient_def)

lemma disconnect_same:
  assumes "DisconnectClient k s = Some s'"
  shows "num_connections s' = num_connections s" "sends s s'"
  using assms by (auto simp: DisconnectClient_def sends_def upd_bot_def split: if_splits)

lemma close_none: "close_one s = None \<longleftrightarrow> \<not> in_clients (client_to_close s)"
  by (simp add: close_one_def hr_now_def disconnect_none split: option.splits) (simp add: DisconnectClient_def)

lemma close_same:
  assumes "close_one s = Some s'"
  shows "num_connections s' = num_connections s" "sends s s'"
proof -
  let ?a = "(snd (hr_now s))\<lparr>last_connect_time := fst (hr_now s)\<rparr>"
  obtain s2 where s2: "DisconnectClient (client_to_close s) ?a = Some s2" "s' = s2\<lparr>client_to_close := client_to_close s2 + 1\<rparr>"
    using assms by (auto simp: close_one_def hr_now_def split: option.splits)
  from disconnect_same [OF s2(1)] show "num_connections s' = num_connections s" "sends s s'"
    by (simp_all add: s2(2) sends_def hr_now_def bot_sends_def)
qed

lemma connect_count: "num_connections (connect_bot c r s) = num_connections s + (if c \<and> r then 1 else 0)"
  by (simp add: connect_bot_def SendPacket_def upd_bot_def Let_def)

lemma adjust_cases:
  assumes "Adjust_Number_Of_Client c r st = Some st1"
  obtains "t_sent st1 = t_sent st" "g_clients st1 = g_clients st" "num_connections st1 = num_connections st"
  | a where "close_one a = Some st1" "t_sent a = t_sent st" "g_clients a = g_clients st" "num_connections a = num_connections st"
  | a where "st1 = connect_bot c r a" "num_connections st < MAX_CLIENTS"
      "t_sent a = t_sent st" "g_clients a = g_clients st" "num_connections a = num_connections st"
  using assms unfolding Adjust_Number_Of_Client_def
  by (auto simp: hr_now_def Let_def split: if_splits)

lemma adjust_connections:
  assumes "Adjust_Number_Of_Client c r st = Some st1" "num_connections st \<le> MAX_CLIENTS"
  shows "num_connections st \<le> num_connections st1 \<and> num_connections st1 \<le> MAX_CLIENTS
    \<and> num_connections st1 \<le> num_connections st + 1"
  using assms(1) by (rule adjust_cases) (use assms(2) in \<open>auto simp: close_same connect_count\<close>)

lemma sends_adjust:
  assumes "Adjust_Number_Of_Client c r st = Some st1" "0 \<le> num_connections st"
  shows "sends st st1"
  using assms(1)
proof (rule adjust_cases)
  fix a :: stress
  assume a: "t_sent a = t_sent st" "g_clients a = g_clients st" "num_connections a = num_connections st"
  have "sends a st1 \<Longrightarrow> sends st st1" by (simp add: sends_def bot_sends_def a)
  then show "close_one a = Some st1 \<Longrightarrow> sends st st1"
    "st1 = connect_bot c r a \<Longrightarrow> num_connections st < MAX_CLIENTS \<Longrightarrow> sends st st1"
    using close_same(2) sends_connect [of a c r] assms(2) a(3) by (auto simp: in_clients_def)
qed (auto intro: sends_refl)

text \<open>
  \<open>Adjust_Number_Of_Client\<close> stays inside the arrays but in one case: \<open>client_to_close\<close> goes
  up with every client closed and is never bounded; at \<open>MAX_CLIENTS\<close> the next closing leaves
  the array. Connecting never takes more than \<open>MAX_CLIENTS\<close> places.
\<close>

theorem adjust_limits:
  assumes "0 \<le> num_connections st" "num_connections st \<le> MAX_CLIENTS" "0 \<le> client_to_close st"
    and "waited = ns_ms (t_clock st (t_ticks st) - last_connect_time st)"
  shows "(Adjust_Number_Of_Client c r st = None \<longleftrightarrow>
      100 \<le> active_clients st \<and> active_clients st < MAX_TEST \<and> num_connections st < MAX_CLIENTS
      \<and> ACCEPT_DELY * delay_multiplier st \<le> waited \<and> ACCEPT_DELY * 10 \<le> waited \<and> DELAY_LIMIT2 < global_delay st
      \<and> client_to_close st \<ge> MAX_CLIENTS)
    \<and> (\<forall>st'. Adjust_Number_Of_Client c r st = Some st' \<longrightarrow>
        num_connections st \<le> num_connections st' \<and> num_connections st' \<le> MAX_CLIENTS
        \<and> num_connections st' \<le> num_connections st + 1)"
proof -
  have "Adjust_Number_Of_Client c r st = None \<longleftrightarrow>
      100 \<le> active_clients st \<and> active_clients st < MAX_TEST \<and> num_connections st < MAX_CLIENTS
      \<and> ACCEPT_DELY * delay_multiplier st \<le> waited \<and> ACCEPT_DELY * 10 \<le> waited \<and> DELAY_LIMIT2 < global_delay st
      \<and> client_to_close st \<ge> MAX_CLIENTS"
    unfolding Adjust_Number_Of_Client_def hr_now_def Let_def assms(4)
    using assms(3) by (simp add: close_none in_clients_def not_le not_less)
  then show ?thesis using adjust_connections [of c r st] assms(2) by blast
qed

theorem adjust_limits_witness:
  "Adjust_Number_Of_Client True True ((InitializeNetwork (\<lambda>n. int n * 1000000000) (\<lambda>_. 0))
    \<lparr>active_clients := 100, global_delay := 151, client_to_close := 20000\<rparr>) = None"
  using adjust_limits [OF _ _ _ refl, of "(InitializeNetwork (\<lambda>n. int n * 1000000000) (\<lambda>_. 0))
    \<lparr>active_clients := 100, global_delay := 151, client_to_close := 20000\<rparr>" True True]
  by (simp add: InitializeNetwork_def Let_def ns_ms_def cdiv_def)

text \<open>
  C31: In one round of \<open>Test_Thread\<close> a bot sends only well-formed packets: its login, under the
  name \<open>bot_<i>\<close> the server knows a tester by, and anything else only when it is connected, that
  is after the server's avatar packet: no tester moves before its login is answered.
\<close>

theorem bots_send_well:
  assumes "test_round connect_ok recv_ok st = Some st'" "0 \<le> num_connections st" "num_connections st \<le> MAX_CLIENTS"
  shows "\<exists>ms. t_sent st' = t_sent st @ ms \<and> (\<forall>(i, p) \<in> set ms. in_clients i \<and> (\<exists>q. wf_c2s q \<and> p = enc_c2s q
    \<and> (q = C2S_Login (bytes_of ''bot_'' @ dec_int i) \<or> bot_connected (g_clients st i))))"
proof -
  obtain st1 where st1: "Adjust_Number_Of_Client connect_ok recv_ok st = Some st1"
    using assms(1) by (cases "Adjust_Number_Of_Client connect_ok recv_ok st") (auto simp: test_round_def)
  let ?s = "snd (hr_now st1)"
  have "st' = fold (bot_turn (fst (hr_now st1))) [0..num_connections ?s - 1] ?s"
    using assms(1) by (simp add: test_round_def st1 hr_now_def)
  moreover have "num_connections ?s \<le> MAX_CLIENTS" using adjust_connections [OF st1] assms(2,3) by (simp add: hr_now_def)
  ultimately have "sends ?s st'" using sends_turns [of "[0..num_connections ?s - 1]" ?s] by (simp add: in_clients_def)
  moreover have "sends st ?s" using sends_adjust [OF st1 assms(2)] by (simp add: sends_def hr_now_def)
  ultimately have "sends st st'" by (rule sends_trans [rotated])
  then show ?thesis by (fastforce simp: sends_def bot_sends_def)
qed

theorem bots_send_well_witness:
  "\<exists>st' ms. test_round True True (InitializeNetwork (\<lambda>n. int n * 1000000000) (\<lambda>_. 0)) = Some st' \<and> t_sent st' = ms
    \<and> (\<forall>(i, p) \<in> set ms. in_clients i)"
proof -
  let ?st = "InitializeNetwork (\<lambda>n. int n * 1000000000) (\<lambda>_. 0)"
  obtain st' where st': "test_round True True ?st = Some st'"
    by (simp add: test_round_def Adjust_Number_Of_Client_def InitializeNetwork_def hr_now_def ns_ms_def cdiv_def Let_def)
  have z: "num_connections ?st = 0" "t_sent ?st = []" by (simp_all add: InitializeNetwork_def Let_def)
  obtain ms where "t_sent st' = t_sent ?st @ ms" "\<forall>(i, p) \<in> set ms. in_clients i"
    using bots_send_well [OF st'] z by fastforce
  then show ?thesis using st' z(2) by (intro exI [of _ st'] exI [of _ ms]) simp
qed

end
