(* ===== verification/Window.thy ===== *)
theory Window
  imports Complex_Main Stress "HOL-Library.State_Monad"
begin

text \<open>
  The window of the stress tester: \<open>STRESS_TEST/DrawModule.cpp\<close>. The state holds its globals, the
  calls made to Windows and OpenGL, in order with their arguments, and what they answer: the call
  number \<open>i\<close> gets \<open>n_answers i\<close>, a handle or a flag, where 0 is \<open>NULL\<close> or \<open>FALSE\<close>. Arguments that are
  the same in every call are left out; a message box is given by its text. Operations are
  written in the state monad of the library. Places are exact, where the source rounds them to
  single precision.
\<close>

section \<open>Calls\<close>

datatype arg = Num int | Real rat | Text string | Bytes "byte list"

record window =
  hDC :: int
  hRC :: int
  hWnd :: int
  hInstance :: int
  font_base :: int
  key_down :: "nat \<Rightarrow> bool"
  active :: bool
  fullscreen :: bool
  n_calls :: "(string \<times> arg list) list"
  n_answers :: "nat \<Rightarrow> int"

definition start_window :: "(nat \<Rightarrow> int) \<Rightarrow> window" where
  "start_window ans = \<lparr> hDC = 0, hRC = 0, hWnd = 0, hInstance = 0, font_base = 0, key_down = (\<lambda>_. False),
     active = True, fullscreen = True, n_calls = [], n_answers = ans \<rparr>"

definition ask :: "string \<Rightarrow> arg list \<Rightarrow> (window, int) state" where
  "ask f args = State (\<lambda>w. (n_answers w (length (n_calls w)), w\<lparr>n_calls := n_calls w @ [(f, args)]\<rparr>))"

definition look :: "(window \<Rightarrow> 'a) \<Rightarrow> (window, 'a) state" where
  "look f = State (\<lambda>w. (f w, w))"

definition put :: "(window \<Rightarrow> window) \<Rightarrow> (window, unit) state" where
  "put f = State (\<lambda>w. ((), f w))"

definition skip :: "(window, unit) state" where
  "skip = State_Monad.return ()"

definition call :: "string \<Rightarrow> arg list \<Rightarrow> (window, unit) state" where
  "call f args = do { _ \<leftarrow> ask f args; skip }"

primrec in_turn :: "(window, unit) state list \<Rightarrow> (window, unit) state" where
  "in_turn [] = skip"
| "in_turn (m # ms') = do { m; in_turn ms' }"

definition message_box :: "string \<Rightarrow> (window, unit) state" where
  "message_box text = call ''MessageBox'' [Text text]"

section \<open>The font and the scene\<close>

definition BuildFont :: "(window, unit) state" where
  "BuildFont = do {
     b \<leftarrow> ask ''glGenLists'' [Num 96];
     put (font_base_update (\<lambda>_. b));
     font \<leftarrow> ask ''CreateFont'' [Num (-24), Text ''FW_BOLD'', Text ''Courier New''];
     dc \<leftarrow> look hDC;
     oldfont \<leftarrow> ask ''SelectObject'' [Num dc, Num font];
     call ''wglUseFontBitmaps'' [Num dc, Num 32, Num 96, Num b];
     call ''SelectObject'' [Num dc, Num oldfont];
     call ''DeleteObject'' [Num font]
   }"

definition KillFont :: "(window, unit) state" where
  "KillFont = do { b \<leftarrow> look font_base; call ''glDeleteLists'' [Num b, Num 96] }"

text \<open>The formatted text goes into \<open>char[256]\<close>; \<open>False\<close> when it does not fit, which ends the program.\<close>

definition glPrint :: "byte list \<Rightarrow> (window, bool) state" where
  "glPrint text =
    (if length text < 256
     then do {
       call ''glPushAttrib'' [Text ''GL_LIST_BIT''];
       b \<leftarrow> look font_base;
       call ''glListBase'' [Num (b - 32)];
       call ''glCallLists'' [Bytes text];
       call ''glPopAttrib'' [];
       State_Monad.return True
     }
     else State_Monad.return False)"

definition ReSizeGLScene :: "int \<Rightarrow> int \<Rightarrow> (window, unit) state" where
  "ReSizeGLScene width height =
    (let h = (if height = 0 then 1 else height) in in_turn
       [call ''glViewport'' [Num 0, Num 0, Num width, Num h],
        call ''glMatrixMode'' [Text ''GL_PROJECTION''], call ''glLoadIdentity'' [],
        call ''gluPerspective'' [Real 45, Real (of_int width / of_int h), Real (1 / 10), Real 100],
        call ''glMatrixMode'' [Text ''GL_MODELVIEW''], call ''glLoadIdentity'' [],
        call ''glMatrixMode'' [Text ''GL_MODELVIEW''], call ''glLoadIdentity'' []])"

definition InitGL :: "(window, bool) state" where
  "InitGL = do {
     in_turn
       [call ''glShadeModel'' [Text ''GL_SMOOTH''], call ''glClearColor'' [Real 0, Real 0, Real 0, Real (1 / 2)],
        call ''glClearDepth'' [Real 1], call ''glEnable'' [Text ''GL_DEPTH_TEST''], call ''glDepthFunc'' [Text ''GL_LEQUAL''],
        call ''glHint'' [Text ''GL_PERSPECTIVE_CORRECTION_HINT'', Text ''GL_NICEST''], BuildFont];
     State_Monad.return True
   }"

text \<open>The point of a bot: the world of 2000 x 2000 tiles is a square of side 1 around the middle.\<close>

definition bot_point :: "int \<times> int \<Rightarrow> rat \<times> rat" where
  "bot_point p = (of_int (fst p) / 2000 - 1 / 2, 1 / 2 - of_int (snd p) / 2000)"

definition draw_point :: "int \<times> int \<Rightarrow> (window, unit) state" where
  "draw_point p = (let (x, y) = bot_point p in call ''glVertex3f'' [Real x, Real y, Real (-1)])"

text \<open>\<open>None\<close>: \<open>GetPointCloud\<close> wrote outside its array, or a text did not fit.\<close>

definition DrawGLScene :: "stress \<Rightarrow> (window, bool option) state" where
  "DrawGLScene st =
    (case GetPointCloud st of
       None \<Rightarrow> State_Monad.return None
     | Some points \<Rightarrow> do {
         in_turn
           [call ''glClear'' [], call ''glLoadIdentity'' [],
            call ''glTranslatef'' [Real (14 / 100), Real (-4 / 10), Real (-1)],
            call ''glColor3f'' [Real 1, Real 1, Real 0], call ''glRasterPos2f'' [Real 0, Real 0]];
         ok1 \<leftarrow> glPrint (bytes_of ''STRESS TEST ['' @ dec_int (active_clients st) @ bytes_of '']'');
         if \<not> ok1 then State_Monad.return None
         else do {
         call ''glRasterPos2f'' [Real 0, Real (5 / 100)];
         ok2 \<leftarrow> glPrint (bytes_of ''Delay : '' @ dec_int (global_delay st) @ bytes_of ''ms'');
         if \<not> ok2 then State_Monad.return None
         else do {
         in_turn
           [call ''glColor3f'' [Real 1, Real 1, Real 1], call ''glPointSize'' [Real 2], call ''glBegin'' [Text ''GL_POINTS''],
            in_turn (map draw_point points), call ''glEnd'' []];
         State_Monad.return (Some True)
         }}
       })"

section \<open>The window\<close>

definition when_set :: "bool \<Rightarrow> (window, unit) state \<Rightarrow> (window, unit) state" where
  "when_set b m = (if b then m else skip)"

definition kill_fullscreen :: "(window, unit) state" where
  "kill_fullscreen = do {
     fs \<leftarrow> look fullscreen;
     when_set fs (do { call ''ChangeDisplaySettings'' []; call ''ShowCursor'' [Num 1] })
   }"

definition kill_context :: "(window, unit) state" where
  "kill_context = do {
     rc \<leftarrow> look hRC;
     when_set (rc \<noteq> 0) (do {
       released \<leftarrow> ask ''wglMakeCurrent'' [Num 0, Num 0];
       when_set (released = 0) (message_box ''Release Of DC And RC Failed.'');
       deleted \<leftarrow> ask ''wglDeleteContext'' [Num rc];
       when_set (deleted = 0) (message_box ''Release Rendering Context Failed.'');
       put (hRC_update (\<lambda>_. 0))
     })
   }"

definition kill_dc :: "(window, unit) state" where
  "kill_dc = do {
     dc \<leftarrow> look hDC;
     wnd \<leftarrow> look hWnd;
     when_set (dc \<noteq> 0) (do {
       released \<leftarrow> ask ''ReleaseDC'' [Num wnd, Num dc];
       when_set (released = 0) (do { message_box ''Release Device Context Failed.''; put (hDC_update (\<lambda>_. 0)) })
     })
   }"

definition kill_wnd :: "(window, unit) state" where
  "kill_wnd = do {
     wnd \<leftarrow> look hWnd;
     when_set (wnd \<noteq> 0) (do {
       destroyed \<leftarrow> ask ''DestroyWindow'' [Num wnd];
       when_set (destroyed = 0) (do { message_box ''Could Not Release hWnd.''; put (hWnd_update (\<lambda>_. 0)) })
     })
   }"

definition kill_class :: "(window, unit) state" where
  "kill_class = do {
     inst \<leftarrow> look hInstance;
     unregistered \<leftarrow> ask ''UnregisterClass'' [Text ''OpenGL'', Num inst];
     when_set (unregistered = 0) (do { message_box ''Could Not Unregister Class.''; put (hInstance_update (\<lambda>_. 0)) })
   }"

definition KillGLWindow :: "(window, unit) state" where
  "KillGLWindow = do { kill_fullscreen; kill_context; kill_dc; kill_wnd; kill_class; KillFont }"

definition give_up :: "string \<Rightarrow> (window, bool) state" where
  "give_up text = do { KillGLWindow; message_box text; State_Monad.return False }"

text \<open>The full screen is tried first; where it fails, the user chooses (6 is \<open>IDYES\<close>).\<close>

definition try_fullscreen :: "int \<Rightarrow> int \<Rightarrow> int \<Rightarrow> (window, bool) state" where
  "try_fullscreen width height bits = do {
     changed \<leftarrow> ask ''ChangeDisplaySettings'' [Num width, Num height, Num bits];
     if changed = 0 then State_Monad.return True
     else do {
       answer \<leftarrow> ask ''MessageBox'' [Text (''The Requested Fullscreen Mode Is Not Supported By'' @ CHR 0x0A # ''Your Video Card. Use Windowed Mode Instead?'')];
       if answer = 6 then do { put (fullscreen_update (\<lambda>_. False)); State_Monad.return True }
       else do { message_box ''Program Will Now Close.''; State_Monad.return False }
     }
   }"

text \<open>From a device context to the end; the pixel format asks for so many bits.\<close>

definition open_context :: "int \<Rightarrow> int \<Rightarrow> int \<Rightarrow> (window, bool) state" where
  "open_context width height bits = do {
     wnd \<leftarrow> look hWnd;
     dc \<leftarrow> ask ''GetDC'' [Num wnd];
     put (hDC_update (\<lambda>_. dc));
     if dc = 0 then give_up ''Can't Create A GL Device Context.''
     else do {
     format \<leftarrow> ask ''ChoosePixelFormat'' [Num dc, Num bits];
     if format = 0 then give_up ''Can't Find A Suitable PixelFormat.''
     else do {
     fixed \<leftarrow> ask ''SetPixelFormat'' [Num dc, Num format];
     if fixed = 0 then give_up ''Can't Set The PixelFormat.''
     else do {
     rc \<leftarrow> ask ''wglCreateContext'' [Num dc];
     put (hRC_update (\<lambda>_. rc));
     if rc = 0 then give_up ''Can't Create A GL Rendering Context.''
     else do {
     current \<leftarrow> ask ''wglMakeCurrent'' [Num dc, Num rc];
     if current = 0 then give_up ''Can't Activate The GL Rendering Context.''
     else do {
       call ''ShowWindow'' [Num wnd];
       call ''SetForegroundWindow'' [Num wnd];
       call ''SetFocus'' [Num wnd];
       ReSizeGLScene width height;
       ok \<leftarrow> InitGL;
       if ok then State_Monad.return True else give_up ''Initialization Failed.''
     }}}}}
   }"

definition CreateGLWindow :: "string \<Rightarrow> int \<Rightarrow> int \<Rightarrow> int \<Rightarrow> bool \<Rightarrow> (window, bool) state" where
  "CreateGLWindow title width height bits fullscreenflag = do {
     put (fullscreen_update (\<lambda>_. fullscreenflag));
     inst \<leftarrow> ask ''GetModuleHandle'' [];
     put (hInstance_update (\<lambda>_. inst));
     call ''LoadIcon'' [];
     call ''LoadCursor'' [];
     registered \<leftarrow> ask ''RegisterClass'' [Text ''OpenGL'', Num inst];
     if registered = 0
     then do { message_box ''Failed To Register The Window Class.''; State_Monad.return False }
     else do {
     go_on \<leftarrow> (if fullscreenflag then try_fullscreen width height bits else State_Monad.return True);
     if \<not> go_on then State_Monad.return False
     else do {
     fs \<leftarrow> look fullscreen;
     when_set fs (call ''ShowCursor'' [Num 0]);
     call ''AdjustWindowRectEx'' [Num width, Num height, Text (if fs then ''WS_POPUP'' else ''WS_OVERLAPPEDWINDOW'')];
     wnd \<leftarrow> ask ''CreateWindowEx'' [Text ''OpenGL'', Text title, Text (if fs then ''WS_POPUP'' else ''WS_OVERLAPPEDWINDOW''), Num inst];
     put (hWnd_update (\<lambda>_. wnd));
     if wnd = 0 then give_up ''Window Creation Error.'' else open_context width height bits
     }}
   }"

section \<open>Messages and the main loop\<close>

text \<open>Messages with \<open>wParam\<close>, or the two halves of \<open>lParam\<close>; a key code is below 256.\<close>

datatype message = WM_ACTIVATE int | WM_SYSCOMMAND int | WM_CLOSE | WM_KEYDOWN nat | WM_KEYUP nat
  | WM_SIZE int int | WM_QUIT | WM_OTHER

abbreviation (input) SC_SCREENSAVE :: int where "SC_SCREENSAVE \<equiv> 61760"
abbreviation (input) SC_MONITORPOWER :: int where "SC_MONITORPOWER \<equiv> 61808"
abbreviation (input) VK_ESCAPE :: nat where "VK_ESCAPE \<equiv> 27"
abbreviation (input) VK_F1 :: nat where "VK_F1 \<equiv> 112"

definition WndProc :: "message \<Rightarrow> (window, int) state" where
  "WndProc msg =
    (let done = State_Monad.return 0; pass_on = ask ''DefWindowProc'' [] in
     case msg of
       WM_ACTIVATE wParam \<Rightarrow> do { put (active_update (\<lambda>_. wParam div 65536 mod 65536 = 0)); done }
     | WM_SYSCOMMAND wParam \<Rightarrow> if wParam = SC_SCREENSAVE \<or> wParam = SC_MONITORPOWER then done else pass_on
     | WM_CLOSE \<Rightarrow> do { call ''PostQuitMessage'' [Num 0]; done }
     | WM_KEYDOWN k \<Rightarrow> do { put (key_down_update (\<lambda>ks. ks(k := True))); done }
     | WM_KEYUP k \<Rightarrow> do { put (key_down_update (\<lambda>ks. ks(k := False))); done }
     | WM_SIZE width height \<Rightarrow> do { ReSizeGLScene width height; done }
     | _ \<Rightarrow> pass_on)"

text \<open>
  A round of the loop of \<open>WinMain\<close>, with the message waiting, if there is one, and the state of the
  test. It goes on, leaves the loop, returns at once or ends the program in drawing.
\<close>

datatype outcome = GO_ON | LEAVE | RETURN | ABORT

definition idle_round :: "stress \<Rightarrow> (window, outcome) state" where
  "idle_round st = do {
     act \<leftarrow> look active;
     drawn \<leftarrow> (if act then DrawGLScene st else State_Monad.return (Some True));
     case drawn of
       None \<Rightarrow> State_Monad.return ABORT
     | Some drew \<Rightarrow> do {
         esc \<leftarrow> look (\<lambda>w. key_down w VK_ESCAPE);
         dc \<leftarrow> look hDC;
         (if act \<and> \<not> drew \<or> esc then skip else call ''SwapBuffers'' [Num dc]);
         f1 \<leftarrow> look (\<lambda>w. key_down w VK_F1);
         ok \<leftarrow> (if f1 then do {
             put (key_down_update (\<lambda>ks. ks(VK_F1 := False)));
             KillGLWindow;
             put (fullscreen_update Not);
             fs \<leftarrow> look fullscreen;
             CreateGLWindow ''NeHe's Bitmap Font Tutorial'' 640 480 16 fs
           } else State_Monad.return True);
         State_Monad.return (if \<not> ok then RETURN else if act \<and> \<not> drew \<or> esc then LEAVE else GO_ON)
       }
   }"

definition loop_round :: "message option \<Rightarrow> stress \<Rightarrow> (window, outcome) state" where
  "loop_round msg st =
    (case msg of
       Some WM_QUIT \<Rightarrow> State_Monad.return LEAVE
     | Some m \<Rightarrow> do { call ''TranslateMessage'' []; _ \<leftarrow> WndProc m; State_Monad.return GO_ON }
     | None \<Rightarrow> idle_round st)"

text \<open>The loop over what each round finds, and the end of it.\<close>

primrec main_loop :: "(message option \<times> stress) list \<Rightarrow> (window, outcome) state" where
  "main_loop [] = State_Monad.return GO_ON"
| "main_loop (r # rs) = do {
     out \<leftarrow> loop_round (fst r) (snd r);
     if out = GO_ON then main_loop rs
     else if out = LEAVE then do { KillGLWindow; State_Monad.return LEAVE }
     else State_Monad.return out
   }"

definition WinMain :: "(message option \<times> stress) list \<Rightarrow> (window, outcome) state" where
  "WinMain rs = do {
     put (fullscreen_update (\<lambda>_. False));
     ok \<leftarrow> CreateGLWindow ''Stress Test Client'' 640 480 16 False;
     if ok then main_loop rs else State_Monad.return RETURN
   }"

section \<open>Running\<close>

lemma run_calls [simp]:
  "run_state (ask f args) w = (n_answers w (length (n_calls w)), w\<lparr>n_calls := n_calls w @ [(f, args)]\<rparr>)"
  "run_state (look g) w = (g w, w)" "run_state (put h) w = ((), h w)" "run_state skip w = ((), w)"
  "run_state (call f args) w = ((), w\<lparr>n_calls := n_calls w @ [(f, args)]\<rparr>)"
  "run_state (when_set b m) w = (if b then run_state m w else ((), w))"
  "run_state (message_box s) w = ((), w\<lparr>n_calls := n_calls w @ [(''MessageBox'', [Text s])]\<rparr>)"
  by (simp_all add: ask_def look_def put_def skip_def call_def when_set_def message_box_def)

text \<open>What only draws or prepares drawing leaves the handles alone.\<close>

definition same_handles :: "window \<Rightarrow> window \<Rightarrow> bool" where
  "same_handles w w' \<longleftrightarrow> hDC w' = hDC w \<and> hRC w' = hRC w \<and> hWnd w' = hWnd w \<and> hInstance w' = hInstance w
     \<and> fullscreen w' = fullscreen w"

lemma resize_handles: "run_state (ReSizeGLScene x y) w = (u, w') \<Longrightarrow> same_handles w w'"
  by (auto simp: ReSizeGLScene_def Let_def same_handles_def)

lemma init_handles: "run_state InitGL w = (ok, w') \<Longrightarrow> ok \<and> same_handles w w'"
  by (auto simp: InitGL_def BuildFont_def same_handles_def)

section \<open>Opening and closing\<close>

text \<open>
  Closing always forgets the rendering context. The device context and the window are forgotten
  only when Windows fails to release them: where all goes well, the handles stay.
\<close>

lemma kill_steps:
  "run_state kill_fullscreen w = (u, w') \<Longrightarrow> same_handles w w' \<and> n_answers w' = n_answers w"
  "run_state kill_context w = (u, w') \<Longrightarrow> same_handles (w\<lparr>hRC := 0\<rparr>) w' \<and> n_answers w' = n_answers w"
  "run_state KillFont w = (u, w') \<Longrightarrow> same_handles w w' \<and> n_answers w' = n_answers w"
  by (auto simp: kill_fullscreen_def kill_context_def KillFont_def same_handles_def split: if_splits)

lemma kill_releases:
  "run_state kill_dc w = (u, w') \<Longrightarrow> hRC w' = hRC w \<and> n_answers w' = n_answers w
     \<and> ((\<forall>i. n_answers w i \<noteq> 0) \<longrightarrow> same_handles w w')"
  "run_state kill_wnd w = (u, w') \<Longrightarrow> hRC w' = hRC w \<and> n_answers w' = n_answers w
     \<and> ((\<forall>i. n_answers w i \<noteq> 0) \<longrightarrow> same_handles w w')"
  "run_state kill_class w = (u, w') \<Longrightarrow> hRC w' = hRC w \<and> n_answers w' = n_answers w
     \<and> ((\<forall>i. n_answers w i \<noteq> 0) \<longrightarrow> same_handles w w')"
  by (auto simp: kill_dc_def kill_wnd_def kill_class_def same_handles_def split: if_splits)

lemma kill_handles:
  assumes "run_state KillGLWindow w = (u, w')"
  shows "hRC w' = 0" "(\<forall>i. n_answers w i \<noteq> 0) \<Longrightarrow> same_handles (w\<lparr>hRC := 0\<rparr>) w'"
proof -
  obtain w1 where s1: "run_state kill_fullscreen w = ((), w1)" by (cases "run_state kill_fullscreen w") auto
  obtain w2 where s2: "run_state kill_context w1 = ((), w2)" by (cases "run_state kill_context w1") auto
  obtain w3 where s3: "run_state kill_dc w2 = ((), w3)" by (cases "run_state kill_dc w2") auto
  obtain w4 where s4: "run_state kill_wnd w3 = ((), w4)" by (cases "run_state kill_wnd w3") auto
  obtain w5 where s5: "run_state kill_class w4 = ((), w5)" by (cases "run_state kill_class w4") auto
  have s6: "run_state KillFont w5 = ((), w')" using assms s1 s2 s3 s4 s5 by (simp add: KillGLWindow_def)
  note k = kill_steps(1) [OF s1] kill_steps(2) [OF s2] kill_releases(1) [OF s3] kill_releases(2) [OF s4]
    kill_releases(3) [OF s5] kill_steps(3) [OF s6]
  show "hRC w' = 0" using k by (auto simp: same_handles_def)
  show "same_handles (w\<lparr>hRC := 0\<rparr>) w'" if "\<forall>i. n_answers w i \<noteq> 0" using k that by (auto simp: same_handles_def)
qed

lemma give_up_closed: "run_state (give_up s) w = (ok, w') \<Longrightarrow> \<not> ok \<and> hRC w' = 0"
  using kill_handles(1) by (auto simp: give_up_def split: prod.splits)

lemma open_context_result:
  assumes "run_state (open_context x y bits) w = (ok, w')" "hWnd w \<noteq> 0" "hRC w = 0"
  shows "if ok then hWnd w' \<noteq> 0 \<and> hDC w' \<noteq> 0 \<and> hRC w' \<noteq> 0 else hRC w' = 0"
  using assms
  by (auto simp: open_context_def same_handles_def dest!: give_up_closed resize_handles init_handles split: if_splits prod.splits)

text \<open>
  A window is opened with all its handles, or not at all: then no rendering context is left.
\<close>

lemma create_result:
  assumes "run_state (CreateGLWindow title x y bits fs) w = (ok, w')" "hRC w = 0"
  shows "if ok then hWnd w' \<noteq> 0 \<and> hDC w' \<noteq> 0 \<and> hRC w' \<noteq> 0 else hRC w' = 0"
  using assms
  by (auto simp: CreateGLWindow_def try_fullscreen_def dest!: give_up_closed open_context_result split: if_splits prod.splits)

text \<open>
  So a second window that cannot be created (key F1) releases the device context of the first one
  once more, with no window: the handle is still there.
\<close>

lemma calls_grow:
  "run_state kill_fullscreen w = (u, w') \<Longrightarrow> set (n_calls w) \<subseteq> set (n_calls w')"
  "run_state kill_wnd w = (u, w') \<Longrightarrow> set (n_calls w) \<subseteq> set (n_calls w')"
  "run_state kill_class w = (u, w') \<Longrightarrow> set (n_calls w) \<subseteq> set (n_calls w')"
  "run_state KillFont w = (u, w') \<Longrightarrow> set (n_calls w) \<subseteq> set (n_calls w')"
  by (auto simp: kill_fullscreen_def kill_wnd_def kill_class_def KillFont_def split: if_splits)

lemma kill_releases_dc:
  assumes "run_state KillGLWindow w = (u, w')" "hDC w \<noteq> 0"
  shows "(''ReleaseDC'', [Num (hWnd w), Num (hDC w)]) \<in> set (n_calls w')"
proof -
  obtain w1 where s1: "run_state kill_fullscreen w = ((), w1)" by (cases "run_state kill_fullscreen w") auto
  obtain w2 where s2: "run_state kill_context w1 = ((), w2)" by (cases "run_state kill_context w1") auto
  obtain w3 where s3: "run_state kill_dc w2 = ((), w3)" by (cases "run_state kill_dc w2") auto
  obtain w4 where s4: "run_state kill_wnd w3 = ((), w4)" by (cases "run_state kill_wnd w3") auto
  obtain w5 where s5: "run_state kill_class w4 = ((), w5)" by (cases "run_state kill_class w4") auto
  have s6: "run_state KillFont w5 = ((), w')" using assms(1) s1 s2 s3 s4 s5 by (simp add: KillGLWindow_def)
  have "hDC w2 = hDC w" "hWnd w2 = hWnd w"
    using kill_steps(1) [OF s1] kill_steps(2) [OF s2] by (auto simp: same_handles_def)
  then have "(''ReleaseDC'', [Num (hWnd w), Num (hDC w)]) \<in> set (n_calls w3)"
    using s3 assms(2) by (auto simp: kill_dc_def split: if_splits)
  then show ?thesis using calls_grow(2) [OF s4] calls_grow(3) [OF s5] calls_grow(4) [OF s6] by blast
qed

lemma stale_dc_released:
  assumes "run_state (CreateGLWindow title x y bits False) w = (ok, w')" "hDC w \<noteq> 0"
    and "n_answers w (length (n_calls w) + 3) \<noteq> 0" "n_answers w (length (n_calls w) + 5) = 0"
  shows "\<not> ok \<and> (''ReleaseDC'', [Num 0, Num (hDC w)]) \<in> set (n_calls w')"
proof -
  define w1 where "w1 = w\<lparr>fullscreen := False, hInstance := n_answers w (length (n_calls w)),
    n_calls := n_calls w @ [(''GetModuleHandle'', []), (''LoadIcon'', []), (''LoadCursor'', []),
      (''RegisterClass'', [Text ''OpenGL'', Num (n_answers w (length (n_calls w)))]),
      (''AdjustWindowRectEx'', [Num x, Num y, Text ''WS_OVERLAPPEDWINDOW'']),
      (''CreateWindowEx'', [Text ''OpenGL'', Text title, Text ''WS_OVERLAPPEDWINDOW'', Num (n_answers w (length (n_calls w)))])], hWnd := 0\<rparr>"
  have "run_state (CreateGLWindow title x y bits False) w = run_state (give_up ''Window Creation Error.'') w1"
    using assms(3,4) by (simp add: CreateGLWindow_def w1_def numeral_eq_Suc)
  then have g: "run_state (give_up ''Window Creation Error.'') w1 = (ok, w')" using assms(1) by simp
  obtain w2 where k: "run_state KillGLWindow w1 = ((), w2)" by (cases "run_state KillGLWindow w1") auto
  have "(''ReleaseDC'', [Num 0, Num (hDC w)]) \<in> set (n_calls w2)"
    using kill_releases_dc [OF k] assms(2) by (simp add: w1_def)
  moreover have "ok = False" "w' = w2\<lparr>n_calls := n_calls w2 @ [(''MessageBox'', [Text ''Window Creation Error.''])]\<rparr>"
    using g k by (auto simp: give_up_def)
  ultimately show ?thesis by simp
qed

section \<open>The scene\<close>

lemma run_points: "run_state (in_turn (map (\<lambda>i. draw_point (f i)) ks)) w
    = ((), w\<lparr>n_calls := n_calls w
        @ map (\<lambda>i. (''glVertex3f'', [Real (fst (bot_point (f i))), Real (snd (bot_point (f i))), Real (-1)])) ks\<rparr>)"
  by (induction ks arbitrary: w) (simp_all add: draw_point_def split_beta)

text \<open>
  A scene has exactly one point for every connected bot, in their order, and a bot in the world
  lies in the square of side 1 around the middle.
\<close>

lemma scene_points:
  assumes "run_state (DrawGLScene st) w = (Some drew, w')"
  shows "filter (\<lambda>c. fst c = ''glVertex3f'') (n_calls w') = filter (\<lambda>c. fst c = ''glVertex3f'') (n_calls w)
    @ map (\<lambda>i. (''glVertex3f'', [Real (of_int (bot_x (g_clients st i)) / 2000 - 1 / 2),
        Real (1 / 2 - of_int (bot_y (g_clients st i)) / 2000), Real (-1)]))
      (filter (\<lambda>i. bot_connected (g_clients st i)) [0..num_connections st - 1])"
  using assms
  by (auto simp: DrawGLScene_def GetPointCloud_def glPrint_def run_points bot_point_def Let_def o_def filter_map
      split: if_splits option.splits)

lemma point_in_square:
  assumes "0 \<le> x" "x \<le> 2000" "0 \<le> y" "y \<le> 2000"
  shows "\<bar>fst (bot_point (x, y))\<bar> \<le> 1 / 2" "\<bar>snd (bot_point (x, y))\<bar> \<le> 1 / 2"
  using assms by (auto simp: bot_point_def abs_le_iff field_simps)

text \<open>The texts of a scene always fit: drawing goes on as long as the points fit their array.\<close>

lemma scene_drawn:
  assumes "in32 (active_clients st)" "in32 (global_delay st)"
  shows "fst (run_state (DrawGLScene st) w) = (if GetPointCloud st = None then None else Some True)"
  using length_dec_int [OF assms(1)] length_dec_int [OF assms(2)]
  by (auto simp: DrawGLScene_def glPrint_def bytes_of_def run_points [where f = id, simplified] split: option.split)

end
