(* ===== verification/Spec2Isabelle.thy ===== *)
theory Spec2Isabelle
  imports Prelude Protocol Objects PriorityQueue AStar Sectors Messages SendQueue World Frame View
    Disconnect Invariant Combat Blows Actions Npc NpcSafe NpcLife ObstacleMap Spawn Server Steps Receive
    ServerSafe Handlers Apart Boot Services Framing Client Screen ClientStream ClientSafe Display Mirror Fit Follow Stress StressSafe StressCount Window
begin

text \<open>
  A verification library for a multiplayer game: the server (\<open>src/GameServer_2021184018/SERVER\<close>),
  the graphical client (\<open>src/CLIENT/client\<close>), the stress tester
  (\<open>src/STRESS_TEST/STRESS_TEST\<close>) and the protocol between them (\<open>src/COMMON/PROTOCOL\<close>).

  \<^bold>\<open>The program.\<close> The server keeps a world of 2000 x 2000 tiles with up to 10000 players and
  200000 NPCs, cut into sectors of 11 x 11 tiles. Each player sees the objects within 5 tiles (its
  view list) and is told about them with packets. Worker threads take completions of one
  completion port: a connection, received bytes, a finished send, the turn or respawn of an NPC,
  the regeneration of a player, a login answered by the database. A timer thread moves due events
  of one priority queue to that port; a database thread answers logins and saves players. NPCs
  wander, chase what they see with a grid search, attack, die and come back. The client draws what
  it is told and turns keys into packets; the stress tester drives thousands of bots.

  \<^bold>\<open>Foundations.\<close> \<open>Prelude\<close>: C++ integers on \<^typ>\<open>int\<close> with the wrap-around written out (\<open>s16\<close>,
  \<open>s32\<close>, division rounding to 0), \<open>unordered_set\<close> as lists without duplicates, C strings, the
  constants of \<open>globals.h\<close>. \<open>Protocol\<close>: the packets of \<open>protocol_2026.h\<close> as two datatypes, their
  byte images and decoders; every packet written is read back field by field. \<open>PriorityQueue\<close>:
  \<open>std::priority_queue\<close> as used by \<open>astar.h\<close> and the timers. \<open>Framing\<close>: the reference reading
  \<open>frames\<close> of a byte stream in which every packet opens with its size.

  \<^bold>\<open>The server, in the order of its calls.\<close>
  \<open>Objects\<close> (\<open>Object.h\<close>, \<open>session.h\<close>, \<open>NPC.h\<close>): objects, sessions, NPCs, the level formulas and
  the level-up loop. \<open>AStar\<close> (\<open>astar.h\<close>): the search inside a box; the tile returned starts a
  shortest way and is the start itself exactly when there is none. \<open>Sectors\<close> (\<open>sector.h\<close>): the
  grid and the query of the 3 x 3 sectors around a tile. \<open>Messages\<close>, \<open>SendQueue\<close>
  (\<open>session.cpp\<close>): the system messages, and the send queue of a session as steps of its threads,
  the completions that \<open>worker_thread\<close> is told as errors included.
  \<open>World\<close> (\<open>session.cpp\<close>, \<open>network.cpp\<close>, \<open>globals.h\<close>): the global state as one record
  \<^typ>\<open>world\<close> - \<open>clients\<close> is \<open>w_live\<close> with \<open>w_pl\<close> and \<open>w_npc\<close>, then the sectors, the items, the timer
  queue, the completions and the requests to the database - with the send functions, \<open>disconnect\<close>
  and the maintenance of the view lists. Two more fields, which no handler reads, record what was
  handed to \<open>WSASend\<close> (\<open>w_posted\<close>) and the packets \<open>do_send\<close> accepted (\<open>w_given\<close>). \<open>Combat\<close> (\<open>session.cpp\<close>): \<open>process_packet\<close> and every handler
  below it. \<open>Npc\<close> (\<open>npc.cpp\<close>): roaming, chasing, attacks, respawn. \<open>ObstacleMap\<close>
  (\<open>lua_manager.cpp\<close>), \<open>Spawn\<close> (\<open>InitializeNPC\<close>) and \<open>Boot\<close> (\<open>main\<close>): the start.
  \<open>Server\<close> (\<open>network.cpp\<close>, \<open>db.cpp\<close>): accepting, the receive loop, completions, the timer round, the statements and answers of the
  database thread, and \<open>serve\<close>, one step of any of the threads.

  \<^bold>\<open>What is shown of it.\<close> \<open>Frame\<close> has the relation \<open>calm\<close>, what sending and disconnecting leave
  alone, and \<open>Steps\<close> what no handler touches (\<open>undisturbed\<close>). \<open>View\<close>: updating a view makes it
  exactly the objects in range, on both sides. \<open>Disconnect\<close>: one save, no trace left in the grid or
  in the views of others, bounded recursion. \<open>Invariant\<close> defines \<open>winv\<close>: the sector grid holds exactly the objects in play at
  their tiles, sessions and NPCs are well-formed, items lie on the map, and every dead NPC has its
  respawn pending; \<open>Combat\<close>, \<open>NpcSafe\<close>, \<open>NpcLife\<close> and \<open>ServerSafe\<close> show that every handler keeps
  it, and the last that every run of the threads does. \<open>Blows\<close> and \<open>Actions\<close> give the outcome of
  attacks, kills, quests, items and moves; \<open>NpcLife\<close> that of the attacks of NPCs and bosses, and of
  the respawn; \<open>Receive\<close> that the receive loop handles exactly the complete packets of the stream,
  and which packets of size 0 keep it for ever; \<open>Handlers\<close> proves once, in a locale, that every
  handler keeps a relation the send layer keeps, and \<open>Apart\<close> uses it: no event but its own receives
  touches a session's receive buffer or brings a closed session back; \<open>Services\<close> the timer thread, that every dead NPC comes back, the
  statements' lengths and the login; \<open>Boot\<close> that the server blocks what its clients draw.

  \<^bold>\<open>The client and the tester.\<close> \<open>Client\<close> (\<open>client.cpp\<close>): the globals as a record, \<open>handle_packet\<close>,
  the receiving thread, the events of the window and the texts of its fixed arrays. \<open>Screen\<close>
  (\<open>client.cpp\<close>): the login form and the frame of the game as the shapes given to the window.
  \<open>ClientStream\<close>: it handles each packet with exactly the fields the server put in, however the
  stream is cut. \<open>ClientSafe\<close>: whatever is typed and received, the client sends only complete
  well-formed packets, and these bytes never break the server's receive loop, whatever the server
  does between the receives. \<open>Display\<close>: a frame can
  be drawn exactly for item counts below a million, shows what the client knows and changes only
  its effects; the bar says READY exactly when the key works; where a boss's colour is its phase. \<open>Mirror\<close>: through every run of the
  server's threads, the view list of an open session is what the adds and removes in its stream
  say, so that a client that has received everything keeps exactly the objects of that list. \<open>Fit\<close>: the invariant \<open>fit\<close>,
  that the values packets are filled from fit their fields and every packet accepted for a session is
  well-formed, kept by every handler; \<open>Follow\<close>: so from the start on every session is sent the bytes
  of well-formed packets, and what its client shows is the effect of the packets \<open>do_send\<close> accepted
  for it, with the values they were filled with.
  \<open>Stress\<close> (\<open>NetworkModule.cpp\<close>): the bots, the reassembly of packets, the control of connections
  and the rounds of the test. \<open>StressSafe\<close> and \<open>StressCount\<close>: the
  reassembly is right, bots send well-formed packets and nothing but a login before they are
  connected; the count of active clients and the measure of the delay drift. \<open>Window\<close>
  (\<open>DrawModule.cpp\<close>): its window as calls with any answers, a state monad over their log; it opens
  with all its handles or not at all, shows one point for each bot, and may release a handle twice.

  \<^bold>\<open>Interfaces.\<close> Locales state what one part relies on in another, and each is interpreted on the
  model of the code: \<open>id_set\<close> (insert, erase; \<open>us\<close>), \<open>min_queue\<close> (push, pop of a least element;
  \<open>frontier\<close> for the search, \<open>timers\<close> for the timer thread), \<open>spatial_index\<close> (add, remove, query;
  \<open>grid\<close>), \<open>calm_disconnect\<close> and its extension \<open>closing_disconnect\<close> (what the send functions need
  of \<open>disconnect\<close>, which they call when a send is refused; \<open>net\<close>, \<open>closing\<close>), and \<open>stream_reader\<close>
  (a reader of the server's stream; \<open>client\<close> and \<open>bots\<close>), \<open>telling_disconnect\<close> (a
  \<open>disconnect\<close> that closes the session and tells the others; \<open>telling\<close>), \<open>fitting_disconnect\<close>
  (one that keeps every value in its range; \<open>fitting\<close>) and \<open>handler_relation\<close> (a relation every
  handler keeps because the send layer does; \<open>mirror\<close> for the views and streams of \<open>Mirror\<close>,
  \<open>aside\<close> for the receive buffers of \<open>Apart\<close>).

  \<^bold>\<open>Bounds, fuel and loops that may not end.\<close> \<open>disconnect\<close> and the sends call each other when a send
  is refused; each level closes a session, so 10001 levels (\<open>DISC_DEPTH\<close>) are enough, and more
  change nothing. Roaming and chasing call each other at most twice (\<open>roam_fuel\<close>; shown with the
  same result for any larger number). The search loop gets the iterations its box allows, shown to
  suffice. The receive loops of server and tester are partial functions, where no value means that
  the loop does not end. The loops that draw a free tile are bounded in
  the source itself (50 and 100 tries) and recursion over that number here.

  \<^bold>\<open>Assumptions.\<close> Handlers run one at a time: the locks of the source and its races are not
  modelled, except in \<open>SendQueue\<close>, whose steps are the atomic ones of the threads. Clocks, random
  numbers and the result of each \<open>WSASend\<close> are functions of the state, arbitrary in every theorem.
  What the Lua script returns, the database's answers and its stored procedures are arguments. The
  theorem over all runs leaves out two events: a move from a session that has not logged in (a
  lemma shows that it puts the session into the grid without being in play, which the invariant
  does not survive), and a database row with a position outside the world. An access outside an
  array is a value of its own wherever input can cause one. The runs in which a client is compared
  with the server (\<open>Mirror\<close>, \<open>Follow\<close>) are those in which the session stays open and its own sends
  complete as a whole; \<open>Follow\<close> also takes the database's numbers to fit their columns. \<open>swprintf_s\<close>
  with \<open>%S\<close> is that of the locale "C", which the program never leaves. Where a comment or the
  document under \<open>docs\<close> says otherwise than the code (damage, the tiles of the attack, its cooldown,
  the end of a quest), the theorems are about the code, and their texts say so.

  \<^bold>\<open>Not modelled.\<close> The pixels SFML and OpenGL make of what they are given, and loading fonts and
  sprites. Creating sockets and ports, starting threads, and printing error texts. The Lua
  interpreter, the ODBC driver and the stored procedures. The wrap-around of
  \<open>player_index\<close> after 2 ^ 31 connections. In the client's buffer, bytes behind those received: the packets handled are at least as long as
  their type. In the tester, a failed operation that still reports bytes.
\<close>

end
